(* ===== verification/Prelude.thy ===== *)
theory Prelude
  imports Main "HOL-Library.Sublist" "HOL-Library.Word" "HOL-Library.Monad_Syntax"
begin

text \<open>
  What the components of the framework share: the names of the types, the collections of
  rewrite rules, memory blocks (a \<open>std::vector<char>\<close> read and written through
  \<open>memcpy\<close>), network byte order, and generic facts on lists and options.

  A step of the C++ code that would be undefined behaviour (a \<open>memcpy\<close> outside the vector, a
  negative count) or that would throw out of the function is the value \<^term>\<open>None\<close> of the option
  monad: a theorem that an operation returns \<^term>\<open>Some x\<close> therefore also says that it stayed in
  bounds.
\<close>

section \<open>Types and collections\<close>

type_synonym bytes = "char list"
type_synonym i32 = "32 word"

text \<open>\<open>src/comm/run_time.h\<close>: what a coroutine knows of the call it serves.\<close>

record run_time =
  m_msg_no :: string
  m_interface_name :: string

abbreviation "no_run_time \<equiv> \<lparr>m_msg_no = [], m_interface_name = []\<rparr>"

named_theorems slice_simps \<open>reading a slice of a block that is written as an append\<close>
named_theorems codec_simps \<open>the primitive readers and writers on concrete layouts\<close>

section \<open>Lists and options\<close>

lemma take_drop_append_mid [slice_simps]:
  "take (length ys) (drop (length xs) (xs @ ys @ zs)) = ys"
  by simp

lemma drop_less_Cons: "i < length xs \<Longrightarrow> drop i xs = xs ! i # drop (Suc i) xs"
  by (rule Cons_nth_drop_Suc [symmetric])

lemma bind_eq_Some_iff:
  "Option.bind m f = Some y \<longleftrightarrow> (\<exists>x. m = Some x \<and> f x = Some y)"
  by (cases m) auto

lemma takeWhile_neq_append:
  assumes "c \<notin> set xs"
  shows "takeWhile (\<lambda>x. x \<noteq> c) (xs @ c # ys) = xs"
  using assms by (induction xs) auto

lemma dropWhile_neq_append:
  assumes "c \<notin> set xs"
  shows "dropWhile (\<lambda>x. x \<noteq> c) (xs @ c # ys) = c # ys"
  using assms by (induction xs) auto

section \<open>State machines\<close>

text \<open>An invariant of a step relation, and what it says of any number of steps.\<close>

locale step_invariant =
  fixes step :: "'s \<Rightarrow> 's \<Rightarrow> bool" and inv :: "'s \<Rightarrow> bool"
  assumes step_keeps: "step s t \<Longrightarrow> inv s \<Longrightarrow> inv t"
begin

lemma steps_keep: "step\<^sup>*\<^sup>* s t \<Longrightarrow> inv s \<Longrightarrow> inv t"
  by (induction rule: rtranclp_induct) (auto intro: step_keeps)

end

section \<open>Blocks of memory\<close>

text \<open>
  \<open>slice blk off n\<close> is what \<open>memcpy(dst, &blk[off], n)\<close> reads, \<open>overwrite blk off src\<close> the block
  after \<open>memcpy(&blk[off], src, n)\<close>. Both are \<^term>\<open>None\<close> outside the block.
\<close>

definition slice :: "'a list \<Rightarrow> nat \<Rightarrow> nat \<Rightarrow> 'a list option" where
  "slice blk off n = (if off + n \<le> length blk then Some (take n (drop off blk)) else None)"

definition overwrite :: "'a list \<Rightarrow> nat \<Rightarrow> 'a list \<Rightarrow> 'a list option" where
  "overwrite blk off src =
     (if off + length src \<le> length blk
      then Some (take off blk @ src @ drop (off + length src) blk) else None)"

lemma slice_in_bounds [simp]:
  "off + n \<le> length blk \<Longrightarrow> slice blk off n = Some (take n (drop off blk))"
  by (simp add: slice_def)

lemma slice_eq_Some:
  "slice blk off n = Some xs \<longleftrightarrow> off + n \<le> length blk \<and> xs = take n (drop off blk)"
  by (auto simp: slice_def)

lemma slice_length: "slice blk off n = Some xs \<Longrightarrow> length xs = n"
  by (auto simp: slice_eq_Some)

lemma overwrite_in_bounds [simp]:
  "off + length src \<le> length blk \<Longrightarrow>
     overwrite blk off src = Some (take off blk @ src @ drop (off + length src) blk)"
  by (simp add: overwrite_def)

section \<open>Network byte order\<close>

text \<open>
  \<open>htonl\<close> followed by a \<open>memcpy\<close> of the four bytes, and a \<open>memcpy\<close> followed by \<open>ntohl\<close>: the most
  significant byte comes first.
\<close>

definition be32 :: "i32 \<Rightarrow> bytes" where
  "be32 w = [char_of (unat w div 16777216), char_of (unat w div 65536),
             char_of (unat w div 256), char_of (unat w)]"

fun be32_val :: "bytes \<Rightarrow> i32" where
  "be32_val [a, b, c, d] =
     word_of_nat (((of_char a * 256 + of_char b) * 256 + of_char c) * 256 + of_char d)"
| "be32_val _ = 0"

lemma length_be32 [simp]: "length (be32 w) = 4"
  by (simp add: be32_def)

lemma base256_digits:
  fixes n :: nat
  assumes "n < 4294967296"
  shows "((n div 16777216 mod 256 * 256 + n div 65536 mod 256) * 256 + n div 256 mod 256) * 256
           + n mod 256 = n"
proof -
  have "n div 16777216 mod 256 = n div 16777216"
    using assms by (simp add: less_mult_imp_div_less)
  moreover have "n div 65536 = n div 16777216 * 256 + n div 65536 mod 256"
    using div_mult_mod_eq [of "n div 65536" 256] by (simp add: div_mult2_eq [symmetric])
  moreover have "n div 256 = n div 65536 * 256 + n div 256 mod 256"
    using div_mult_mod_eq [of "n div 256" 256] by (simp add: div_mult2_eq [symmetric])
  moreover have "n = n div 256 * 256 + n mod 256" by simp
  ultimately show ?thesis by metis
qed

lemma base256_number:
  fixes a b c d :: nat
  assumes "a < 256" "b < 256" "c < 256" "d < 256"
  defines "n \<equiv> ((a * 256 + b) * 256 + c) * 256 + d"
  shows "n < 4294967296" "n div 16777216 = a" "n div 65536 = a * 256 + b"
    "n div 256 = (a * 256 + b) * 256 + c"
proof -
  have "n \<le> ((255 * 256 + 255) * 256 + 255) * 256 + 255"
    unfolding n_def using assms(1-4) by (intro add_mono mult_le_mono1) simp_all
  then show "n < 4294967296" by simp
  show "n div 256 = (a * 256 + b) * 256 + c" using assms(4) by (simp add: n_def)
  moreover have "n div 65536 = n div 256 div 256" by (simp add: div_mult2_eq [symmetric])
  ultimately show ab: "n div 65536 = a * 256 + b" using assms(3) by simp
  have "n div 16777216 = n div 65536 div 256" by (simp add: div_mult2_eq [symmetric])
  then show "n div 16777216 = a" using assms(2) by (simp add: ab)
qed

lemma be32_val_be32 [simp]: "be32_val (be32 w) = w"
proof -
  let ?n = "unat w"
  have "?n < 4294967296" using unsigned_less [of w, where ?'a = nat] by simp
  then have "((?n div 16777216 mod 256 * 256 + ?n div 65536 mod 256) * 256
      + ?n div 256 mod 256) * 256 + ?n mod 256 = ?n"
    by (rule base256_digits)
  then have "word_of_nat (((?n div 16777216 mod 256 * 256 + ?n div 65536 mod 256) * 256
      + ?n div 256 mod 256) * 256 + ?n mod 256) = w"
    by (simp only: of_nat_unat ucast_id)
  then show ?thesis by (simp only: be32_def be32_val.simps of_char_of)
qed

lemma char_of_mult_256 [simp]: "char_of (n * 256 + (of_char c :: nat)) = c"
proof -
  have "char_of (n * 256 + (of_char c :: nat)) = (char_of ((n * 256 + of_char c) mod 256) :: char)"
    by (simp only: char_of_mod_256)
  also have "(n * 256 + (of_char c :: nat)) mod 256 = of_char c"
    by (simp add: nat_of_char_less_256)
  finally show ?thesis by simp
qed

lemma unat_i32_of_nat: "n < 4294967296 \<Longrightarrow> unat (word_of_nat n :: i32) = n"
  by (simp add: unsigned_of_nat take_bit_nat_eq_self)

lemma be32_be32_val:
  assumes "length xs = 4"
  shows "be32 (be32_val xs) = xs"
proof -
  from assms obtain a b c d where xs: "xs = [a, b, c, d]"
    by (auto simp: numeral_eq_Suc length_Suc_conv)
  let ?n = "((of_char a * 256 + of_char b) * 256 + of_char c) * 256 + of_char d :: nat"
  note digits = base256_number [OF nat_of_char_less_256 nat_of_char_less_256
      nat_of_char_less_256 nat_of_char_less_256, of a b c d]
  have "unat (word_of_nat ?n :: i32) = ?n"
    using digits(1) by (rule unat_i32_of_nat)
  then have "be32 (word_of_nat ?n) = [a, b, c, d]"
    by (simp only: be32_def digits char_of_mult_256 char_of_char)
  then show ?thesis by (simp only: xs be32_val.simps)
qed

end
