(* ===== verification/StdString.thy ===== *)
theory StdString
  imports Prelude
begin

text \<open>
  The parts of \<open>std::string\<close>, \<open><cctype>\<close> and \<open><cstdlib>\<close> that the framework calls, in the C locale:
  searching (\<open>find\<close>, \<open>rfind\<close>, \<open>find_first_not_of\<close>, \<open>find_last_not_of\<close>), \<open>substr\<close>, case
  conversion, \<open>operator>>\<close> on a string stream, \<open>std::to_string\<close>, \<open>strtoll\<close> and \<open>atoi\<close>.
\<close>

section \<open>Searching\<close>

fun find_sub :: "'a list \<Rightarrow> 'a list \<Rightarrow> nat option" where
  "find_sub pat [] = (if pat = [] then Some 0 else None)"
| "find_sub pat (x # xs) =
     (if prefix pat (x # xs) then Some 0 else map_option Suc (find_sub pat xs))"

text \<open>\<open>s.find(pat, pos)\<close>; \<open>npos\<close> is \<^term>\<open>None\<close>.\<close>

definition find_from :: "'a list \<Rightarrow> 'a list \<Rightarrow> nat \<Rightarrow> nat option" where
  "find_from pat s pos =
     (if pos \<le> length s then map_option ((+) pos) (find_sub pat (drop pos s)) else None)"

text \<open>\<open>s.find(c)\<close> and \<open>s.rfind(c)\<close> for one character.\<close>

definition find_char :: "'a \<Rightarrow> 'a list \<Rightarrow> nat option" where
  "find_char c s = find_sub [c] s"

fun rfind_char :: "'a \<Rightarrow> 'a list \<Rightarrow> nat option" where
  "rfind_char c [] = None"
| "rfind_char c (x # xs) =
     (case rfind_char c xs of Some i \<Rightarrow> Some (Suc i) | None \<Rightarrow> if x = c then Some 0 else None)"

text \<open>\<open>s.substr(pos, n)\<close> for \<open>pos \<le> s.size()\<close>, which every call of the framework satisfies.\<close>

definition substr :: "'a list \<Rightarrow> nat \<Rightarrow> nat \<Rightarrow> 'a list" where
  "substr s pos n = take n (drop pos s)"

fun find_first_not_of :: "'a list \<Rightarrow> 'a list \<Rightarrow> nat option" where
  "find_first_not_of cs [] = None"
| "find_first_not_of cs (x # xs) =
     (if x \<notin> set cs then Some 0 else map_option Suc (find_first_not_of cs xs))"

fun find_last_not_of :: "'a list \<Rightarrow> 'a list \<Rightarrow> nat option" where
  "find_last_not_of cs [] = None"
| "find_last_not_of cs (x # xs) =
     (case find_last_not_of cs xs of Some i \<Rightarrow> Some (Suc i)
      | None \<Rightarrow> if x \<notin> set cs then Some 0 else None)"

lemma prefix_take_iff: "prefix pat s \<longleftrightarrow> take (length pat) s = pat"
  by (metis append_eq_conv_conj append_take_drop_id prefix_def)

lemma find_sub_Some:
  "find_sub pat s = Some i \<Longrightarrow>
     prefix pat (drop i s) \<and> i + length pat \<le> length s \<and> (\<forall>j<i. \<not> prefix pat (drop j s))"
proof (induction s arbitrary: i)
  case Nil
  then show ?case by (auto split: if_splits)
next
  case (Cons x xs)
  show ?case
  proof (cases "prefix pat (x # xs)")
    case True
    with Cons.prems show ?thesis by (auto dest: prefix_length_le)
  next
    case False
    with Cons.prems obtain k where k: "find_sub pat xs = Some k" "i = Suc k" by auto
    from Cons.IH [OF k(1)] False k(2) show ?thesis
      by (auto simp: less_Suc_eq_0_disj)
  qed
qed

lemma find_sub_None:
  "find_sub pat s = None \<Longrightarrow> j \<le> length s \<Longrightarrow> \<not> prefix pat (drop j s)"
proof (induction s arbitrary: j)
  case Nil
  then show ?case by (auto split: if_splits)
next
  case (Cons x xs)
  then show ?case by (cases j) (auto split: if_splits)
qed

lemma find_sub_first:
  assumes "i \<le> length s" and "prefix pat (drop i s)" and "\<forall>j<i. \<not> prefix pat (drop j s)"
  shows "find_sub pat s = Some i"
proof (cases "find_sub pat s")
  case None
  with assms(1,2) show ?thesis using find_sub_None by blast
next
  case (Some k)
  note k = find_sub_Some [OF Some]
  have "\<not> k < i" using k assms(3) by blast
  moreover have "\<not> i < k" using k assms(2) by blast
  ultimately show ?thesis using Some by simp
qed

text \<open>A match that is inside \<open>s\<close> stays the first one when bytes are appended.\<close>

lemma find_sub_append:
  assumes "find_sub pat s = Some i"
  shows "find_sub pat (s @ t) = Some i"
proof (rule find_sub_first)
  from find_sub_Some [OF assms]
  have m: "prefix pat (drop i s)" "i + length pat \<le> length s" "\<forall>j<i. \<not> prefix pat (drop j s)"
    by blast+
  show "i \<le> length (s @ t)" using m(2) by simp
  show "prefix pat (drop i (s @ t))" using m(1,2) by (simp add: prefix_append)
  show "\<forall>j<i. \<not> prefix pat (drop j (s @ t))"
  proof (intro allI impI)
    fix j assume j: "j < i"
    then have "take (length pat) (drop j (s @ t)) = take (length pat) (drop j s)"
      using m(2) by simp
    moreover have "\<not> prefix pat (drop j s)" using m(3) j by blast
    ultimately show "\<not> prefix pat (drop j (s @ t))" by (simp only: prefix_take_iff) simp
  qed
qed

lemma find_sub_bound: "find_sub pat s = Some i \<Longrightarrow> i + length pat \<le> length s"
  using find_sub_Some by blast

lemma find_char_Cons [simp]:
  "find_char c (x # xs) = (if x = c then Some 0 else map_option Suc (find_char c xs))"
  by (simp add: find_char_def)

lemma find_char_Nil [simp]: "find_char c [] = None"
  by (simp add: find_char_def)

lemma find_char_None [simp]: "find_char c s = None \<longleftrightarrow> c \<notin> set s"
  by (induction s) auto

lemma find_char_append_hit [simp]:
  "c \<notin> set xs \<Longrightarrow> find_char c (xs @ c # ys) = Some (length xs)"
  by (induction xs) auto

lemma find_char_Some:
  "find_char c s = Some i \<Longrightarrow> i < length s \<and> s ! i = c \<and> c \<notin> set (take i s)"
proof (induction s arbitrary: i)
  case (Cons x xs)
  then show ?case by (cases "x = c") auto
qed simp

lemma rfind_char_None [simp]: "rfind_char c s = None \<longleftrightarrow> c \<notin> set s"
  by (induction s) (auto split: option.splits)

lemma rfind_char_miss [simp]: "c \<notin> set s \<Longrightarrow> rfind_char c s = None"
  by simp

lemma find_char_miss [simp]: "c \<notin> set s \<Longrightarrow> find_char c s = None"
  by simp

lemma rfind_char_append_hit [simp]:
  "c \<notin> set ys \<Longrightarrow> rfind_char c (xs @ c # ys) = Some (length xs)"
  by (induction xs) auto

lemma rfind_char_Some:
  "rfind_char c s = Some i \<Longrightarrow> i < length s \<and> s ! i = c \<and> c \<notin> set (drop (Suc i) s)"
proof (induction s arbitrary: i)
  case (Cons x xs)
  show ?case
  proof (cases "rfind_char c xs")
    case None
    with Cons.prems have "i = 0" "x = c" by (auto split: if_splits)
    moreover from None have "c \<notin> set xs" by simp
    ultimately show ?thesis by simp
  next
    case (Some k)
    with Cons show ?thesis by auto
  qed
qed simp

lemma split_at_rfind:
  assumes "rfind_char c s = Some i"
  shows "take i s @ c # drop (Suc i) s = s"
  using rfind_char_Some [OF assms] id_take_nth_drop [of i s] by simp

section \<open>Characters\<close>

definition is_space :: "char \<Rightarrow> bool" where
  "is_space c = (let n = (of_char c :: nat) in n = 32 \<or> (9 \<le> n \<and> n \<le> 13))"

definition is_digit :: "char \<Rightarrow> bool" where
  "is_digit c = (let n = (of_char c :: nat) in 48 \<le> n \<and> n \<le> 57)"

definition char_upper :: "char \<Rightarrow> char" where
  "char_upper c = (let n = (of_char c :: nat) in if 97 \<le> n \<and> n \<le> 122 then char_of (n - 32) else c)"

definition char_lower :: "char \<Rightarrow> char" where
  "char_lower c = (let n = (of_char c :: nat) in if 65 \<le> n \<and> n \<le> 90 then char_of (n + 32) else c)"

lemma char_lower_idem [simp]: "char_lower (char_lower c) = char_lower c"
  by (auto simp: char_lower_def Let_def of_char_of)

lemma char_lower_upper [simp]: "char_lower (char_upper c) = char_lower c"
proof (cases "97 \<le> (of_char c :: nat) \<and> of_char c \<le> (122 :: nat)")
  case True
  then have "of_char c - 32 + 32 = (of_char c :: nat)" by simp
  moreover have "(of_char c - 32) mod 256 = (of_char c - 32 :: nat)"
    using True by (intro mod_less) linarith
  ultimately show ?thesis using True
    by (auto simp: char_lower_def char_upper_def Let_def of_char_of)
next
  case False
  then have "char_upper c = c" by (auto simp: char_upper_def Let_def)
  then show ?thesis by simp
qed

section \<open>Numbers as text\<close>

definition digit_char :: "nat \<Rightarrow> char" where
  "digit_char d = char_of (48 + d)"

text \<open>\<open>std::to_string\<close> of a non-negative and of a signed number.\<close>

fun nat_str :: "nat \<Rightarrow> string" where
  "nat_str n = (if n < 10 then [digit_char n] else nat_str (n div 10) @ [digit_char (n mod 10)])"

declare nat_str.simps [simp del]

definition int_str :: "int \<Rightarrow> string" where
  "int_str z = (if z < 0 then CHR ''-'' # nat_str (nat (- z)) else nat_str (nat z))"

definition digits_val :: "string \<Rightarrow> nat" where
  "digits_val ds = foldl (\<lambda>v c. v * 10 + (of_char c - 48)) 0 ds"

text \<open>\<open>c_str\<close>: what a C function sees of a string is what precedes its first NUL.\<close>

definition c_str :: "string \<Rightarrow> string" where
  "c_str s = takeWhile (\<lambda>c. c \<noteq> CHR 0x00) s"

definition LLONG_MAX :: int where "LLONG_MAX = 9223372036854775807"
definition LLONG_MIN :: int where "LLONG_MIN = - 9223372036854775808"
definition INT_MAX :: int where "INT_MAX = 2147483647"

text \<open>
  \<open>strtoll(s, &end, 10)\<close>: the value, how many characters \<open>end\<close> is past the start, and whether
  \<open>errno\<close> became \<open>ERANGE\<close>. With no digits \<open>end\<close> is the start itself.
\<close>

definition strtoll :: "string \<Rightarrow> int \<times> nat \<times> bool" where
  "strtoll s =
     (let cs = c_str s;
          ws = takeWhile is_space cs;
          r1 = dropWhile is_space cs;
          neg = (r1 \<noteq> [] \<and> hd r1 = CHR ''-'');
          sign = (r1 \<noteq> [] \<and> (hd r1 = CHR ''-'' \<or> hd r1 = CHR ''+''));
          r2 = (if sign then tl r1 else r1);
          ds = takeWhile is_digit r2;
          v = (if neg then - int (digits_val ds) else int (digits_val ds))
      in if ds = [] then (0, 0, False)
         else (if v < LLONG_MIN then LLONG_MIN else if LLONG_MAX < v then LLONG_MAX else v,
               length ws + (if sign then 1 else 0) + length ds,
               v < LLONG_MIN \<or> LLONG_MAX < v))"

text \<open>\<open>atoi\<close>, as glibc has it: \<open>strtol\<close> cut to 32 bits.\<close>

definition atoi :: "string \<Rightarrow> int" where
  "atoi s = signed_take_bit 31 (fst (strtoll s))"

lemma of_digit_char: "d < 10 \<Longrightarrow> of_char (digit_char d) = 48 + d"
  by (simp add: digit_char_def of_char_of)

lemma is_digit_digit_char [simp]: "d < 10 \<Longrightarrow> is_digit (digit_char d)"
  by (simp add: is_digit_def of_digit_char)

lemma nat_str_digits: "\<forall>c\<in>set (nat_str n). is_digit c"
proof (induction n rule: nat_str.induct)
  case (1 n)
  then show ?case by (cases "n < 10") (auto simp: nat_str.simps [of n])
qed

lemma nat_str_nonempty [simp]: "nat_str n \<noteq> []"
  by (subst nat_str.simps) simp

lemma digits_val_snoc [simp]: "digits_val (ds @ [c]) = digits_val ds * 10 + (of_char c - 48)"
  by (simp add: digits_val_def)

lemma digits_val_nat_str [simp]: "digits_val (nat_str n) = n"
proof (induction n rule: nat_str.induct)
  case (1 n)
  show ?case
  proof (cases "n < 10")
    case True
    then show ?thesis
      using digits_val_snoc [of "[]"] by (simp add: nat_str.simps [of n] of_digit_char digits_val_def)
  next
    case False
    with 1 show ?thesis by (simp add: nat_str.simps [of n] of_digit_char)
  qed
qed

lemma digit_not_space: "is_digit c \<Longrightarrow> \<not> is_space c"
  by (auto simp: is_digit_def is_space_def Let_def)

lemma digit_not_sign: "is_digit c \<Longrightarrow> c \<noteq> CHR ''-'' \<and> c \<noteq> CHR ''+'' \<and> c \<noteq> CHR 0x00"
  by (auto simp: is_digit_def)

text \<open>Reading back what \<open>to_string\<close> wrote.\<close>

lemma strtoll_nat_str:
  assumes "int n \<le> LLONG_MAX"
  shows "strtoll (nat_str n) = (int n, length (nat_str n), False)"
proof -
  let ?s = "nat_str n"
  have d: "\<forall>c\<in>set ?s. is_digit c" by (rule nat_str_digits)
  then have cs: "c_str ?s = ?s"
    by (auto simp: c_str_def takeWhile_eq_all_conv dest: digit_not_sign)
  have hd_dig: "is_digit (hd ?s)" using d by (simp add: hd_in_set)
  then have ws: "takeWhile is_space ?s = []" "dropWhile is_space ?s = ?s"
    by (cases ?s; auto dest: digit_not_space)+
  have ds: "takeWhile is_digit ?s = ?s" using d by (simp add: takeWhile_eq_all_conv)
  show ?thesis using digit_not_sign [OF hd_dig] assms
    by (simp add: strtoll_def cs ws ds Let_def LLONG_MAX_def LLONG_MIN_def)
qed

section \<open>\<open>operator>>\<close> on a string stream\<close>

text \<open>One \<open>stream >> word\<close>: the word and the rest of the stream, \<^term>\<open>None\<close> when it fails.\<close>

definition read_word :: "string \<Rightarrow> (string \<times> string) option" where
  "read_word s =
     (let r = dropWhile is_space s; w = takeWhile (\<lambda>c. \<not> is_space c) r
      in if w = [] then None else Some (w, dropWhile (\<lambda>c. \<not> is_space c) r))"

lemma read_word_concat:
  assumes "w \<noteq> []" and "\<forall>c\<in>set w. \<not> is_space c" and "rest = [] \<or> is_space (hd rest)"
  shows "read_word (w @ rest) = Some (w, rest)"
proof -
  have "dropWhile is_space (w @ rest) = w @ rest"
    using assms(1,2) by (cases w) auto
  moreover have "takeWhile (\<lambda>c. \<not> is_space c) (w @ rest) = w"
    using assms(2,3) by (cases rest) (auto simp: takeWhile_append)
  moreover have "dropWhile (\<lambda>c. \<not> is_space c) (w @ rest) = rest"
    using assms(2,3) by (cases rest) (auto simp: dropWhile_append)
  ultimately show ?thesis using assms(1) by (simp add: read_word_def Let_def)
qed

lemma read_word_space:
  "is_space c \<Longrightarrow> read_word (c # s) = read_word s"
  by (simp add: read_word_def)

lemma read_word_all_space: "\<forall>c\<in>set s. is_space c \<Longrightarrow> read_word s = None"
  by (auto simp: read_word_def Let_def dropWhile_eq_Nil_conv [THEN iffD2])

end
