(* ===== verification/StdMap.thy ===== *)
theory StdMap
  imports StdString "HOL-Library.List_Lexorder" "HOL-Library.Char_ord" "HOL-Library.Multiset"
begin

text \<open>
  \<open>std::map\<close> as the list of its entries in key order (iteration is in that order), with the
  operations the framework uses: \<open>m[k] = v\<close>, \<open>emplace\<close> / \<open>insert\<close> (which keep an entry that is
  there), \<open>find\<close>, \<open>erase\<close>. Keys that are strings are compared bytewise, as \<open>std::string\<close> does.
  \<open>std::multimap\<close> keeps equal keys in insertion order.
\<close>

section \<open>The operations\<close>

type_synonym ('k, 'v) std_map = "('k \<times> 'v) list"

fun map_put :: "'k::linorder \<Rightarrow> 'v \<Rightarrow> ('k, 'v) std_map \<Rightarrow> ('k, 'v) std_map" where
  "map_put k v [] = [(k, v)]"
| "map_put k v (e # m) =
     (if fst e < k then e # map_put k v m
      else if k < fst e then (k, v) # e # m
      else (k, v) # m)"

definition map_find :: "('k, 'v) std_map \<Rightarrow> 'k \<Rightarrow> 'v option" where
  "map_find m k = map_of m k"

definition map_emplace :: "'k::linorder \<Rightarrow> 'v \<Rightarrow> ('k, 'v) std_map \<Rightarrow> ('k, 'v) std_map \<times> bool" where
  "map_emplace k v m =
     (case map_find m k of None \<Rightarrow> (map_put k v m, True) | Some _ \<Rightarrow> (m, False))"

definition map_erase :: "'k \<Rightarrow> ('k, 'v) std_map \<Rightarrow> ('k, 'v) std_map" where
  "map_erase k m = filter (\<lambda>e. fst e \<noteq> k) m"

definition map_ok :: "('k::linorder, 'v) std_map \<Rightarrow> bool" where
  "map_ok m = sorted_wrt (<) (map fst m)"

fun mm_emplace :: "'k::linorder \<Rightarrow> 'v \<Rightarrow> ('k, 'v) std_map \<Rightarrow> ('k, 'v) std_map" where
  "mm_emplace k v [] = [(k, v)]"
| "mm_emplace k v (e # m) = (if fst e \<le> k then e # mm_emplace k v m else (k, v) # e # m)"

definition mm_ok :: "('k::linorder, 'v) std_map \<Rightarrow> bool" where
  "mm_ok m = sorted (map fst m)"

section \<open>Their laws\<close>

lemma map_ok_Nil [simp]: "map_ok []"
  by (simp add: map_ok_def)

lemma map_ok_Cons: "map_ok (e # m) \<longleftrightarrow> (\<forall>e'\<in>set m. fst e < fst e') \<and> map_ok m"
  by (auto simp: map_ok_def)

lemma map_find_Nil [simp]: "map_find [] k = None"
  by (simp add: map_find_def)

lemma map_find_Cons [simp]:
  "map_find (e # m) k = (if fst e = k then Some (snd e) else map_find m k)"
  by (cases e) (simp add: map_find_def)

lemma set_map_put: "set (map_put k v m) \<subseteq> insert (k, v) (set m)"
  by (induction m) auto

lemma map_find_ge: "(\<forall>e\<in>set m. k < fst e) \<Longrightarrow> map_find m (k::'k::linorder) = None"
  by (induction m) auto

lemma map_ok_put [simp]: "map_ok m \<Longrightarrow> map_ok (map_put k v m)"
proof (induction m)
  case (Cons e m)
  then show ?case
    using set_map_put [of k v m] by (fastforce simp: map_ok_Cons)
qed (simp add: map_ok_Cons)

lemma map_find_put:
  "map_ok m \<Longrightarrow> map_find (map_put k v m) k' = (if k = k' then Some v else map_find m k')"
proof (induction m)
  case (Cons e m)
  then show ?case
    by (auto simp: map_ok_Cons not_less intro: map_find_ge)
qed simp

lemma map_find_erase [simp]:
  "map_find (map_erase k m) k' = (if k = k' then None else map_find m k')"
  by (induction m) (auto simp: map_erase_def)

lemma map_ok_erase [simp]: "map_ok m \<Longrightarrow> map_ok (map_erase k m)"
  by (induction m) (auto simp: map_erase_def map_ok_Cons)

lemma map_ok_emplace [simp]: "map_ok m \<Longrightarrow> map_ok (fst (map_emplace k v m))"
  by (simp add: map_emplace_def split: option.split)

lemma map_find_Some_mem: "map_find m k = Some v \<Longrightarrow> (k, v) \<in> set m"
  by (simp add: map_find_def map_of_SomeD)

lemma map_find_mem: "map_ok m \<Longrightarrow> (k, v) \<in> set m \<Longrightarrow> map_find m k = Some v"
  by (induction m) (auto simp: map_ok_Cons)

lemma set_map_put_ok:
  "map_ok m \<Longrightarrow> set (map_put k v m) = insert (k, v) {e \<in> set m. fst e \<noteq> k}"
proof (induction m)
  case (Cons e m)
  show ?case
  proof (cases "fst e < k")
    case True
    with Cons show ?thesis by (auto simp: map_ok_Cons)
  next
    case False
    then consider "k < fst e" | "fst e = k" by (meson linorder_neqE)
    then show ?thesis using Cons.prems by cases (force simp: map_ok_Cons)+
  qed
qed simp

lemma mset_mm_emplace: "mset (mm_emplace k v m) = add_mset (k, v) (mset m)"
  by (induction m) auto

lemma set_mm_emplace [simp]: "set (mm_emplace k v m) = insert (k, v) (set m)"
  by (induction m) auto

lemma mm_ok_emplace [simp]: "mm_ok m \<Longrightarrow> mm_ok (mm_emplace k v m)"
  by (induction m) (auto simp: mm_ok_def)

section \<open>The contract of a registry\<close>

text \<open>
  The tables of the framework (header fields, servlets, services, clients, replies) are used
  through two operations: overwrite an entry, or add it only when the key is free. The contract
  is stated once; \<open>std::map\<close> provides it.
\<close>

locale registry =
  fixes look :: "'m \<Rightarrow> 'k \<Rightarrow> 'v option"
    and put :: "'k \<Rightarrow> 'v \<Rightarrow> 'm \<Rightarrow> 'm"
    and try_add :: "'k \<Rightarrow> 'v \<Rightarrow> 'm \<Rightarrow> 'm \<times> bool"
    and drop_key :: "'k \<Rightarrow> 'm \<Rightarrow> 'm"
    and ok :: "'m \<Rightarrow> bool"
  assumes look_put: "ok m \<Longrightarrow> look (put k v m) k' = (if k = k' then Some v else look m k')"
    and try_add_free: "look m k = None \<Longrightarrow> try_add k v m = (put k v m, True)"
    and try_add_taken: "look m k = Some w \<Longrightarrow> try_add k v m = (m, False)"
    and look_drop: "look (drop_key k m) k' = (if k = k' then None else look m k')"
    and ok_put: "ok m \<Longrightarrow> ok (put k v m)"
    and ok_drop: "ok m \<Longrightarrow> ok (drop_key k m)"
begin

lemma ok_try_add: "ok m \<Longrightarrow> ok (fst (try_add k v m))"
  by (cases "look m k") (simp_all add: try_add_free try_add_taken ok_put)

lemma try_add_result: "snd (try_add k v m) \<longleftrightarrow> look m k = None"
  by (cases "look m k") (simp_all add: try_add_free try_add_taken)

lemma look_try_add:
  "ok m \<Longrightarrow> look (fst (try_add k v m)) k' =
     (case look m k' of Some w \<Rightarrow> Some w | None \<Rightarrow> if k = k' then Some v else None)"
  by (cases "look m k"; cases "look m k'")
     (auto simp: try_add_free try_add_taken look_put)

text \<open>An entry that is there is never replaced by later attempts to add one.\<close>

lemma look_try_add_all:
  assumes "ok m" and "look m k = Some v"
  shows "look (fold (\<lambda>(k, v) m. fst (try_add k v m)) kvs m) k = Some v"
  using assms
proof (induction kvs arbitrary: m)
  case (Cons kv kvs)
  then show ?case
    by (cases kv) (simp add: ok_try_add look_try_add)
qed simp

lemma put_put: "ok m \<Longrightarrow> look (put k v (put k w m)) k' = look (put k v m) k'"
  by (simp add: look_put ok_put)

end

interpretation std: registry map_find map_put map_emplace map_erase map_ok
  by unfold_locales (auto simp: map_find_put map_emplace_def)

end
