(* ===== verification/TcpBuffer.thy ===== *)
theory TcpBuffer
  imports StdMap
begin

text \<open>
  \<open>src/net/tcp/tcp_buffer.{h,cc}\<close>: the growable byte queue between the socket and the codecs. The
  fields are those of the class (\<open>m_size\<close>, which nothing reads, is left out); every operation is
  one definition. An operation is \<^term>\<open>None\<close> where the code would run a \<open>memcpy\<close> outside its
  vectors or construct a vector of negative size. Counts and offsets are natural numbers: every
  call passes a size or a positive result of a system call. The arithmetic is that of unbounded
  integers; the code computes in \<open>int\<close>, so the model is the code for buffers below
  \<open>2^31 / 3\<close> bytes (both codecs refuse frames above 16 MB).
\<close>

section \<open>The class\<close>

record tcp_buffer =
  m_read_index :: nat
  m_write_index :: nat
  m_buffer :: bytes

definition TcpBuffer :: "nat \<Rightarrow> tcp_buffer" where
  "TcpBuffer n = \<lparr>m_read_index = 0, m_write_index = 0, m_buffer = replicate n (CHR 0x00)\<rparr>"

definition readAble :: "tcp_buffer \<Rightarrow> int" where
  "readAble b = int (m_write_index b) - int (m_read_index b)"

definition writeAble :: "tcp_buffer \<Rightarrow> int" where
  "writeAble b = int (length (m_buffer b)) - int (m_write_index b)"

definition getSize :: "tcp_buffer \<Rightarrow> nat" where
  "getSize b = length (m_buffer b)"

definition resizeBuffer :: "nat \<Rightarrow> tcp_buffer \<Rightarrow> tcp_buffer option" where
  "resizeBuffer n b =
     (let c = min (int n) (readAble b) in
      if c < 0 then None
      else do {
        kept \<leftarrow> slice (m_buffer b) (m_read_index b) (nat c);
        tmp \<leftarrow> overwrite (replicate n (CHR 0x00)) 0 kept;
        Some \<lparr>m_read_index = 0, m_write_index = nat c, m_buffer = tmp\<rparr>
      })"

definition writeToBuffer :: "bytes \<Rightarrow> tcp_buffer \<Rightarrow> tcp_buffer option" where
  "writeToBuffer src b = do {
     b \<leftarrow> (if writeAble b < int (length src)
          then resizeBuffer (3 * (m_write_index b + length src) div 2) b
          else Some b);
     blk \<leftarrow> overwrite (m_buffer b) (m_write_index b) src;
     Some (b\<lparr>m_write_index := m_write_index b + length src, m_buffer := blk\<rparr>)
   }"

definition adjustBuffer :: "tcp_buffer \<Rightarrow> tcp_buffer option" where
  "adjustBuffer b =
     (if length (m_buffer b) div 3 < m_read_index b
      then if readAble b < 0 then None
           else do {
             kept \<leftarrow> slice (m_buffer b) (m_read_index b) (nat (readAble b));
             blk \<leftarrow> overwrite (replicate (length (m_buffer b)) (CHR 0x00)) 0 kept;
             Some \<lparr>m_read_index = 0, m_write_index = nat (readAble b), m_buffer = blk\<rparr>
           }
      else Some b)"

text \<open>The first result is what \<open>re\<close> holds afterwards; it keeps its old value when the buffer is empty.\<close>

definition readFromBuffer :: "bytes \<Rightarrow> nat \<Rightarrow> tcp_buffer \<Rightarrow> (bytes \<times> tcp_buffer) option" where
  "readFromBuffer re n b =
     (if readAble b = 0 then Some (re, b)
      else let read_size = (if int n < readAble b then int n else readAble b) in
        if read_size < 0 then None
        else do {
          tmp \<leftarrow> slice (m_buffer b) (m_read_index b) (nat read_size);
          b \<leftarrow> adjustBuffer (b\<lparr>m_read_index := m_read_index b + nat read_size\<rparr>);
          Some (tmp, b)
        })"

definition recycleRead :: "nat \<Rightarrow> tcp_buffer \<Rightarrow> tcp_buffer option" where
  "recycleRead index b =
     (let j = m_read_index b + index in
      if length (m_buffer b) < j then Some b else adjustBuffer (b\<lparr>m_read_index := j\<rparr>))"

definition recycleWrite :: "nat \<Rightarrow> tcp_buffer \<Rightarrow> tcp_buffer option" where
  "recycleWrite index b =
     (let j = m_write_index b + index in
      if length (m_buffer b) < j then Some b else adjustBuffer (b\<lparr>m_write_index := j\<rparr>))"

definition clearBuffer :: "tcp_buffer \<Rightarrow> tcp_buffer" where
  "clearBuffer b = b\<lparr>m_buffer := [], m_read_index := 0, m_write_index := 0\<rparr>"

definition getBufferString :: "tcp_buffer \<Rightarrow> bytes option" where
  "getBufferString b =
     (if readAble b < 0 then None else slice (m_buffer b) (m_read_index b) (nat (readAble b)))"

definition getBufferVector :: "tcp_buffer \<Rightarrow> bytes" where
  "getBufferVector b = m_buffer b"

section \<open>Well-formed buffers and their contents\<close>

definition buf_ok :: "tcp_buffer \<Rightarrow> bool" where
  "buf_ok b \<longleftrightarrow> m_read_index b \<le> m_write_index b \<and> m_write_index b \<le> length (m_buffer b)"

definition contents :: "tcp_buffer \<Rightarrow> bytes" where
  "contents b = drop (m_read_index b) (take (m_write_index b) (m_buffer b))"

lemma buf_ok_TcpBuffer [simp]: "buf_ok (TcpBuffer n)"
  by (simp add: buf_ok_def TcpBuffer_def)

lemma contents_TcpBuffer [simp]: "contents (TcpBuffer n) = []"
  by (simp add: contents_def TcpBuffer_def)

lemma buf_ok_clear [simp]: "buf_ok (clearBuffer b)" and contents_clear [simp]: "contents (clearBuffer b) = []"
  by (simp_all add: buf_ok_def contents_def clearBuffer_def)

lemma length_contents: "buf_ok b \<Longrightarrow> length (contents b) = m_write_index b - m_read_index b"
  by (auto simp: buf_ok_def contents_def)

lemma readAble_contents: "buf_ok b \<Longrightarrow> readAble b = int (length (contents b))"
  by (auto simp: length_contents readAble_def buf_ok_def)

lemma getBufferString_contents: "buf_ok b \<Longrightarrow> getBufferString b = Some (contents b)"
  by (auto simp: buf_ok_def contents_def readAble_def getBufferString_def drop_take
      intro!: arg_cong [where f = "\<lambda>n. take n _"])

lemma contents_slice:
  "take (m_write_index b - m_read_index b) (drop (m_read_index b) (m_buffer b)) = contents b"
  by (simp add: contents_def drop_take)

lemma buffer_at_0:
  assumes "length xs = n"
  shows "buf_ok \<lparr>m_read_index = 0, m_write_index = n, m_buffer = xs @ ys\<rparr>"
    and "contents \<lparr>m_read_index = 0, m_write_index = n, m_buffer = xs @ ys\<rparr> = xs"
  using assms by (simp_all add: buf_ok_def contents_def)

definition loaded :: "bytes \<Rightarrow> tcp_buffer" where
  "loaded xs = \<lparr>m_read_index = 0, m_write_index = length xs, m_buffer = xs\<rparr>"

lemma loaded_ok [simp]: "buf_ok (loaded xs)" "contents (loaded xs) = xs"
  using buffer_at_0 [of xs "length xs" "[]"] by (simp_all add: loaded_def)

lemma resizeBuffer_ok:
  assumes "buf_ok b"
  shows "\<exists>b'. resizeBuffer n b = Some b' \<and> buf_ok b' \<and> contents b' = take n (contents b)
           \<and> length (m_buffer b') = n \<and> m_read_index b' = 0
           \<and> m_write_index b' = min n (length (contents b))"
proof -
  let ?c = "min n (length (contents b))" and ?xs = "take n (contents b)"
  let ?b = "\<lparr>m_read_index = 0, m_write_index = ?c,
              m_buffer = ?xs @ replicate (n - ?c) (CHR 0x00)\<rparr>"
  have c: "min (int n) (readAble b) = int ?c"
    using assms by (simp add: readAble_contents)
  have "m_read_index b + ?c \<le> length (m_buffer b)"
    using assms by (auto simp: buf_ok_def contents_def)
  moreover have "take ?c (drop (m_read_index b) (m_buffer b)) = ?xs"
    by (simp add: contents_slice [symmetric] min_def take_all_iff)
  ultimately have "resizeBuffer n b = Some ?b"
    using c by (simp add: resizeBuffer_def Let_def)
  moreover have "buf_ok ?b" "contents ?b = ?xs" by (simp_all add: buffer_at_0)
  ultimately show ?thesis by simp
qed

lemma adjustBuffer_ok:
  assumes "buf_ok b"
  shows "\<exists>b'. adjustBuffer b = Some b' \<and> buf_ok b' \<and> contents b' = contents b
           \<and> length (m_buffer b') = length (m_buffer b)"
proof -
  have "m_read_index b + nat (readAble b) \<le> length (m_buffer b)" "0 \<le> readAble b"
    and n: "nat (readAble b) = m_write_index b - m_read_index b"
    using assms by (auto simp: buf_ok_def readAble_def)
  then show ?thesis
    using assms by (auto simp: adjustBuffer_def buf_ok_def contents_def n drop_take)
qed

section \<open>A byte queue\<close>

text \<open>
  What the connection and the codecs rely on: appending and consuming never leave the vector and
  act on the contents as on a queue of bytes.
\<close>

locale byte_queue =
  fixes append :: "bytes \<Rightarrow> 'b \<Rightarrow> 'b option"
    and consume :: "nat \<Rightarrow> 'b \<Rightarrow> 'b option"
    and data :: "'b \<Rightarrow> bytes"
    and ok :: "'b \<Rightarrow> bool"
  assumes append_law: "ok b \<Longrightarrow> \<exists>b'. append xs b = Some b' \<and> ok b' \<and> data b' = data b @ xs"
    and consume_law: "ok b \<Longrightarrow> n \<le> length (data b) \<Longrightarrow>
           \<exists>b'. consume n b = Some b' \<and> ok b' \<and> data b' = drop n (data b)"
begin

lemma appendE:
  assumes "ok b"
  obtains b' where "append xs b = Some b'" "ok b'" "data b' = data b @ xs"
  using append_law [OF assms] by blast

lemma consumeE:
  assumes "ok b" "n \<le> length (data b)"
  obtains b' where "consume n b = Some b'" "ok b'" "data b' = drop n (data b)"
  using consume_law [OF assms] by blast

lemma append_all:
  assumes "ok b"
  shows "\<exists>b'. fold (\<lambda>xs q. Option.bind q (append xs)) xss (Some b) = Some b' \<and> ok b'
           \<and> data b' = data b @ concat xss"
  using assms
proof (induction xss arbitrary: b)
  case (Cons xs xss)
  from Cons.prems obtain b' where b': "append xs b = Some b'" "ok b'" "data b' = data b @ xs"
    by (rule appendE)
  from Cons.IH [OF b'(2)] b'(1,3) show ?case by simp
qed simp

text \<open>What goes in comes out: consuming the old contents of a queue leaves what was appended.\<close>

lemma append_consume:
  assumes "ok b"
  shows "\<exists>b'. Option.bind (append xs b) (consume (length (data b))) = Some b' \<and> ok b' \<and> data b' = xs"
proof -
  from assms obtain c where c: "append xs b = Some c" "ok c" "data c = data b @ xs"
    by (rule appendE)
  have "length (data b) \<le> length (data c)" by (simp add: c(3))
  with c(2) obtain b' where "consume (length (data b)) c = Some b'" "ok b'"
    "data b' = drop (length (data b)) (data c)" by (rule consumeE)
  with c show ?thesis by simp
qed

end

lemma writeToBuffer_ok:
  assumes "buf_ok b"
  shows "\<exists>b'. writeToBuffer xs b = Some b' \<and> buf_ok b' \<and> contents b' = contents b @ xs"
proof -
  let ?n = "3 * (m_write_index b + length xs) div 2"
  obtain b1 where b1: "(if writeAble b < int (length xs) then resizeBuffer ?n b else Some b) = Some b1"
    "buf_ok b1" "contents b1 = contents b" "m_write_index b1 + length xs \<le> length (m_buffer b1)"
  proof (cases "writeAble b < int (length xs)")
    case True
    have "length (contents b) \<le> m_write_index b" using assms by (simp add: length_contents)
    then have "2 * (length (contents b) + length xs) \<le> 3 * (m_write_index b + length xs)"
      by simp
    then have "length (contents b) + length xs \<le> ?n" by simp
    with True resizeBuffer_ok [OF assms, of ?n] that show ?thesis by auto
  next
    case False
    with assms that show ?thesis by (auto simp: writeAble_def buf_ok_def)
  qed
  have "drop (m_read_index b1) (take (m_write_index b1 + length xs)
          (take (m_write_index b1) (m_buffer b1) @ xs @
             drop (m_write_index b1 + length xs) (m_buffer b1))) = contents b1 @ xs"
    using b1(2,4) by (simp add: buf_ok_def contents_def)
  then show ?thesis
    using b1 unfolding writeToBuffer_def b1(1) by (simp add: buf_ok_def contents_def)
qed

lemma recycleRead_ok:
  assumes "buf_ok b" "n \<le> length (contents b)"
  shows "\<exists>b'. recycleRead n b = Some b' \<and> buf_ok b' \<and> contents b' = drop n (contents b)"
proof -
  let ?b = "b\<lparr>m_read_index := m_read_index b + n\<rparr>"
  have "buf_ok ?b" "contents ?b = drop n (contents b)" "m_read_index b + n \<le> length (m_buffer b)"
    using assms by (auto simp: buf_ok_def contents_def drop_take add.commute)
  with adjustBuffer_ok [of ?b] show ?thesis by (auto simp: recycleRead_def)
qed

interpretation tcp: byte_queue writeToBuffer recycleRead contents buf_ok
  by unfold_locales (auto intro: writeToBuffer_ok recycleRead_ok)

lemma recycleWrite_ok:
  assumes "buf_ok b" "m_write_index b + n \<le> length (m_buffer b)"
  shows "\<exists>b'. recycleWrite n b = Some b' \<and> buf_ok b'
           \<and> contents b' = contents b @ take n (drop (m_write_index b) (m_buffer b))"
proof -
  let ?b = "b\<lparr>m_write_index := m_write_index b + n\<rparr>"
  have ok: "buf_ok ?b" using assms by (auto simp: buf_ok_def)
  have "contents ?b = contents b @ take n (drop (m_write_index b) (m_buffer b))"
    using assms by (simp add: contents_def buf_ok_def take_add)
  with adjustBuffer_ok [OF ok] assms(2) show ?thesis by (auto simp: recycleWrite_def)
qed

section \<open>Properties\<close>

text \<open>
  C14: A buffer is a byte queue. Writing to a well-formed buffer of any fill level never leaves the
  vector, and appends; recycling at most what is readable never leaves it either, and removes from
  the front. So what is written after the old contents are recycled is exactly what is read back.
\<close>

theorem buffer_is_queue:
  assumes "buf_ok b"
  shows "\<exists>b' b''. writeToBuffer xs b = Some b' \<and> buf_ok b' \<and> contents b' = contents b @ xs
           \<and> recycleRead (length (contents b)) b' = Some b'' \<and> buf_ok b''
           \<and> getBufferString b'' = Some xs"
proof -
  from assms obtain b' where b': "writeToBuffer xs b = Some b'" "buf_ok b'" "contents b' = contents b @ xs"
    by (rule tcp.appendE)
  have "length (contents b) \<le> length (contents b')" by (simp add: b'(3))
  with b'(2) obtain b'' where "recycleRead (length (contents b)) b' = Some b''" "buf_ok b''"
    "contents b'' = drop (length (contents b)) (contents b')" by (rule tcp.consumeE)
  with b' getBufferString_contents [of b''] show ?thesis by simp
qed

theorem buffer_is_queue_witness:
  "\<exists>b' b''. writeToBuffer ''abc'' (TcpBuffer 1) = Some b' \<and> buf_ok b' \<and> contents b' = ''abc''
     \<and> recycleRead 0 b' = Some b'' \<and> buf_ok b'' \<and> getBufferString b'' = Some ''abc''"
  using buffer_is_queue [OF buf_ok_TcpBuffer, of "''abc''" 1] by simp

end
