(* ===== verification/NetData.thy ===== *)
theory NetData
  imports TcpBuffer
begin

text \<open>
  What travels between codec, connection and dispatcher: \<open>src/net/abstract_data.h\<close>,
  \<open>src/net/abstract_codec.h\<close>, \<open>src/net/error_code.h\<close>, \<open>src/rpc/rpc_data.h\<close>,
  \<open>src/net/http/http_request.h\<close>, \<open>src/net/http/http_response.h\<close> and the class layout of
  \<open>src/net/http/http_define.h\<close>. A pointer to the base class \<open>AbstractData\<close> is the datatype of the
  three classes derived from it, so that \<open>dynamic_cast\<close> is a case distinction.
\<close>

section \<open>\<open>AbstractData\<close> and the classes derived from it\<close>

record abstract_data =
  decode_succ :: bool
  encode_succ :: bool

record rpc_struct = abstract_data +
  msg_no :: string
  service_name :: string
  method_name :: string
  pb_data :: bytes
  err_code :: i32
  err_info :: string

definition RpcStruct :: rpc_struct where
  "RpcStruct = \<lparr>decode_succ = False, encode_succ = False, msg_no = [], service_name = [],
     method_name = [], pb_data = [], err_code = 0, err_info = []\<rparr>"

datatype http_method = HTTP_METHOD_UNKNOWN | GET | POST

type_synonym http_headers = "(string, string) std_map"

record http_request = abstract_data +
  m_request_method :: http_method
  m_request_path :: string
  m_request_query :: string
  m_request_version :: string
  m_request_header :: http_headers
  m_request_body :: bytes
  m_query_maps :: "(string, string) std_map"

definition HttpRequest :: http_request where
  "HttpRequest = \<lparr>decode_succ = False, encode_succ = False,
     m_request_method = HTTP_METHOD_UNKNOWN, m_request_path = ''/'', m_request_query = [],
     m_request_version = ''HTTP/1.1'', m_request_header = [], m_request_body = [],
     m_query_maps = []\<rparr>"

record http_response = abstract_data +
  m_response_version :: string
  m_response_code :: int
  m_response_info :: string
  m_response_header :: http_headers
  m_response_body :: bytes

datatype any_data =
    RpcData rpc_struct
  | HttpRequestData http_request
  | HttpResponseData http_response

section \<open>Protocols and error codes\<close>

datatype protocal_type = TinyPb_Protocal | Http_Protocal

text \<open>\<open>SYS_ERROR_PREFIX(xx)\<close> pastes \<open>xx\<close> behind the digits 1000.\<close>

definition ERROR_PEER_CLOSED :: int where "ERROR_PEER_CLOSED = 10000000"
definition ERROR_FAILED_CONNECT :: int where "ERROR_FAILED_CONNECT = 10000001"
definition ERROR_FAILED_GET_REPLY :: int where "ERROR_FAILED_GET_REPLY = 10000002"
definition ERROR_FAILED_DESERIALIZE :: int where "ERROR_FAILED_DESERIALIZE = 10000003"
definition ERROR_FAILED_SERIALIZE :: int where "ERROR_FAILED_SERIALIZE = 10000004"
definition ERROR_FAILED_ENCODE :: int where "ERROR_FAILED_ENCODE = 10000005"
definition ERROR_FAILED_DECODE :: int where "ERROR_FAILED_DECODE = 10000006"
definition ERROR_RPC_CALL_TIMEOUT :: int where "ERROR_RPC_CALL_TIMEOUT = 10000007"
definition ERROR_SERVICE_NOT_FOUND :: int where "ERROR_SERVICE_NOT_FOUND = 10000008"
definition ERROR_METHOD_NOT_FOUND :: int where "ERROR_METHOD_NOT_FOUND = 10000009"
definition ERROR_PARSE_SERVICE_NAME :: int where "ERROR_PARSE_SERVICE_NAME = 10000010"
definition ERROR_NOT_SET_ASYNC_PRE_CALL :: int where "ERROR_NOT_SET_ASYNC_PRE_CALL = 10000011"
definition ERROR_CONNECT_SYS_ERR :: int where "ERROR_CONNECT_SYS_ERR = 10000012"

lemmas error_code_defs =
  ERROR_PEER_CLOSED_def ERROR_FAILED_CONNECT_def ERROR_FAILED_GET_REPLY_def
  ERROR_FAILED_DESERIALIZE_def ERROR_FAILED_SERIALIZE_def ERROR_FAILED_ENCODE_def
  ERROR_FAILED_DECODE_def ERROR_RPC_CALL_TIMEOUT_def ERROR_SERVICE_NOT_FOUND_def
  ERROR_METHOD_NOT_FOUND_def ERROR_PARSE_SERVICE_NAME_def ERROR_NOT_SET_ASYNC_PRE_CALL_def
  ERROR_CONNECT_SYS_ERR_def

section \<open>The contract of a codec\<close>

text \<open>
  What a connection relies on when it drives \<open>decode\<close> in a loop: on a well-formed buffer it stays
  in bounds, it only ever removes bytes from the front, and a successful call removes at least
  one. The loop over the buffered packets lives in the theory of the connection.
\<close>

locale codec =
  fixes decode :: "tcp_buffer \<Rightarrow> 'd \<Rightarrow> (tcp_buffer \<times> 'd) option"
    and succ :: "'d \<Rightarrow> bool"
  assumes decode_law: "buf_ok b \<Longrightarrow> \<exists>b' d' n. decode b d = Some (b', d') \<and> buf_ok b'
            \<and> n \<le> length (contents b) \<and> contents b' = drop n (contents b) \<and> (succ d' \<longrightarrow> 0 < n)"
begin

lemma decode_total: "buf_ok b \<Longrightarrow> decode b d \<noteq> None"
  using decode_law [of b d] by auto

lemma decode_keeps_ok: "buf_ok b \<Longrightarrow> decode b d = Some (b', d') \<Longrightarrow> buf_ok b'"
  using decode_law [of b d] by auto

lemma decode_suffix:
  assumes "buf_ok b" "decode b d = Some (b', d')"
  shows "suffix (contents b') (contents b)"
  using decode_law [OF assms(1), of d] assms(2) by (auto simp: suffix_drop)

lemma decode_progress:
  assumes "buf_ok b" "decode b d = Some (b', d')" "succ d'"
  shows "length (contents b') < length (contents b)"
  using decode_law [OF assms(1), of d] assms(2,3) by auto

end

text \<open>
  A codec whose \<open>decode\<close> is a parser over the buffered bytes: how many go, and what the object that
  was passed in becomes. \<open>items\<close> is what such a parser finds in a byte list, one object per packet,
  each parsed into a fresh object; \<open>unparsed\<close> is what stays.
\<close>

function items :: "('d \<Rightarrow> bytes \<Rightarrow> nat \<times> 'd) \<Rightarrow> ('d \<Rightarrow> bool) \<Rightarrow> 'd \<Rightarrow> bytes \<Rightarrow> 'd list \<times> bytes" where
  "items parse succ fresh bs =
     (let (n, d) = parse fresh bs in
      if bs = [] then ([], [])
      else if succ d \<and> 0 < n
      then let (ds, rest) = items parse succ fresh (drop n bs) in (d # ds, rest)
      else ([], drop n bs))"
  by pat_completeness auto

termination
  by (relation "measure (\<lambda>(parse, succ, fresh, bs). length bs)") auto

declare items.simps [simp del]

locale packet_codec =
  fixes decode :: "tcp_buffer \<Rightarrow> 'd \<Rightarrow> (tcp_buffer \<times> 'd) option"
    and succ :: "'d \<Rightarrow> bool"
    and parse :: "'d \<Rightarrow> bytes \<Rightarrow> nat \<times> 'd"
  assumes decode_parse: "buf_ok b \<Longrightarrow> \<exists>b'. decode b d = Some (b', snd (parse d (contents b)))
            \<and> buf_ok b' \<and> contents b' = drop (fst (parse d (contents b))) (contents b)"
    and parse_le: "fst (parse d bs) \<le> length bs"
    and parse_progress: "succ (snd (parse d bs)) \<Longrightarrow> 0 < fst (parse d bs)"
begin

lemma decodeE:
  assumes "buf_ok b"
  obtains b' where "decode b d = Some (b', snd (parse d (contents b)))" "buf_ok b'"
    "contents b' = drop (fst (parse d (contents b))) (contents b)"
  using decode_parse [OF assms, of d] by blast

lemma items_step:
  assumes "bs \<noteq> []"
  shows "items parse succ d bs =
    (if succ (snd (parse d bs))
     then map_prod ((#) (snd (parse d bs))) id (items parse succ d (drop (fst (parse d bs)) bs))
     else ([], drop (fst (parse d bs)) bs))"
  using assms parse_progress [of d bs]
  by (subst items.simps) (auto simp: Let_def split: prod.split)

end

sublocale packet_codec \<subseteq> codec decode succ
proof
  fix b d
  assume "buf_ok b"
  then show "\<exists>b' d' n. decode b d = Some (b', d') \<and> buf_ok b' \<and> n \<le> length (contents b)
      \<and> contents b' = drop n (contents b) \<and> (succ d' \<longrightarrow> 0 < n)"
    using decode_parse [of b d] parse_le [of d "contents b"] parse_progress [of d "contents b"] by blast
qed

end
