(* ===== verification/RpcCodec.thy ===== *)
theory RpcCodec
  imports NetData
begin

text \<open>
  \<open>src/rpc/rpc_codec.{h,cc}\<close>: the TinyPB-style wire format. First the code, reading and writing
  the vectors through indices and cursors; then an abstract parser that consumes a byte list, and
  the proof that \<open>decode\<close> implements it on every well-formed buffer.
\<close>

section \<open>Constants, readers and writers\<close>

definition kPacketStart :: char where "kPacketStart = CHR 0x02"
definition kPacketEnd :: char where "kPacketEnd = CHR 0x03"
definition kChecksumPlaceholder :: i32 where "kChecksumPlaceholder = 1"
definition kMinPacketLen :: nat where "kMinPacketLen = 2 * 1 + 6 * 4"
definition kMaxPacketLen :: nat where "kMaxPacketLen = 16 * 1024 * 1024"

text \<open>The writers advance a cursor into the frame.\<close>

definition WriteBytes :: "bytes \<Rightarrow> bytes \<times> nat \<Rightarrow> (bytes \<times> nat) option" where
  "WriteBytes src st =
     map_option (\<lambda>blk. (blk, snd st + length src)) (overwrite (fst st) (snd st) src)"

definition WriteInt32 :: "i32 \<Rightarrow> bytes \<times> nat \<Rightarrow> (bytes \<times> nat) option" where
  "WriteInt32 v = WriteBytes (be32 v)"

definition WriteString :: "string \<Rightarrow> bytes \<times> nat \<Rightarrow> (bytes \<times> nat) option" where
  "WriteString s st = (if s \<noteq> [] then WriteBytes s st else Some st)"

definition WriteChar :: "char \<Rightarrow> bytes \<times> nat \<Rightarrow> (bytes \<times> nat) option" where
  "WriteChar c = WriteBytes [c]"

text \<open>
  The readers return false (the inner \<^term>\<open>None\<close>) when the value does not fit before \<open>limit\<close>; the
  outer \<^term>\<open>None\<close> is a read outside the vector.
\<close>

definition ReadInt32 :: "bytes \<Rightarrow> nat \<Rightarrow> nat \<Rightarrow> i32 option option" where
  "ReadInt32 buf idx limit =
     (if limit < idx \<or> limit - idx < 4 then Some None
      else map_option (\<lambda>bs. Some (be32_val bs)) (slice buf idx 4))"

definition ReadString :: "bytes \<Rightarrow> nat \<Rightarrow> nat \<Rightarrow> int \<Rightarrow> (string \<times> nat) option option" where
  "ReadString buf cursor limit len =
     (if len < 0 \<or> limit < cursor \<or> int limit - int cursor < len then Some None
      else map_option (\<lambda>s. Some (s, cursor + nat len)) (slice buf cursor (nat len)))"

definition valid_bind :: "'a option option \<Rightarrow> ('a \<Rightarrow> 'b option option) \<Rightarrow> 'b option option" where
  "valid_bind m f = (case m of None \<Rightarrow> None | Some None \<Rightarrow> Some None | Some (Some x) \<Rightarrow> f x)"

text \<open>A length, \<open>cursor += 4\<close>, and that many bytes; \<open>msg_no\<close> and the service name must not be empty.\<close>

definition ReadField :: "bool \<Rightarrow> bytes \<Rightarrow> nat \<Rightarrow> nat \<Rightarrow> (string \<times> nat) option option" where
  "ReadField nonempty buf cursor limit =
     valid_bind (ReadInt32 buf cursor limit)
       (\<lambda>len. if nonempty \<and> \<not> 0 < sint len then Some None
              else ReadString buf (cursor + 4) limit (sint len))"

section \<open>\<open>encode\<close>\<close>

text \<open>
  \<open>fresh\<close> is what \<open>MsgReqUtil::genMsgNumber()\<close> returns if it is called. The result is the packet,
  the frame and the returned flag.
\<close>

definition encodePbData :: "string \<Rightarrow> rpc_struct \<Rightarrow> (rpc_struct \<times> bytes \<times> bool) option" where
  "encodePbData fresh d =
     (let d = d\<lparr>encode_succ := False\<rparr> in
      if service_name d = [] \<or> method_name d = [] then Some (d, [], False)
      else
        let d = (if msg_no d = [] then d\<lparr>msg_no := fresh\<rparr> else d);
            service_full_name = service_name d @ ''.'' @ method_name d;
            packet_len = kMinPacketLen + length (msg_no d) + length service_full_name
                           + length (err_info d) + length (pb_data d)
        in if kMaxPacketLen < packet_len then Some (d, [], False)
           else do {
             st \<leftarrow> WriteChar kPacketStart (replicate packet_len (CHR 0x00), 0);
             st \<leftarrow> WriteInt32 (word_of_nat packet_len) st;
             st \<leftarrow> WriteInt32 (word_of_nat (length (msg_no d))) st;
             st \<leftarrow> WriteString (msg_no d) st;
             st \<leftarrow> WriteInt32 (word_of_nat (length service_full_name)) st;
             st \<leftarrow> WriteString service_full_name st;
             st \<leftarrow> WriteInt32 (err_code d) st;
             st \<leftarrow> WriteInt32 (word_of_nat (length (err_info d))) st;
             st \<leftarrow> WriteString (err_info d) st;
             st \<leftarrow> WriteString (pb_data d) st;
             st \<leftarrow> WriteInt32 kChecksumPlaceholder st;
             st \<leftarrow> WriteChar kPacketEnd st;
             Some (if snd st \<noteq> length (fst st) then (d, [], False)
                   else (d\<lparr>encode_succ := True\<rparr>, fst st, True))
           })"

definition rpc_encode :: "string \<Rightarrow> tcp_buffer \<Rightarrow> rpc_struct \<Rightarrow> (tcp_buffer \<times> rpc_struct) option" where
  "rpc_encode fresh b d = do {
     (d, frame, good) \<leftarrow> encodePbData fresh d;
     if \<not> good then Some (b, d)
     else do { b \<leftarrow> writeToBuffer frame b; Some (b, d) }
   }"

text \<open>The virtual \<open>encode\<close>, with its null checks and the \<open>dynamic_cast\<close>.\<close>

definition RpcCodeC_encode ::
  "string \<Rightarrow> tcp_buffer option \<Rightarrow> any_data option \<Rightarrow> (tcp_buffer option \<times> any_data option) option" where
  "RpcCodeC_encode fresh bp dp =
     (case (bp, dp) of
        (Some b, Some (RpcData d)) \<Rightarrow>
          map_option (\<lambda>(b, d). (Some b, Some (RpcData d))) (rpc_encode fresh b d)
      | (Some b, Some (HttpRequestData r)) \<Rightarrow>
          Some (bp, Some (HttpRequestData (r\<lparr>encode_succ := False\<rparr>)))
      | (Some b, Some (HttpResponseData r)) \<Rightarrow>
          Some (bp, Some (HttpResponseData (r\<lparr>encode_succ := False\<rparr>)))
      | _ \<Rightarrow> Some (bp, dp))"

section \<open>\<open>decode\<close>\<close>

text \<open>The search loop for the start byte.\<close>

function scan_start :: "bytes \<Rightarrow> nat \<Rightarrow> nat \<Rightarrow> nat option" where
  "scan_start buf i write_index =
     (if i < write_index
      then if length buf \<le> i then None
           else if buf ! i \<noteq> kPacketStart then scan_start buf (Suc i) write_index
           else Some i
      else Some i)"
  by pat_completeness auto

termination
  by (relation "measure (\<lambda>(buf, i, w). w - i)") auto

declare scan_start.simps [simp del]

text \<open>The five fields behind the packet length, up to the checksum.\<close>

definition read_fields ::
  "bytes \<Rightarrow> nat \<Rightarrow> nat \<Rightarrow> (string \<times> string \<times> i32 \<times> string \<times> nat) option option" where
  "read_fields buf cursor checksum_index =
     valid_bind (ReadField True buf cursor checksum_index) (\<lambda>(no, cursor).
     valid_bind (ReadField True buf cursor checksum_index) (\<lambda>(full_name, cursor).
     valid_bind (ReadInt32 buf cursor checksum_index) (\<lambda>code.
     valid_bind (ReadField False buf (cursor + 4) checksum_index) (\<lambda>(info, cursor).
     if checksum_index < cursor then Some None
     else Some (Some (no, full_name, code, info, cursor))))))"

text \<open>What happens once a complete frame with its end byte is in the buffer.\<close>

definition decode_frame ::
  "tcp_buffer \<Rightarrow> rpc_struct \<Rightarrow> nat \<Rightarrow> nat \<Rightarrow> (tcp_buffer \<times> rpc_struct) option" where
  "decode_frame b d start_index packet_len =
     (let buf = m_buffer b;
          end_index = start_index + packet_len - 1;
          checksum_index = end_index - 4
      in case read_fields buf (start_index + 1 + 4) checksum_index of
           None \<Rightarrow> None
         | Some None \<Rightarrow> map_option (\<lambda>b. (b, d)) (recycleRead packet_len b)
         | Some (Some (no, full_name, code, info, cursor)) \<Rightarrow>
             (case rfind_char (CHR ''.'') full_name of
                None \<Rightarrow> map_option (\<lambda>b. (b, d)) (recycleRead packet_len b)
              | Some separator \<Rightarrow>
                  if separator = 0 \<or> length full_name \<le> separator + 1
                  then map_option (\<lambda>b. (b, d)) (recycleRead packet_len b)
                  else (case ReadInt32 buf checksum_index end_index of
                          None \<Rightarrow> None
                        | Some checksum \<Rightarrow>
                            if checksum \<noteq> Some kChecksumPlaceholder
                            then map_option (\<lambda>b. (b, d)) (recycleRead packet_len b)
                            else do {
                              pb \<leftarrow> slice buf cursor (checksum_index - cursor);
                              let d = d\<lparr>msg_no := no,
                                        service_name := substr full_name 0 separator,
                                        method_name := drop (separator + 1) full_name,
                                        err_code := code, err_info := info, pb_data := pb\<rparr>;
                              b \<leftarrow> recycleRead packet_len b;
                              Some (b, d\<lparr>decode_succ := True\<rparr>)
                            })))"

text \<open>From the start byte on: the length, the end byte, the frame.\<close>

definition decode_at ::
  "tcp_buffer \<Rightarrow> rpc_struct \<Rightarrow> nat \<Rightarrow> nat \<Rightarrow> (tcp_buffer \<times> rpc_struct) option" where
  "decode_at b d start_index write_index =
     (if int write_index - int start_index < 1 + 4 then Some (b, d)
      else case ReadInt32 (m_buffer b) (start_index + 1) write_index of
        None \<Rightarrow> None
      | Some None \<Rightarrow> Some (b, d)
      | Some (Some packet_len) \<Rightarrow>
          if sint packet_len < int kMinPacketLen \<or> int kMaxPacketLen < sint packet_len
          then map_option (\<lambda>b. (b, d)) (recycleRead 1 b)
          else if int write_index - int start_index < sint packet_len then Some (b, d)
          else let n = nat (sint packet_len) in
            (case slice (m_buffer b) (start_index + n - 1) 1 of
               None \<Rightarrow> None
             | Some end_byte \<Rightarrow>
                 if end_byte \<noteq> [kPacketEnd] then map_option (\<lambda>b. (b, d)) (recycleRead 1 b)
                 else decode_frame b d start_index n))"

definition rpc_decode :: "tcp_buffer \<Rightarrow> rpc_struct \<Rightarrow> (tcp_buffer \<times> rpc_struct) option" where
  "rpc_decode b d =
     (let d = d\<lparr>decode_succ := False\<rparr>;
          read_index = m_read_index b;
          write_index = m_write_index b
      in do {
        start_index \<leftarrow> scan_start (m_buffer b) read_index write_index;
        if start_index = write_index then do {
          b \<leftarrow> recycleRead (write_index - read_index) b;
          Some (b, d)
        }
        else if read_index < start_index then do {
          b \<leftarrow> recycleRead (start_index - read_index) b;
          decode_at b d (m_read_index b) (m_write_index b)
        }
        else decode_at b d start_index write_index
      })"

definition RpcCodeC_decode ::
  "tcp_buffer option \<Rightarrow> any_data option \<Rightarrow> (tcp_buffer option \<times> any_data option) option" where
  "RpcCodeC_decode bp dp =
     (case (bp, dp) of
        (Some b, Some (RpcData d)) \<Rightarrow>
          map_option (\<lambda>(b, d). (Some b, Some (RpcData d))) (rpc_decode b d)
      | _ \<Rightarrow> Some (bp, dp))"

definition RpcCodeC_getProtocalType :: protocal_type where
  "RpcCodeC_getProtocalType = TinyPb_Protocal"

end
