(* ===== verification/RpcWire.thy ===== *)
theory RpcWire
  imports RpcCodec
begin

text \<open>
  What the RPC codec promises. An abstract parser \<^term>\<open>wire_step\<close> on byte lists says which bytes a
  call of \<open>decode\<close> removes and which packet it delivers; the index-and-cursor code of
  \<open>RpcCodec\<close> implements it on every well-formed buffer, so it never reads outside the vector. The
  frame \<open>encode\<close> writes is the one the parser reads: round trip, half packets, sticky packets and
  resynchronisation are then facts about byte lists.
\<close>

section \<open>The abstract parser\<close>

record packet =
  pk_no :: string
  pk_service :: string
  pk_method :: string
  pk_code :: i32
  pk_info :: string
  pk_data :: bytes

definition take_i32 :: "bytes \<Rightarrow> (i32 \<times> bytes) option" where
  "take_i32 xs = (if length xs < 4 then None else Some (be32_val (take 4 xs), drop 4 xs))"

definition take_str :: "bool \<Rightarrow> bytes \<Rightarrow> (string \<times> bytes) option" where
  "take_str nonempty xs = do {
     (n, xs) \<leftarrow> take_i32 xs;
     if sint n < (if nonempty then 1 else 0) \<or> int (length xs) < sint n then None
     else Some (take (nat (sint n)) xs, drop (nat (sint n)) xs)
   }"

definition take_fields :: "bytes \<Rightarrow> (string \<times> string \<times> i32 \<times> string \<times> bytes) option" where
  "take_fields xs = do {
     (no, xs) \<leftarrow> take_str True xs;
     (full_name, xs) \<leftarrow> take_str True xs;
     (code, xs) \<leftarrow> take_i32 xs;
     (info, xs) \<leftarrow> take_str False xs;
     Some (no, full_name, code, info, xs)
   }"

definition split_name :: "string \<Rightarrow> (string \<times> string) option" where
  "split_name full_name =
     (case rfind_char (CHR ''.'') full_name of
        None \<Rightarrow> None
      | Some i \<Rightarrow> if i = 0 \<or> length full_name \<le> i + 1 then None
                  else Some (take i full_name, drop (i + 1) full_name))"

text \<open>The packet in a complete frame, if the frame is valid.\<close>

definition frame_packet :: "bytes \<Rightarrow> packet option" where
  "frame_packet frame = do {
     (no, full_name, code, info, pb) \<leftarrow> take_fields (drop 5 (take (length frame - 5) frame));
     (svc, meth) \<leftarrow> split_name full_name;
     if be32_val (take 4 (drop (length frame - 5) frame)) \<noteq> kChecksumPlaceholder then None
     else Some \<lparr>pk_no = no, pk_service = svc, pk_method = meth, pk_code = code,
                pk_info = info, pk_data = pb\<rparr>
   }"

text \<open>One call: how many bytes go, and the packet that comes out.\<close>

definition wire_at :: "bytes \<Rightarrow> nat \<times> packet option" where
  "wire_at xs =
     (let len = sint (be32_val (take 4 (drop 1 xs))) in
      if length xs < 5 then (0, None)
      else if len < int kMinPacketLen \<or> int kMaxPacketLen < len then (1, None)
      else if int (length xs) < len then (0, None)
      else if xs ! (nat len - 1) \<noteq> kPacketEnd then (1, None)
      else (nat len, frame_packet (take (nat len) xs)))"

definition wire_step :: "bytes \<Rightarrow> nat \<times> packet option" where
  "wire_step bs =
     (let (n, p) = wire_at (dropWhile (\<lambda>c. c \<noteq> kPacketStart) bs)
      in (length (takeWhile (\<lambda>c. c \<noteq> kPacketStart) bs) + n, p))"

definition deliver :: "rpc_struct \<Rightarrow> packet option \<Rightarrow> rpc_struct" where
  "deliver d p =
     (case p of
        None \<Rightarrow> d\<lparr>decode_succ := False\<rparr>
      | Some p \<Rightarrow> d\<lparr>decode_succ := True, msg_no := pk_no p, service_name := pk_service p,
                   method_name := pk_method p, pb_data := pk_data p, err_code := pk_code p,
                   err_info := pk_info p\<rparr>)"

section \<open>The code implements the parser\<close>

subsection \<open>The readers\<close>

lemma valid_bind_simps [simp]:
  "valid_bind None f = None" "valid_bind (Some None) f = Some None"
  "valid_bind (Some (Some x)) f = f x"
  by (simp_all add: valid_bind_def)

text \<open>
  A reader of the code refines a consuming reader: it stays in the vector, fails when the other
  fails, and otherwise their results are related.
\<close>

definition refines :: "('a \<Rightarrow> 'b \<Rightarrow> bool) \<Rightarrow> 'a option option \<Rightarrow> 'b option \<Rightarrow> bool" where
  "refines P m a \<longleftrightarrow> (\<exists>m'. m = Some m' \<and> rel_option P m' a)"

lemma refinesI [intro]: "P x y \<Longrightarrow> refines P (Some (Some x)) (Some y)"
  by (simp add: refines_def)

lemma refines_None [simp]: "refines P (Some None) None"
  by (simp add: refines_def)

lemma refines_bind:
  assumes "refines P m a" and "\<And>x y. P x y \<Longrightarrow> refines Q (f x) (g y)"
  shows "refines Q (valid_bind m f) (Option.bind a g)"
  using assms by (cases a) (auto simp: refines_def option_rel_Some2)

text \<open>The cursor of the code against the bytes that are left before \<open>limit\<close>.\<close>

definition region :: "bytes \<Rightarrow> nat \<Rightarrow> nat \<Rightarrow> bytes" where
  "region buf limit j = drop j (take limit buf)"

definition at_cursor :: "bytes \<Rightarrow> nat \<Rightarrow> 'a \<times> nat \<Rightarrow> 'a \<times> bytes \<Rightarrow> bool" where
  "at_cursor buf limit x y \<longleftrightarrow>
     fst x = fst y \<and> snd x \<le> limit \<and> snd y = region buf limit (snd x)"

lemma length_region [simp]: "limit \<le> length buf \<Longrightarrow> length (region buf limit j) = limit - j"
  by (simp add: region_def)

lemma drop_region [simp]: "drop k (region buf limit j) = region buf limit (j + k)"
  by (simp add: region_def add.commute)

lemma take_region: "j + k \<le> limit \<Longrightarrow> take k (region buf limit j) = take k (drop j buf)"
  by (simp add: region_def drop_take min_absorb1)

lemma ReadInt32_refines:
  assumes "limit \<le> length buf"
  shows "refines (\<lambda>v (w, rest). v = w \<and> j + 4 \<le> limit \<and> rest = region buf limit (j + 4))
           (ReadInt32 buf j limit) (take_i32 (region buf limit j))"
proof (cases "j + 4 \<le> limit")
  case True
  then show ?thesis
    using assms by (auto simp: ReadInt32_def take_i32_def take_region)
next
  case False
  then have "limit - j < 4" by linarith
  then show ?thesis using assms by (simp add: ReadInt32_def take_i32_def)
qed

lemma ReadString_refines:
  assumes "limit \<le> length buf" "j \<le> limit" "0 \<le> n"
  shows "refines (at_cursor buf limit) (ReadString buf j limit n)
           (if int (limit - j) < n then None
            else Some (take (nat n) (region buf limit j), region buf limit (j + nat n)))"
proof (cases "int (limit - j) < n")
  case True
  then show ?thesis using assms by (simp add: ReadString_def of_nat_diff)
next
  case False
  then have "j + nat n \<le> limit" using assms(2,3) by linarith
  then show ?thesis
    using False assms by (auto simp: ReadString_def take_region at_cursor_def of_nat_diff)
qed

lemma ReadField_refines:
  assumes "limit \<le> length buf"
  shows "refines (at_cursor buf limit) (ReadField ne buf j limit)
           (take_str ne (region buf limit j))"
  unfolding ReadField_def take_str_def
proof (rule refines_bind [OF ReadInt32_refines [OF assms]])
  fix v :: i32 and y
  assume "case y of (w, rest) \<Rightarrow> v = w \<and> j + 4 \<le> limit \<and> rest = region buf limit (j + 4)"
  then have y: "y = (v, region buf limit (j + 4))" "j + 4 \<le> limit" by auto
  show "refines (at_cursor buf limit)
     (if ne \<and> \<not> 0 < sint v then Some None else ReadString buf (j + 4) limit (sint v))
     (case y of (n, xs) \<Rightarrow>
        if sint n < (if ne then 1 else 0) \<or> int (length xs) < sint n then None
        else Some (take (nat (sint n)) xs, drop (nat (sint n)) xs))"
  proof (cases "sint v < (if ne then 1 else 0)")
    case True
    then show ?thesis by (auto simp: y(1) ReadString_def split: if_splits)
  next
    case False
    then have v: "0 \<le> sint v" "\<not> (ne \<and> \<not> 0 < sint v)" by (auto split: if_splits)
    with ReadString_refines [OF assms y(2) v(1)] False assms show ?thesis
      by (simp only: y(1) prod.case length_region [OF assms] drop_region if_False simp_thms)
  qed
qed

lemma read_fields_refines:
  assumes "limit \<le> length buf"
  shows "refines (\<lambda>(no, full, code, info, j) (no', full', code', info', rest).
             no = no' \<and> full = full' \<and> code = code' \<and> info = info' \<and> j \<le> limit
             \<and> rest = region buf limit j)
           (read_fields buf j limit) (take_fields (region buf limit j))"
  unfolding read_fields_def take_fields_def
  by (rule refines_bind [OF ReadField_refines [OF assms]]
        refines_bind [OF ReadInt32_refines [OF assms]] refinesI
      | clarsimp simp: at_cursor_def)+

subsection \<open>The search and the frame\<close>

lemma contents_region: "contents b = region (m_buffer b) (m_write_index b) (m_read_index b)"
  by (simp add: contents_def region_def)

lemma scan_start_eq:
  "w \<le> length buf \<Longrightarrow> i \<le> w \<Longrightarrow>
     scan_start buf i w = Some (i + length (takeWhile (\<lambda>c. c \<noteq> kPacketStart) (region buf w i)))"
proof (induction buf i w rule: scan_start.induct)
  case (1 buf i w)
  show ?case
  proof (cases "i < w")
    case True
    then have "region buf w i = buf ! i # region buf w (Suc i)"
      using "1.prems" by (simp add: region_def Cons_nth_drop_Suc [symmetric])
    with 1 True show ?thesis by (simp add: scan_start.simps [of buf i w])
  next
    case False
    with "1.prems" have "i = w" by simp
    then show ?thesis by (simp add: scan_start.simps [of buf w w] region_def)
  qed
qed

definition implements ::
  "(tcp_buffer \<times> rpc_struct) option \<Rightarrow> tcp_buffer \<Rightarrow> rpc_struct \<Rightarrow> nat \<times> packet option \<Rightarrow> bool" where
  "implements r b d step \<longleftrightarrow>
     (\<exists>b'. r = Some (b', deliver d (snd step)) \<and> buf_ok b'
        \<and> contents b' = drop (fst step) (contents b))"

lemma implements_consume:
  assumes "buf_ok b" "n \<le> length (contents b)" "\<not> decode_succ d"
  shows "implements (map_option (\<lambda>b. (b, d)) (recycleRead n b)) b d (n, None)"
  using recycleRead_ok [OF assms(1,2)] assms(3) by (auto simp: implements_def deliver_def)

lemma implements_stay:
  "buf_ok b \<Longrightarrow> \<not> decode_succ d \<Longrightarrow> implements (Some (b, d)) b d (0, None)"
  by (simp add: implements_def deliver_def)

lemma decode_frame_implements:
  assumes ok: "buf_ok b" and d: "\<not> decode_succ d"
    and n: "kMinPacketLen \<le> n" "n \<le> length (contents b)"
  shows "implements (decode_frame b d (m_read_index b) n) b d
           (n, frame_packet (take n (contents b)))"
proof -
  let ?buf = "m_buffer b" and ?r = "m_read_index b"
  let ?ci = "?r + n - 1 - 4" and ?frame = "take n (contents b)"
  have bounds: "26 \<le> n" "?r + n \<le> length ?buf" "?ci \<le> length ?buf"
    using ok n by (auto simp: kMinPacketLen_def buf_ok_def length_contents)
  have "?r + n \<le> m_write_index b" using n bounds(1) ok by (simp add: length_contents buf_ok_def)
  then have fr: "?frame = take n (drop ?r ?buf)"
    by (simp add: contents_region take_region)
  have ix: "?ci \<le> ?r + n - 1" "?r + n - 1 - ?ci = 4" "?r + (n - 5) = ?ci" "?ci + 4 \<le> length ?buf"
    using bounds by linarith+
  have reg: "region ?buf ?ci (?r + 1 + 4) = drop 5 (take (length ?frame - 5) ?frame)"
    using bounds n(2) by (simp add: fr region_def drop_take)
  have chk: "ReadInt32 ?buf ?ci (?r + n - 1) = Some (Some (be32_val (take 4 (drop (length ?frame - 5) ?frame))))"
  proof -
    have "take 4 (drop (n - 5) ?frame) = take 4 (drop ?ci ?buf)"
      using bounds(1) ix(3) by (simp add: fr drop_take min_absorb1 add.commute)
    moreover have "length ?frame = n" using n(2) by simp
    ultimately show ?thesis using ix
      unfolding ReadInt32_def by (simp only: if_False linorder_not_less slice_in_bounds option.map) simp
  qed
  note consume = implements_consume [OF ok n(2) d]
  from read_fields_refines [OF bounds(3), of "?r + 1 + 4"]
  show ?thesis
  proof (cases "take_fields (drop 5 (take (length ?frame - 5) ?frame))")
    case None
    then have "read_fields ?buf (?r + 1 + 4) ?ci = Some None"
      using read_fields_refines [OF bounds(3), of "?r + 1 + 4"]
      unfolding reg None refines_def by simp
    then show ?thesis using consume None by (simp add: decode_frame_def frame_packet_def)
  next
    case (Some y)
    then obtain no full code info rest where
      y: "take_fields (drop 5 (take (length ?frame - 5) ?frame)) = Some (no, full, code, info, rest)"
      by (cases y) auto
    obtain j where j: "read_fields ?buf (?r + 1 + 4) ?ci = Some (Some (no, full, code, info, j))"
      "j \<le> ?ci" "rest = region ?buf ?ci j"
      using read_fields_refines [OF bounds(3), of "?r + 1 + 4"]
      unfolding reg y refines_def by (auto simp: option_rel_Some2)
    have pb: "slice ?buf j (?r + n - (5 + j)) = Some rest"
      using j(2,3) bounds(3) by (simp add: region_def drop_take)
    obtain b' where b': "recycleRead n b = Some b'" "buf_ok b'" "contents b' = drop n (contents b)"
      using recycleRead_ok [OF ok n(2)] by blast
    show ?thesis
      using d b'(2,3)
      unfolding decode_frame_def frame_packet_def Let_def j(1) y chk b'(1)
      by (auto simp: pb split_name_def implements_def deliver_def substr_def split: option.splits)
  qed
qed

lemma decode_at_implements:
  assumes ok: "buf_ok b" and d: "\<not> decode_succ d"
  shows "implements (decode_at b d (m_read_index b) (m_write_index b)) b d (wire_at (contents b))"
proof -
  let ?buf = "m_buffer b" and ?r = "m_read_index b" and ?w = "m_write_index b"
  let ?xs = "contents b"
  let ?v = "be32_val (take 4 (drop 1 ?xs))"
  have w: "?r \<le> ?w" "?w \<le> length ?buf" using ok by (auto simp: buf_ok_def)
  have avail: "int ?w - int ?r = int (length ?xs)" using w by (simp add: length_contents [OF ok])
  note stay = implements_stay [OF ok d]
  show ?thesis
  proof (cases "length ?xs < 5")
    case True
    then show ?thesis using stay by (simp add: decode_at_def wire_at_def avail)
  next
    case long: False
    then have "take 4 (drop 1 ?xs) = take 4 (drop (?r + 1) ?buf)"
      using w by (simp add: contents_region take_region length_contents [OF ok])
    moreover have "?r + 1 + 4 \<le> ?w" using long w(1) unfolding length_contents [OF ok] by linarith
    then have "\<not> (?w < ?r + 1 \<or> ?w - (?r + 1) < 4)" "?r + 1 + 4 \<le> length ?buf"
      using w(2) by linarith+
    ultimately have rd: "ReadInt32 ?buf (?r + 1) ?w = Some (Some ?v)"
      unfolding ReadInt32_def by (simp only: if_False slice_in_bounds option.map)
    have one: "implements (map_option (\<lambda>b. (b, d)) (recycleRead 1 b)) b d (1, None)"
      using long by (intro implements_consume [OF ok _ d]) linarith
    show ?thesis
    proof (cases "sint ?v < int kMinPacketLen \<or> int kMaxPacketLen < sint ?v \<or> int (length ?xs) < sint ?v")
      case True
      then show ?thesis using long stay one
        by (auto simp: decode_at_def wire_at_def avail rd [simplified])
    next
      case False
      let ?n = "nat (sint ?v)"
      have n: "kMinPacketLen \<le> ?n" "?n \<le> length ?xs" using False by linarith+
      have "26 \<le> ?n" using n(1) by (simp add: kMinPacketLen_def)
      then have "?r + ?n - 1 < ?w" "?n - 1 < length ?xs" "?r + ?n - 1 = ?r + (?n - 1)"
        using n(2) w by (simp_all add: length_contents [OF ok])
      then have end_byte: "slice ?buf (?r + ?n - 1) 1 = Some [?xs ! (?n - 1)]"
        using w by (simp add: contents_def take_Suc_conv_app_nth take_Suc hd_drop_conv_nth)
      show ?thesis using False long one decode_frame_implements [OF ok d n]
        by (simp add: decode_at_def wire_at_def avail rd [simplified] end_byte [simplified] Let_def)
    qed
  qed
qed

text \<open>The refinement: on every well-formed buffer \<open>decode\<close> does what the parser says.\<close>

theorem rpc_decode_implements:
  assumes ok: "buf_ok b"
  shows "implements (rpc_decode b d) b d (wire_step (contents b))"
proof -
  let ?d = "d\<lparr>decode_succ := False\<rparr>" and ?xs = "contents b"
  let ?k = "length (takeWhile (\<lambda>c. c \<noteq> kPacketStart) ?xs)"
  let ?ys = "dropWhile (\<lambda>c. c \<noteq> kPacketStart) ?xs"
  have w: "m_read_index b \<le> m_write_index b" "m_write_index b \<le> length (m_buffer b)"
    using ok by (auto simp: buf_ok_def)
  have scan: "scan_start (m_buffer b) (m_read_index b) (m_write_index b) = Some (m_read_index b + ?k)"
    using scan_start_eq [OF w(2,1)] by (simp add: contents_region)
  have len: "m_write_index b - m_read_index b = length ?xs" by (simp add: length_contents [OF ok])
  have k: "?k \<le> length ?xs" by (rule length_takeWhile_le)
  have ys: "?ys = drop ?k ?xs" by (rule dropWhile_eq_drop)
  obtain b1 where b1: "recycleRead ?k b = Some b1" "buf_ok b1" "contents b1 = ?ys"
    using recycleRead_ok [OF ok k] by (auto simp: ys)
  have same: "deliver ?d p = deliver d p" for p
    by (simp add: deliver_def split: option.split)
  show ?thesis
  proof (cases "?k = length ?xs")
    case True
    then have nil: "?ys = []" unfolding ys by (simp only: drop_all order_refl)
    have "wire_step ?xs = (length ?xs, None)"
      unfolding wire_step_def nil True by (simp add: wire_at_def)
    moreover have "contents b1 = []" using b1(3) nil by simp
    moreover have "m_read_index b + ?k = m_write_index b" using True len w(1) by linarith
    ultimately show ?thesis using b1(1,2) True
      by (simp add: rpc_decode_def scan len implements_def deliver_def)
  next
    case False
    then have "m_read_index b + ?k \<noteq> m_write_index b" using len w(1) k by linarith
    moreover have "implements (decode_at b1 ?d (m_read_index b1) (m_write_index b1)) b1 ?d (wire_at ?ys)"
      using decode_at_implements [OF b1(2), of ?d] b1(3) by simp
    moreover have "?k = 0 \<Longrightarrow> ?ys = ?xs" by (simp add: ys)
    moreover have "implements (decode_at b ?d (m_read_index b) (m_write_index b)) b ?d (wire_at ?xs)"
      using decode_at_implements [OF ok, of ?d] by simp
    ultimately show ?thesis
      using b1 by (cases "?k = 0")
        (auto simp: rpc_decode_def scan implements_def wire_step_def same ys add.commute split: prod.splits)
  qed
qed

end
