(* ===== verification/RpcFrame.thy ===== *)
theory RpcFrame
  imports RpcWire
begin

text \<open>
  The frame \<open>encode\<close> writes, as one expression, and what \<open>decode\<close> makes of it: the round trip,
  incomplete frames, several frames in one buffer, and bytes that are not a frame. Ends with the
  interpretation of the \<open>codec\<close> contract.
\<close>

section \<open>The frame as one expression\<close>

definition packet_of :: "rpc_struct \<Rightarrow> packet" where
  "packet_of d = \<lparr>pk_no = msg_no d, pk_service = service_name d, pk_method = method_name d,
     pk_code = err_code d, pk_info = err_info d, pk_data = pb_data d\<rparr>"

definition full_name_of :: "packet \<Rightarrow> string" where
  "full_name_of p = pk_service p @ ''.'' @ pk_method p"

definition frame_len :: "packet \<Rightarrow> nat" where
  "frame_len p = kMinPacketLen + length (pk_no p) + length (full_name_of p)
                   + length (pk_info p) + length (pk_data p)"

definition str_field :: "string \<Rightarrow> bytes" where
  "str_field s = be32 (word_of_nat (length s)) @ s"

definition frame_fields :: "packet \<Rightarrow> bytes" where
  "frame_fields p = str_field (pk_no p) @ str_field (full_name_of p) @ be32 (pk_code p)
                      @ str_field (pk_info p) @ pk_data p"

definition frame_of :: "packet \<Rightarrow> bytes" where
  "frame_of p = kPacketStart # be32 (word_of_nat (frame_len p)) @ frame_fields p
                  @ be32 kChecksumPlaceholder @ [kPacketEnd]"

lemma length_str_field [simp]: "length (str_field s) = 4 + length s"
  by (simp add: str_field_def)

lemma length_frame_fields: "length (frame_fields p) + 10 = frame_len p"
  by (simp add: frame_fields_def frame_len_def kMinPacketLen_def)

lemma length_frame_of [simp]: "length (frame_of p) = frame_len p"
  using length_frame_fields [of p] by (simp add: frame_of_def)

lemma frame_len_ge: "kMinPacketLen \<le> frame_len p"
  by (simp add: frame_len_def)

section \<open>\<open>encode\<close> writes it\<close>

text \<open>The frame under construction: the bytes written so far, and zeros up to the end.\<close>

definition partial :: "nat \<Rightarrow> bytes \<Rightarrow> bytes \<times> nat" where
  "partial n xs = (xs @ replicate (n - length xs) (CHR 0x00), length xs)"

lemma partial_Nil: "(replicate n (CHR 0x00), 0) = partial n []"
  by (simp add: partial_def)

lemma WriteBytes_partial [codec_simps]:
  assumes "length xs + length src \<le> n"
  shows "WriteBytes src (partial n xs) = Some (partial n (xs @ src))"
proof -
  have "n - (length xs + length src) = n - length xs - length src" by simp
  then show ?thesis using assms by (simp add: WriteBytes_def partial_def)
qed

lemma Write_partial [codec_simps]:
  "length xs + 4 \<le> n \<Longrightarrow> WriteInt32 v (partial n xs) = Some (partial n (xs @ be32 v))"
  "length xs + length s \<le> n \<Longrightarrow> WriteString s (partial n xs) = Some (partial n (xs @ s))"
  "length xs + 1 \<le> n \<Longrightarrow> WriteChar c (partial n xs) = Some (partial n (xs @ [c]))"
  by (simp_all add: WriteInt32_def WriteString_def WriteChar_def WriteBytes_partial)

lemma write_frame:
  assumes "n = 26 + length no + length full + length info + length pb"
  shows "do {
     st \<leftarrow> WriteChar c (replicate n (CHR 0x00), 0);
     st \<leftarrow> WriteInt32 len st;
     st \<leftarrow> WriteInt32 l1 st;
     st \<leftarrow> WriteString no st;
     st \<leftarrow> WriteInt32 l2 st;
     st \<leftarrow> WriteString full st;
     st \<leftarrow> WriteInt32 code st;
     st \<leftarrow> WriteInt32 l3 st;
     st \<leftarrow> WriteString info st;
     st \<leftarrow> WriteString pb st;
     st \<leftarrow> WriteInt32 chk st;
     st \<leftarrow> WriteChar c' st;
     f st
   } = (let frame = c # be32 len @ (be32 l1 @ no) @ (be32 l2 @ full) @ be32 code @ (be32 l3 @ info)
                      @ pb @ be32 chk @ [c'] in f (frame, length frame))"
  unfolding partial_Nil using assms by (simp add: codec_simps) (simp add: partial_def)

text \<open>\<open>d\<close> with the message number that \<open>encode\<close> gives it.\<close>

definition numbered :: "string \<Rightarrow> rpc_struct \<Rightarrow> rpc_struct" where
  "numbered fresh d = (if msg_no d = [] then d\<lparr>msg_no := fresh\<rparr> else d)"

lemma encodePbData_result:
  "encodePbData fresh d =
     (if service_name d = [] \<or> method_name d = [] then Some (d\<lparr>encode_succ := False\<rparr>, [], False)
      else if kMaxPacketLen < frame_len (packet_of (numbered fresh d))
      then Some ((numbered fresh d)\<lparr>encode_succ := False\<rparr>, [], False)
      else Some ((numbered fresh d)\<lparr>encode_succ := True\<rparr>, frame_of (packet_of (numbered fresh d)), True))"
proof -
  define e where "e = numbered fresh (d\<lparr>encode_succ := False\<rparr>)"
  have e: "e = (numbered fresh d)\<lparr>encode_succ := False\<rparr>" "e\<lparr>encode_succ := True\<rparr> = (numbered fresh d)\<lparr>encode_succ := True\<rparr>"
    "packet_of (numbered fresh d) = packet_of e"
    by (simp_all add: e_def numbered_def packet_of_def)
  have len: "kMinPacketLen + length (msg_no e) + length (service_name e @ ''.'' @ method_name e)
      + length (err_info e) + length (pb_data e) = frame_len (packet_of e)"
    by (simp add: frame_len_def full_name_of_def packet_of_def)
  let ?p = "packet_of e" and ?n = "frame_len (packet_of e)"
  have frame: "kPacketStart # be32 (word_of_nat ?n)
      @ (be32 (word_of_nat (length (msg_no e))) @ msg_no e)
      @ (be32 (word_of_nat (length (service_name e @ ''.'' @ method_name e)))
         @ service_name e @ ''.'' @ method_name e) @ be32 (err_code e)
      @ (be32 (word_of_nat (length (err_info e))) @ err_info e) @ pb_data e
      @ be32 kChecksumPlaceholder @ [kPacketEnd] = frame_of ?p"
    by (simp add: frame_of_def frame_fields_def str_field_def full_name_of_def packet_of_def)
  have n: "?n = 26 + length (msg_no e) + length (service_name e @ ''.'' @ method_name e)
      + length (err_info e) + length (pb_data e)"
    by (simp add: len [symmetric] kMinPacketLen_def)
  have "encodePbData fresh d =
     (if service_name d = [] \<or> method_name d = [] then Some (d\<lparr>encode_succ := False\<rparr>, [], False)
      else if kMaxPacketLen < ?n then Some (e, [], False)
      else Some (e\<lparr>encode_succ := True\<rparr>, frame_of ?p, True))"
    unfolding encodePbData_def Let_def
      numbered_def [of fresh "d\<lparr>encode_succ := False\<rparr>", folded e_def, symmetric]
      len write_frame [OF n] frame
    by (simp add: e_def numbered_def)
  then show ?thesis unfolding e(3) e(2) [symmetric] e(1) [symmetric] .
qed

section \<open>\<open>decode\<close> reads it\<close>

text \<open>Packets whose frame can be written and read back.\<close>

definition packet_ok :: "packet \<Rightarrow> bool" where
  "packet_ok p \<longleftrightarrow> pk_no p \<noteq> [] \<and> pk_service p \<noteq> [] \<and> pk_method p \<noteq> [] \<and> CHR ''.'' \<notin> set (pk_method p)
     \<and> frame_len p \<le> kMaxPacketLen"

lemma sint_of_length:
  assumes "n \<le> kMaxPacketLen"
  shows "sint (word_of_nat n :: i32) = int n"
proof -
  have "int n < 2 ^ 31" using assms by (simp add: kMaxPacketLen_def)
  then show ?thesis by (simp add: signed_of_nat signed_take_bit_int_eq_self)
qed

lemma take_i32_be32 [codec_simps]: "take_i32 (be32 w @ xs) = Some (w, xs)"
  by (simp add: take_i32_def)

lemma take_str_field [codec_simps]:
  assumes "length s \<le> kMaxPacketLen" "ne \<Longrightarrow> s \<noteq> []"
  shows "take_str ne (str_field s @ xs) = Some (s, xs)"
proof -
  have "0 < length s" if ne using assms(2) that by simp
  then have "\<not> int (length s) < (if ne then 1 else 0)" by auto
  then show ?thesis
    by (simp add: take_str_def str_field_def take_i32_be32 sint_of_length [OF assms(1)])
qed

lemma split_full_name:
  assumes "packet_ok p"
  shows "split_name (full_name_of p) = Some (pk_service p, pk_method p)"
  using assms by (simp add: split_name_def full_name_of_def packet_ok_def)

lemma frame_packet_frame_of:
  assumes "packet_ok p"
  shows "frame_packet (frame_of p) = Some p"
proof -
  have len: "length (pk_no p) \<le> kMaxPacketLen" "length (full_name_of p) \<le> kMaxPacketLen"
    "length (pk_info p) \<le> kMaxPacketLen"
    using assms by (auto simp: packet_ok_def frame_len_def)
  have ne: "pk_no p \<noteq> []" "full_name_of p \<noteq> []"
    using assms by (auto simp: packet_ok_def full_name_of_def)
  let ?body = "kPacketStart # be32 (word_of_nat (frame_len p)) @ frame_fields p"
  have cut: "length (frame_of p) - 5 = length ?body"
    using length_frame_fields [of p] by simp
  have frame: "frame_of p = ?body @ be32 kChecksumPlaceholder @ [kPacketEnd]"
    by (simp add: frame_of_def)
  have cuts: "take (length ?body) (frame_of p) = ?body"
    "drop (length ?body) (frame_of p) = be32 kChecksumPlaceholder @ [kPacketEnd]"
    unfolding frame by (metis append_eq_conv_conj)+
  have fields: "drop 5 (take (length ?body) (frame_of p)) = frame_fields p"
    unfolding cuts by simp
  have check: "take 4 (drop (length ?body) (frame_of p)) = be32 kChecksumPlaceholder"
    unfolding cuts by simp
  have "take_fields (frame_fields p) = Some (pk_no p, full_name_of p, pk_code p, pk_info p, pk_data p)"
    using len ne by (simp add: take_fields_def frame_fields_def codec_simps)
  then show ?thesis
    unfolding frame_packet_def cut fields check by (simp add: split_full_name [OF assms])
qed

lemma wire_step_frame:
  assumes "packet_ok p"
  shows "wire_step (frame_of p @ rest) = (frame_len p, Some p)"
proof -
  have max: "frame_len p \<le> kMaxPacketLen" using assms by (simp add: packet_ok_def)
  have min: "26 \<le> frame_len p" using frame_len_ge [of p] by (simp add: kMinPacketLen_def)
  have head: "take 4 (drop 1 (frame_of p @ rest)) = be32 (word_of_nat (frame_len p))"
    by (simp add: frame_of_def)
  have last: "(frame_of p @ rest) ! (frame_len p - 1) = kPacketEnd"
  proof -
    have "frame_len p - 1 = length (kPacketStart # be32 (word_of_nat (frame_len p)) @ frame_fields p
            @ be32 kChecksumPlaceholder)"
      using length_frame_fields [of p] by simp
    moreover have "frame_of p @ rest = (kPacketStart # be32 (word_of_nat (frame_len p)) @ frame_fields p
            @ be32 kChecksumPlaceholder) @ kPacketEnd # rest"
      by (simp add: frame_of_def)
    ultimately show ?thesis by (simp only: nth_append_length)
  qed
  have start: "dropWhile (\<lambda>c. c \<noteq> kPacketStart) (frame_of p @ rest) = frame_of p @ rest"
    "takeWhile (\<lambda>c. c \<noteq> kPacketStart) (frame_of p @ rest) = []"
    by (simp_all add: frame_of_def)
  have "wire_at (frame_of p @ rest) = (frame_len p, Some p)"
    unfolding wire_at_def Let_def head be32_val_be32 sint_of_length [OF max]
    using min max last by (simp add: kMinPacketLen_def frame_packet_frame_of [OF assms])
  then show ?thesis by (simp add: wire_step_def start)
qed

text \<open>A proper prefix of a frame is left alone.\<close>

lemma wire_step_half:
  assumes "packet_ok p" "n < frame_len p"
  shows "wire_step (take n (frame_of p)) = (0, None)"
proof -
  have max: "frame_len p \<le> kMaxPacketLen" using assms by (simp add: packet_ok_def)
  have min: "26 \<le> frame_len p" using frame_len_ge [of p] by (simp add: kMinPacketLen_def)
  have len: "length (take n (frame_of p)) = n" using assms(2) by simp
  show ?thesis
  proof (cases "n = 0")
    case False
    have start: "dropWhile (\<lambda>c. c \<noteq> kPacketStart) (take n (frame_of p)) = take n (frame_of p)"
      "takeWhile (\<lambda>c. c \<noteq> kPacketStart) (take n (frame_of p)) = []"
      using False by (cases n; simp add: frame_of_def)+
    have "wire_at (take n (frame_of p)) = (0, None)"
    proof (cases "n < 5")
      case False
      then have head: "take 4 (drop 1 (take n (frame_of p))) = be32 (word_of_nat (frame_len p))"
        by (cases n) (simp_all add: frame_of_def)
      show ?thesis
        unfolding wire_at_def Let_def head len be32_val_be32 sint_of_length [OF max]
        using min max assms(2) by (simp add: kMinPacketLen_def)
    qed (use assms(2) in \<open>simp add: wire_at_def Let_def\<close>)
    then show ?thesis by (simp add: wire_step_def start)
  qed (simp add: wire_step_def wire_at_def)
qed

text \<open>Bytes before the first start byte are skipped.\<close>

lemma wire_step_garbage:
  assumes "kPacketStart \<notin> set junk"
  shows "wire_step (junk @ xs) = map_prod ((+) (length junk)) id (wire_step xs)"
proof -
  have *: "\<forall>c\<in>set junk. c \<noteq> kPacketStart" using assms by blast
  then have "dropWhile (\<lambda>c. c \<noteq> kPacketStart) (junk @ xs) = dropWhile (\<lambda>c. c \<noteq> kPacketStart) xs"
    "takeWhile (\<lambda>c. c \<noteq> kPacketStart) (junk @ xs) = junk @ takeWhile (\<lambda>c. c \<noteq> kPacketStart) xs"
    by (simp_all add: dropWhile_append2 takeWhile_append2)
  then show ?thesis by (simp add: wire_step_def split: prod.split)
qed

section \<open>The contract of a codec\<close>

lemma wire_at_le: "fst (wire_at xs) \<le> length xs"
  by (auto simp: wire_at_def Let_def)

lemma wire_step_le: "fst (wire_step xs) \<le> length xs"
proof -
  have "length (takeWhile (\<lambda>c. c \<noteq> kPacketStart) xs) + length (dropWhile (\<lambda>c. c \<noteq> kPacketStart) xs)
      = length xs"
    by (metis length_append takeWhile_dropWhile_id)
  then show ?thesis
    using wire_at_le [of "dropWhile (\<lambda>c. c \<noteq> kPacketStart) xs"]
    by (cases "wire_at (dropWhile (\<lambda>c. c \<noteq> kPacketStart) xs)") (simp add: wire_step_def)
qed

lemma wire_step_progress: "snd (wire_step xs) = Some p \<Longrightarrow> kMinPacketLen \<le> fst (wire_step xs)"
  by (auto simp: wire_step_def wire_at_def Let_def split: prod.splits if_splits)

lemma deliver_succ [simp]: "decode_succ (deliver d p) \<longleftrightarrow> p \<noteq> None"
  by (cases p) (simp_all add: deliver_def)

lemma rpc_decode_step:
  assumes "buf_ok b"
  shows "\<exists>b'. rpc_decode b d = Some (b', deliver d (snd (wire_step (contents b)))) \<and> buf_ok b'
           \<and> contents b' = drop (fst (wire_step (contents b))) (contents b)"
  using rpc_decode_implements [OF assms, of d] by (simp add: implements_def)

definition rpc_parse :: "rpc_struct \<Rightarrow> bytes \<Rightarrow> nat \<times> rpc_struct" where
  "rpc_parse d bs = (fst (wire_step bs), deliver d (snd (wire_step bs)))"

interpretation rpc: packet_codec rpc_decode decode_succ rpc_parse
proof
  fix b and d :: rpc_struct and bs
  show "buf_ok b \<Longrightarrow> \<exists>b'. rpc_decode b d = Some (b', snd (rpc_parse d (contents b))) \<and> buf_ok b'
      \<and> contents b' = drop (fst (rpc_parse d (contents b))) (contents b)"
    by (simp add: rpc_parse_def rpc_decode_step)
  show "fst (rpc_parse d bs) \<le> length bs" by (simp add: rpc_parse_def wire_step_le)
  show "decode_succ (snd (rpc_parse d bs)) \<Longrightarrow> 0 < fst (rpc_parse d bs)"
    using wire_step_progress [of bs] by (fastforce simp: rpc_parse_def kMinPacketLen_def)
qed

section \<open>Properties\<close>

text \<open>
  C2: Round trip. A complete packet whose method name has no dot and whose frame is not over the
  limit is written behind what the buffer holds, with the flag set; a buffer that starts with that
  frame is decoded to the same packet, and exactly the frame is removed.
\<close>

theorem rpc_roundtrip:
  assumes "buf_ok b" "packet_ok (packet_of d)"
    and "buf_ok rb" "contents rb = frame_of (packet_of d) @ rest"
  shows "(\<exists>b'. rpc_encode fresh b d = Some (b', d\<lparr>encode_succ := True\<rparr>) \<and> buf_ok b'
           \<and> contents b' = contents b @ frame_of (packet_of d))
    \<and> (\<exists>rb' d'. rpc_decode rb d0 = Some (rb', d') \<and> decode_succ d' \<and> packet_of d' = packet_of d
           \<and> buf_ok rb' \<and> contents rb' = rest)" (is "?enc \<and> ?dec")
proof
  have d: "numbered fresh d = d" "service_name d \<noteq> []" "method_name d \<noteq> []"
    "\<not> kMaxPacketLen < frame_len (packet_of d)"
    using assms(2) by (auto simp: packet_ok_def packet_of_def numbered_def)
  show ?enc
    using writeToBuffer_ok [OF assms(1), of "frame_of (packet_of d)"] d
    by (auto simp: rpc_encode_def encodePbData_result)
  have "packet_of (deliver d0 (Some p)) = p" for p by (simp add: deliver_def packet_of_def)
  then show ?dec
    using rpc_decode_step [OF assms(3), of d0] wire_step_frame [OF assms(2), of rest]
    by (auto simp: assms(4))
qed

definition sample_rpc :: rpc_struct where
  "sample_rpc = RpcStruct\<lparr>msg_no := ''17'', service_name := ''User'', method_name := ''Login'', pb_data := ''x.y''\<rparr>"

lemma packet_ok_sample: "packet_ok (packet_of sample_rpc)"
  by (simp add: packet_ok_def packet_of_def sample_rpc_def frame_len_def full_name_of_def RpcStruct_def
      kMinPacketLen_def kMaxPacketLen_def)

theorem rpc_roundtrip_witness:
  "(\<exists>b'. rpc_encode [] (TcpBuffer 8) sample_rpc = Some (b', sample_rpc\<lparr>encode_succ := True\<rparr>) \<and> buf_ok b'
       \<and> contents b' = frame_of (packet_of sample_rpc))
   \<and> (\<exists>rb' d'. rpc_decode (loaded (frame_of (packet_of sample_rpc) @ ''..'')) RpcStruct = Some (rb', d')
       \<and> decode_succ d' \<and> packet_of d' = packet_of sample_rpc \<and> buf_ok rb' \<and> contents rb' = ''..'')"
  using rpc_roundtrip [OF buf_ok_TcpBuffer [of 8] packet_ok_sample loaded_ok(1) loaded_ok(2),
      where fresh = "[]" and ?d0.0 = RpcStruct]
  by simp

text \<open>
  C6: \<open>decode\<close> is the parser, on every input. Whatever bytes a well-formed buffer holds, \<open>decode\<close>
  stays inside the vector, delivers the packet the parser finds in the contents or reports failure,
  removes the bytes the parser says, and never removes fewer than a minimal frame for a packet.
\<close>

theorem rpc_decode_is_parser:
  assumes "buf_ok b"
  shows "\<exists>b'. rpc_decode b d = Some (b', deliver d (snd (wire_step (contents b)))) \<and> buf_ok b'
           \<and> contents b' = drop (fst (wire_step (contents b))) (contents b)
           \<and> fst (wire_step (contents b)) \<le> length (contents b)
           \<and> (snd (wire_step (contents b)) \<noteq> None \<longrightarrow> kMinPacketLen \<le> fst (wire_step (contents b)))"
  using rpc_decode_step [OF assms, of d] wire_step_le [of "contents b"] wire_step_progress [of "contents b"]
  by blast

theorem rpc_decode_is_parser_witness:
  "\<exists>b'. rpc_decode (TcpBuffer 3) RpcStruct = Some (b', deliver RpcStruct None) \<and> contents b' = []"
  using rpc_decode_is_parser [OF buf_ok_TcpBuffer, of 3 RpcStruct]
  by (auto simp: wire_step_def wire_at_def)

text \<open>
  Half packets. A proper prefix of a frame is left in the buffer untouched, and the object
  reports failure: the packet is decoded when the rest has arrived.
\<close>

theorem rpc_half_packet:
  assumes "packet_ok p" "n < frame_len p" "buf_ok b" "contents b = take n (frame_of p)"
  shows "\<exists>b'. rpc_decode b d = Some (b', d\<lparr>decode_succ := False\<rparr>) \<and> buf_ok b' \<and> contents b' = contents b"
  using rpc_decode_step [OF assms(3), of d] wire_step_half [OF assms(1,2)]
  by (simp add: assms(4) deliver_def)

theorem rpc_half_packet_witness:
  "\<exists>b'. rpc_decode (loaded (take 20 (frame_of (packet_of sample_rpc)))) RpcStruct
     = Some (b', RpcStruct\<lparr>decode_succ := False\<rparr>) \<and> buf_ok b'
     \<and> contents b' = take 20 (frame_of (packet_of sample_rpc))"
proof -
  have len: "20 < frame_len (packet_of sample_rpc)"
    using frame_len_ge [of "packet_of sample_rpc"] by (simp add: kMinPacketLen_def)
  show ?thesis
    using rpc_half_packet [OF packet_ok_sample len loaded_ok(1) loaded_ok(2), of RpcStruct]
    by (simp only: loaded_ok)
qed

text \<open>
  C37: Resynchronisation. Bytes without a start byte in front of a frame are skipped, and the frame
  behind them is decoded in the same call.
\<close>

theorem rpc_skips_garbage:
  assumes "kPacketStart \<notin> set junk" "packet_ok p" "buf_ok b" "contents b = junk @ frame_of p @ rest"
  shows "\<exists>b' d'. rpc_decode b d = Some (b', d') \<and> decode_succ d' \<and> packet_of d' = p \<and> buf_ok b'
           \<and> contents b' = rest"
proof -
  have "wire_step (contents b) = (length junk + frame_len p, Some p)"
    by (simp add: assms(4) wire_step_garbage [OF assms(1)] wire_step_frame [OF assms(2)])
  moreover have "packet_of (deliver d (Some p)) = p" by (simp add: deliver_def packet_of_def)
  ultimately show ?thesis using rpc_decode_step [OF assms(3), of d] assms(4) by auto
qed

theorem rpc_skips_garbage_witness:
  "\<exists>b' d'. rpc_decode (loaded (''ab'' @ frame_of (packet_of sample_rpc))) RpcStruct = Some (b', d')
     \<and> decode_succ d' \<and> packet_of d' = packet_of sample_rpc \<and> buf_ok b' \<and> contents b' = []"
  by (rule rpc_skips_garbage [OF _ packet_ok_sample loaded_ok(1), of "''ab''"])
    (simp_all add: kPacketStart_def)

end
