(* ===== verification/StringUtil.thy ===== *)
theory StringUtil
  imports StdMap
begin

text \<open>
  \<open>src/comm/string_util.cc\<close>: splitting a string at a separator, and into a map of key/value pairs.
  \<open>pieces\<close> is the reference: cut at every occurrence of the separator and drop the empty pieces.
\<close>

section \<open>The code\<close>

text \<open>
  The loop of \<open>SplitStrToVector\<close> from position \<open>start\<close>. The test for an empty separator is the one
  at the head of the function, whose operands do not change.
\<close>

function split_loop :: "string \<Rightarrow> string \<Rightarrow> nat \<Rightarrow> string list" where
  "split_loop str separator start =
     (if separator = [] \<or> length str < start then []
      else case find_from separator str start of
             None \<Rightarrow> (let item = drop start str in if item \<noteq> [] then [item] else [])
           | Some fin \<Rightarrow>
               (let item = substr str start (fin - start);
                    more = split_loop str separator (fin + length separator)
                in if item \<noteq> [] then item # more else more))"
  by pat_completeness auto

termination
proof (relation "measure (\<lambda>(str, sep, start). Suc (length str) - start)", goal_cases)
  case (2 str separator start fin item)
  then have "start \<le> fin" "separator \<noteq> []"
    by (auto simp: find_from_def split: if_splits)
  then have "start < fin + length separator" by (cases separator) auto
  with 2 show ?case by auto
qed simp

declare split_loop.simps [simp del]

definition SplitStrToVector :: "string \<Rightarrow> string \<Rightarrow> string list \<Rightarrow> string list" where
  "SplitStrToVector str separator result =
     (if str = [] \<or> separator = [] then result else result @ split_loop str separator 0)"

definition add_pair :: "string \<Rightarrow> string \<Rightarrow> (string, string) std_map \<Rightarrow> (string, string) std_map" where
  "add_pair joiner item result =
     (case find_sub joiner item of
        None \<Rightarrow> result
      | Some position \<Rightarrow>
          if position = 0 then result
          else map_put (substr item 0 position) (drop (position + length joiner) item) result)"

definition SplitStrToMap ::
  "string \<Rightarrow> string \<Rightarrow> string \<Rightarrow> (string, string) std_map \<Rightarrow> (string, string) std_map" where
  "SplitStrToMap str separator joiner result =
     (if str = [] \<or> separator = [] \<or> joiner = [] then result
      else fold (add_pair joiner) (SplitStrToVector str separator []) result)"

section \<open>The reference\<close>

function pieces :: "string \<Rightarrow> string \<Rightarrow> string list" where
  "pieces sep s =
     (if sep = [] then []
      else case find_sub sep s of
             None \<Rightarrow> (if s = [] then [] else [s])
           | Some i \<Rightarrow> (if i = 0 then [] else [take i s]) @ pieces sep (drop (i + length sep) s))"
  by pat_completeness auto

termination
proof (relation "measure (\<lambda>(sep, s). length s)", goal_cases)
  case (2 sep s i)
  then show ?case using find_sub_bound [of sep s i] by (cases sep) auto
qed simp

declare pieces.simps [simp del]

lemma find_sub_Nil: "sep \<noteq> [] \<Longrightarrow> find_sub sep [] = None"
  by simp

lemma pieces_Nil [simp]: "pieces sep [] = []"
  by (simp add: pieces.simps)

lemma split_loop_pieces: "start \<le> length str \<Longrightarrow> split_loop str sep start = pieces sep (drop start str)"
proof (induction str sep start rule: split_loop.induct)
  case (1 str sep start)
  show ?case
  proof (cases "sep = []")
    case True
    then show ?thesis by (simp add: split_loop.simps [of str] pieces.simps)
  next
    case sep: False
    show ?thesis
    proof (cases "find_sub sep (drop start str)")
      case None
      with 1 sep show ?thesis
        by (simp add: split_loop.simps [of str] pieces.simps [of sep "drop start str"] find_from_def)
    next
      case (Some i)
      then have le: "start + i + length sep \<le> length str" "i + length sep \<le> length (drop start str)"
        using find_sub_bound [OF Some] "1.prems" sep by (cases sep; auto)+
      have "split_loop str sep (start + i + length sep) = pieces sep (drop (start + i + length sep) str)"
        using 1 sep Some le by (simp add: find_from_def)
      moreover have "take i (drop start str) = [] \<longleftrightarrow> i = 0" using le sep by (cases sep) auto
      ultimately show ?thesis
        using Some sep "1.prems" le
        by (simp add: split_loop.simps [of str sep start] pieces.simps [of sep "drop start str"] find_from_def
            substr_def Let_def add.assoc add.commute [of _ start])
    qed
  qed
qed

lemma SplitStrToVector_pieces: "SplitStrToVector str sep [] = pieces sep str"
proof -
  have "sep = [] \<Longrightarrow> pieces sep str = []" by (simp add: pieces.simps)
  then show ?thesis by (auto simp: SplitStrToVector_def split_loop_pieces)
qed

text \<open>Pieces that do not contain the first character of the separator are recovered.\<close>

lemma find_sub_skip:
  assumes "c \<notin> set xs" shows "find_sub (c # cs) (xs @ ys) = map_option ((+) (length xs)) (find_sub (c # cs) ys)"
  using assms
proof (induction xs)
  case Nil
  then show ?case by (cases "find_sub (c # cs) ys") simp_all
next
  case (Cons x xs)
  then show ?case by (cases "find_sub (c # cs) ys") auto
qed

lemma find_sub_hit:
  assumes "c \<notin> set xs" shows "find_sub (c # cs) (xs @ (c # cs) @ ys) = Some (length xs)"
proof -
  have "find_sub (c # cs) ((c # cs) @ ys) = Some 0" by simp
  with find_sub_skip [OF assms, of cs "(c # cs) @ ys"] show ?thesis by simp
qed

lemma find_sub_miss: "c \<notin> set xs \<Longrightarrow> find_sub (c # cs) xs = None"
  using find_sub_skip [of c xs cs "[]"] by simp

lemma pieces_append:
  assumes "c \<notin> set xs"
  shows "pieces (c # cs) (xs @ (c # cs) @ ys) = (if xs = [] then [] else [xs]) @ pieces (c # cs) ys"
  using find_sub_hit [OF assms, of cs ys] by (simp add: pieces.simps [of _ "xs @ _"])

definition join_with :: "string \<Rightarrow> string list \<Rightarrow> string" where
  "join_with sep xss = concat (map (\<lambda>xs. xs @ sep) xss)"

lemma pieces_join:
  assumes "\<forall>xs\<in>set xss. c \<notin> set xs" "c \<notin> set last_piece"
  shows "pieces (c # cs) (join_with (c # cs) xss @ last_piece)
           = filter (\<lambda>xs. xs \<noteq> []) (xss @ [last_piece])"
  using assms
proof (induction xss)
  case Nil
  then show ?case by (simp add: join_with_def pieces.simps [of _ last_piece] find_sub_miss)
next
  case (Cons xs xss)
  then show ?case
    using pieces_append [of c xs cs "join_with (c # cs) xss @ last_piece"]
    by (simp add: join_with_def)
qed

lemma map_ok_add_pair: "map_ok m \<Longrightarrow> map_ok (add_pair j item m)"
  by (simp add: add_pair_def split: option.split)

lemma map_ok_fold_add_pair: "map_ok m \<Longrightarrow> map_ok (fold (add_pair j) items m)"
  by (induction items arbitrary: m) (simp_all add: map_ok_add_pair)

lemma map_ok_SplitStrToMap: "map_ok m \<Longrightarrow> map_ok (SplitStrToMap str sep j m)"
  by (simp add: SplitStrToMap_def map_ok_fold_add_pair)

text \<open>A query string built from pairs is read back as the map that has them inserted in order.\<close>

lemma SplitStrToMap_pairs:
  assumes "\<forall>(k, v)\<in>set kvs. k \<noteq> [] \<and> CHR ''='' \<notin> set k \<and> CHR ''&'' \<notin> set k \<and> CHR ''&'' \<notin> set v"
    and "kvs \<noteq> []"
  shows "SplitStrToMap (join_with ''&'' (map (\<lambda>(k, v). k @ ''='' @ v) kvs)) ''&'' ''='' m
           = fold (\<lambda>(k, v). map_put k v) kvs m"
proof -
  let ?items = "map (\<lambda>(k, v). k @ ''='' @ v) kvs"
  let ?str = "join_with ''&'' ?items"
  have "\<forall>xs\<in>set ?items. CHR ''&'' \<notin> set xs" using assms(1) by fastforce
  then have "pieces ''&'' (?str @ []) = filter (\<lambda>xs. xs \<noteq> []) (?items @ [[]])"
    by (rule pieces_join) simp
  moreover have "filter (\<lambda>xs. xs \<noteq> []) ?items = ?items" by (auto simp: filter_id_conv)
  ultimately have items: "SplitStrToVector ?str ''&'' [] = ?items"
    by (simp add: SplitStrToVector_pieces)
  have "?str \<noteq> []" using assms(2) by (cases kvs) (auto simp: join_with_def)
  moreover have "fold (add_pair ''='') ?items m = fold (\<lambda>(k, v). map_put k v) kvs m"
    using assms(1)
  proof (induction kvs arbitrary: m)
    case (Cons kv kvs)
    obtain k v where kv: "kv = (k, v)" by fastforce
    with Cons.prems have "find_sub ''='' (k @ ''='' @ v) = Some (length k)" "k \<noteq> []"
      using find_sub_hit [of "CHR ''=''" k "[]" v] by auto
    then have "add_pair ''='' (k @ ''='' @ v) m = map_put k v m"
      by (simp add: add_pair_def substr_def)
    with Cons kv show ?case by simp
  qed simp
  ultimately show ?thesis unfolding SplitStrToMap_def items by simp
qed

end
