(* ===== verification/HttpDefine.thy ===== *)
theory HttpDefine
  imports NetData StringUtil
begin

text \<open>
  \<open>src/net/http/http_define.{h,cc}\<close>: constants, status texts and the header table, whose keys are
  folded to lower case.
\<close>

definition kHttpCrlf :: string where "kHttpCrlf = [CHR 0x0D, CHR 0x0A]"
definition kHttpHeaderEnd :: string where "kHttpHeaderEnd = [CHR 0x0D, CHR 0x0A, CHR 0x0D, CHR 0x0A]"
definition kDefaultHtmlContentType :: string where
  "kDefaultHtmlContentType = ''text/html;charset=utf-8''"

definition HTTP_OK :: int where "HTTP_OK = 200"
definition HTTP_BADREQUEST :: int where "HTTP_BADREQUEST = 400"
definition HTTP_FORBIDDEN :: int where "HTTP_FORBIDDEN = 403"
definition HTTP_NOTFOUND :: int where "HTTP_NOTFOUND = 404"
definition HTTP_INTERNALSERVERERROR :: int where "HTTP_INTERNALSERVERERROR = 500"

lemmas http_code_defs = HTTP_OK_def HTTP_BADREQUEST_def HTTP_FORBIDDEN_def HTTP_NOTFOUND_def
  HTTP_INTERNALSERVERERROR_def

definition HttpCodeToString :: "int \<Rightarrow> string" where
  "HttpCodeToString code =
     (if code = HTTP_OK then ''OK''
      else if code = HTTP_BADREQUEST then ''Bad Request''
      else if code = HTTP_FORBIDDEN then ''Forbidden''
      else if code = HTTP_NOTFOUND then ''Not Found''
      else if code = HTTP_INTERNALSERVERERROR then ''Internal Server Error''
      else ''Unknown'')"

definition HttpResponse :: http_response where
  "HttpResponse = \<lparr>decode_succ = False, encode_succ = False, m_response_version = ''HTTP/1.1'',
     m_response_code = HTTP_OK, m_response_info = HttpCodeToString HTTP_OK,
     m_response_header = [], m_response_body = []\<rparr>"

section \<open>The header table\<close>

definition NormalizeHeaderKey :: "string \<Rightarrow> string" where
  "NormalizeHeaderKey key = map char_lower key"

definition getValue :: "http_headers \<Rightarrow> string \<Rightarrow> string" where
  "getValue h key = (case map_find h (NormalizeHeaderKey key) of None \<Rightarrow> [] | Some v \<Rightarrow> v)"

definition setKeyValue :: "string \<Rightarrow> string \<Rightarrow> http_headers \<Rightarrow> http_headers" where
  "setKeyValue key v h = map_put (NormalizeHeaderKey key) v h"

definition getHeaderTotalLength :: "http_headers \<Rightarrow> int" where
  "getHeaderTotalLength h = foldl (\<lambda>n e. n + int (length (fst e) + 2 + length (snd e) + 2)) 0 h"

definition toHttpString :: "http_headers \<Rightarrow> string" where
  "toHttpString h = foldl (\<lambda>s e. s @ fst e @ '': '' @ snd e @ kHttpCrlf) [] h"

text \<open>A table that was built by \<open>setKeyValue\<close>: sorted, and every key is in lower case.\<close>

definition headers_ok :: "http_headers \<Rightarrow> bool" where
  "headers_ok h \<longleftrightarrow> map_ok h \<and> (\<forall>e\<in>set h. NormalizeHeaderKey (fst e) = fst e)"

lemma NormalizeHeaderKey_idem [simp]: "NormalizeHeaderKey (NormalizeHeaderKey k) = NormalizeHeaderKey k"
  by (simp add: NormalizeHeaderKey_def)

lemma headers_ok_Nil [simp]: "headers_ok []"
  by (simp add: headers_ok_def)

lemma headers_ok_set [simp]: "headers_ok h \<Longrightarrow> headers_ok (setKeyValue k v h)"
  using set_map_put [of "NormalizeHeaderKey k" v h]
  by (auto simp: headers_ok_def setKeyValue_def)

lemma getValue_setKeyValue:
  "headers_ok h \<Longrightarrow> getValue (setKeyValue k v h) k' =
     (if NormalizeHeaderKey k = NormalizeHeaderKey k' then v else getValue h k')"
  by (simp add: headers_ok_def getValue_def setKeyValue_def std.look_put)

lemma toHttpString_concat:
  "toHttpString h = concat (map (\<lambda>e. fst e @ '': '' @ snd e @ kHttpCrlf) h)"
proof -
  have "foldl (\<lambda>s e. s @ fst e @ '': '' @ snd e @ kHttpCrlf) acc h
      = acc @ concat (map (\<lambda>e. fst e @ '': '' @ snd e @ kHttpCrlf) h)" for acc
    by (induction h arbitrary: acc) simp_all
  from this [of "[]"] show ?thesis by (simp add: toHttpString_def)
qed

lemma getHeaderTotalLength_eq: "getHeaderTotalLength h = int (length (toHttpString h))"
proof -
  have "foldl (\<lambda>n e. n + int (length (fst e) + 2 + length (snd e) + 2)) acc h
      = acc + int (length (concat (map (\<lambda>e. fst e @ '': '' @ snd e @ kHttpCrlf) h)))" for acc
    by (induction h arbitrary: acc) (simp_all add: kHttpCrlf_def)
  from this [of 0] show ?thesis by (simp add: getHeaderTotalLength_def toHttpString_concat)
qed

section \<open>Properties\<close>

text \<open>
  Header names do not depend on letter case. A value is found under every spelling of the name
  it was set with, a set leaves the values of all other names, and the length that
  \<open>getHeaderTotalLength\<close> adds up is the length of the text that \<open>toHttpString\<close> produces.
\<close>

theorem header_names_ignore_case:
  assumes "headers_ok h"
  shows "headers_ok (setKeyValue k v h)
    \<and> getValue (setKeyValue k v h) k' = (if map char_lower k = map char_lower k' then v else getValue h k')
    \<and> getHeaderTotalLength (setKeyValue k v h) = int (length (toHttpString (setKeyValue k v h)))"
  using assms by (simp add: getValue_setKeyValue getHeaderTotalLength_eq NormalizeHeaderKey_def)

theorem header_names_ignore_case_witness:
  "getValue (setKeyValue ''Content-Length'' ''5'' []) ''CONTENT-length'' = ''5''"
proof -
  have "map char_lower ''Content-Length'' = map char_lower ''CONTENT-length''" by code_simp
  with header_names_ignore_case [of "[]" "''Content-Length''" "''5''" "''CONTENT-length''"]
  show ?thesis by (simp only: headers_ok_Nil if_True refl)
qed

end
