(* ===== verification/HttpCodec.thy ===== *)
theory HttpCodec
  imports HttpDefine
begin

text \<open>
  \<open>src/net/http/http_codec.{h,cc}\<close>: the request parser and the response writer, with the
  intermediate writes to the request that a refused request leaves behind. Then what they promise:
  the effect of a successful and of a refused \<open>decode\<close> on the buffer, the parse of a rendered
  request, incomplete requests, and the exact text of a response.
\<close>

section \<open>The code\<close>

lemma length_separators [simp]: "length kHttpCrlf = 2" "length kHttpHeaderEnd = 4"
  by (simp_all add: kHttpCrlf_def kHttpHeaderEnd_def)

definition kMaxHttpBodySize :: int where "kMaxHttpBodySize = 16 * 1024 * 1024"

definition Trim :: "string \<Rightarrow> string" where
  "Trim value =
     (let blank = [CHR '' '', CHR 0x09] in
      case find_first_not_of blank value of
        None \<Rightarrow> []
      | Some start \<Rightarrow>
          (case find_last_not_of blank value of
             None \<Rightarrow> drop start value
           | Some fin \<Rightarrow> substr value start (fin - start + 1)))"

definition ToUpper :: "string \<Rightarrow> string" where "ToUpper value = map char_upper value"
definition ToLower :: "string \<Rightarrow> string" where "ToLower value = map char_lower value"

text \<open>Where the request path and query come from: the target without scheme, host and fragment.\<close>

definition request_target :: "string \<Rightarrow> string" where
  "request_target target =
     (let target = (case find_sub ''://'' target of
                      None \<Rightarrow> target
                    | Some scheme \<Rightarrow>
                        (case find_from ''/'' target (scheme + 3) of
                           None \<Rightarrow> ''/'' | Some path_begin \<Rightarrow> drop path_begin target))
      in case find_char (CHR ''#'') target of None \<Rightarrow> target | Some fragment \<Rightarrow> take fragment target)"

definition slashed :: "string \<Rightarrow> string" where
  "slashed path =
     (let path = (if path = [] then ''/'' else path)
      in if hd path \<noteq> CHR ''/'' then CHR ''/'' # path else path)"

definition parseHttpRequestLine :: "http_request \<Rightarrow> string \<Rightarrow> http_request \<times> bool" where
  "parseHttpRequestLine request line =
     (case do {
        (method, stream) \<leftarrow> read_word line;
        (target, stream) \<leftarrow> read_word stream;
        (version, stream) \<leftarrow> read_word stream;
        if read_word stream \<noteq> None then None else Some (method, target, version)
      } of
        None \<Rightarrow> (request, False)
      | Some (method, target, version) \<Rightarrow>
          let method = ToUpper method; version = ToUpper version in
          if method \<noteq> ''GET'' \<and> method \<noteq> ''POST'' then (request, False)
          else
            let request = request\<lparr>m_request_method := (if method = ''GET'' then GET else POST)\<rparr> in
            if version \<noteq> ''HTTP/1.1'' \<and> version \<noteq> ''HTTP/1.0'' then (request, False)
            else
              let request = request\<lparr>m_request_version := version\<rparr>;
                  target = request_target target
              in case find_char (CHR ''?'') target of
                   None \<Rightarrow> (request\<lparr>m_request_path := slashed target\<rparr>, True)
                 | Some query \<Rightarrow>
                     let text = drop (query + 1) target in
                     (request\<lparr>m_request_path := slashed (take query target), m_request_query := text,
                        m_query_maps := SplitStrToMap text ''&'' ''='' (m_query_maps request)\<rparr>, True))"

text \<open>One line of the header loop, and the loop, which stops at the first malformed line.\<close>

definition parse_header_line :: "string \<Rightarrow> http_headers \<Rightarrow> http_headers option" where
  "parse_header_line line h =
     (case find_char (CHR '':'') line of
        None \<Rightarrow> None
      | Some separator \<Rightarrow>
          if separator = 0 then None
          else let key = Trim (take separator line); val = Trim (drop (separator + 1) line)
               in if key = [] then None else Some (setKeyValue key val h))"

fun header_loop :: "string list \<Rightarrow> http_headers \<Rightarrow> http_headers \<times> bool" where
  "header_loop [] h = (h, True)"
| "header_loop (line # lines) h =
     (case parse_header_line line h of None \<Rightarrow> (h, False) | Some h \<Rightarrow> header_loop lines h)"

definition parseHttpRequestHeader :: "http_request \<Rightarrow> string \<Rightarrow> http_request \<times> bool" where
  "parseHttpRequestHeader request headers =
     (if headers = [] then (request, True)
      else let lines = SplitStrToVector headers kHttpCrlf [];
               (h, good) = header_loop lines (m_request_header request)
           in (request\<lparr>m_request_header := h\<rparr>, good))"

definition parseHttpRequestContent :: "http_request \<Rightarrow> string \<Rightarrow> http_request \<times> bool" where
  "parseHttpRequestContent request content = (request\<lparr>m_request_body := content\<rparr>, True)"

text \<open>The two header checks of \<open>decode\<close>.\<close>

definition transfer_encoding_ok :: "http_headers \<Rightarrow> bool" where
  "transfer_encoding_ok h =
     (let transfer_encoding = ToLower (getValue h ''Transfer-Encoding'')
      in transfer_encoding = [] \<or> transfer_encoding = ''identity'')"

definition content_length_of :: "http_headers \<Rightarrow> nat option" where
  "content_length_of h =
     (let text = getValue h ''Content-Length'' in
      if text = [] then Some 0
      else let (content_length, fin, _) = strtoll text in
        if fin = 0 \<or> fin < length (c_str text) \<or> content_length < 0 \<or> kMaxHttpBodySize < content_length
        then None else Some (nat content_length))"

definition http_decode :: "tcp_buffer \<Rightarrow> http_request \<Rightarrow> (tcp_buffer \<times> http_request) option" where
  "http_decode b request =
     (let request = request\<lparr>decode_succ := False\<rparr> in
      case getBufferString b of
        None \<Rightarrow> None
      | Some bytes \<Rightarrow>
        (case find_sub kHttpCrlf bytes of
           None \<Rightarrow> Some (b, request)
         | Some request_line_end \<Rightarrow>
           (case find_sub kHttpHeaderEnd bytes of
              None \<Rightarrow> Some (b, request)
            | Some header_end \<Rightarrow>
              if header_end < request_line_end + length kHttpCrlf then Some (b, request)
              else
                let (request, good) = parseHttpRequestLine request (substr bytes 0 request_line_end) in
                if \<not> good then Some (b, request)
                else
                  let headers_begin = request_line_end + length kHttpCrlf;
                      (request, good) = parseHttpRequestHeader request
                                        (substr bytes headers_begin (header_end - headers_begin)) in
                  if \<not> good then Some (b, request)
                  else if \<not> transfer_encoding_ok (m_request_header request) then Some (b, request)
                  else
                    (case content_length_of (m_request_header request) of
                       None \<Rightarrow> Some (b, request)
                     | Some content_length \<Rightarrow>
                       let body_begin = header_end + length kHttpHeaderEnd;
                           total_length = body_begin + content_length in
                       if length bytes < total_length then Some (b, request)
                       else
                         let (request, good) = parseHttpRequestContent request
                                               (substr bytes body_begin content_length) in
                         if \<not> good then Some (b, request)
                         else map_option (\<lambda>b. (b, request\<lparr>decode_succ := True\<rparr>))
                                (recycleRead total_length b)))))"

text \<open>What \<open>encode\<close> makes of the response before it is written.\<close>

definition finish_response :: "http_response \<Rightarrow> http_response" where
  "finish_response response =
     (let response = response\<lparr>encode_succ := False\<rparr>;
          response = (if m_response_version response = []
                      then response\<lparr>m_response_version := ''HTTP/1.1''\<rparr> else response);
          response = (if m_response_info response = []
                      then response\<lparr>m_response_info := HttpCodeToString (m_response_code response)\<rparr>
                      else response);
          h = setKeyValue ''Content-Length'' (nat_str (length (m_response_body response)))
                (m_response_header response);
          h = (if getValue h ''Connection'' = [] then setKeyValue ''Connection'' ''keep-alive'' h else h)
      in response\<lparr>m_response_header := h\<rparr>)"

definition http_encode :: "tcp_buffer \<Rightarrow> http_response \<Rightarrow> (tcp_buffer \<times> http_response) option" where
  "http_encode b response =
     (let response = finish_response response;
          encoded = m_response_version response @ '' '' @ int_str (m_response_code response) @ '' ''
                      @ m_response_info response @ kHttpCrlf
                      @ toHttpString (m_response_header response)
                      @ kHttpCrlf @ m_response_body response
      in map_option (\<lambda>b. (b, response\<lparr>encode_succ := True\<rparr>)) (writeToBuffer encoded b))"

text \<open>The virtual functions, with their null checks and casts.\<close>

definition HttpCodec_encode ::
  "tcp_buffer option \<Rightarrow> any_data option \<Rightarrow> (tcp_buffer option \<times> any_data option) option" where
  "HttpCodec_encode bp dp =
     (case (bp, dp) of
        (Some b, Some (HttpResponseData r)) \<Rightarrow>
          map_option (\<lambda>(b, r). (Some b, Some (HttpResponseData r))) (http_encode b r)
      | _ \<Rightarrow> Some (bp, dp))"

definition HttpCodec_decode ::
  "tcp_buffer option \<Rightarrow> any_data option \<Rightarrow> (tcp_buffer option \<times> any_data option) option" where
  "HttpCodec_decode bp dp =
     (case (bp, dp) of
        (Some b, Some (HttpRequestData r)) \<Rightarrow>
          map_option (\<lambda>(b, r). (Some b, Some (HttpRequestData r))) (http_decode b r)
      | _ \<Rightarrow> Some (bp, dp))"

definition HttpCodec_getProtocalType :: protocal_type where
  "HttpCodec_getProtocalType = Http_Protocal"

section \<open>The parser over the buffered bytes\<close>

text \<open>
  \<open>decode\<close> as a function of the bytes alone: what the request becomes, and how many bytes are
  removed if it is complete. Three cases: more input is needed, the request is refused, or it is
  taken.
\<close>

datatype http_verdict = NeedMore | Refused | Taken nat

definition http_verdict_of :: "http_request \<Rightarrow> bytes \<Rightarrow> http_request \<times> http_verdict" where
  "http_verdict_of request bytes =
     (case (find_sub kHttpCrlf bytes, find_sub kHttpHeaderEnd bytes) of
        (Some line_end, Some header_end) \<Rightarrow>
          if header_end < line_end + 2 then (request, Refused)
          else
            let (r, good) = parseHttpRequestLine request (take line_end bytes) in
            if \<not> good then (r, Refused)
            else
              let (r, good) = parseHttpRequestHeader r
                    (take (header_end - (line_end + 2)) (drop (line_end + 2) bytes)) in
              if \<not> good \<or> \<not> transfer_encoding_ok (m_request_header r) then (r, Refused)
              else (case content_length_of (m_request_header r) of
                      None \<Rightarrow> (r, Refused)
                    | Some n \<Rightarrow>
                        if length bytes < header_end + 4 + n then (r, NeedMore)
                        else (r\<lparr>m_request_body := take n (drop (header_end + 4) bytes)\<rparr>,
                              Taken (header_end + 4 + n)))
      | _ \<Rightarrow> (request, NeedMore))"

lemma http_decode_verdict:
  assumes "buf_ok b"
  shows "http_decode b d =
     (case http_verdict_of (d\<lparr>decode_succ := False\<rparr>) (contents b) of
        (r, Taken n) \<Rightarrow> map_option (\<lambda>b. (b, r\<lparr>decode_succ := True\<rparr>)) (recycleRead n b)
      | (r, _) \<Rightarrow> Some (b, r))"
  by (simp add: http_decode_def http_verdict_of_def getBufferString_contents [OF assms] Let_def
      substr_def parseHttpRequestContent_def split: option.split prod.split)

lemma keeps_decode_succ:
  "decode_succ (fst (parseHttpRequestLine r line)) = decode_succ r"
  "decode_succ (fst (parseHttpRequestHeader r hs)) = decode_succ r"
  by (simp_all add: parseHttpRequestLine_def parseHttpRequestHeader_def Let_def split: option.split prod.split)

lemma verdict_keeps_decode_succ: "decode_succ (fst (http_verdict_of r bytes)) = decode_succ r"
  using keeps_decode_succ(1) [of r] keeps_decode_succ(2)
  by (auto simp: http_verdict_of_def Let_def split: option.split prod.split) (metis fst_conv)+

lemma verdict_taken:
  "http_verdict_of r bytes = (r', Taken n) \<Longrightarrow> 4 \<le> n \<and> n \<le> length bytes"
  by (auto simp: http_verdict_of_def Let_def split: option.splits prod.splits if_splits)

lemma http_decode_step:
  assumes "buf_ok b" and v: "http_verdict_of (d\<lparr>decode_succ := False\<rparr>) (contents b) = (r, v)"
  shows "\<exists>b'. http_decode b d = Some (b', r\<lparr>decode_succ := (\<exists>n. v = Taken n)\<rparr>) \<and> buf_ok b'
           \<and> contents b' = (case v of Taken n \<Rightarrow> drop n (contents b) | _ \<Rightarrow> contents b)"
proof -
  have "r\<lparr>decode_succ := False\<rparr> = r"
    using verdict_keeps_decode_succ [of "d\<lparr>decode_succ := False\<rparr>" "contents b"] by (simp add: v)
  then show ?thesis
    using recycleRead_ok [OF assms(1)] verdict_taken [of "d\<lparr>decode_succ := False\<rparr>" "contents b"] assms
    by (cases v) (auto simp: http_decode_verdict [OF assms(1)] v)
qed

definition http_parse :: "http_request \<Rightarrow> bytes \<Rightarrow> nat \<times> http_request" where
  "http_parse d bs =
     (case http_verdict_of (d\<lparr>decode_succ := False\<rparr>) bs of
        (r, Taken n) \<Rightarrow> (n, r\<lparr>decode_succ := True\<rparr>)
      | (r, _) \<Rightarrow> (0, r))"

interpretation http: packet_codec http_decode decode_succ http_parse
proof
  fix b and d :: http_request and bs
  obtain r v where v: "http_verdict_of (d\<lparr>decode_succ := False\<rparr>) bs = (r, v)" by fastforce
  show "fst (http_parse d bs) \<le> length bs"
    using v verdict_taken by (cases v) (auto simp: http_parse_def)
  have "\<not> decode_succ r"
    using verdict_keeps_decode_succ [of "d\<lparr>decode_succ := False\<rparr>" bs] by (simp add: v)
  then show "decode_succ (snd (http_parse d bs)) \<Longrightarrow> 0 < fst (http_parse d bs)"
    using v verdict_taken [of "d\<lparr>decode_succ := False\<rparr>" bs] by (cases v) (auto simp: http_parse_def)
next
  fix b and d :: http_request
  assume ok: "buf_ok b"
  obtain r v where v: "http_verdict_of (d\<lparr>decode_succ := False\<rparr>) (contents b) = (r, v)" by fastforce
  have "r\<lparr>decode_succ := False\<rparr> = r"
    using verdict_keeps_decode_succ [of "d\<lparr>decode_succ := False\<rparr>" "contents b"] by (simp add: v)
  with http_decode_step [OF ok v]
  show "\<exists>b'. http_decode b d = Some (b', snd (http_parse d (contents b))) \<and> buf_ok b'
      \<and> contents b' = drop (fst (http_parse d (contents b))) (contents b)"
    by (cases v) (auto simp: http_parse_def v)
qed

section \<open>Framing does not depend on how the bytes arrive\<close>

lemma find_sub_take:
  assumes "find_sub pat s = Some i" "n < i + length pat"
  shows "find_sub pat (take n s) = None"
proof (rule ccontr)
  assume "find_sub pat (take n s) \<noteq> None"
  then obtain j where j: "find_sub pat (take n s) = Some j" by blast
  then have "find_sub pat (take n s @ drop n s) = Some j" by (rule find_sub_append)
  with assms(1) have "j = i" by simp
  with find_sub_bound [OF j] assms(2) show False by auto
qed

lemma find_sub_take_Some:
  assumes "find_sub pat s = Some i" "i + length pat \<le> n"
  shows "find_sub pat (take n s) = Some i"
proof (rule find_sub_first)
  note s = find_sub_Some [OF assms(1)]
  show "i \<le> length (take n s)" using s assms(2) by auto
  show "prefix pat (drop i (take n s))"
    using s assms(2) by (simp add: prefix_take_iff drop_take min_absorb1)
  show "\<forall>j<i. \<not> prefix pat (drop j (take n s))"
  proof (intro allI impI)
    fix j assume "j < i"
    with s have "\<not> prefix pat (drop j s)" by blast
    then show "\<not> prefix pat (drop j (take n s))"
      by (metis drop_take prefix_order.trans take_is_prefix)
  qed
qed

text \<open>The cut points of a request that is taken.\<close>

lemma verdict_takenE:
  assumes "http_verdict_of r bytes = (r', Taken n)"
  obtains i j r1 r2 m where "find_sub kHttpCrlf bytes = Some i" "find_sub kHttpHeaderEnd bytes = Some j"
    "i + 2 \<le> j" "parseHttpRequestLine r (take i bytes) = (r1, True)"
    "parseHttpRequestHeader r1 (take (j - (i + 2)) (drop (i + 2) bytes)) = (r2, True)"
    "transfer_encoding_ok (m_request_header r2)" "content_length_of (m_request_header r2) = Some m"
    "n = j + 4 + m" "n \<le> length bytes" "r' = r2\<lparr>m_request_body := take m (drop (j + 4) bytes)\<rparr>"
  using assms by (auto simp: http_verdict_of_def Let_def split: option.splits prod.splits if_splits)

lemma verdict_append:
  assumes "http_verdict_of r bytes = (r', Taken n)"
  shows "http_verdict_of r (bytes @ rest) = (r', Taken n)"
  using assms
proof (rule verdict_takenE)
  fix i j r1 r2 m
  assume *: "find_sub kHttpCrlf bytes = Some i" "find_sub kHttpHeaderEnd bytes = Some j"
    "i + 2 \<le> j" "parseHttpRequestLine r (take i bytes) = (r1, True)"
    "parseHttpRequestHeader r1 (take (j - (i + 2)) (drop (i + 2) bytes)) = (r2, True)"
    "transfer_encoding_ok (m_request_header r2)" "content_length_of (m_request_header r2) = Some m"
    "n = j + 4 + m" "n \<le> length bytes" "r' = r2\<lparr>m_request_body := take m (drop (j + 4) bytes)\<rparr>"
  have "take i (bytes @ rest) = take i bytes"
    "take (j - (i + 2)) (drop (i + 2) (bytes @ rest)) = take (j - (i + 2)) (drop (i + 2) bytes)"
    "take m (drop (j + 4) (bytes @ rest)) = take m (drop (j + 4) bytes)"
    using * by simp_all
  with * show ?thesis
    by (simp add: http_verdict_of_def Let_def find_sub_append [OF *(1)] find_sub_append [OF *(2)] del: take_append drop_append)
qed

lemma verdict_prefix:
  assumes "http_verdict_of r bytes = (r', Taken n)" "k < n"
  shows "snd (http_verdict_of r (take k bytes)) = NeedMore"
  using assms(1)
proof (rule verdict_takenE)
  fix i j r1 r2 m
  assume *: "find_sub kHttpCrlf bytes = Some i" "find_sub kHttpHeaderEnd bytes = Some j"
    "i + 2 \<le> j" "parseHttpRequestLine r (take i bytes) = (r1, True)"
    "parseHttpRequestHeader r1 (take (j - (i + 2)) (drop (i + 2) bytes)) = (r2, True)"
    "transfer_encoding_ok (m_request_header r2)" "content_length_of (m_request_header r2) = Some m"
    "n = j + 4 + m" "n \<le> length bytes"
  show ?thesis
  proof (cases "k < j + 4")
    case True
    then have "find_sub kHttpHeaderEnd (take k bytes) = None"
      by (intro find_sub_take [OF *(2)]) simp
    then show ?thesis by (simp add: http_verdict_of_def split: option.split)
  next
    case False
    then have "find_sub kHttpHeaderEnd (take k bytes) = Some j" "find_sub kHttpCrlf (take k bytes) = Some i"
      using *(3) by (simp_all add: find_sub_take_Some [OF *(1)] find_sub_take_Some [OF *(2)])
    moreover have "take i (take k bytes) = take i bytes"
      "take (j - (i + 2)) (drop (i + 2) (take k bytes)) = take (j - (i + 2)) (drop (i + 2) bytes)"
      using *(3) False by (simp_all add: drop_take min_absorb1)
    ultimately show ?thesis
      using * assms(2) by (simp add: http_verdict_of_def Let_def del: take_take)
  qed
qed

text \<open>
  A request whose header block is empty is always refused: its two separators overlap. The test
  \<open>headers.empty()\<close> in \<open>parseHttpRequestHeader\<close> never succeeds.
\<close>

lemma verdict_no_headers:
  assumes "CHR 0x0D \<notin> set line"
  shows "http_verdict_of r (line @ kHttpHeaderEnd @ rest) = (r, Refused)"
proof -
  have "find_sub kHttpCrlf (line @ kHttpHeaderEnd @ rest) = Some (length line)"
    "find_sub kHttpHeaderEnd (line @ kHttpHeaderEnd @ rest) = Some (length line)"
    using find_sub_hit [OF assms, of "[CHR 0x0A]" "[CHR 0x0D, CHR 0x0A] @ rest"]
      find_sub_hit [OF assms, of "[CHR 0x0A, CHR 0x0D, CHR 0x0A]" rest]
    by (simp_all add: kHttpHeaderEnd_def kHttpCrlf_def)
  then show ?thesis by (simp add: http_verdict_of_def)
qed

section \<open>Reading a rendered request\<close>

definition header_line :: "string \<times> string \<Rightarrow> string" where
  "header_line kv = fst kv @ '': '' @ snd kv"

definition header_block :: "(string \<times> string) list \<Rightarrow> string" where
  "header_block hs = join_with kHttpCrlf (map header_line (butlast hs)) @ header_line (last hs)"

definition render_request :: "string \<Rightarrow> string \<Rightarrow> string \<Rightarrow> (string \<times> string) list \<Rightarrow> bytes \<Rightarrow> bytes" where
  "render_request method target version hs body =
     (method @ '' '' @ target @ '' '' @ version) @ kHttpCrlf @ header_block hs @ kHttpHeaderEnd @ body"

definition header_ok :: "string \<times> string \<Rightarrow> bool" where
  "header_ok kv \<longleftrightarrow>
     fst kv \<noteq> [] \<and> CHR '':'' \<notin> set (fst kv) \<and> CHR 0x0D \<notin> set (fst kv) \<and> CHR 0x0D \<notin> set (snd kv)
     \<and> Trim (fst kv) = fst kv \<and> Trim (snd kv) = snd kv"

definition put_headers :: "(string \<times> string) list \<Rightarrow> http_headers \<Rightarrow> http_headers" where
  "put_headers hs h = fold (\<lambda>kv. setKeyValue (fst kv) (snd kv)) hs h"

lemma Trim_space [simp]: "Trim (CHR '' '' # v) = Trim v"
  by (auto simp: Trim_def Let_def substr_def split: option.split)

lemma parse_header_line_render:
  assumes "header_ok kv"
  shows "parse_header_line (header_line kv) h = Some (setKeyValue (fst kv) (snd kv) h)"
  using assms by (simp add: parse_header_line_def header_ok_def header_line_def)

lemma header_loop_render:
  "\<forall>kv\<in>set hs. header_ok kv \<Longrightarrow> header_loop (map header_line hs) h = (put_headers hs h, True)"
  by (induction hs arbitrary: h) (simp_all add: parse_header_line_render put_headers_def)

lemma header_line_ok:
  assumes "header_ok kv"
  shows "CHR 0x0D \<notin> set (header_line kv)" "header_line kv \<noteq> []" "hd (header_line kv) \<noteq> CHR 0x0D"
  using assms by (cases "fst kv"; auto simp: header_ok_def header_line_def)+

lemma parseHttpRequestHeader_render:
  assumes "\<forall>kv\<in>set hs. header_ok kv" "hs \<noteq> []"
  shows "parseHttpRequestHeader r (header_block hs) =
           (r\<lparr>m_request_header := put_headers hs (m_request_header r)\<rparr>, True)"
proof -
  have "\<forall>xs\<in>set (map header_line (butlast hs)). CHR 0x0D \<notin> set xs" "CHR 0x0D \<notin> set (header_line (last hs))"
    using assms by (auto simp: header_line_ok(1) dest: in_set_butlastD)
  then have "pieces kHttpCrlf (header_block hs)
      = filter (\<lambda>xs. xs \<noteq> []) (map header_line (butlast hs) @ [header_line (last hs)])"
    unfolding header_block_def kHttpCrlf_def by (rule pieces_join)
  also have "map header_line (butlast hs) @ [header_line (last hs)] = map header_line hs"
  proof -
    have "map header_line hs = map header_line (butlast hs @ [last hs])" using assms(2) by simp
    then show ?thesis by simp
  qed
  also have "filter (\<lambda>xs. xs \<noteq> []) (map header_line hs) = map header_line hs"
    using assms(1) by (auto simp: filter_id_conv header_line_ok(2))
  finally have "SplitStrToVector (header_block hs) kHttpCrlf [] = map header_line hs"
    by (simp add: SplitStrToVector_pieces)
  moreover have "header_block hs \<noteq> []"
    using assms by (simp add: header_block_def header_line_ok(2))
  ultimately show ?thesis
    using assms(1) by (simp add: parseHttpRequestHeader_def header_loop_render)
qed

text \<open>A line ending that is not followed by another one does not end the header.\<close>

lemma find_header_end_skip:
  assumes "CHR 0x0D \<notin> set xs" "ys \<noteq> []" "hd ys \<noteq> CHR 0x0D"
  shows "find_sub kHttpHeaderEnd (xs @ kHttpCrlf @ ys) =
           map_option ((+) (length xs + 2)) (find_sub kHttpHeaderEnd ys)"
proof -
  have "find_sub kHttpHeaderEnd (kHttpCrlf @ ys) = map_option ((+) 2) (find_sub kHttpHeaderEnd ys)"
    using assms(2,3) unfolding kHttpHeaderEnd_def kHttpCrlf_def
    by (cases ys; cases "find_sub [CHR 0x0D, CHR 0x0A, CHR 0x0D, CHR 0x0A] ys") auto
  with find_sub_skip [OF assms(1), of "[CHR 0x0A, CHR 0x0D, CHR 0x0A]" "kHttpCrlf @ ys"] show ?thesis
    by (cases "find_sub kHttpHeaderEnd ys") (simp_all add: kHttpHeaderEnd_def add.assoc)
qed

lemma find_header_end:
  assumes "\<forall>kv\<in>set hs. header_ok kv" "hs \<noteq> []"
  shows "find_sub kHttpHeaderEnd (header_block hs @ kHttpHeaderEnd @ rest) = Some (length (header_block hs))"
proof -
  have last: "header_ok (last hs)" using assms by simp
  have "find_sub kHttpHeaderEnd (join_with kHttpCrlf (map header_line ks) @ header_line (last hs)
          @ kHttpHeaderEnd @ rest)
      = Some (length (join_with kHttpCrlf (map header_line ks) @ header_line (last hs)))"
    if "\<forall>kv\<in>set ks. header_ok kv" for ks
    using that
  proof (induction ks)
    case Nil
    show ?case
      using find_sub_hit [OF header_line_ok(1) [OF last], of "[CHR 0x0A, CHR 0x0D, CHR 0x0A]" rest]
      by (simp add: join_with_def kHttpHeaderEnd_def)
  next
    case (Cons kv ks)
    let ?ys = "join_with kHttpCrlf (map header_line ks) @ header_line (last hs) @ kHttpHeaderEnd @ rest"
    have "?ys \<noteq> []" "hd ?ys \<noteq> CHR 0x0D"
      using last Cons.prems by (cases ks; simp add: join_with_def header_line_ok hd_append)+
    with find_header_end_skip [OF header_line_ok(1), of kv ?ys] Cons show ?case
      by (simp add: join_with_def)
  qed
  from this [of "butlast hs"] show ?thesis
    using assms by (simp add: header_block_def in_set_butlastD)
qed

text \<open>The request line.\<close>

definition plain_word :: "string \<Rightarrow> bool" where
  "plain_word w \<longleftrightarrow> w \<noteq> [] \<and> (\<forall>c\<in>set w. \<not> is_space c)"

lemma is_space_blank [simp]: "is_space (CHR '' '')"
  by (simp add: is_space_def)

lemma read_request_line:
  assumes "plain_word m" "plain_word t" "plain_word v"
  shows "do {
        (method, stream) \<leftarrow> read_word (m @ '' '' @ t @ '' '' @ v);
        (target, stream) \<leftarrow> read_word stream;
        (version, stream) \<leftarrow> read_word stream;
        if read_word stream \<noteq> None then None else Some (method, target, version)
      } = Some (m, t, v)"
proof -
  have "read_word (m @ '' '' @ t @ '' '' @ v) = Some (m, '' '' @ t @ '' '' @ v)"
    "read_word ('' '' @ t @ '' '' @ v) = Some (t, '' '' @ v)"
    "read_word ('' '' @ v) = Some (v, [])" "read_word [] = None"
    using assms read_word_concat [of m "'' '' @ t @ '' '' @ v"] read_word_concat [of t "'' '' @ v"]
      read_word_concat [of v "[]"] read_word_all_space [of "[]"]
    by (simp_all add: plain_word_def read_word_space)
  then show ?thesis by simp
qed

definition target_ok :: "string \<Rightarrow> string option \<Rightarrow> bool" where
  "target_ok path query \<longleftrightarrow>
     path \<noteq> [] \<and> hd path = CHR ''/'' \<and> CHR ''?'' \<notin> set path
     \<and> (let target = path @ (case query of None \<Rightarrow> [] | Some q \<Rightarrow> CHR ''?'' # q)
        in find_sub ''://'' target = None \<and> (\<forall>c\<in>set target. \<not> is_space c \<and> c \<noteq> CHR ''#''))"

definition target_of :: "string \<Rightarrow> string option \<Rightarrow> string" where
  "target_of path query = path @ (case query of None \<Rightarrow> [] | Some q \<Rightarrow> CHR ''?'' # q)"

lemma plain_words: "plain_word ''GET''" "plain_word ''POST''" "plain_word ''HTTP/1.1''" "plain_word ''HTTP/1.0''"
  by (simp_all add: plain_word_def is_space_def)

lemma upper_words: "ToUpper ''GET'' = ''GET''" "ToUpper ''POST'' = ''POST''"
  "ToUpper ''HTTP/1.1'' = ''HTTP/1.1''" "ToUpper ''HTTP/1.0'' = ''HTTP/1.0''"
  by (simp_all add: ToUpper_def char_upper_def)

lemma target_ok_plain: "target_ok path query \<Longrightarrow> plain_word (target_of path query)"
  by (simp add: plain_word_def target_ok_def target_of_def Let_def)

lemma plain_no_cr: "plain_word w \<Longrightarrow> CHR 0x0D \<notin> set w"
  by (auto simp: plain_word_def is_space_def)

lemma parseHttpRequestLine_render:
  assumes "method = ''GET'' \<or> method = ''POST''" "version = ''HTTP/1.1'' \<or> version = ''HTTP/1.0''"
    and "target_ok path query"
  shows "parseHttpRequestLine r (method @ '' '' @ target_of path query @ '' '' @ version) =
     (let r = r\<lparr>m_request_method := if method = ''GET'' then GET else POST,
                m_request_version := version, m_request_path := path\<rparr>
      in case query of None \<Rightarrow> r
         | Some q \<Rightarrow> r\<lparr>m_request_query := q, m_query_maps := SplitStrToMap q ''&'' ''='' (m_query_maps r)\<rparr>,
      True)"
proof -
  let ?t = "target_of path query"
  have words: "plain_word method" "plain_word version" "plain_word ?t"
    using assms(1,2) plain_words target_ok_plain [OF assms(3)] by blast+
  have up: "ToUpper method = method" "ToUpper version = version"
    using assms(1,2) upper_words by blast+
  have t: "find_sub ''://'' ?t = None" "CHR ''#'' \<notin> set ?t"
    using assms(3) by (auto simp: target_ok_def target_of_def Let_def)
  have "request_target ?t = ?t"
    unfolding request_target_def Let_def t(1) option.case find_char_miss [OF t(2)] by (rule refl)
  moreover have "slashed path = path" using assms(3) by (simp add: slashed_def target_ok_def)
  moreover have "find_char (CHR ''?'') ?t = map_option (\<lambda>_. length path) query"
    using assms(3) by (cases query) (auto simp: target_ok_def target_of_def)
  moreover have "take (length path) ?t = path" by (simp add: target_of_def)
  moreover have "query = Some q \<Longrightarrow> drop (length path + 1) ?t = q" for q by (simp add: target_of_def)
  moreover have maps: "m_query_maps (r\<lparr>m_request_method := m, m_request_version := v\<rparr>) = m_query_maps r"
    "m_query_maps (r\<lparr>m_request_method := m, m_request_version := v, m_request_path := p\<rparr>) = m_query_maps r"
    for m v p by simp_all
  moreover have "\<not> (method \<noteq> ''GET'' \<and> method \<noteq> ''POST'')"
    "\<not> (version \<noteq> ''HTTP/1.1'' \<and> version \<noteq> ''HTTP/1.0'')" using assms(1,2) by blast+
  ultimately show ?thesis
    unfolding parseHttpRequestLine_def read_request_line [OF words(1,3,2)] option.case prod.case Let_def up
    by (cases query)
      (simp_all only: if_False option.map option.case target_of_def append_Nil2
        http_request.select_convs http_request.update_convs http_request.simps maps)
qed

text \<open>The whole request.\<close>

definition parsed_request ::
  "string \<Rightarrow> string \<Rightarrow> string option \<Rightarrow> string \<Rightarrow> (string \<times> string) list \<Rightarrow> bytes \<Rightarrow> http_request" where
  "parsed_request method path query version hs body =
     HttpRequest\<lparr>m_request_method := (if method = ''GET'' then GET else POST),
       m_request_version := version, m_request_path := path,
       m_request_query := (case query of None \<Rightarrow> [] | Some q \<Rightarrow> q),
       m_query_maps := (case query of None \<Rightarrow> [] | Some q \<Rightarrow> SplitStrToMap q ''&'' ''='' []),
       m_request_header := put_headers hs [], m_request_body := body\<rparr>"

definition request_ok ::
  "string \<Rightarrow> string \<Rightarrow> string option \<Rightarrow> string \<Rightarrow> (string \<times> string) list \<Rightarrow> bytes \<Rightarrow> bool" where
  "request_ok method path query version hs body \<longleftrightarrow>
     (method = ''GET'' \<or> method = ''POST'') \<and> (version = ''HTTP/1.1'' \<or> version = ''HTTP/1.0'')
     \<and> target_ok path query \<and> hs \<noteq> [] \<and> (\<forall>kv\<in>set hs. header_ok kv)
     \<and> transfer_encoding_ok (put_headers hs []) \<and> content_length_of (put_headers hs []) = Some (length body)"

lemma verdict_render:
  assumes "request_ok method path query version hs body"
  defines "bytes \<equiv> render_request method (target_of path query) version hs body"
  shows "http_verdict_of HttpRequest bytes = (parsed_request method path query version hs body, Taken (length bytes))"
proof -
  define line where "line = method @ '' '' @ target_of path query @ '' '' @ version"
  have ok: "method = ''GET'' \<or> method = ''POST''" "version = ''HTTP/1.1'' \<or> version = ''HTTP/1.0''"
    "target_ok path query" "hs \<noteq> []" "\<forall>kv\<in>set hs. header_ok kv"
    using assms by (auto simp: request_ok_def)
  have "plain_word method" "plain_word version" using ok(1,2) plain_words by blast+
  then have cr: "CHR 0x0D \<notin> set line"
    using plain_no_cr target_ok_plain [OF ok(3)] by (simp add: line_def)
  let ?rest = "header_block hs @ kHttpHeaderEnd @ body"
  have bytes: "bytes = line @ kHttpCrlf @ ?rest"
    by (simp add: bytes_def render_request_def line_def)
  have "find_sub kHttpCrlf bytes = Some (length line)"
    unfolding bytes kHttpCrlf_def by (rule find_sub_hit [OF cr])
  moreover have ne: "?rest \<noteq> []" "hd ?rest \<noteq> CHR 0x0D"
  proof -
    have "header_block hs \<noteq> []" "hd (header_block hs) \<noteq> CHR 0x0D"
      using ok(4,5) header_line_ok
      by (cases hs; cases "tl hs"; simp add: header_block_def join_with_def hd_append)+
    then show "?rest \<noteq> []" "hd ?rest \<noteq> CHR 0x0D" by simp_all
  qed
  have "find_sub kHttpHeaderEnd bytes = Some (length line + 2 + length (header_block hs))"
    unfolding bytes find_header_end_skip [OF cr ne] find_header_end [OF ok(5,4)] by simp
  moreover have "take (length line) bytes = line" "drop (length line + 2) bytes = ?rest"
    "drop (length line + 2 + length (header_block hs) + 4) bytes = body"
    unfolding bytes by simp_all
  moreover have "length bytes = length line + 2 + length (header_block hs) + 4 + length body"
    unfolding bytes by simp
  moreover have "take (length line + 2 + length (header_block hs) - (length line + 2)) ?rest = header_block hs"
    by simp
  moreover have "take (length body) body = body" by simp
  ultimately show ?thesis
    using assms(1) 
    unfolding http_verdict_of_def  request_ok_def
    apply (simp only: option.case prod.case if_False parseHttpRequestLine_render [OF ok(1,2,3), of HttpRequest, folded line_def]
      parseHttpRequestHeader_render [OF ok(5,4)] Let_def)
    by (cases query) (simp_all add: parsed_request_def HttpRequest_def line_def)
qed

section \<open>The text of a response\<close>

definition response_text :: "http_response \<Rightarrow> bytes" where
  "response_text r =
     m_response_version r @ '' '' @ int_str (m_response_code r) @ '' '' @ m_response_info r @ kHttpCrlf
       @ concat (map (\<lambda>kv. header_line kv @ kHttpCrlf) (m_response_header r)) @ kHttpCrlf
       @ m_response_body r"

lemma http_encode_text:
  assumes "buf_ok b"
  shows "\<exists>b'. http_encode b r = Some (b', (finish_response r)\<lparr>encode_succ := True\<rparr>) \<and> buf_ok b'
           \<and> contents b' = contents b @ response_text (finish_response r)"
  using writeToBuffer_ok [OF assms, of "response_text (finish_response r)"]
  by (auto simp: http_encode_def Let_def response_text_def toHttpString_concat header_line_def)

lemma finish_response_headers:
  assumes "headers_ok (m_response_header r)"
  shows "headers_ok (m_response_header (finish_response r))"
    and "getValue (m_response_header (finish_response r)) ''Content-Length'' = nat_str (length (m_response_body r))"
    and "getValue (m_response_header (finish_response r)) ''Connection'' \<noteq> []"
  using assms
  by (auto simp: finish_response_def Let_def getValue_setKeyValue NormalizeHeaderKey_def char_lower_def)

section \<open>Properties\<close>

lemma http_decode_taken:
  assumes "buf_ok b" "http_verdict_of d (contents b) = (r, Taken n)" "\<not> decode_succ d"
  shows "\<exists>b'. http_decode b d = Some (b', r\<lparr>decode_succ := True\<rparr>) \<and> buf_ok b' \<and> contents b' = drop n (contents b)"
proof -
  have "d\<lparr>decode_succ := False\<rparr> = d" using assms(3) by simp
  with assms(2) have "http_verdict_of (d\<lparr>decode_succ := False\<rparr>) (contents b) = (r, Taken n)" by simp
  from http_decode_step [OF assms(1) this] show ?thesis by simp
qed

text \<open>
  C21: Round trip. A request line with an origin-form target, at least one header, a declared length
  that matches the body and no unsupported transfer encoding is decoded to the method, version,
  path, query, query parameters, headers and body it was written with; exactly its bytes are
  removed, whatever follows.
\<close>

theorem http_request_roundtrip:
  assumes "request_ok method path query version hs body" "buf_ok b"
    and "contents b = render_request method (target_of path query) version hs body @ rest"
  shows "\<exists>b'. http_decode b HttpRequest
                = Some (b', (parsed_request method path query version hs body)\<lparr>decode_succ := True\<rparr>)
              \<and> buf_ok b' \<and> contents b' = rest"
  using http_decode_taken [OF assms(2), of HttpRequest] verdict_append [OF verdict_render [OF assms(1)], of rest]
  by (auto simp: assms(3) HttpRequest_def)

lemma sample_request_ok:
  "request_ok ''GET'' ''/hi'' (Some ''x=1'') ''HTTP/1.1'' [(''Host'', ''h''), (''Content-Length'', ''2'')] ''ok''"
  by code_simp

theorem http_request_roundtrip_witness:
  "\<exists>b'. http_decode (loaded (render_request ''GET'' ''/hi?x=1'' ''HTTP/1.1''
                               [(''Host'', ''h''), (''Content-Length'', ''2'')] ''ok'' @ ''GET'')) HttpRequest
      = Some (b', (parsed_request ''GET'' ''/hi'' (Some ''x=1'') ''HTTP/1.1''
                     [(''Host'', ''h''), (''Content-Length'', ''2'')] ''ok'')\<lparr>decode_succ := True\<rparr>)
    \<and> buf_ok b' \<and> contents b' = ''GET''"
proof -
  have "target_of ''/hi'' (Some ''x=1'') = ''/hi?x=1''" by (simp add: target_of_def)
  with http_request_roundtrip [OF sample_request_ok loaded_ok(1) loaded_ok(2)] show ?thesis by simp
qed

text \<open>
  C22: Framing does not depend on how the bytes arrive. If a buffer holding \<open>bytes\<close> is decoded to a
  complete request, then with fewer bytes than the request has \<open>decode\<close> reports failure and leaves
  the buffer as it is, and with more bytes it delivers the same request and leaves the rest.
\<close>

theorem http_framing:
  assumes "http_decode (loaded bytes) HttpRequest = Some (b, r)" "decode_succ r"
    and "n = length bytes - length (contents b)"
  shows "(\<forall>k<n. \<exists>b' r'. http_decode (loaded (take k bytes)) HttpRequest = Some (b', r')
                 \<and> \<not> decode_succ r' \<and> contents b' = take k bytes)
    \<and> (\<exists>b'. http_decode (loaded (bytes @ rest)) HttpRequest = Some (b', r) \<and> contents b' = drop n bytes @ rest)"
proof -
  obtain r0 v where v: "http_verdict_of HttpRequest bytes = (r0, v)" by fastforce
  have d: "HttpRequest\<lparr>decode_succ := False\<rparr> = HttpRequest" by (simp add: HttpRequest_def)
  note step = http_decode_step [OF loaded_ok(1), of HttpRequest, unfolded d loaded_ok]
  from step [OF v] assms(1,2) obtain m where m: "v = Taken m" "r = r0\<lparr>decode_succ := True\<rparr>" "contents b = drop m bytes"
    by (auto split: http_verdict.splits)
  have "m \<le> length bytes" using verdict_taken [of HttpRequest bytes] v m(1) by blast
  with assms(3) m(3) have n: "n = m" by simp
  have less: "\<exists>b' r'. http_decode (loaded (take k bytes)) HttpRequest = Some (b', r')
                 \<and> \<not> decode_succ r' \<and> contents b' = take k bytes" if k: "k < n" for k
  proof -
    obtain r1 where "http_verdict_of HttpRequest (take k bytes) = (r1, NeedMore)"
      using verdict_prefix [of HttpRequest bytes r0 m k] v m(1) k n by (metis prod.collapse)
    from step [OF this] show ?thesis by fastforce
  qed
  have "http_verdict_of HttpRequest (bytes @ rest) = (r0, Taken n)"
    using verdict_append [of HttpRequest bytes r0 m rest] v m(1) n by simp
  from step [OF this] less m(2) \<open>m \<le> length bytes\<close> n show ?thesis by auto
qed

theorem http_framing_witness:
  "\<exists>bytes b r. http_decode (loaded bytes) HttpRequest = Some (b, r) \<and> decode_succ r \<and> 0 < length bytes
     \<and> (\<exists>b' r'. http_decode (loaded (take 7 bytes)) HttpRequest = Some (b', r') \<and> \<not> decode_succ r' \<and> contents b' = take 7 bytes)"
proof -
  let ?bytes = "render_request ''GET'' (target_of ''/hi'' (Some ''x=1'')) ''HTTP/1.1''
     [(''Host'', ''h''), (''Content-Length'', ''2'')] ''ok''"
  obtain b r where r: "http_decode (loaded ?bytes) HttpRequest = Some (b, r)" "decode_succ r" "contents b = []"
    using http_decode_taken [OF loaded_ok(1), of HttpRequest "?bytes", unfolded loaded_ok, OF verdict_render [OF sample_request_ok]]
    by (auto simp: HttpRequest_def)
  moreover have "7 < length ?bytes" by (simp add: render_request_def target_of_def)
  ultimately show ?thesis using http_framing [OF r(1,2) refl] by (metis diff_zero list.size(3) not_less_zero gr0I)
qed

text \<open>
  A response. \<open>encode\<close> always succeeds and appends the status line, one line per header, an empty
  line and the body; the headers it sends are those the servlet set, completed with the length of
  the body and a \<open>Connection\<close> value.
\<close>

theorem http_response_written:
  assumes "buf_ok b" "headers_ok (m_response_header r)"
  shows "\<exists>b'. http_encode b r = Some (b', (finish_response r)\<lparr>encode_succ := True\<rparr>) \<and> buf_ok b'
           \<and> contents b' = contents b @ response_text (finish_response r)
           \<and> getValue (m_response_header (finish_response r)) ''Content-Length'' = nat_str (length (m_response_body r))
           \<and> getValue (m_response_header (finish_response r)) ''Connection'' \<noteq> []
           \<and> m_response_body (finish_response r) = m_response_body r"
  using http_encode_text [OF assms(1), of r] finish_response_headers [OF assms(2)]
  by (auto simp: finish_response_def Let_def)

theorem http_response_written_witness:
  "\<exists>b'. http_encode (TcpBuffer 4) (HttpResponse\<lparr>m_response_body := ''hello''\<rparr>)
          = Some (b', (finish_response (HttpResponse\<lparr>m_response_body := ''hello''\<rparr>))\<lparr>encode_succ := True\<rparr>)
        \<and> contents b' = response_text (finish_response (HttpResponse\<lparr>m_response_body := ''hello''\<rparr>))"
proof -
  have "headers_ok (m_response_header (HttpResponse\<lparr>m_response_body := ''hello''\<rparr>))"
    by (simp add: HttpResponse_def headers_ok_def)
  with http_response_written [OF buf_ok_TcpBuffer, of _ 4] show ?thesis by fastforce
qed

text \<open>
  A request without headers is refused. HTTP/1.0 allows a request line followed directly by the
  empty line. Then the first line break is also the start of the header terminator, and \<open>decode\<close>
  reports failure without removing the bytes, so the branch that accepts an empty header section is
  never taken and the connection never gets past that request.
\<close>

theorem http_no_headers_refused:
  assumes "CHR 0x0D \<notin> set line" "buf_ok b" "contents b = line @ kHttpHeaderEnd @ rest"
  shows "\<exists>b' r. http_decode b HttpRequest = Some (b', r) \<and> \<not> decode_succ r \<and> contents b' = contents b"
  using http_decode_step [OF assms(2), of HttpRequest] verdict_no_headers [OF assms(1), of HttpRequest rest]
  by (fastforce simp: assms(3) HttpRequest_def)

theorem http_no_headers_refused_witness:
  "\<exists>b' r. http_decode (loaded (''GET / HTTP/1.0'' @ kHttpHeaderEnd @ [])) HttpRequest = Some (b', r) \<and> \<not> decode_succ r
     \<and> contents b' = ''GET / HTTP/1.0'' @ kHttpHeaderEnd @ []"
  using http_no_headers_refused [OF _ loaded_ok(1) loaded_ok(2), of "''GET / HTTP/1.0''" "[]"] by simp

end
