(* ===== verification/TcpConnection.thy ===== *)
theory TcpConnection
  imports RpcFrame HttpCodec
begin

text \<open>
  \<open>src/net/tcp/tcp_connection.{h,cc}\<close>: one connection, its two buffers, and the loop
  \<open>input; execute; output\<close> that its coroutine runs.

  A call of \<open>read_hook\<close> or \<open>write_hook\<close> may suspend the coroutine. Its answer is taken from a
  script: one entry per call, with the result and with the calls that other coroutines made on the
  connection before this one was resumed. A call for which the script has no entry is one that has
  not been resumed: the operation ends in \<open>Waiting\<close>. What the connection does to its surroundings
  is a list of effects. \<^term>\<open>None\<close> is, as everywhere, a write or read outside a buffer.
\<close>

section \<open>The class\<close>

datatype conn_state = NotConnected | Connected | HalfClosing | Closed

datatype connection_type = ServerConnection | ClientConnection

record tcp_connection =
  m_fd :: int
  m_state :: conn_state
  m_connection_type :: connection_type
  m_read_buffer :: tcp_buffer
  m_write_buffer :: tcp_buffer
  m_codec :: protocal_type
  m_stop :: bool
  m_is_over_time :: bool
  m_reply_datas :: "(string, rpc_struct) std_map"
  m_weak_slot :: "nat option"

datatype effect =
    GetFdEvent int
  | TakeCoroutine
  | ReturnCoroutine
  | SetCallBack
  | AddCoroutine
  | FreshSlot nat
  | Unregister int
  | CloseFd int
  | ShutdownFd int
  | ForbidResume
  | Sent bytes

definition initBuffer :: "nat \<Rightarrow> tcp_connection \<Rightarrow> tcp_connection" where
  "initBuffer n c = c\<lparr>m_write_buffer := TcpBuffer n, m_read_buffer := TcpBuffer n\<rparr>"

definition TcpConnection_server :: "protocal_type \<Rightarrow> int \<Rightarrow> nat \<Rightarrow> tcp_connection \<times> effect list" where
  "TcpConnection_server proto fd buff_size =
     (initBuffer buff_size
        \<lparr>m_fd = fd, m_state = Connected, m_connection_type = ServerConnection,
         m_read_buffer = TcpBuffer 0, m_write_buffer = TcpBuffer 0, m_codec = proto, m_stop = False,
         m_is_over_time = False, m_reply_datas = [], m_weak_slot = None\<rparr>,
      [GetFdEvent fd, TakeCoroutine])"

definition TcpConnection_client :: "protocal_type \<Rightarrow> int \<Rightarrow> nat \<Rightarrow> tcp_connection \<times> effect list" where
  "TcpConnection_client proto fd buff_size =
     (initBuffer buff_size
        \<lparr>m_fd = fd, m_state = NotConnected, m_connection_type = ClientConnection,
         m_read_buffer = TcpBuffer 0, m_write_buffer = TcpBuffer 0, m_codec = proto, m_stop = False,
         m_is_over_time = False, m_reply_datas = [], m_weak_slot = None\<rparr>,
      [GetFdEvent fd])"

definition TcpConnection_destroy :: "tcp_connection \<Rightarrow> effect list" where
  "TcpConnection_destroy c =
     (if m_connection_type c = ServerConnection then [ReturnCoroutine] else [])"

definition getState :: "tcp_connection \<Rightarrow> conn_state" where "getState c = m_state c"
definition setState :: "conn_state \<Rightarrow> tcp_connection \<Rightarrow> tcp_connection" where
  "setState s c = c\<lparr>m_state := s\<rparr>"
definition setOverTimeFlag :: "bool \<Rightarrow> tcp_connection \<Rightarrow> tcp_connection" where
  "setOverTimeFlag v c = c\<lparr>m_is_over_time := v\<rparr>"
definition getOverTimerFlag :: "tcp_connection \<Rightarrow> bool" where
  "getOverTimerFlag c = m_is_over_time c"
definition setUpClient :: "tcp_connection \<Rightarrow> tcp_connection" where
  "setUpClient c = setState Connected c"
definition setUpServer :: "effect list" where "setUpServer = [AddCoroutine]"

definition registerToTimeWheel :: "nat \<Rightarrow> tcp_connection \<Rightarrow> tcp_connection \<times> effect list" where
  "registerToTimeWheel slot c = (c\<lparr>m_weak_slot := Some slot\<rparr>, [FreshSlot slot])"

definition initServer :: "nat \<Rightarrow> tcp_connection \<Rightarrow> tcp_connection \<times> effect list" where
  "initServer slot c = (let (c, e) = registerToTimeWheel slot c in (c, e @ [SetCallBack]))"

definition clearClient :: "tcp_connection \<Rightarrow> tcp_connection \<times> effect list" where
  "clearClient c =
     (if getState c = Closed then (c, [])
      else (setState Closed (c\<lparr>m_stop := True\<rparr>), [Unregister (m_fd c), CloseFd (m_fd c)]))"

definition shutdownConnection :: "tcp_connection \<Rightarrow> tcp_connection \<times> effect list" where
  "shutdownConnection c =
     (let state = getState c in
      if state = Closed \<or> state = NotConnected then (c, [])
      else (setState HalfClosing c, [ShutdownFd (m_fd c)]))"

definition getResPackageData :: "string \<Rightarrow> tcp_connection \<Rightarrow> (rpc_struct option \<times> bool) \<times> tcp_connection" where
  "getResPackageData no c =
     (case map_find (m_reply_datas c) no of
        Some d \<Rightarrow> ((Some d, True), c\<lparr>m_reply_datas := map_erase no (m_reply_datas c)\<rparr>)
      | None \<Rightarrow> ((None, False), c))"

section \<open>\<open>input\<close>\<close>

text \<open>Calls that others make on the connection while its coroutine is suspended.\<close>

datatype meanwhile = OverTime bool | Shutdown

fun apply_meanwhile :: "meanwhile list \<Rightarrow> tcp_connection \<Rightarrow> tcp_connection \<times> effect list" where
  "apply_meanwhile [] c = (c, [])"
| "apply_meanwhile (OverTime v # ms) c = apply_meanwhile ms (setOverTimeFlag v c)"
| "apply_meanwhile (Shutdown # ms) c =
     (let (c, e) = shutdownConnection c; (c, e') = apply_meanwhile ms c in (c, e @ e'))"

text \<open>What a \<open>read_hook\<close> stored (no bytes: the peer has closed), or a negative result.\<close>

datatype read_result = Got bytes | ReadError

type_synonym read_script = "(read_result \<times> meanwhile list) list"

datatype input_end = ReadAll | StoppedOverTime | CloseFlag | Waiting

definition make_room :: "tcp_buffer \<Rightarrow> tcp_buffer option" where
  "make_room b = (if writeAble b = 0 then resizeBuffer (2 * getSize b) b else Some b)"

text \<open>The kernel stores the bytes behind the write index, then \<open>recycleWrite\<close> takes them in.\<close>

definition store_read :: "bytes \<Rightarrow> tcp_buffer \<Rightarrow> tcp_buffer option" where
  "store_read bs b = do {
     blk \<leftarrow> overwrite (m_buffer b) (m_write_index b) bs;
     recycleWrite (length bs) (b\<lparr>m_buffer := blk\<rparr>)
   }"

fun input_loop ::
  "read_script \<Rightarrow> tcp_connection \<Rightarrow> (tcp_connection \<times> read_script \<times> effect list \<times> input_end) option" where
  "input_loop [] c = do {
     b \<leftarrow> make_room (m_read_buffer c);
     Some (c\<lparr>m_read_buffer := b\<rparr>, [], [], Waiting)
   }"
| "input_loop ((rt, ms) # script) c = do {
     b \<leftarrow> make_room (m_read_buffer c);
     let read_count = nat (writeAble b);
     let bs = (case rt of Got bs \<Rightarrow> bs | ReadError \<Rightarrow> []);
     b \<leftarrow> (if bs \<noteq> [] then store_read bs b else Some b);
     let (c, e) = apply_meanwhile ms (c\<lparr>m_read_buffer := b\<rparr>);
     if m_is_over_time c then Some (c, script, e, StoppedOverTime)
     else if bs = [] then Some (c, script, e, CloseFlag)
     else if length bs = read_count then do {
       (c, script, e', fin) \<leftarrow> input_loop script c;
       Some (c, script, e @ e', fin)
     }
     else Some (c, script, e, ReadAll)
   }"

datatype outcome = Done | Suspended | Parked

text \<open>
  \<open>Parked\<close>: the coroutine yielded with \<open>m_can_resume\<close> cleared, so that \<open>Resume\<close> refuses it.

  \<open>is_main\<close>: the caller runs in the main coroutine of its thread, where the hooks make the plain
  system call and \<open>Yield\<close> returns at once; \<open>input\<close> then goes on behind the \<open>Yield\<close>.
\<close>

definition conn_input ::
  "bool \<Rightarrow> read_script \<Rightarrow> tcp_connection \<Rightarrow> (tcp_connection \<times> read_script \<times> effect list \<times> outcome) option" where
  "conn_input is_main script c =
     (if m_is_over_time c \<or> getState c = Closed \<or> getState c = NotConnected
      then Some (c, script, [], Done)
      else do {
        (c, script, e, fin) \<leftarrow> input_loop script c;
        if fin = Waiting then Some (c, script, e, Suspended)
        else let (c, e) = (if fin = CloseFlag
                           then let (c, e') = clearClient c in (c, e @ e' @ [ForbidResume])
                           else (c, e))
             in if fin = CloseFlag \<and> \<not> is_main then Some (c, script, e, Parked)
                else if m_is_over_time c then Some (c, script, e, Done)
                else Some (c, script,
                       e @ (if m_connection_type c = ServerConnection
                            then case m_weak_slot c of Some slot \<Rightarrow> [FreshSlot slot] | None \<Rightarrow> []
                            else []), Done)
      })"

section \<open>\<open>output\<close>\<close>

type_synonym write_script = "(int \<times> meanwhile list) list"

fun output_loop ::
  "write_script \<Rightarrow> tcp_connection \<Rightarrow> (tcp_connection \<times> write_script \<times> effect list \<times> outcome) option" where
  "output_loop script c =
     (if getState c \<noteq> Connected then Some (c, script, [], Done)
      else if readAble (m_write_buffer c) = 0 then Some (c, script, [], Done)
      else case script of
        [] \<Rightarrow> Some (c, [], [], Suspended)
      | (rt, ms) # script \<Rightarrow> do {
          bs \<leftarrow> slice (m_buffer (m_write_buffer c)) (m_read_index (m_write_buffer c)) (nat rt);
          let (c, e) = apply_meanwhile ms c;
          b \<leftarrow> (if 0 < rt then recycleRead (nat rt) (m_write_buffer c) else Some (m_write_buffer c));
          let c = c\<lparr>m_write_buffer := b\<rparr>;
          let e = (if 0 < rt then e @ [Sent bs] else e);
          if readAble b \<le> 0 then Some (c, script, e, Done)
          else if m_is_over_time c then Some (c, script, e, Done)
          else do {
            (c, script, e', fin) \<leftarrow> output_loop script c;
            Some (c, script, e @ e', fin)
          }
        })"

declare output_loop.simps [simp del]

definition conn_output ::
  "write_script \<Rightarrow> tcp_connection \<Rightarrow> (tcp_connection \<times> write_script \<times> effect list \<times> outcome) option" where
  "conn_output script c =
     (if m_is_over_time c then Some (c, script, [], Done) else output_loop script c)"


section \<open>What suspended calls change\<close>

lemma apply_meanwhile_frame [simp]:
  "m_read_buffer (fst (apply_meanwhile ms c)) = m_read_buffer c"
  "m_write_buffer (fst (apply_meanwhile ms c)) = m_write_buffer c"
  "m_reply_datas (fst (apply_meanwhile ms c)) = m_reply_datas c"
  "m_codec (fst (apply_meanwhile ms c)) = m_codec c"
  "m_connection_type (fst (apply_meanwhile ms c)) = m_connection_type c"
  "m_stop (fst (apply_meanwhile ms c)) = m_stop c"
  by (induction ms c rule: apply_meanwhile.induct)
     (auto simp: setOverTimeFlag_def shutdownConnection_def setState_def Let_def split: prod.splits)

text \<open>
  The states only move forward: a connection that is closed stays closed, one that is shut down
  does not become connected again.
\<close>

definition state_rank :: "conn_state \<Rightarrow> nat" where
  "state_rank s = (case s of NotConnected \<Rightarrow> 0 | Connected \<Rightarrow> 1 | HalfClosing \<Rightarrow> 2 | Closed \<Rightarrow> 3)"

lemma shutdown_rank: "state_rank (m_state c) \<le> state_rank (m_state (fst (shutdownConnection c)))"
  by (cases "m_state c") (auto simp: shutdownConnection_def getState_def setState_def state_rank_def Let_def)

lemma meanwhile_rank: "state_rank (m_state c) \<le> state_rank (m_state (fst (apply_meanwhile ms c)))"
proof (induction ms c rule: apply_meanwhile.induct)
  case (3 ms c)
  obtain c1 e where c1: "shutdownConnection c = (c1, e)" by fastforce
  have "state_rank (m_state c1) \<le> state_rank (m_state (fst (apply_meanwhile ms c1)))"
    using 3 by (simp add: c1)
  then show ?case
    using shutdown_rank [of c] by (cases "apply_meanwhile ms c1") (simp add: c1)
qed (auto simp: setOverTimeFlag_def)

section \<open>\<open>input\<close> appends what arrives\<close>

definition got :: "read_script \<Rightarrow> bytes" where
  "got script = concat (map (\<lambda>(rt, _). case rt of Got bs \<Rightarrow> bs | ReadError \<Rightarrow> []) script)"

text \<open>The kernel stores at most as many bytes as were asked for.\<close>

fun kernel_reads :: "read_script \<Rightarrow> tcp_buffer \<Rightarrow> bool" where
  "kernel_reads [] b \<longleftrightarrow> True"
| "kernel_reads ((rt, ms) # script) b \<longleftrightarrow>
     (case (rt, make_room b) of
        (Got bs, Some b) \<Rightarrow>
          length bs \<le> nat (writeAble b)
          \<and> (case store_read bs b of Some b \<Rightarrow> kernel_reads script b | None \<Rightarrow> True)
      | _ \<Rightarrow> True)"

lemma make_room_ok:
  assumes "buf_ok b"
  shows "\<exists>b'. make_room b = Some b' \<and> buf_ok b' \<and> contents b' = contents b
           \<and> (m_buffer b \<noteq> [] \<longrightarrow> 0 < writeAble b')"
proof (cases "writeAble b = 0")
  case True
  with assms have w: "m_write_index b = length (m_buffer b)" by (auto simp: writeAble_def)
  have len: "length (contents b) \<le> length (m_buffer b)" by (simp add: contents_def)
  obtain b' where "resizeBuffer (2 * getSize b) b = Some b'" "buf_ok b'"
    "contents b' = take (2 * getSize b) (contents b)" "length (m_buffer b') = 2 * getSize b"
    "m_write_index b' = min (2 * getSize b) (length (contents b))"
    using resizeBuffer_ok [OF assms, of "2 * getSize b"] by blast
  with True len show ?thesis
    by (cases "m_buffer b") (auto simp: make_room_def getSize_def writeAble_def)
next
  case False
  then show ?thesis using assms by (simp add: make_room_def buf_ok_def writeAble_def)
qed

lemma store_read_ok:
  assumes "buf_ok b" "length bs \<le> nat (writeAble b)"
  shows "\<exists>b'. store_read bs b = Some b' \<and> buf_ok b' \<and> contents b' = contents b @ bs"
proof -
  have fits: "m_write_index b + length bs \<le> length (m_buffer b)"
    using assms by (auto simp: writeAble_def buf_ok_def)
  let ?blk = "take (m_write_index b) (m_buffer b) @ bs @ drop (m_write_index b + length bs) (m_buffer b)"
  let ?b = "b\<lparr>m_buffer := ?blk\<rparr>"
  have "buf_ok ?b" "contents ?b = contents b" "m_write_index ?b + length bs \<le> length (m_buffer ?b)"
    "take (length bs) (drop (m_write_index ?b) (m_buffer ?b)) = bs"
    using assms(1) fits by (simp_all add: buf_ok_def contents_def)
  then have "\<exists>b'. recycleWrite (length bs) ?b = Some b' \<and> buf_ok b' \<and> contents b' = contents b @ bs"
    using recycleWrite_ok [of ?b "length bs"] by simp
  with fits show ?thesis by (simp add: store_read_def)
qed

lemma input_loop_ok:
  assumes "buf_ok (m_read_buffer c)" "kernel_reads script (m_read_buffer c)"
  shows "\<exists>c' rest e fin used. input_loop script c = Some (c', rest, e, fin) \<and> script = used @ rest
           \<and> buf_ok (m_read_buffer c') \<and> contents (m_read_buffer c') = contents (m_read_buffer c) @ got used
           \<and> m_write_buffer c' = m_write_buffer c \<and> m_reply_datas c' = m_reply_datas c
           \<and> m_codec c' = m_codec c \<and> m_connection_type c' = m_connection_type c \<and> m_stop c' = m_stop c"
  using assms
proof (induction script arbitrary: c)
  case Nil
  then show ?case using make_room_ok [of "m_read_buffer c"] by (fastforce simp: got_def)
next
  case (Cons entry script)
  obtain rt ms where entry: "entry = (rt, ms)" by fastforce
  define bs where "bs = (case rt of Got bs \<Rightarrow> bs | ReadError \<Rightarrow> [])"
  obtain b where b: "make_room (m_read_buffer c) = Some b" "buf_ok b"
    "contents b = contents (m_read_buffer c)"
    using make_room_ok [OF Cons.prems(1)] by blast
  have fits: "length bs \<le> nat (writeAble b)"
    using Cons.prems(2) b(1) by (cases rt) (simp_all add: entry bs_def)
  obtain b1 where b1: "(if bs \<noteq> [] then store_read bs b else Some b) = Some b1" "buf_ok b1"
    "contents b1 = contents (m_read_buffer c) @ bs"
    using store_read_ok [OF b(2) fits] b by (cases "bs = []") auto
  obtain c1 e1 where c1: "apply_meanwhile ms (c\<lparr>m_read_buffer := b1\<rparr>) = (c1, e1)" by fastforce
  then have same: "m_read_buffer c1 = b1" "m_write_buffer c1 = m_write_buffer c"
    "m_reply_datas c1 = m_reply_datas c" "m_codec c1 = m_codec c"
    "m_connection_type c1 = m_connection_type c" "m_stop c1 = m_stop c"
    using apply_meanwhile_frame [of ms "c\<lparr>m_read_buffer := b1\<rparr>"] by simp_all
  have got1: "got [entry] = bs" by (simp add: got_def entry bs_def)
  show ?case
  proof (cases "m_is_over_time c1 \<or> bs = [] \<or> length bs \<noteq> nat (writeAble b)")
    case True
    then have "\<exists>fin. input_loop (entry # script) c = Some (c1, script, e1, fin)"
      using b(1) b1(1) c1 by (auto simp: entry bs_def [symmetric] Let_def)
    with b1 same got1 show ?thesis by (fastforce intro: exI [of _ "[entry]"])
  next
    case False
    then have "kernel_reads script (m_read_buffer c1)"
      using Cons.prems(2) b(1) b1(1) same(1) by (cases rt) (auto simp: entry bs_def)
    with Cons.IH [of c1] b1(2) same(1) obtain c' rest e fin used where
      "input_loop script c1 = Some (c', rest, e, fin)" "script = used @ rest" "buf_ok (m_read_buffer c')"
      "contents (m_read_buffer c') = contents (m_read_buffer c1) @ got used"
      "m_write_buffer c' = m_write_buffer c1" "m_reply_datas c' = m_reply_datas c1"
      "m_codec c' = m_codec c1" "m_connection_type c' = m_connection_type c1" "m_stop c' = m_stop c1"
      by auto
    moreover from False this(1) have "input_loop (entry # script) c = Some (c', rest, e1 @ e, fin)"
      using b(1) b1(1) c1 by (auto simp: entry bs_def [symmetric] Let_def)
    moreover have "got (entry # used) = bs @ got used" using got1 by (simp add: got_def)
    ultimately show ?thesis
      using b1 same by (auto intro!: exI [of _ "entry # used"])
  qed
qed

text \<open>
  A read that fills the buffer exactly is followed by another read, even when nothing more is on
  its way: the bytes stay unprocessed until the peer sends more, and a peer that closes instead
  gets its connection closed without an answer.
\<close>

lemma input_exact_fill:
  assumes ok: "buf_ok (m_read_buffer c)" and conn: "\<not> m_is_over_time c" "m_state c = Connected"
    and bs: "bs \<noteq> []" "make_room (m_read_buffer c) = Some b" "int (length bs) = writeAble b"
  shows "\<exists>c'. conn_input False [(Got bs, [])] c = Some (c', [], [], Suspended)
           \<and> contents (m_read_buffer c') = contents (m_read_buffer c) @ bs"
    and "\<exists>c'. conn_input False [(Got bs, []), (Got [], [])] c
           = Some (c', [], [Unregister (m_fd c), CloseFd (m_fd c), ForbidResume], Parked)
           \<and> contents (m_read_buffer c') = contents (m_read_buffer c) @ bs"
proof -
  have b: "buf_ok b" "contents b = contents (m_read_buffer c)"
    using make_room_ok [OF ok] bs(2) by auto
  have n: "length bs = nat (writeAble b)" using bs(3) by linarith
  then obtain b1 where b1: "store_read bs b = Some b1" "buf_ok b1" "contents b1 = contents (m_read_buffer c) @ bs"
    using store_read_ok [OF b(1), of bs] b(2) by auto
  obtain b2 where b2: "make_room b1 = Some b2" "contents b2 = contents b1"
    using make_room_ok [OF b1(2)] by blast
  show "\<exists>c'. conn_input False [(Got bs, [])] c = Some (c', [], [], Suspended)
           \<and> contents (m_read_buffer c') = contents (m_read_buffer c) @ bs"
    using conn bs(1,2) b1 b2 n by (auto simp: conn_input_def getState_def)
  show "\<exists>c'. conn_input False [(Got bs, []), (Got [], [])] c
           = Some (c', [], [Unregister (m_fd c), CloseFd (m_fd c), ForbidResume], Parked)
           \<and> contents (m_read_buffer c') = contents (m_read_buffer c) @ bs"
    using conn bs(1,2) b1 b2 n by (auto simp: conn_input_def getState_def clearClient_def setState_def)
qed

section \<open>\<open>output\<close> sends a prefix, in order\<close>

fun sent_bytes :: "effect list \<Rightarrow> bytes" where
  "sent_bytes [] = []"
| "sent_bytes (Sent bs # es) = bs @ sent_bytes es"
| "sent_bytes (_ # es) = sent_bytes es"

lemma sent_bytes_append [simp]: "sent_bytes (es @ fs) = sent_bytes es @ sent_bytes fs"
  by (induction es rule: sent_bytes.induct) auto

lemma sent_bytes_meanwhile [simp]: "sent_bytes (snd (apply_meanwhile ms c)) = []"
  by (induction ms c rule: apply_meanwhile.induct)
     (auto simp: shutdownConnection_def Let_def split: prod.splits)

text \<open>The kernel accepts at most as many bytes as it is offered.\<close>

fun kernel_writes :: "write_script \<Rightarrow> nat \<Rightarrow> bool" where
  "kernel_writes [] n \<longleftrightarrow> True"
| "kernel_writes ((rt, ms) # script) n \<longleftrightarrow> nat rt \<le> n \<and> kernel_writes script (n - nat rt)"

lemma output_loop_ok:
  assumes "buf_ok (m_write_buffer c)" "kernel_writes script (length (contents (m_write_buffer c)))"
  shows "\<exists>c' rest e fin. output_loop script c = Some (c', rest, e, fin) \<and> buf_ok (m_write_buffer c')
           \<and> sent_bytes e @ contents (m_write_buffer c') = contents (m_write_buffer c)
           \<and> m_read_buffer c' = m_read_buffer c \<and> m_reply_datas c' = m_reply_datas c
           \<and> m_codec c' = m_codec c \<and> m_connection_type c' = m_connection_type c \<and> m_stop c' = m_stop c
           \<and> fin \<noteq> Parked
           \<and> (fin = Done \<longrightarrow> contents (m_write_buffer c') = [] \<or> m_state c' \<noteq> Connected \<or> m_is_over_time c')"
  using assms
proof (induction script arbitrary: c)
  case Nil
  then show ?case
    by (auto simp: output_loop.simps [of "[]"] getState_def readAble_contents)
next
  case (Cons entry script)
  obtain rt ms where entry: "entry = (rt, ms)" by fastforce
  let ?b = "m_write_buffer c" and ?k = "nat rt"
  show ?case
  proof (cases "m_state c \<noteq> Connected \<or> contents ?b = []")
    case True
    with Cons.prems show ?thesis
      by (auto simp: output_loop.simps [of "_ # _"] getState_def readAble_contents)
  next
    case False
    have k: "?k \<le> length (contents ?b)" using Cons.prems(2) by (simp add: entry)
    then have bs: "slice (m_buffer ?b) (m_read_index ?b) ?k = Some (take ?k (contents ?b))"
      using Cons.prems(1) by (auto simp: buf_ok_def contents_def drop_take min_absorb1)
    obtain b1 where b1: "(if 0 < rt then recycleRead ?k ?b else Some ?b) = Some b1" "buf_ok b1"
      "contents b1 = drop ?k (contents ?b)"
      using recycleRead_ok [OF Cons.prems(1) k] Cons.prems(1) by (cases "0 < rt") auto
    obtain c1 e1 where c1: "apply_meanwhile ms c = (c1, e1)" by fastforce
    then have same: "m_read_buffer c1 = m_read_buffer c" "m_write_buffer c1 = ?b"
      "m_reply_datas c1 = m_reply_datas c" "m_codec c1 = m_codec c"
      "m_connection_type c1 = m_connection_type c" "m_stop c1 = m_stop c" "sent_bytes e1 = []"
      using apply_meanwhile_frame [of ms c] sent_bytes_meanwhile [of ms c] by simp_all
    let ?c2 = "c1\<lparr>m_write_buffer := b1\<rparr>"
    let ?e2 = "if 0 < rt then e1 @ [Sent (take ?k (contents ?b))] else e1"
    have sent: "sent_bytes ?e2 = take ?k (contents ?b)" using same(7) by simp
    have unfold: "output_loop (entry # script) c =
      (if readAble b1 \<le> 0 \<or> m_is_over_time ?c2 then Some (?c2, script, ?e2, Done)
       else do { (c, script, e', fin) \<leftarrow> output_loop script ?c2; Some (c, script, ?e2 @ e', fin) })"
      using False b1(1)
      unfolding entry output_loop.simps [of "(rt, ms) # script"]
      using bs readAble_contents [OF Cons.prems(1)]
      by (cases "0 < rt") (simp_all add: getState_def c1 same(2) Let_def)
    show ?thesis
    proof (cases "readAble b1 \<le> 0 \<or> m_is_over_time ?c2")
      case True
      then show ?thesis
        using b1 same sent unfold by (auto simp: readAble_contents)
    next
      case more: False
      have "kernel_writes script (length (contents (m_write_buffer ?c2)))"
        using Cons.prems(2) b1(3) by (simp add: entry)
      with Cons.IH [of ?c2] b1(2) obtain c' rest e fin where
        "output_loop script ?c2 = Some (c', rest, e, fin)" "buf_ok (m_write_buffer c')"
        "sent_bytes e @ contents (m_write_buffer c') = contents b1"
        "m_read_buffer c' = m_read_buffer c1" "m_reply_datas c' = m_reply_datas c1"
        "m_codec c' = m_codec c1" "m_connection_type c' = m_connection_type c1" "m_stop c' = m_stop c1"
        "fin \<noteq> Parked"
        "fin = Done \<longrightarrow> contents (m_write_buffer c') = [] \<or> m_state c' \<noteq> Connected \<or> m_is_over_time c'"
        by auto
      moreover from this(3) have "sent_bytes (?e2 @ e) @ contents (m_write_buffer c') = contents ?b"
        unfolding sent_bytes_append sent using b1(3) by simp
      ultimately show ?thesis
        using more same unfold by (auto simp del: sent_bytes_append)
    qed
  qed
qed

text \<open>
  Writes that fail do not end the loop: however many fail, it asks for another one.
\<close>

lemma output_never_gives_up:
  assumes "m_state c = Connected" "\<not> m_is_over_time c" "buf_ok (m_write_buffer c)"
    "contents (m_write_buffer c) \<noteq> []" "rt \<le> 0"
  shows "output_loop (replicate n (rt, [])) c = Some (c, [], [], Suspended)"
proof (induction n)
  case 0
  then show ?case
    using assms by (simp add: output_loop.simps [of "[]"] getState_def readAble_contents)
next
  case (Suc n)
  have "slice (m_buffer (m_write_buffer c)) (m_read_index (m_write_buffer c)) 0 = Some []"
    using assms(3) by (simp add: buf_ok_def)
  with Suc assms show ?case
    by (simp add: output_loop.simps [of "_ # _"] getState_def readAble_contents)
qed

section \<open>Properties\<close>

lemma clearClient_frame [simp]:
  "m_read_buffer (fst (clearClient c)) = m_read_buffer c" "m_write_buffer (fst (clearClient c)) = m_write_buffer c"
  "m_reply_datas (fst (clearClient c)) = m_reply_datas c" "m_state (fst (clearClient c)) = Closed"
  by (simp_all add: clearClient_def setState_def getState_def)

definition sample_connection :: tcp_connection where
  "sample_connection = fst (TcpConnection_server TinyPb_Protocal 7 4)"

lemma sample_connection_simps [simp]:
  "m_read_buffer sample_connection = TcpBuffer 4" "m_write_buffer sample_connection = TcpBuffer 4"
  "m_state sample_connection = Connected" "\<not> m_is_over_time sample_connection" "m_fd sample_connection = 7"
  "m_connection_type sample_connection = ServerConnection" "m_codec sample_connection = TinyPb_Protocal"
  "\<not> m_stop sample_connection" "m_weak_slot sample_connection = None"
  by (simp_all add: sample_connection_def TcpConnection_server_def initBuffer_def)

lemma writeAble_TcpBuffer [simp]: "writeAble (TcpBuffer n) = int n"
  by (simp add: writeAble_def TcpBuffer_def)

text \<open>
  C25: \<open>input\<close> loses nothing. Whatever the kernel delivers and whatever others do to the connection
  meanwhile, \<open>input\<close> stays inside the buffer, and the bytes it read are behind those that were there,
  in order; it touches neither the write buffer nor the filed replies. It parks the coroutine only
  with the connection closed, and never the main coroutine.
\<close>

theorem input_keeps_bytes:
  assumes "buf_ok (m_read_buffer c)" "kernel_reads script (m_read_buffer c)"
  shows "\<exists>c' rest e out used. conn_input is_main script c = Some (c', rest, e, out) \<and> script = used @ rest
           \<and> buf_ok (m_read_buffer c') \<and> contents (m_read_buffer c') = contents (m_read_buffer c) @ got used
           \<and> m_write_buffer c' = m_write_buffer c \<and> m_reply_datas c' = m_reply_datas c
           \<and> (out = Parked \<longrightarrow> m_state c' = Closed \<and> \<not> is_main)"
proof (cases "m_is_over_time c \<or> getState c = Closed \<or> getState c = NotConnected")
  case True
  then show ?thesis using assms by (auto simp: conn_input_def got_def intro!: exI [of _ "[]"])
next
  case False
  obtain c' rest e fin used where c': "input_loop script c = Some (c', rest, e, fin)" "script = used @ rest"
    "buf_ok (m_read_buffer c')" "contents (m_read_buffer c') = contents (m_read_buffer c) @ got used"
    "m_write_buffer c' = m_write_buffer c" "m_reply_datas c' = m_reply_datas c"
    using input_loop_ok [OF assms] by blast
  show ?thesis
    using False c' clearClient_frame [of c']
    by (cases "clearClient c'") (auto simp: conn_input_def Let_def intro!: exI [of _ used])
qed

theorem input_keeps_bytes_witness:
  "\<exists>c' rest e out used. conn_input False [(Got ''abcd'', []), (Got ''ef'', [Shutdown])] sample_connection = Some (c', rest, e, out)
      \<and> [(Got ''abcd'', []), (Got ''ef'', [Shutdown])] = used @ rest \<and> contents (m_read_buffer c') = got used"
proof -
  have "kernel_reads [(Got ''abcd'', []), (Got ''ef'', [Shutdown])] (TcpBuffer 4)" by code_simp
  then have "kernel_reads [(Got ''abcd'', []), (Got ''ef'', [Shutdown])] (m_read_buffer sample_connection)"
    unfolding sample_connection_simps .
  from input_keeps_bytes [OF _ this] show ?thesis
    unfolding sample_connection_simps contents_TcpBuffer append_Nil by (meson buf_ok_TcpBuffer)
qed

text \<open>
  \<open>output\<close> sends a prefix, in order. The bytes handed to the kernel followed by those still in
  the write buffer are the bytes that were there before. If \<open>output\<close> returns to its caller, then
  nothing is left, or the connection is no longer connected, or it is over time.
\<close>

theorem output_sends_prefix:
  assumes "buf_ok (m_write_buffer c)" "kernel_writes script (length (contents (m_write_buffer c)))"
  shows "\<exists>c' rest e out. conn_output script c = Some (c', rest, e, out) \<and> buf_ok (m_write_buffer c')
           \<and> sent_bytes e @ contents (m_write_buffer c') = contents (m_write_buffer c)
           \<and> m_read_buffer c' = m_read_buffer c
           \<and> (out = Done \<longrightarrow> contents (m_write_buffer c') = [] \<or> m_state c' \<noteq> Connected \<or> m_is_over_time c')"
  using output_loop_ok [OF assms] assms(1) by (cases "m_is_over_time c") (auto simp: conn_output_def)

theorem output_sends_prefix_witness:
  "\<exists>c' rest e out. conn_output [(2, []), (0, []), (1, [])] (sample_connection\<lparr>m_write_buffer := loaded ''abc''\<rparr>)
      = Some (c', rest, e, out) \<and> sent_bytes e @ contents (m_write_buffer c') = ''abc''"
  using output_sends_prefix [of "sample_connection\<lparr>m_write_buffer := loaded ''abc''\<rparr>" "[(2, []), (0, []), (1, [])]"]
  by auto

text \<open>
  \<open>output\<close> never gives up. While the connection is connected and not over time, a write that
  fails is logged and tried again: after any number of failures the loop asks for one more write,
  so a peer that has reset the connection keeps the coroutine in this loop.
\<close>

theorem output_retries_forever:
  assumes "m_state c = Connected" "\<not> m_is_over_time c" "buf_ok (m_write_buffer c)"
    "contents (m_write_buffer c) \<noteq> []" "rt \<le> 0"
  shows "conn_output (replicate n (rt, [])) c = Some (c, [], [], Suspended)"
  using output_never_gives_up [OF assms] assms(2) by (simp add: conn_output_def)

theorem output_retries_forever_witness:
  "conn_output (replicate 1000 (-1, [])) (sample_connection\<lparr>m_write_buffer := loaded ''abc''\<rparr>)
     = Some (sample_connection\<lparr>m_write_buffer := loaded ''abc''\<rparr>, [], [], Suspended)"
  by (rule output_retries_forever) simp_all

text \<open>
  A read that fills the buffer exactly. \<open>input\<close> asks for more before it lets its caller look at
  what it has: the request stays unprocessed while the peer waits for its answer, and when the peer
  closes its side instead, the connection is closed and the coroutine parked without an answer.
\<close>

theorem input_exact_fill_stalls:
  assumes "buf_ok (m_read_buffer c)" "\<not> m_is_over_time c" "m_state c = Connected"
    and "bs \<noteq> []" "make_room (m_read_buffer c) = Some b" "int (length bs) = writeAble b"
  shows "(\<exists>c'. conn_input False [(Got bs, [])] c = Some (c', [], [], Suspended)
            \<and> contents (m_read_buffer c') = contents (m_read_buffer c) @ bs)
    \<and> (\<exists>c'. conn_input False [(Got bs, []), (Got [], [])] c
            = Some (c', [], [Unregister (m_fd c), CloseFd (m_fd c), ForbidResume], Parked)
            \<and> contents (m_read_buffer c') = contents (m_read_buffer c) @ bs)"
  by (rule conjI [OF input_exact_fill [OF assms]])

theorem input_exact_fill_stalls_witness:
  "\<exists>c'. conn_input False [(Got ''abcd'', [])] sample_connection = Some (c', [], [], Suspended)
     \<and> contents (m_read_buffer c') = ''abcd''"
proof -
  have "make_room (TcpBuffer 4) = Some (TcpBuffer 4)" by (simp add: make_room_def)
  then have room: "make_room (m_read_buffer sample_connection) = Some (TcpBuffer 4)" by simp
  have fill: "int (length ''abcd'') = writeAble (TcpBuffer 4)" "''abcd'' \<noteq> []"
    and ok: "buf_ok (m_read_buffer sample_connection)" by simp_all
  show ?thesis
    using input_exact_fill_stalls [OF ok sample_connection_simps(4,3) fill(2) room fill(1)]
    unfolding sample_connection_simps contents_TcpBuffer append_Nil by (rule conjunct1)
qed

end
