(* ===== verification/MsgReq.thy ===== *)
theory MsgReq
  imports StdString
begin

text \<open>
  \<open>src/comm/msg_req.cc\<close>: the message numbers of one thread. The thread-local variables and the
  descriptor are the state. What \<open>open\<close> returns, and what \<open>read\<close> of \<open>/dev/urandom\<close> delivers (\<^term>\<open>None\<close> for a
  failure), are arguments.
\<close>

record msg_req_state =
  t_msg_req_nu :: string
  t_max_msg_req_nu :: string
  g_random_fd :: int

definition msg_req_init :: msg_req_state where
  "msg_req_init = \<lparr>t_msg_req_nu = [], t_max_msg_req_nu = [], g_random_fd = - 1\<rparr>"

text \<open>One random byte as a digit.\<close>

definition random_digit :: "char \<Rightarrow> char" where
  "random_digit c = char_of ((of_char c mod 10 :: nat) + 48)"

text \<open>
  The scan back over the nines, from index \<open>i - 1\<close>: the number of characters that are not part of the
  trailing run.
\<close>

fun before_nines :: "string \<Rightarrow> nat \<Rightarrow> nat" where
  "before_nines s 0 = 0"
| "before_nines s (Suc i) = (if s ! i = CHR ''9'' then before_nines s i else Suc i)"

definition increment :: "string \<Rightarrow> string" where
  "increment s =
     (case before_nines s (length s) of
        0 \<Rightarrow> s
      | Suc i \<Rightarrow> take i s @ [char_of ((of_char (s ! i) :: nat) + 1)] @ replicate (length s - Suc i) (CHR ''0''))"

definition genMsgNumber ::
  "nat option \<Rightarrow> int \<Rightarrow> bytes option \<Rightarrow> msg_req_state \<Rightarrow> string \<times> msg_req_state" where
  "genMsgNumber config_len open_result random st =
     (let len = (case config_len of None \<Rightarrow> 20 | Some n \<Rightarrow> n) in
      if t_msg_req_nu st = [] \<or> t_msg_req_nu st = t_max_msg_req_nu st then
        let st = (if g_random_fd st = - 1 then st\<lparr>g_random_fd := open_result\<rparr> else st) in
        (case random of
           None \<Rightarrow> ([], st)
         | Some res \<Rightarrow>
             if length res \<noteq> len then ([], st)
             else let no = map random_digit res in
               (no, st\<lparr>t_msg_req_nu := no, t_max_msg_req_nu := replicate len (CHR ''9'')\<rparr>))
      else let no = increment (t_msg_req_nu st) in (no, st\<lparr>t_msg_req_nu := no\<rparr>))"

section \<open>Numbers of a fixed length that count up\<close>

definition msg_req_ok :: "msg_req_state \<Rightarrow> bool" where
  "msg_req_ok st \<longleftrightarrow> (\<forall>c\<in>set (t_msg_req_nu st). is_digit c)
     \<and> (t_msg_req_nu st \<noteq> [] \<longrightarrow> t_max_msg_req_nu st = replicate (length (t_msg_req_nu st)) (CHR ''9''))"

lemma msg_req_ok_init: "msg_req_ok msg_req_init"
  by (simp add: msg_req_ok_def msg_req_init_def)

lemma is_digit_random [simp]: "is_digit (random_digit c)"
proof -
  have "(of_char c mod 10 :: nat) < 10" by simp
  then have "((of_char c mod 10 :: nat) + 48) mod 256 = of_char c mod 10 + 48" by simp
  then show ?thesis by (simp add: is_digit_def random_digit_def of_char_of Let_def)
qed

lemma before_nines_spec:
  assumes "n \<le> length s"
  shows "before_nines s n \<le> n" "take n s = take (before_nines s n) s @ replicate (n - before_nines s n) (CHR ''9'')"
    and "before_nines s n = Suc i \<Longrightarrow> s ! i \<noteq> CHR ''9''"
proof -
  show "before_nines s n \<le> n" using assms by (induction n) auto
  show "take n s = take (before_nines s n) s @ replicate (n - before_nines s n) (CHR ''9'')"
    using assms
  proof (induction n)
    case (Suc n)
    have le: "before_nines s n \<le> n" for n by (induction n) (auto intro: le_SucI)
    show ?case
    proof (cases "s ! n = CHR ''9''")
      case True
      have "replicate (Suc n - before_nines s n) (CHR ''9'') = replicate (n - before_nines s n) (CHR ''9'') @ ''9''"
        using le [of n] by (simp add: Suc_diff_le replicate_append_same)
      with Suc True show ?thesis by (simp add: take_Suc_conv_app_nth)
    next
      case False
      with Suc.prems show ?thesis by simp
    qed
  qed simp
  show "before_nines s n = Suc i \<Longrightarrow> s ! i \<noteq> CHR ''9''"
    by (induction n) (auto split: if_splits)
qed

lemma digits_val_append: "digits_val (xs @ ys) = digits_val xs * 10 ^ length ys + digits_val ys"
proof (induction ys rule: rev_induct)
  case (snoc y ys)
  then show ?case by (simp add: algebra_simps flip: append_assoc)
qed (simp add: digits_val_def)

lemma digits_val_zeros: "digits_val (replicate n (CHR ''0'')) = 0"
  by (induction n) (simp_all add: digits_val_def)

lemma digits_val_nines: "digits_val (replicate n (CHR ''9'')) + 1 = 10 ^ n"
proof (induction n)
  case (Suc n)
  have "replicate (Suc n) (CHR ''9'') = replicate n (CHR ''9'') @ ''9''"
    by (simp add: replicate_append_same)
  then have "digits_val (replicate (Suc n) (CHR ''9'')) = digits_val (replicate n (CHR ''9'')) * 10 + 9"
    by (simp only: digits_val_snoc) simp
  with Suc show ?case by simp
qed (simp add: digits_val_def)

lemma increment_value:
  assumes digits: "\<forall>c\<in>set s. is_digit c" and not_max: "s \<noteq> replicate (length s) (CHR ''9'')"
  shows "length (increment s) = length s" "\<forall>c\<in>set (increment s). is_digit c"
    and "digits_val (increment s) = digits_val s + 1"
proof -
  note spec = before_nines_spec [of "length s" s, simplified]
  obtain i where i: "before_nines s (length s) = Suc i"
    using spec(2) not_max by (cases "before_nines s (length s)") auto
  define m where "m = length s - Suc i"
  have il: "i < length s" using spec(1) i by simp
  have s: "s = take i s @ [s ! i] @ replicate m (CHR ''9'')"
    using spec(2) il by (simp add: i m_def take_Suc_conv_app_nth)
  have inc: "increment s = take i s @ [char_of ((of_char (s ! i) :: nat) + 1)] @ replicate m (CHR ''0'')"
    by (simp add: increment_def i m_def)
  have "is_digit (s ! i)" using digits il by simp
  moreover have "s ! i \<noteq> CHR ''9''" by (rule spec(3) [OF i])
  then have "(of_char (s ! i) :: nat) \<noteq> of_char (CHR ''9'')" by (metis char_of_char)
  ultimately have d: "48 \<le> (of_char (s ! i) :: nat)" "(of_char (s ! i) :: nat) < 57"
    by (auto simp: is_digit_def Let_def)
  then have c: "(of_char (char_of ((of_char (s ! i) :: nat) + 1) :: char) :: nat) = of_char (s ! i) + 1"
    by (simp add: of_char_of)
  show "length (increment s) = length s" using il by (simp add: inc m_def)
  have "is_digit (char_of ((of_char (s ! i) :: nat) + 1))"
    using d c by (simp add: is_digit_def Let_def)
  moreover have "is_digit (CHR ''0'')" by (simp add: is_digit_def)
  ultimately show "\<forall>c\<in>set (increment s). is_digit c"
    using digits by (auto simp: inc dest: in_set_takeD)
  have one: "digits_val ([x] @ ys) = (of_char x - 48) * 10 ^ length ys + digits_val ys" for x ys
    unfolding digits_val_append by (simp add: digits_val_def)
  have "digits_val (increment s) = digits_val (take i s) * 10 ^ Suc m + (of_char (s ! i) + 1 - 48) * 10 ^ m"
    unfolding inc digits_val_append [of "take i s"] one c by (simp add: digits_val_zeros)
  moreover have "digits_val s + 1 = digits_val (take i s) * 10 ^ Suc m
      + ((of_char (s ! i) - 48) * 10 ^ m + (digits_val (replicate m (CHR ''9'')) + 1))"
    by (subst s, unfold digits_val_append [of "take i s"] one) simp
  moreover have "((of_char (s ! i) :: nat) + 1 - 48) * 10 ^ m = (of_char (s ! i) - 48) * 10 ^ m + 10 ^ m"
    using d(1) by (simp add: algebra_simps Suc_diff_le)
  ultimately show "digits_val (increment s) = digits_val s + 1"
    using digits_val_nines [of m] by simp
qed

text \<open>One call: a fresh number of the configured length, or the successor of the previous one.\<close>

lemma genMsgNumber_ok:
  assumes "msg_req_ok st" and "genMsgNumber config_len open_result random st = (no, st')"
  shows "msg_req_ok st'" "\<forall>c\<in>set no. is_digit c"
proof -
  have "msg_req_ok st' \<and> (\<forall>c\<in>set no. is_digit c)"
  proof (cases "t_msg_req_nu st = [] \<or> t_msg_req_nu st = t_max_msg_req_nu st")
    case True
    have same: "msg_req_ok (st\<lparr>g_random_fd := f\<rparr>)" for f using assms(1) by (simp add: msg_req_ok_def)
    have new: "length res = len \<Longrightarrow> msg_req_ok (s\<lparr>t_msg_req_nu := map random_digit res,
        t_max_msg_req_nu := replicate len (CHR ''9'')\<rparr>)" for s res len
      by (simp add: msg_req_ok_def)
    have digits: "\<forall>c\<in>set (map random_digit res). is_digit c" for res by simp
    show ?thesis
      using True assms(2) same [of open_result] assms(1) new digits
      unfolding genMsgNumber_def Let_def
      by (cases random; cases "g_random_fd st = - 1") (auto simp del: set_map split: if_splits)
  next
    case False
    then have st': "no = increment (t_msg_req_nu st)" "st' = st\<lparr>t_msg_req_nu := no\<rparr>"
      using assms(2) by (auto simp: genMsgNumber_def Let_def)
    moreover have "t_msg_req_nu st \<noteq> replicate (length (t_msg_req_nu st)) (CHR ''9'')"
      "\<forall>c\<in>set (t_msg_req_nu st). is_digit c"
      using False assms(1) by (auto simp: msg_req_ok_def)
    ultimately show ?thesis
      using False assms(1) increment_value [of "t_msg_req_nu st"] by (simp add: msg_req_ok_def)
  qed
  then show "msg_req_ok st'" "\<forall>c\<in>set no. is_digit c" by blast+
qed

lemma genMsgNumber_counts:
  assumes "msg_req_ok st" and "t_msg_req_nu st \<noteq> []"
    and "t_msg_req_nu st \<noteq> replicate (length (t_msg_req_nu st)) (CHR ''9'')"
    and "genMsgNumber config_len open_result random st = (no, st')"
  shows "length no = length (t_msg_req_nu st)" "digits_val no = digits_val (t_msg_req_nu st) + 1"
    "t_msg_req_nu st' = no"
  using assms increment_value [of "t_msg_req_nu st"]
  by (auto simp: genMsgNumber_def msg_req_ok_def Let_def)

section \<open>Properties\<close>

text \<open>The numbers of a run of calls, with what the system gave each of them.\<close>

fun msg_numbers :: "nat option \<Rightarrow> (int \<times> bytes option) list \<Rightarrow> msg_req_state \<Rightarrow> string list" where
  "msg_numbers config_len [] st = []"
| "msg_numbers config_len ((fd, random) # sys) st =
     (let (no, st) = genMsgNumber config_len fd random st in no # msg_numbers config_len sys st)"

lemma msg_numbers_count:
  assumes "msg_req_ok st" "t_msg_req_nu st \<noteq> []"
    and "digits_val (t_msg_req_nu st) + length sys < 10 ^ length (t_msg_req_nu st)"
  shows "map digits_val (msg_numbers config_len sys st)
           = map (\<lambda>i. digits_val (t_msg_req_nu st) + 1 + i) [0..<length sys]
       \<and> (\<forall>no\<in>set (msg_numbers config_len sys st). length no = length (t_msg_req_nu st))"
  using assms
proof (induction sys arbitrary: st)
  case (Cons x sys)
  obtain fd random where x: "x = (fd, random)" by fastforce
  obtain no st' where g: "genMsgNumber config_len fd random st = (no, st')" by fastforce
  have "t_msg_req_nu st \<noteq> replicate (length (t_msg_req_nu st)) (CHR ''9'')"
  proof
    assume nines: "t_msg_req_nu st = replicate (length (t_msg_req_nu st)) (CHR ''9'')"
    have "digits_val (t_msg_req_nu st) + 1 = 10 ^ length (t_msg_req_nu st)"
      using digits_val_nines [of "length (t_msg_req_nu st)"] by (simp add: nines [symmetric])
    with Cons.prems(3) show False by simp
  qed
  from genMsgNumber_counts [OF Cons.prems(1,2) this g] genMsgNumber_ok [OF Cons.prems(1) g]
  have st': "length no = length (t_msg_req_nu st)" "digits_val no = digits_val (t_msg_req_nu st) + 1"
    "t_msg_req_nu st' = no" "msg_req_ok st'" by simp_all
  then have "no \<noteq> []" using Cons.prems(2) by auto
  with st' Cons.IH [of st'] Cons.prems(3) show ?case
    by (simp add: x g upt_conv_Cons map_Suc_upt [symmetric] del: upt_Suc)
qed simp

text \<open>
  Message numbers count up. After the first, random number of a thread, the numbers of a run of
  calls have its length and are its successors, one by one, until all digits are nine; so they are
  pairwise different, and a reply can be told from every other of the connection.
\<close>

theorem msg_numbers_unique:
  assumes "msg_req_ok st" "t_msg_req_nu st \<noteq> []"
    and "digits_val (t_msg_req_nu st) + length sys < 10 ^ length (t_msg_req_nu st)"
  shows "distinct (t_msg_req_nu st # msg_numbers config_len sys st)
    \<and> (\<forall>i<length sys. digits_val (msg_numbers config_len sys st ! i) = digits_val (t_msg_req_nu st) + 1 + i
         \<and> length (msg_numbers config_len sys st ! i) = length (t_msg_req_nu st))"
proof -
  let ?ns = "msg_numbers config_len sys st" and ?v = "digits_val (t_msg_req_nu st)"
  have m: "map digits_val ?ns = map (\<lambda>i. ?v + 1 + i) [0..<length sys]"
    "\<forall>no\<in>set ?ns. length no = length (t_msg_req_nu st)"
    using msg_numbers_count [OF assms] by blast+
  have "map digits_val (t_msg_req_nu st # ?ns) = ?v # map (\<lambda>i. ?v + 1 + i) [0..<length sys]"
    by (simp add: m(1))
  moreover have "distinct (?v # map (\<lambda>i. ?v + 1 + i) [0..<length sys])"
    by (auto simp: distinct_map inj_on_def)
  ultimately have "distinct (t_msg_req_nu st # ?ns)" by (metis distinct_map)
  moreover have len: "length ?ns = length sys" using arg_cong [OF m(1), of length] by simp
  have "digits_val (?ns ! i) = ?v + 1 + i" if "i < length sys" for i
    using arg_cong [OF m(1), of "\<lambda>xs. xs ! i"] that len by simp
  moreover have "length (?ns ! i) = length (t_msg_req_nu st)" if "i < length sys" for i
    using m(2) that len by simp
  ultimately show ?thesis by blast
qed

theorem msg_numbers_unique_witness:
  "distinct (''0098'' # msg_numbers None [(3, None), (3, None), (3, None)]
      \<lparr>t_msg_req_nu = ''0098'', t_max_msg_req_nu = ''9999'', g_random_fd = 3\<rparr>)"
  using msg_numbers_unique [of "\<lparr>t_msg_req_nu = ''0098'', t_max_msg_req_nu = ''9999'', g_random_fd = 3\<rparr>"
      "[(3, None), (3, None), (3, None)]" None]
  by (simp add: msg_req_ok_def is_digit_def digits_val_def)

end
