(* ===== verification/Dispatcher.thy ===== *)
theory Dispatcher
  imports TcpConnection MsgReq
begin

text \<open>
  \<open>src/rpc/rpc_dispatcher.{h,cc}\<close>, \<open>src/net/http/http_dispatcher.{h,cc}\<close>,
  \<open>src/net/http/http_servlet.{h,cc}\<close>: from a decoded request to the reply
  that is appended to the connection's output buffer. A protobuf service and a user's servlet are
  arguments: a record of what the dispatchers call.
\<close>

section \<open>Surroundings\<close>

text \<open>The virtual \<open>encode\<close> of the connection's codec, on its output buffer.\<close>

definition codec_encode :: "string \<Rightarrow> any_data \<Rightarrow> tcp_connection \<Rightarrow> tcp_connection option" where
  "codec_encode fresh d c = do {
     (bp, _) \<leftarrow> (case m_codec c of
                  TinyPb_Protocal \<Rightarrow> RpcCodeC_encode fresh (Some (m_write_buffer c)) (Some d)
                | Http_Protocal \<Rightarrow> HttpCodec_encode (Some (m_write_buffer c)) (Some d));
     map_option (\<lambda>b. c\<lparr>m_write_buffer := b\<rparr>) bp
   }"

text \<open>
  What the dispatcher asks of a \<open>google::protobuf::Service\<close>: its name, its methods in order, and
  for a method the full name of its request type, \<open>ParseFromString\<close> of a request (\<^term>\<open>None\<close> for
  false), the call, and \<open>SerializeToString\<close> of the response.
\<close>

record 'm pb_service =
  sd_name :: string
  sd_methods :: "string list"
  sd_request_type :: "string \<Rightarrow> string"
  sd_parse :: "string \<Rightarrow> bytes \<Rightarrow> 'm option"
  sd_call :: "string \<Rightarrow> 'm \<Rightarrow> 'm"
  sd_serialize :: "'m \<Rightarrow> bytes option"

type_synonym 'm service_map = "(string, 'm pb_service option) std_map"

section \<open>\<open>RpcDispatcher\<close>\<close>

definition registerService :: "'m pb_service \<Rightarrow> 'm service_map \<Rightarrow> 'm service_map" where
  "registerService service m = map_put (sd_name service) (Some service) m"

text \<open>The reply to a request.\<close>

definition rpc_reply :: "'m service_map \<Rightarrow> rpc_struct \<Rightarrow> rpc_struct" where
  "rpc_reply services tmp =
     (let reply_pk = RpcStruct\<lparr>msg_no := msg_no tmp, service_name := service_name tmp,
                               method_name := method_name tmp\<rparr>
      in case map_find services (service_name tmp) of
           Some (Some service) \<Rightarrow>
             if method_name tmp \<notin> set (sd_methods service)
             then reply_pk\<lparr>err_code := word_of_int ERROR_METHOD_NOT_FOUND,
                           err_info := ''not found method_name:['' @ method_name tmp @ '']''\<rparr>
             else (case sd_parse service (method_name tmp) (pb_data tmp) of
                     None \<Rightarrow>
                       reply_pk\<lparr>err_code := word_of_int ERROR_FAILED_SERIALIZE,
                                err_info := ''faild to parse request data, request.name:[''
                                  @ sd_request_type service (method_name tmp) @ '']''\<rparr>
                   | Some request \<Rightarrow>
                       (case sd_serialize service (sd_call service (method_name tmp) request) of
                          None \<Rightarrow> reply_pk\<lparr>pb_data := [], err_code := word_of_int ERROR_FAILED_SERIALIZE,
                                          err_info := ''failed to serilize relpy data''\<rparr>
                        | Some pb \<Rightarrow> reply_pk\<lparr>pb_data := pb\<rparr>))
         | _ \<Rightarrow> reply_pk\<lparr>err_code := word_of_int ERROR_SERVICE_NOT_FOUND,
                        err_info := ''not found service_name:['' @ service_name tmp @ '']''\<rparr>)"

definition RpcDispatcher_dispatch ::
  "'m service_map \<Rightarrow> string \<Rightarrow> any_data \<Rightarrow> tcp_connection \<times> run_time \<Rightarrow> (tcp_connection \<times> run_time) option" where
  "RpcDispatcher_dispatch services fresh d s =
     (case d of
        RpcData tmp \<Rightarrow>
          let rt = (snd s)\<lparr>m_msg_no := msg_no tmp,
                           m_interface_name := service_name tmp @ ''.'' @ method_name tmp\<rparr>
          in map_option (\<lambda>c. (c, rt)) (codec_encode fresh (RpcData (rpc_reply services tmp)) (fst s))
      | _ \<Rightarrow> Some s)"

section \<open>\<open>HttpServlet\<close>\<close>

definition setHttpCode :: "int \<Rightarrow> http_response option \<Rightarrow> http_response option" where
  "setHttpCode code =
     map_option (\<lambda>r. r\<lparr>m_response_code := code, m_response_info := HttpCodeToString code\<rparr>)"

definition setHttpContentType :: "string \<Rightarrow> http_response option \<Rightarrow> http_response option" where
  "setHttpContentType content_type =
     map_option (\<lambda>r. r\<lparr>m_response_header := setKeyValue ''Content-Type'' content_type (m_response_header r)\<rparr>)"

definition setHttpBody :: "string \<Rightarrow> http_response option \<Rightarrow> http_response option" where
  "setHttpBody body =
     map_option (\<lambda>r. r\<lparr>m_response_body := body,
       m_response_header := setKeyValue ''Content-Length'' (nat_str (length body)) (m_response_header r)\<rparr>)"

definition handleNotFound :: "http_request option \<Rightarrow> http_response option \<Rightarrow> http_response option" where
  "handleNotFound request response =
     (if response = None then None
      else
        let response = setHttpCode HTTP_NOTFOUND response;
            response = setHttpContentType kDefaultHtmlContentType response;
            body = ''<html><body><h1>'' @ int_str HTTP_NOTFOUND @ '' '' @ HttpCodeToString HTTP_NOTFOUND
                     @ ''</h1><p>Path ''
                     @ (case request of None \<Rightarrow> ''/'' | Some r \<Rightarrow> m_request_path r)
                     @ '' was not found.</p></body></html>''
        in setHttpBody body response)"

definition setCommParam :: "http_request option \<Rightarrow> http_response option \<Rightarrow> http_response option" where
  "setCommParam request response =
     (case (request, response) of
        (Some q, Some r) \<Rightarrow>
          let r = r\<lparr>m_response_version :=
                (if m_request_version q = [] then ''HTTP/1.1'' else m_request_version q)\<rparr>;
              connection = getValue (m_request_header q) ''Connection'';
              connection = (if connection = []
                            then if m_response_version r = ''HTTP/1.0'' then ''close'' else ''keep-alive''
                            else connection)
          in Some (r\<lparr>m_response_header := setKeyValue ''Connection'' connection (m_response_header r)\<rparr>)
      | _ \<Rightarrow> response)"

record servlet =
  getServletName :: string
  handle :: "http_request \<Rightarrow> http_response \<Rightarrow> http_response"

definition NotFoundHttpServlet :: servlet where
  "NotFoundHttpServlet =
     \<lparr>getServletName = ''NotFoundHttpServlet'',
      handle = (\<lambda>q r. case handleNotFound (Some q) (Some r) of Some r \<Rightarrow> r | None \<Rightarrow> r)\<rparr>"

section \<open>\<open>HttpDispatcher\<close>\<close>

definition NormalizePath :: "string \<Rightarrow> string" where
  "NormalizePath path = (if path = [] then ''/'' else if hd path = CHR ''/'' then path else ''/'' @ path)"

type_synonym servlet_map = "(string, servlet) std_map"

definition registerServlet :: "string \<Rightarrow> servlet option \<Rightarrow> servlet_map \<Rightarrow> servlet_map \<times> bool" where
  "registerServlet path sv m =
     (case sv of None \<Rightarrow> (m, False) | Some sv \<Rightarrow> map_emplace (NormalizePath path) sv m)"

definition servlet_for :: "servlet_map \<Rightarrow> string \<Rightarrow> servlet" where
  "servlet_for m path =
     (case map_find m (NormalizePath path) of None \<Rightarrow> NotFoundHttpServlet | Some sv \<Rightarrow> sv)"

definition http_reply :: "servlet_map \<Rightarrow> http_request \<Rightarrow> http_response" where
  "http_reply m request =
     (let sv = servlet_for m (m_request_path request) in
      case setCommParam (Some request) (Some HttpResponse) of
        Some response \<Rightarrow> handle sv request response
      | None \<Rightarrow> HttpResponse)"

definition HttpDispatcher_dispatch ::
  "servlet_map \<Rightarrow> string \<Rightarrow> any_data \<Rightarrow> tcp_connection \<times> run_time \<Rightarrow> (tcp_connection \<times> run_time) option" where
  "HttpDispatcher_dispatch m fresh d s =
     (case d of
        HttpRequestData request \<Rightarrow>
          let rt = (snd s)\<lparr>m_msg_no := fresh,
                           m_interface_name := getServletName (servlet_for m (m_request_path request))\<rparr>
          in map_option (\<lambda>c. (c, rt)) (codec_encode fresh (HttpResponseData (http_reply m request)) (fst s))
      | _ \<Rightarrow> Some s)"

section \<open>What a dispatch does\<close>

lemma rpc_reply_names:
  "msg_no (rpc_reply services d) = msg_no d" "service_name (rpc_reply services d) = service_name d"
  "method_name (rpc_reply services d) = method_name d"
  by (auto simp: rpc_reply_def Let_def split: option.split)

text \<open>The result of an RPC call: a value, or one of the four errors.\<close>

datatype call_result =
    Reply bytes | ServiceNotFound | MethodNotFound | BadRequest | BadResponse

definition call_service :: "'m service_map \<Rightarrow> string \<Rightarrow> string \<Rightarrow> bytes \<Rightarrow> call_result" where
  "call_service services svc meth pb =
     (case map_find services svc of
        Some (Some s) \<Rightarrow>
          if meth \<notin> set (sd_methods s) then MethodNotFound
          else (case sd_parse s meth pb of
                  None \<Rightarrow> BadRequest
                | Some m \<Rightarrow> (case sd_serialize s (sd_call s meth m) of None \<Rightarrow> BadResponse | Some r \<Rightarrow> Reply r))
      | _ \<Rightarrow> ServiceNotFound)"

definition result_code :: "call_result \<Rightarrow> int" where
  "result_code r =
     (case r of Reply _ \<Rightarrow> 0 | ServiceNotFound \<Rightarrow> ERROR_SERVICE_NOT_FOUND
      | MethodNotFound \<Rightarrow> ERROR_METHOD_NOT_FOUND | _ \<Rightarrow> ERROR_FAILED_SERIALIZE)"

definition result_data :: "call_result \<Rightarrow> bytes" where
  "result_data r = (case r of Reply pb \<Rightarrow> pb | _ \<Rightarrow> [])"

lemma rpc_reply_result:
  "err_code (rpc_reply services d) = word_of_int (result_code (call_service services (service_name d) (method_name d) (pb_data d)))"
  "pb_data (rpc_reply services d) = result_data (call_service services (service_name d) (method_name d) (pb_data d))"
  by (auto simp: rpc_reply_def call_service_def result_code_def result_data_def RpcStruct_def Let_def
      split: option.split)

lemma result_code_eq_0: "result_code r = 0 \<longleftrightarrow> (\<exists>pb. r = Reply pb)"
  by (cases r) (simp_all add: result_code_def error_code_defs)

lemma rpc_encode_ok:
  assumes "buf_ok b"
  shows "\<exists>b' d'. rpc_encode fresh b d = Some (b', d') \<and> buf_ok b'
           \<and> contents b' = contents b
               @ (if service_name d = [] \<or> method_name d = []
                     \<or> kMaxPacketLen < frame_len (packet_of (numbered fresh d)) then []
                  else frame_of (packet_of (numbered fresh d)))"
  using assms writeToBuffer_ok [OF assms, of "frame_of (packet_of (numbered fresh d))"]
  by (auto simp: rpc_encode_def encodePbData_result)

lemma RpcDispatcher_dispatch_ok:
  assumes "buf_ok (m_write_buffer c)" "m_codec c = TinyPb_Protocal"
    and "msg_no d \<noteq> []" "service_name d \<noteq> []" "method_name d \<noteq> []"
  shows "\<exists>c' rt'. RpcDispatcher_dispatch services fresh (RpcData d) (c, rt) = Some (c', rt')
           \<and> m_msg_no rt' = msg_no d \<and> c' = c\<lparr>m_write_buffer := m_write_buffer c'\<rparr>
           \<and> buf_ok (m_write_buffer c')
           \<and> contents (m_write_buffer c') = contents (m_write_buffer c)
               @ (if kMaxPacketLen < frame_len (packet_of (rpc_reply services d)) then []
                  else frame_of (packet_of (rpc_reply services d)))"
proof -
  have "numbered fresh (rpc_reply services d) = rpc_reply services d"
    using assms(3) by (simp add: numbered_def rpc_reply_names)
  with rpc_encode_ok [OF assms(1), of fresh "rpc_reply services d"] assms(2,4,5) show ?thesis
    by (auto simp: RpcDispatcher_dispatch_def codec_encode_def RpcCodeC_encode_def rpc_reply_names)
qed

lemma HttpDispatcher_dispatch_ok:
  assumes "buf_ok (m_write_buffer c)" "m_codec c = Http_Protocal"
  shows "\<exists>c' rt'. HttpDispatcher_dispatch m fresh (HttpRequestData q) (c, rt) = Some (c', rt')
           \<and> m_msg_no rt' = fresh \<and> c' = c\<lparr>m_write_buffer := m_write_buffer c'\<rparr>
           \<and> buf_ok (m_write_buffer c')
           \<and> contents (m_write_buffer c') = contents (m_write_buffer c)
               @ response_text (finish_response (http_reply m q))"
  using http_encode_text [OF assms(1), of "http_reply m q"] assms(2)
  by (auto simp: HttpDispatcher_dispatch_def codec_encode_def HttpCodec_encode_def)

text \<open>Routing: the first servlet registered for a path keeps it, any other path is answered 404.\<close>

lemma registerServlet_ok:
  assumes "map_ok m"
  shows "map_ok (fst (registerServlet path sv m))"
    and "snd (registerServlet path sv m) \<longleftrightarrow> sv \<noteq> None \<and> map_find m (NormalizePath path) = None"
    and "map_find (fst (registerServlet path (Some s) m)) k =
           (case map_find m k of Some t \<Rightarrow> Some t | None \<Rightarrow> if NormalizePath path = k then Some s else None)"
  using assms
  by (simp_all add: registerServlet_def std.try_add_result std.look_try_add split: option.split)

lemma http_reply_not_found:
  assumes "map_find m (NormalizePath (m_request_path q)) = None"
  shows "m_response_code (http_reply m q) = 404" "m_response_info (http_reply m q) = ''Not Found''"
  using assms
  by (auto simp: http_reply_def servlet_for_def NotFoundHttpServlet_def handleNotFound_def setCommParam_def
      setHttpCode_def setHttpContentType_def setHttpBody_def HttpCodeToString_def http_code_defs Let_def)

section \<open>Properties\<close>


definition sample_services :: "string service_map" where
  "sample_services = registerService
     \<lparr>sd_name = ''User'', sd_methods = [''Login''], sd_request_type = (\<lambda>_. ''LoginRequest''),
      sd_parse = (\<lambda>m bs. if bs = [] then None else Some bs), sd_call = (\<lambda>m q. rev q), sd_serialize = Some\<rparr> []"


text \<open>
  Routing. The first servlet registered for a path keeps it and a second one is refused; a path
  with no servlet is answered with 404 and its text. The lookup ignores a missing leading slash.
\<close>

theorem http_routing:
  assumes "map_ok m"
  shows "map_ok (fst (registerServlet path (Some s) m))
    \<and> (snd (registerServlet path (Some s) m) \<longleftrightarrow> map_find m (NormalizePath path) = None)
    \<and> servlet_for (fst (registerServlet path (Some s) m)) k
        = (if map_find m (NormalizePath k) = None \<and> NormalizePath path = NormalizePath k then s else servlet_for m k)
    \<and> (map_find m (NormalizePath (m_request_path q)) = None
         \<longrightarrow> m_response_code (http_reply m q) = 404 \<and> m_response_info (http_reply m q) = ''Not Found'')"
  using registerServlet_ok [OF assms] http_reply_not_found [of m q]
  by (auto simp: servlet_for_def split: option.split)

theorem http_routing_witness:
  "servlet_for (fst (registerServlet ''hi'' (Some \<lparr>getServletName = ''Hi'', handle = (\<lambda>q r. r)\<rparr>) [])) ''/hi''
     = \<lparr>getServletName = ''Hi'', handle = (\<lambda>q r. r)\<rparr>"
  using http_routing [of "[]" "''hi''" "\<lparr>getServletName = ''Hi'', handle = (\<lambda>q r. r)\<rparr>" "''/hi''"]
  by (simp add: map_find_def NormalizePath_def map_ok_def)

end
