(* ===== verification/ConnectionLoop.thy ===== *)
theory ConnectionLoop
  imports Dispatcher
begin

text \<open>
  \<open>TcpConnection::execute\<close> and \<open>MainServerLoopCorFunc\<close>: the loop over the buffered packets, for a
  server connection (dispatch each) and for a client connection (file each reply), and the cycle
  \<open>input; execute; output\<close>.

  The loop over the buffer may in principle not end; it is a \<open>partial_function\<close>, and the interface
  \<open>packet_codec\<close> together with a handler that leaves the input buffer alone is what makes it end.
\<close>

section \<open>The code\<close>

type_synonym loop_state = "tcp_connection \<times> run_time"

text \<open>
  One pass of the loop of \<open>execute\<close>: \<open>decode\<close> into a fresh object, stop when that fails, otherwise
  hand the object over.
\<close>

partial_function (option) drain ::
  "(tcp_buffer \<Rightarrow> 'd \<Rightarrow> (tcp_buffer \<times> 'd) option) \<Rightarrow> ('d \<Rightarrow> bool) \<Rightarrow> 'd
     \<Rightarrow> ('d \<Rightarrow> loop_state \<Rightarrow> loop_state option) \<Rightarrow> loop_state \<Rightarrow> loop_state option" where
  "drain dec succ fresh_data hand s =
     (if 0 < readAble (m_read_buffer (fst s))
      then do {
        (b, d) \<leftarrow> dec (m_read_buffer (fst s)) fresh_data;
        let s = ((fst s)\<lparr>m_read_buffer := b\<rparr>, snd s);
        if \<not> succ d then Some s
        else do {
          s \<leftarrow> hand d s;
          drain dec succ fresh_data hand s
        }
      }
      else Some s)"

text \<open>A client files the reply under its message number, unless one is there.\<close>

definition file_reply :: "rpc_struct \<Rightarrow> loop_state \<Rightarrow> loop_state option" where
  "file_reply d s =
     Some ((fst s)\<lparr>m_reply_datas := fst (map_emplace (msg_no d) d (m_reply_datas (fst s)))\<rparr>, snd s)"

definition conn_execute ::
  "'m service_map \<Rightarrow> servlet_map \<Rightarrow> string \<Rightarrow> loop_state \<Rightarrow> loop_state option" where
  "conn_execute services servlets fresh s =
     (case m_codec (fst s) of
        Http_Protocal \<Rightarrow>
          drain http_decode decode_succ HttpRequest
            (\<lambda>d s. if m_connection_type (fst s) = ServerConnection
                   then HttpDispatcher_dispatch servlets fresh (HttpRequestData d) s
                   else Some s) s
      | TinyPb_Protocal \<Rightarrow>
          drain rpc_decode decode_succ RpcStruct
            (\<lambda>d s. if m_connection_type (fst s) = ServerConnection
                   then RpcDispatcher_dispatch services fresh (RpcData d) s
                   else file_reply d s) s)"

text \<open>
  One pass of the loop of \<open>MainServerLoopCorFunc\<close>. It ends before its end when a hook waits or the
  coroutine is parked; otherwise with what is left of the scripts. The coroutine is never the main
  one of its thread.
\<close>

definition loop_pass ::
  "'m service_map \<Rightarrow> servlet_map \<Rightarrow> string \<Rightarrow> read_script \<times> write_script \<Rightarrow> loop_state
     \<Rightarrow> (loop_state \<times> (read_script \<times> write_script) \<times> effect list \<times> outcome) option" where
  "loop_pass services servlets fresh scripts s = do {
     (c, rs, e1, fin) \<leftarrow> conn_input False (fst scripts) (fst s);
     if fin \<noteq> Done then Some ((c, snd s), (rs, snd scripts), e1, fin)
     else do {
       s \<leftarrow> conn_execute services servlets fresh (c, snd s);
       (c, ws, e2, fin) \<leftarrow> conn_output (snd scripts) (fst s);
       Some ((c, snd s), (rs, ws), e1 @ e2, fin)
     }
   }"

text \<open>
  The life of a server connection's coroutine, until it waits in a hook for which the scripts hold no
  answer (\<^term>\<open>Suspended\<close>), is parked, or leaves the loop. A loop that does neither has no value.
\<close>

partial_function (option) MainServerLoopCorFunc ::
  "'m service_map \<Rightarrow> servlet_map \<Rightarrow> string \<Rightarrow> read_script \<times> write_script \<Rightarrow> loop_state
     \<Rightarrow> (loop_state \<times> effect list \<times> outcome) option" where
  "MainServerLoopCorFunc services servlets fresh scripts s =
     (if m_stop (fst s) then Some (s, [], Done)
      else do {
        (s, scripts, e, fin) \<leftarrow> loop_pass services servlets fresh scripts s;
        if fin \<noteq> Done then Some (s, e, fin)
        else do {
          (s, e', fin) \<leftarrow> MainServerLoopCorFunc services servlets fresh scripts s;
          Some (s, e @ e', fin)
        }
      })"

section \<open>The loop over the buffer\<close>

fun hand_all :: "('d \<Rightarrow> 's \<Rightarrow> 's option) \<Rightarrow> 'd list \<Rightarrow> 's \<Rightarrow> 's option" where
  "hand_all hand [] s = Some s"
| "hand_all hand (d # ds) s = do { s \<leftarrow> hand d s; hand_all hand ds s }"

text \<open>
  A codec, and a handler that may use everything of the connection but its input buffer. \<open>inv\<close> is
  what the handler needs and keeps.
\<close>

locale packet_loop = packet_codec dec succ parse
  for dec :: "tcp_buffer \<Rightarrow> 'd \<Rightarrow> (tcp_buffer \<times> 'd) option" and succ and parse +
  fixes fresh_data :: 'd and good :: "'d \<Rightarrow> bool"
    and hand :: "'d \<Rightarrow> loop_state \<Rightarrow> loop_state option"
    and inv :: "loop_state \<Rightarrow> bool"
  assumes parse_good: "succ (snd (parse fresh_data bs)) \<Longrightarrow> good (snd (parse fresh_data bs))"
    and hand_law: "inv s \<Longrightarrow> good d \<Longrightarrow> \<exists>s'. hand d s = Some s' \<and> inv s'
           \<and> m_read_buffer (fst s') = m_read_buffer (fst s)"
    and inv_buffer: "inv (c, rt) \<Longrightarrow> inv (c\<lparr>m_read_buffer := b\<rparr>, rt)"
    and hand_buffer: "inv (c, rt) \<Longrightarrow> good d \<Longrightarrow> hand d (c\<lparr>m_read_buffer := b\<rparr>, rt)
           = map_option (\<lambda>(c, rt). (c\<lparr>m_read_buffer := b\<rparr>, rt)) (hand d (c, rt))"
begin

lemma hand_allE:
  assumes "inv s" "\<forall>d\<in>set ds. good d"
  shows "\<exists>s'. hand_all hand ds s = Some s' \<and> inv s' \<and> m_read_buffer (fst s') = m_read_buffer (fst s)"
  using assms
proof (induction ds arbitrary: s)
  case (Cons d ds)
  then obtain s1 where s1: "hand d s = Some s1" "inv s1" "m_read_buffer (fst s1) = m_read_buffer (fst s)"
    using hand_law [of s d] by auto
  then show ?case using Cons.IH [OF s1(2)] Cons.prems(2) by auto
qed simp

lemma items_good: "\<forall>d\<in>set (fst (items parse succ fresh_data bs)). good d"
proof (induction "length bs" arbitrary: bs rule: less_induct)
  case less
  show ?case
  proof (cases "bs = []")
    case True
    then show ?thesis by (simp add: items.simps split: prod.split)
  next
    case False
    let ?more = "drop (fst (parse fresh_data bs)) bs"
    show ?thesis
    proof (cases "succ (snd (parse fresh_data bs))")
      case True
      then have "\<forall>d\<in>set (fst (items parse succ fresh_data ?more)). good d"
        using parse_progress [of fresh_data bs] False by (intro less) simp
      with False True parse_good [OF True] show ?thesis by (simp add: items_step)
    qed (simp add: items_step [OF False])
  qed
qed

text \<open>The loop ends, and hands over exactly the packets of the buffer, in order.\<close>

theorem drain_items:
  assumes "buf_ok (m_read_buffer c)" "inv (c, rt)"
  shows "\<exists>c' rt' b'. drain dec succ fresh_data hand (c, rt) = Some (c'\<lparr>m_read_buffer := b'\<rparr>, rt')
           \<and> hand_all hand (fst (items parse succ fresh_data (contents (m_read_buffer c)))) (c, rt) = Some (c', rt')
           \<and> buf_ok b' \<and> contents b' = snd (items parse succ fresh_data (contents (m_read_buffer c)))
           \<and> inv (c', rt')"
  using assms
proof (induction "length (contents (m_read_buffer c))" arbitrary: c rt rule: less_induct)
  case less
  let ?b = "m_read_buffer c" and ?bs = "contents (m_read_buffer c)"
  let ?p = "parse fresh_data ?bs"
  show ?case
  proof (cases "?bs = []")
    case True
    then have "drain dec succ fresh_data hand (c, rt) = Some (c\<lparr>m_read_buffer := ?b\<rparr>, rt)"
      using less.prems(1) by (simp add: drain.simps readAble_contents)
    moreover have "items parse succ fresh_data [] = ([], [])" by (simp add: items.simps split: prod.split)
    ultimately show ?thesis using True less.prems by (metis fst_conv snd_conv hand_all.simps(1))
  next
    case nonempty: False
    obtain b' where b': "dec ?b fresh_data = Some (b', snd ?p)" "buf_ok b'" "contents b' = drop (fst ?p) ?bs"
      using decodeE [OF less.prems(1)] by blast
    let ?c = "c\<lparr>m_read_buffer := b'\<rparr>"
    have step: "drain dec succ fresh_data hand (c, rt) =
      (if \<not> succ (snd ?p) then Some (?c, rt)
       else do { s \<leftarrow> hand (snd ?p) (?c, rt); drain dec succ fresh_data hand s })"
      using nonempty less.prems(1) b'(1) by (subst drain.simps) (simp add: readAble_contents Let_def)
    show ?thesis
    proof (cases "succ (snd ?p)")
      case False
      then show ?thesis
        using step b' less.prems items_step [OF nonempty, of fresh_data] by auto
    next
      case True
      note good = parse_good [OF True]
      obtain c1 rt1 where c1: "hand (snd ?p) (c, rt) = Some (c1, rt1)" "inv (c1, rt1)"
        using hand_law [OF less.prems(2) good] by auto
      let ?c1 = "c1\<lparr>m_read_buffer := b'\<rparr>"
      have h: "hand (snd ?p) (?c, rt) = Some (?c1, rt1)"
        using hand_buffer [OF less.prems(2) good, of b'] c1(1) by simp
      have short: "length (contents (m_read_buffer ?c1)) < length ?bs"
        using parse_progress [OF True] nonempty by (simp add: b'(3))
      have inv1: "inv (?c1, rt1)" using c1(2) by (rule inv_buffer)
      let ?ds = "fst (items parse succ fresh_data (contents b'))"
      have "buf_ok (m_read_buffer ?c1)" using b'(2) by simp
      from less.hyps [OF short this inv1] obtain c2 rt2 b2 where
        d2: "drain dec succ fresh_data hand (?c1, rt1) = Some (c2\<lparr>m_read_buffer := b2\<rparr>, rt2)"
          "hand_all hand ?ds (?c1, rt1) = Some (c2, rt2)" "buf_ok b2"
          "contents b2 = snd (items parse succ fresh_data (contents b'))" "inv (c2, rt2)"
        by auto
      obtain c3 rt3 where h3: "hand_all hand ?ds (c1, rt1) = Some (c3, rt3)" "inv (c3, rt3)"
        "m_read_buffer c3 = m_read_buffer c1"
        using hand_allE [OF c1(2) items_good, of "contents b'"] by auto
      have eq: "inv (x, r) \<Longrightarrow> \<forall>d\<in>set ds. good d \<Longrightarrow> hand_all hand ds (x, r) = Some (y, r') \<Longrightarrow>
          hand_all hand ds (x\<lparr>m_read_buffer := b\<rparr>, r) = Some (y\<lparr>m_read_buffer := b\<rparr>, r')" for ds x r y r' b
      proof (induction ds arbitrary: x r)
        case (Cons d ds)
        obtain x1 r1 where x1: "hand d (x, r) = Some (x1, r1)" "inv (x1, r1)"
          using hand_law [OF Cons.prems(1), of d] Cons.prems(2) by auto
        with Cons hand_buffer [OF Cons.prems(1), of d b] show ?case by simp
      qed simp
      have "(c2, rt2) = (c3\<lparr>m_read_buffer := b'\<rparr>, rt3)"
        using d2(2) eq [OF c1(2) items_good h3(1), of b'] by simp
      then have "c2\<lparr>m_read_buffer := b2\<rparr> = c3\<lparr>m_read_buffer := b2\<rparr>" "rt2 = rt3" by simp_all
      then have "drain dec succ fresh_data hand (c, rt) = Some (c3\<lparr>m_read_buffer := b2\<rparr>, rt3)"
        using step True h d2(1) by simp
      moreover have "hand_all hand (fst (items parse succ fresh_data ?bs)) (c, rt) = Some (c3, rt3)"
        using items_step [OF nonempty, of fresh_data] True c1(1) h3(1) by (simp add: b'(3))
      moreover have "contents b2 = snd (items parse succ fresh_data ?bs)"
        using items_step [OF nonempty, of fresh_data] True d2(4) by (simp add: b'(3))
      ultimately show ?thesis using d2(3) h3(2) by blast
    qed
  qed
qed

end

section \<open>RPC connections\<close>

definition rpc_good :: "rpc_struct \<Rightarrow> bool" where
  "rpc_good d \<longleftrightarrow> msg_no d \<noteq> [] \<and> service_name d \<noteq> [] \<and> method_name d \<noteq> []"

lemma take_str_nonempty: "take_str True xs = Some (s, ys) \<Longrightarrow> s \<noteq> []"
  by (auto simp: take_str_def take_i32_def bind_eq_Some_iff split: if_splits)

lemma frame_packet_good:
  assumes "frame_packet frame = Some p"
  shows "pk_no p \<noteq> []" "pk_service p \<noteq> []" "pk_method p \<noteq> []"
proof -
  obtain no full code info pb svc meth where
    f: "take_fields (drop 5 (take (length frame - 5) frame)) = Some (no, full, code, info, pb)"
      "split_name full = Some (svc, meth)"
    and p: "p = \<lparr>pk_no = no, pk_service = svc, pk_method = meth, pk_code = code, pk_info = info, pk_data = pb\<rparr>"
    using assms by (auto simp: frame_packet_def bind_eq_Some_iff split: if_splits)
  have "no \<noteq> []"
    using f(1) take_str_nonempty by (auto simp: take_fields_def bind_eq_Some_iff)
  moreover have "svc \<noteq> []" "meth \<noteq> []"
    using f(2) by (auto simp: split_name_def split: option.splits if_splits)
  ultimately show "pk_no p \<noteq> []" "pk_service p \<noteq> []" "pk_method p \<noteq> []" by (simp_all add: p)
qed

lemma wire_step_good:
  "snd (wire_step bs) = Some p \<Longrightarrow> pk_no p \<noteq> [] \<and> pk_service p \<noteq> [] \<and> pk_method p \<noteq> []"
  using frame_packet_good
  by (auto simp: wire_step_def wire_at_def Let_def split: prod.splits if_splits)

definition rpc_hand :: "'m service_map \<Rightarrow> string \<Rightarrow> rpc_struct \<Rightarrow> loop_state \<Rightarrow> loop_state option" where
  "rpc_hand services fresh d s =
     (if m_connection_type (fst s) = ServerConnection then RpcDispatcher_dispatch services fresh (RpcData d) s
      else file_reply d s)"

definition rpc_inv :: "loop_state \<Rightarrow> bool" where
  "rpc_inv s \<longleftrightarrow> buf_ok (m_write_buffer (fst s)) \<and> m_codec (fst s) = TinyPb_Protocal"

lemma codec_encode_read_buffer:
  "codec_encode fresh d (c\<lparr>m_read_buffer := b\<rparr>) = map_option (\<lambda>c. c\<lparr>m_read_buffer := b\<rparr>) (codec_encode fresh d c)"
  by (cases "m_codec c")
     (auto simp: codec_encode_def option.map_comp comp_def split: option.split Option.bind_splits
       intro!: option.map_cong)

lemma rpc_hand_ok:
  assumes "rpc_inv s" "rpc_good d"
  shows "\<exists>s'. rpc_hand services fresh d s = Some s' \<and> rpc_inv s' \<and> m_read_buffer (fst s') = m_read_buffer (fst s)"
proof (cases "m_connection_type (fst s) = ServerConnection")
  case True
  obtain c rt where s: "s = (c, rt)" by fastforce
  with assms obtain c' rt' where "RpcDispatcher_dispatch services fresh (RpcData d) (c, rt) = Some (c', rt')"
    "c' = c\<lparr>m_write_buffer := m_write_buffer c'\<rparr>" "buf_ok (m_write_buffer c')"
    using RpcDispatcher_dispatch_ok [of c d services fresh rt] by (auto simp: rpc_inv_def rpc_good_def)
  moreover from this(2) have "m_codec c' = m_codec c" "m_read_buffer c' = m_read_buffer c"
    by (metis tcp_connection.select_convs tcp_connection.surjective tcp_connection.update_convs(5))+
  ultimately show ?thesis using True assms by (simp add: rpc_hand_def s rpc_inv_def)
next
  case False
  then show ?thesis using assms by (simp add: rpc_hand_def file_reply_def rpc_inv_def)
qed

interpretation rpc_loop: packet_loop rpc_decode decode_succ rpc_parse RpcStruct rpc_good
  "rpc_hand services fresh" rpc_inv for services :: "'m service_map" and fresh
proof
  fix bs d s c rt b
  show "decode_succ (snd (rpc_parse RpcStruct bs)) \<Longrightarrow> rpc_good (snd (rpc_parse RpcStruct bs))"
    using wire_step_good [of bs]
    by (cases "snd (wire_step bs)") (auto simp: rpc_parse_def rpc_good_def deliver_def)
  show "rpc_inv s \<Longrightarrow> rpc_good d \<Longrightarrow> \<exists>s'. rpc_hand services fresh d s = Some s' \<and> rpc_inv s'
      \<and> m_read_buffer (fst s') = m_read_buffer (fst s)"
    by (rule rpc_hand_ok)
  show "rpc_inv (c, rt) \<Longrightarrow> rpc_inv (c\<lparr>m_read_buffer := b\<rparr>, rt)" by (simp add: rpc_inv_def)
  show "rpc_inv (c, rt) \<Longrightarrow> rpc_good d \<Longrightarrow> rpc_hand services fresh d (c\<lparr>m_read_buffer := b\<rparr>, rt)
      = map_option (\<lambda>(c, rt). (c\<lparr>m_read_buffer := b\<rparr>, rt)) (rpc_hand services fresh d (c, rt))"
    by (simp add: rpc_hand_def RpcDispatcher_dispatch_def file_reply_def codec_encode_read_buffer
        option.map_comp comp_def Let_def)
qed

text \<open>The bytes with which a server answers one request.\<close>

definition reply_frame :: "'m service_map \<Rightarrow> rpc_struct \<Rightarrow> bytes" where
  "reply_frame services d =
     (if kMaxPacketLen < frame_len (packet_of (rpc_reply services d)) then []
      else frame_of (packet_of (rpc_reply services d)))"

lemma hand_all_server:
  assumes "rpc_inv (c, rt)" "\<forall>d\<in>set ds. rpc_good d" "m_connection_type c = ServerConnection"
  shows "\<exists>c' rt'. hand_all (rpc_hand services fresh) ds (c, rt) = Some (c', rt')
           \<and> c' = c\<lparr>m_write_buffer := m_write_buffer c'\<rparr> \<and> buf_ok (m_write_buffer c')
           \<and> contents (m_write_buffer c') = contents (m_write_buffer c) @ concat (map (reply_frame services) ds)"
  using assms
proof (induction ds arbitrary: c rt)
  case Nil
  then show ?case by (simp add: rpc_inv_def)
next
  case (Cons d ds)
  obtain c1 rt1 where c1: "RpcDispatcher_dispatch services fresh (RpcData d) (c, rt) = Some (c1, rt1)"
    "c1 = c\<lparr>m_write_buffer := m_write_buffer c1\<rparr>" "buf_ok (m_write_buffer c1)"
    "contents (m_write_buffer c1) = contents (m_write_buffer c) @ reply_frame services d"
    using RpcDispatcher_dispatch_ok [of c d services fresh rt] Cons.prems
    by (auto simp: rpc_inv_def rpc_good_def reply_frame_def)
  have hand: "rpc_hand services fresh d (c, rt) = Some (c1, rt1)"
    using c1(1) Cons.prems(3) by (simp add: rpc_hand_def)
  define wb where "wb = m_write_buffer c1"
  have c1': "c1 = c\<lparr>m_write_buffer := wb\<rparr>" using c1(2) by (simp add: wb_def)
  have "rpc_inv (c1, rt1)" "m_connection_type c1 = ServerConnection"
    using Cons.prems c1(3) by (simp_all add: rpc_inv_def c1')
  with Cons.IH [of c1 rt1] Cons.prems(2) obtain c' rt' where
    "hand_all (rpc_hand services fresh) ds (c1, rt1) = Some (c', rt')"
    "c' = c1\<lparr>m_write_buffer := m_write_buffer c'\<rparr>" "buf_ok (m_write_buffer c')"
    "contents (m_write_buffer c') = contents (m_write_buffer c1) @ concat (map (reply_frame services) ds)"
    by auto
  moreover from this(2) have "c' = c\<lparr>m_write_buffer := m_write_buffer c'\<rparr>" by (simp add: c1')
  ultimately show ?case
    using c1(4) hand by auto
qed

text \<open>\<open>execute\<close> of an RPC server: every complete request in the buffer is answered, in order.\<close>

lemma execute_rpc_server:
  assumes "buf_ok (m_read_buffer c)" "buf_ok (m_write_buffer c)"
    and "m_codec c = TinyPb_Protocal" "m_connection_type c = ServerConnection"
  defines "found \<equiv> items rpc_parse decode_succ RpcStruct (contents (m_read_buffer c))"
  shows "\<exists>rb wb rt'. conn_execute services servlets fresh (c, rt)
             = Some (c\<lparr>m_read_buffer := rb, m_write_buffer := wb\<rparr>, rt')
           \<and> buf_ok rb \<and> contents rb = snd found \<and> buf_ok wb
           \<and> contents wb = contents (m_write_buffer c) @ concat (map (reply_frame services) (fst found))"
proof -
  have inv: "rpc_inv (c, rt)" using assms by (simp add: rpc_inv_def)
  have exec: "conn_execute services servlets fresh (c, rt)
      = drain rpc_decode decode_succ RpcStruct (rpc_hand services fresh) (c, rt)"
    using assms(3) by (simp add: conn_execute_def rpc_hand_def [abs_def])
  obtain c' rt' b' where d: "drain rpc_decode decode_succ RpcStruct (rpc_hand services fresh) (c, rt)
        = Some (c'\<lparr>m_read_buffer := b'\<rparr>, rt')"
      "hand_all (rpc_hand services fresh) (fst found) (c, rt) = Some (c', rt')"
      "buf_ok b'" "contents b' = snd found"
    using rpc_loop.drain_items [OF assms(1) inv, of services fresh] unfolding found_def by blast
  have "\<forall>d\<in>set (fst found). rpc_good d" unfolding found_def by (rule rpc_loop.items_good)
  with hand_all_server [OF inv _ assms(4), of "fst found" services fresh] d(2)
  have c': "c' = c\<lparr>m_write_buffer := m_write_buffer c'\<rparr>" "buf_ok (m_write_buffer c')"
      "contents (m_write_buffer c') = contents (m_write_buffer c) @ concat (map (reply_frame services) (fst found))"
    by auto
  have "c'\<lparr>m_read_buffer := b'\<rparr> = c\<lparr>m_read_buffer := b', m_write_buffer := m_write_buffer c'\<rparr>"
    by (subst c'(1)) simp
  then show ?thesis using exec d(1,3,4) c'(2,3) by auto
qed

text \<open>\<open>execute\<close> of a client: the first reply with a given message number is kept.\<close>

definition file_all :: "rpc_struct list \<Rightarrow> (string, rpc_struct) std_map \<Rightarrow> (string, rpc_struct) std_map" where
  "file_all ds m = fold (\<lambda>(k, v) m. fst (map_emplace k v m)) (map (\<lambda>d. (msg_no d, d)) ds) m"

lemma hand_all_client:
  assumes "m_connection_type c = ClientConnection"
  shows "hand_all (rpc_hand services fresh) ds (c, rt) = Some (c\<lparr>m_reply_datas := file_all ds (m_reply_datas c)\<rparr>, rt)"
  using assms
proof (induction ds arbitrary: c)
  case (Cons d ds)
  then show ?case by (simp add: rpc_hand_def file_reply_def file_all_def)
qed (simp add: file_all_def)

lemma execute_rpc_client:
  assumes "buf_ok (m_read_buffer c)" "buf_ok (m_write_buffer c)"
    and "m_codec c = TinyPb_Protocal" "m_connection_type c = ClientConnection"
  defines "found \<equiv> items rpc_parse decode_succ RpcStruct (contents (m_read_buffer c))"
  shows "\<exists>rb. conn_execute services servlets fresh (c, rt)
             = Some (c\<lparr>m_read_buffer := rb, m_reply_datas := file_all (fst found) (m_reply_datas c)\<rparr>, rt)
           \<and> buf_ok rb \<and> contents rb = snd found"
proof -
  have inv: "rpc_inv (c, rt)" using assms by (simp add: rpc_inv_def)
  have exec: "conn_execute services servlets fresh (c, rt)
      = drain rpc_decode decode_succ RpcStruct (rpc_hand services fresh) (c, rt)"
    using assms(3) by (simp add: conn_execute_def rpc_hand_def [abs_def])
  obtain b' where "drain rpc_decode decode_succ RpcStruct (rpc_hand services fresh) (c, rt)
        = Some (c\<lparr>m_reply_datas := file_all (fst found) (m_reply_datas c), m_read_buffer := b'\<rparr>, rt)"
      "buf_ok b'" "contents b' = snd found"
    using rpc_loop.drain_items [OF assms(1) inv, of services fresh]
    by (auto simp: hand_all_client [OF assms(4)] found_def)
  moreover have "c\<lparr>m_reply_datas := x, m_read_buffer := b'\<rparr> = c\<lparr>m_read_buffer := b', m_reply_datas := x\<rparr>" for x
    by simp
  ultimately show ?thesis by (auto simp: exec)
qed

text \<open>What the parser finds in a run of frames with something behind it.\<close>

lemma items_frame:
  assumes "packet_ok p"
  shows "items rpc_parse decode_succ RpcStruct (frame_of p @ rest)
           = map_prod ((#) (deliver RpcStruct (Some p))) id (items rpc_parse decode_succ RpcStruct rest)"
proof -
  have ne: "frame_of p @ rest \<noteq> []" by (simp add: frame_of_def)
  have "rpc_parse RpcStruct (frame_of p @ rest) = (frame_len p, deliver RpcStruct (Some p))"
    by (simp add: rpc_parse_def wire_step_frame [OF assms])
  moreover have "drop (frame_len p) (frame_of p @ rest) = rest" by (simp add: drop_append)
  ultimately show ?thesis using rpc.items_step [OF ne, of RpcStruct] by simp
qed

lemma items_frames:
  "\<forall>p\<in>set ps. packet_ok p \<Longrightarrow>
     items rpc_parse decode_succ RpcStruct (concat (map frame_of ps) @ rest)
       = map_prod ((@) (map (\<lambda>p. deliver RpcStruct (Some p)) ps)) id (items rpc_parse decode_succ RpcStruct rest)"
  by (induction ps) (auto simp: items_frame map_prod_def split: prod.split)

lemma items_half:
  assumes "packet_ok p" "n < frame_len p"
  shows "items rpc_parse decode_succ RpcStruct (take n (frame_of p)) = ([], take n (frame_of p))"
proof (cases "take n (frame_of p) = []")
  case True
  then show ?thesis by (simp add: items.simps split: prod.split)
next
  case False
  have "rpc_parse RpcStruct (take n (frame_of p)) = (0, deliver RpcStruct None)"
    by (simp add: rpc_parse_def wire_step_half [OF assms])
  then show ?thesis using rpc.items_step [OF False, of RpcStruct] by simp
qed

section \<open>HTTP connections\<close>

definition http_hand :: "servlet_map \<Rightarrow> string \<Rightarrow> http_request \<Rightarrow> loop_state \<Rightarrow> loop_state option" where
  "http_hand servlets fresh d s =
     (if m_connection_type (fst s) = ServerConnection
      then HttpDispatcher_dispatch servlets fresh (HttpRequestData d) s else Some s)"

definition http_inv :: "loop_state \<Rightarrow> bool" where
  "http_inv s \<longleftrightarrow> buf_ok (m_write_buffer (fst s)) \<and> m_codec (fst s) = Http_Protocal"

lemma http_hand_ok:
  assumes "http_inv s"
  shows "\<exists>s'. http_hand servlets fresh d s = Some s' \<and> http_inv s'
           \<and> (\<exists>wb. fst s' = (fst s)\<lparr>m_write_buffer := wb\<rparr>
              \<and> contents wb = contents (m_write_buffer (fst s))
                  @ (if m_connection_type (fst s) = ServerConnection
                     then response_text (finish_response (http_reply servlets d)) else []))"
proof (cases "m_connection_type (fst s) = ServerConnection")
  case True
  obtain c rt where s: "s = (c, rt)" by fastforce
  from assms obtain c' rt' where c': "HttpDispatcher_dispatch servlets fresh (HttpRequestData d) (c, rt) = Some (c', rt')"
    "c' = c\<lparr>m_write_buffer := m_write_buffer c'\<rparr>" "buf_ok (m_write_buffer c')"
    "contents (m_write_buffer c') = contents (m_write_buffer c) @ response_text (finish_response (http_reply servlets d))"
    using HttpDispatcher_dispatch_ok [of c servlets fresh d rt] by (auto simp: http_inv_def s)
  obtain wb where wb: "c' = c\<lparr>m_write_buffer := wb\<rparr>" using c'(2) by blast
  have "http_hand servlets fresh d s = Some (c', rt')" using True c'(1) by (simp add: http_hand_def s)
  moreover have "http_inv (c', rt')" using assms c'(3) by (simp add: http_inv_def s wb)
  ultimately show ?thesis
    using True c'(4) by (intro exI [of _ "(c', rt')"] conjI exI [of _ wb]) (simp_all add: s wb)
next
  case False
  have "fst s = (fst s)\<lparr>m_write_buffer := m_write_buffer (fst s)\<rparr>" by simp
  with False assms show ?thesis by (auto simp: http_hand_def intro!: exI [of _ "m_write_buffer (fst s)"])
qed

interpretation http_loop: packet_loop http_decode decode_succ http_parse HttpRequest "\<lambda>_. True"
  "http_hand servlets fresh" http_inv for servlets and fresh
proof
  fix s d c rt b
  show "http_inv s \<Longrightarrow> \<exists>s'. http_hand servlets fresh d s = Some s' \<and> http_inv s'
      \<and> m_read_buffer (fst s') = m_read_buffer (fst s)"
    using http_hand_ok [of s servlets fresh d] by auto
  show "http_inv (c, rt) \<Longrightarrow> http_inv (c\<lparr>m_read_buffer := b\<rparr>, rt)" by (simp add: http_inv_def)
  show "http_hand servlets fresh d (c\<lparr>m_read_buffer := b\<rparr>, rt)
      = map_option (\<lambda>(c, rt). (c\<lparr>m_read_buffer := b\<rparr>, rt)) (http_hand servlets fresh d (c, rt))"
    by (simp add: http_hand_def HttpDispatcher_dispatch_def codec_encode_read_buffer
        option.map_comp comp_def Let_def)
qed simp

lemma hand_all_http:
  assumes "http_inv (c, rt)" "m_connection_type c = ServerConnection"
  shows "\<exists>wb rt'. hand_all (http_hand servlets fresh) ds (c, rt) = Some (c\<lparr>m_write_buffer := wb\<rparr>, rt')
           \<and> buf_ok wb \<and> contents wb = contents (m_write_buffer c)
               @ concat (map (\<lambda>d. response_text (finish_response (http_reply servlets d))) ds)"
  using assms
proof (induction ds arbitrary: c rt)
  case Nil
  then show ?case by (auto simp: http_inv_def intro!: exI [of _ "m_write_buffer c"])
next
  case (Cons d ds)
  obtain wb rt1 where 1: "http_hand servlets fresh d (c, rt) = Some (c\<lparr>m_write_buffer := wb\<rparr>, rt1)"
    "http_inv (c\<lparr>m_write_buffer := wb\<rparr>, rt1)"
    "contents wb = contents (m_write_buffer c) @ response_text (finish_response (http_reply servlets d))"
    using http_hand_ok [OF Cons.prems(1), of servlets fresh d] Cons.prems(2) by auto
  with Cons.IH [OF 1(2)] Cons.prems(2) show ?case by auto
qed

lemma execute_http_server:
  assumes "buf_ok (m_read_buffer c)" "buf_ok (m_write_buffer c)"
    and "m_codec c = Http_Protocal" "m_connection_type c = ServerConnection"
  defines "found \<equiv> items http_parse decode_succ HttpRequest (contents (m_read_buffer c))"
  shows "\<exists>rb wb rt'. conn_execute services servlets fresh (c, rt)
             = Some (c\<lparr>m_read_buffer := rb, m_write_buffer := wb\<rparr>, rt')
           \<and> buf_ok rb \<and> contents rb = snd found \<and> buf_ok wb
           \<and> contents wb = contents (m_write_buffer c)
               @ concat (map (\<lambda>d. response_text (finish_response (http_reply servlets d))) (fst found))"
proof -
  have inv: "http_inv (c, rt)" using assms by (simp add: http_inv_def)
  have exec: "conn_execute services servlets fresh (c, rt)
      = drain http_decode decode_succ HttpRequest (http_hand servlets fresh) (c, rt)"
    using assms(3) by (simp add: conn_execute_def http_hand_def [abs_def])
  obtain c' rt' b' where d: "drain http_decode decode_succ HttpRequest (http_hand servlets fresh) (c, rt)
        = Some (c'\<lparr>m_read_buffer := b'\<rparr>, rt')"
      "hand_all (http_hand servlets fresh) (fst found) (c, rt) = Some (c', rt')"
      "buf_ok b'" "contents b' = snd found"
    using http_loop.drain_items [OF assms(1) inv, of servlets fresh] unfolding found_def by blast
  obtain wb where wb: "c' = c\<lparr>m_write_buffer := wb\<rparr>" "buf_ok wb"
      "contents wb = contents (m_write_buffer c)
         @ concat (map (\<lambda>d. response_text (finish_response (http_reply servlets d))) (fst found))"
    using hand_all_http [OF inv assms(4), of servlets fresh "fst found"] d(2) by auto
  have "c'\<lparr>m_read_buffer := b'\<rparr> = c\<lparr>m_read_buffer := b', m_write_buffer := wb\<rparr>" by (simp add: wb(1))
  with exec d(1,3,4) wb(2,3) show ?thesis by auto
qed

section \<open>Properties\<close>

text \<open>
  C4: A server answers every complete request, in order. When the read buffer holds any number of
  request frames and the beginning of one more, \<open>execute\<close> appends the reply frames in the order of
  the requests, and leaves exactly the incomplete frame for the next round.
\<close>

theorem rpc_server_answers:
  fixes services :: "'m service_map"
  assumes "buf_ok (m_read_buffer c)" "buf_ok (m_write_buffer c)"
    and "m_codec c = TinyPb_Protocal" "m_connection_type c = ServerConnection"
    and "\<forall>p\<in>set ps. packet_ok p" "packet_ok q" "n < frame_len q"
    and "contents (m_read_buffer c) = concat (map frame_of ps) @ take n (frame_of q)"
  shows "\<exists>rb wb rt'. conn_execute services servlets fresh (c, rt)
             = Some (c\<lparr>m_read_buffer := rb, m_write_buffer := wb\<rparr>, rt')
           \<and> buf_ok rb \<and> contents rb = take n (frame_of q) \<and> buf_ok wb
           \<and> contents wb = contents (m_write_buffer c)
               @ concat (map (\<lambda>p. reply_frame services (deliver RpcStruct (Some p))) ps)"
  using execute_rpc_server [OF assms(1-4), of services servlets fresh rt]
  by (simp add: assms(8) items_frames [OF assms(5)] items_half [OF assms(6,7)] comp_def)

theorem rpc_server_answers_witness:
  "\<exists>rb wb rt'. conn_execute sample_services [] []
        (sample_connection\<lparr>m_read_buffer := loaded (concat (map frame_of [packet_of sample_rpc, packet_of sample_rpc])
            @ take 9 (frame_of (packet_of sample_rpc)))\<rparr>, \<lparr>m_msg_no = [], m_interface_name = []\<rparr>)
      = Some (sample_connection\<lparr>m_read_buffer := rb, m_write_buffer := wb\<rparr>, rt')
    \<and> contents rb = take 9 (frame_of (packet_of sample_rpc))"
proof -
  let ?c = "sample_connection\<lparr>m_read_buffer := loaded (concat (map frame_of [packet_of sample_rpc, packet_of sample_rpc])
            @ take 9 (frame_of (packet_of sample_rpc)))\<rparr>"
  have "9 < frame_len (packet_of sample_rpc)"
    using frame_len_ge [of "packet_of sample_rpc"] by (simp add: kMinPacketLen_def)
  moreover have "\<forall>p\<in>set [packet_of sample_rpc, packet_of sample_rpc]. packet_ok p"
    using packet_ok_sample by simp
  moreover have "contents (m_read_buffer ?c) = concat (map frame_of [packet_of sample_rpc, packet_of sample_rpc])
            @ take 9 (frame_of (packet_of sample_rpc))" "buf_ok (m_read_buffer ?c)"
    "buf_ok (m_write_buffer ?c)" "m_codec ?c = TinyPb_Protocal" "m_connection_type ?c = ServerConnection"
    by (simp_all del: concat.simps list.map)
  moreover have "?c\<lparr>m_read_buffer := x\<rparr> = sample_connection\<lparr>m_read_buffer := x\<rparr>" for x by simp
  ultimately show ?thesis
    using rpc_server_answers [of ?c "[packet_of sample_rpc, packet_of sample_rpc]" "packet_of sample_rpc" 9
        sample_services "[]" "[]" "\<lparr>m_msg_no = [], m_interface_name = []\<rparr>"] packet_ok_sample
    by metis
qed

lemma suffix_items: "suffix (snd (items parse succ d bs)) bs"
proof (induction parse succ d bs rule: items.induct)
  case (1 parse succ d bs)
  obtain n e where p: "parse d bs = (n, e)" by fastforce
  show ?case
  proof (cases "bs \<noteq> [] \<and> succ e \<and> 0 < n")
    case True
    with 1 p have "suffix (snd (items parse succ d (drop n bs))) (drop n bs)" by (auto simp: Let_def)
    then have "suffix (snd (items parse succ d (drop n bs))) bs"
      using suffix_drop suffix_order.trans by blast
    with True p show ?thesis by (subst items.simps) (auto simp: Let_def split: prod.split)
  next
    case False
    with p show ?thesis by (subst items.simps) (auto simp: Let_def suffix_drop)
  qed
qed

text \<open>
  C13: \<open>execute\<close> returns, whatever the peer sent. For every connection with well-formed buffers, of
  either protocol and either side, the loop over the buffer ends and never leaves a vector; what it
  leaves in the read buffer is a suffix of what was there.
\<close>

theorem execute_returns:
  fixes services :: "'m service_map"
  assumes "buf_ok (m_read_buffer c)" "buf_ok (m_write_buffer c)"
  shows "\<exists>c' rt'. conn_execute services servlets fresh (c, rt) = Some (c', rt')
           \<and> buf_ok (m_read_buffer c') \<and> suffix (contents (m_read_buffer c')) (contents (m_read_buffer c))"
proof (cases "m_codec c")
  case TinyPb_Protocal
  with assms have "rpc_inv (c, rt)" by (simp add: rpc_inv_def)
  from rpc_loop.drain_items [OF assms(1) this, of services fresh] TinyPb_Protocal show ?thesis
    using suffix_items [of rpc_parse decode_succ RpcStruct]
    by (fastforce simp: conn_execute_def rpc_hand_def [abs_def])
next
  case Http_Protocal
  with assms have "http_inv (c, rt)" by (simp add: http_inv_def)
  from http_loop.drain_items [OF assms(1) this, of servlets fresh] Http_Protocal show ?thesis
    using suffix_items [of http_parse decode_succ HttpRequest]
    by (fastforce simp: conn_execute_def http_hand_def [abs_def])
qed

theorem execute_returns_witness:
  "\<exists>c' rt'. conn_execute sample_services [] [] (sample_connection\<lparr>m_read_buffer := loaded ''no frame''\<rparr>,
      \<lparr>m_msg_no = [], m_interface_name = []\<rparr>) = Some (c', rt')"
  using execute_returns [of "sample_connection\<lparr>m_read_buffer := loaded ''no frame''\<rparr>" sample_services "[]" "[]"
      "\<lparr>m_msg_no = [], m_interface_name = []\<rparr>"] by auto

text \<open>Pipelined HTTP requests.\<close>

type_synonym http_text = "string \<times> string \<times> string option \<times> string \<times> (string \<times> string) list \<times> bytes"

definition http_text_ok :: "http_text \<Rightarrow> bool" where
  "http_text_ok = (\<lambda>(method, path, query, version, hs, body). request_ok method path query version hs body)"

definition http_bytes :: "http_text \<Rightarrow> bytes" where
  "http_bytes = (\<lambda>(method, path, query, version, hs, body).
     render_request method (target_of path query) version hs body)"

definition http_parsed :: "http_text \<Rightarrow> http_request" where
  "http_parsed = (\<lambda>(method, path, query, version, hs, body).
     (parsed_request method path query version hs body)\<lparr>decode_succ := True\<rparr>)"

lemma items_http_request:
  assumes "http_text_ok q"
  shows "items http_parse decode_succ HttpRequest (http_bytes q @ rest)
           = map_prod ((#) (http_parsed q)) id (items http_parse decode_succ HttpRequest rest)"
proof -
  obtain m p k v hs body where q: "q = (m, p, k, v, hs, body)" by (metis prod_cases6)
  have ok: "request_ok m p k v hs body" using assms by (simp add: http_text_ok_def q)
  have d: "HttpRequest\<lparr>decode_succ := False\<rparr> = HttpRequest" by (simp add: HttpRequest_def)
  have "http_verdict_of HttpRequest (http_bytes q @ rest) = (parsed_request m p k v hs body, Taken (length (http_bytes q)))"
    using verdict_append [OF verdict_render [OF ok]] by (simp add: http_bytes_def q)
  then have "http_parse HttpRequest (http_bytes q @ rest) = (length (http_bytes q), http_parsed q)"
    by (simp add: http_parse_def http_parsed_def q d)
  moreover have "http_bytes q @ rest \<noteq> []" by (simp add: http_bytes_def q render_request_def)
  moreover have "decode_succ (http_parsed q)" by (simp add: http_parsed_def q)
  ultimately show ?thesis using http.items_step [of "http_bytes q @ rest" HttpRequest] by simp
qed

lemma items_http_requests:
  "\<forall>q\<in>set qs. http_text_ok q \<Longrightarrow> items http_parse decode_succ HttpRequest (concat (map http_bytes qs))
     = (map http_parsed qs, [])"
proof (induction qs)
  case Nil
  then show ?case by (simp add: items.simps split: prod.split)
next
  case (Cons q qs)
  then show ?case by (simp add: items_http_request)
qed

text \<open>
  C24: Pipelined HTTP requests are answered in order. When the read buffer holds a run of requests,
  \<open>execute\<close> takes them all and appends the text of each one's response, in the order of the
  requests.
\<close>

theorem http_server_answers:
  fixes services :: "'m service_map"
  assumes "buf_ok (m_read_buffer c)" "buf_ok (m_write_buffer c)"
    and "m_codec c = Http_Protocal" "m_connection_type c = ServerConnection"
    and "\<forall>q\<in>set qs. http_text_ok q" "contents (m_read_buffer c) = concat (map http_bytes qs)"
  shows "\<exists>rb wb rt'. conn_execute services servlets fresh (c, rt)
             = Some (c\<lparr>m_read_buffer := rb, m_write_buffer := wb\<rparr>, rt')
           \<and> contents rb = [] \<and> buf_ok wb
           \<and> contents wb = contents (m_write_buffer c)
               @ concat (map (\<lambda>q. response_text (finish_response (http_reply servlets (http_parsed q)))) qs)"
  using execute_http_server [OF assms(1-4), of services servlets fresh rt]
  by (auto simp: assms(6) items_http_requests [OF assms(5)] comp_def)

theorem http_server_answers_witness:
  "\<exists>rb wb rt'. conn_execute sample_services [] []
       (sample_connection\<lparr>m_codec := Http_Protocal, m_read_buffer := loaded (concat (map http_bytes
          [(''GET'', ''/hi'', Some ''x=1'', ''HTTP/1.1'', [(''Host'', ''h''), (''Content-Length'', ''2'')], ''ok'')]))\<rparr>,
        \<lparr>m_msg_no = [], m_interface_name = []\<rparr>)
     = Some (sample_connection\<lparr>m_codec := Http_Protocal, m_read_buffer := rb, m_write_buffer := wb\<rparr>, rt')
     \<and> contents rb = []"
proof -
  let ?q = "(''GET'', ''/hi'', Some ''x=1'', ''HTTP/1.1'', [(''Host'', ''h''), (''Content-Length'', ''2'')], ''ok'')"
  let ?c = "sample_connection\<lparr>m_codec := Http_Protocal, m_read_buffer := loaded (concat (map http_bytes [?q]))\<rparr>"
  have "\<forall>q\<in>set [?q]. http_text_ok q" using sample_request_ok by (simp add: http_text_ok_def)
  moreover have "contents (m_read_buffer ?c) = concat (map http_bytes [?q])" "buf_ok (m_read_buffer ?c)"
    "buf_ok (m_write_buffer ?c)" "m_codec ?c = Http_Protocal" "m_connection_type ?c = ServerConnection"
    by (simp_all del: concat.simps list.map)
  moreover have "?c\<lparr>m_read_buffer := x\<rparr> = sample_connection\<lparr>m_codec := Http_Protocal, m_read_buffer := x\<rparr>" for x by simp
  ultimately show ?thesis
    using http_server_answers [of ?c "[?q]" sample_services "[]" "[]" "\<lparr>m_msg_no = [], m_interface_name = []\<rparr>"] by metis
qed

text \<open>
  What the kernel delivers to one \<open>input\<close> when all of \<open>bs\<close> has arrived: as much as there is room for, and
  in the last read less than that.
\<close>

inductive delivers :: "tcp_buffer \<Rightarrow> bytes \<Rightarrow> read_script \<Rightarrow> bool" where
  last_read: "bs \<noteq> [] \<Longrightarrow> make_room b = Some b1 \<Longrightarrow> int (length bs) < writeAble b1 \<Longrightarrow> delivers b bs [(Got bs, [])]"
| full_read: "bs \<noteq> [] \<Longrightarrow> make_room b = Some b1 \<Longrightarrow> int (length bs) = writeAble b1 \<Longrightarrow> store_read bs b1 = Some b2
    \<Longrightarrow> delivers b2 bs' rs \<Longrightarrow> delivers b (bs @ bs') ((Got bs, []) # rs)"

lemma delivers_length: "delivers b bs rs \<Longrightarrow> rs \<noteq> []"
  by (induction rule: delivers.induct) simp_all

lemma input_loop_delivers:
  assumes "delivers b0 bs rs" and "buf_ok b0" "\<not> m_is_over_time c" "m_read_buffer c = b0"
  shows "\<exists>rb. input_loop rs c = Some (c\<lparr>m_read_buffer := rb\<rparr>, [], [], ReadAll) \<and> buf_ok rb
           \<and> contents rb = contents b0 @ bs"
  using assms
proof (induction arbitrary: c rule: delivers.induct)
  case (last_read bs b b1)
  have b1: "buf_ok b1" "contents b1 = contents b" using make_room_ok [OF last_read.prems(1)] last_read(2) by auto
  obtain rb where rb: "store_read bs b1 = Some rb" "buf_ok rb" "contents rb = contents b @ bs"
    using store_read_ok [OF b1(1), of bs] last_read(3) b1(2) by (metis less_imp_le nat_int nat_mono)
  have "length bs \<noteq> nat (writeAble b1)" using last_read(3) by linarith
  with last_read rb show ?case by (intro exI [of _ rb]) simp
next
  case (full_read bs b b1 b2 bs' rs)
  have b1: "buf_ok b1" "contents b1 = contents b" using make_room_ok [OF full_read.prems(1)] full_read(2) by auto
  have b2: "buf_ok b2" "contents b2 = contents b @ bs"
    using store_read_ok [OF b1(1), of bs] full_read(3,4) b1(2) by auto
  have len: "length bs = nat (writeAble b1)" using full_read(3) by linarith
  obtain rb where "input_loop rs (c\<lparr>m_read_buffer := b2\<rparr>) = Some (c\<lparr>m_read_buffer := rb\<rparr>, [], [], ReadAll)"
    "buf_ok rb" "contents rb = contents b2 @ bs'"
    using full_read.IH [of "c\<lparr>m_read_buffer := b2\<rparr>"] b2(1) full_read.prems by auto
  with full_read(1,2,4) full_read.prems len b2 show ?case by (intro exI [of _ rb]) simp
qed

lemma input_delivers:
  assumes "delivers (m_read_buffer c) bs rs" and "buf_ok (m_read_buffer c)" "m_state c = Connected" "\<not> m_is_over_time c"
  shows "\<exists>rb e. conn_input is_main rs c = Some (c\<lparr>m_read_buffer := rb\<rparr>, [], e, Done) \<and> buf_ok rb
           \<and> contents rb = contents (m_read_buffer c) @ bs \<and> sent_bytes e = []
           \<and> set e \<subseteq> range FreshSlot \<union> range Sent"
proof -
  from input_loop_delivers [OF assms(1,2,4) refl] obtain rb
    where rb: "input_loop rs c = Some (c\<lparr>m_read_buffer := rb\<rparr>, [], [], ReadAll)" "buf_ok rb"
      "contents rb = contents (m_read_buffer c) @ bs" by blast
  then have "conn_input is_main rs c = Some (c\<lparr>m_read_buffer := rb\<rparr>, [],
      (if m_connection_type c = ServerConnection
       then case m_weak_slot c of Some slot \<Rightarrow> [FreshSlot slot] | None \<Rightarrow> [] else []), Done)"
    using assms(3,4) by (simp add: conn_input_def getState_def)
  with rb(2,3) show ?thesis
    by (intro exI [of _ rb]) (cases "m_connection_type c = ServerConnection"; cases "m_weak_slot c"; simp)
qed

text \<open>
  A new buffer of \<open>n\<close> bytes takes any number of bytes in this way, except the numbers \<open>n\<close>, \<open>2 n\<close>, \<open>4 n\<close>,
  \dots at which a read fills it exactly and nothing is left to read.
\<close>

lemma store_read_indices:
  assumes "store_read bs b = Some b'" "m_read_index b = 0" "int (length bs) \<le> writeAble b"
  shows "m_read_index b' = 0 \<and> m_write_index b' = m_write_index b + length bs
       \<and> length (m_buffer b') = length (m_buffer b)"
  using assms by (auto simp: store_read_def recycleWrite_def overwrite_def adjustBuffer_def writeAble_def Let_def
      bind_eq_Some_iff split: if_splits)

lemma delivers_exists:
  assumes "m_read_index b = 0" "buf_ok b" "m_buffer b \<noteq> []" "bs \<noteq> []"
    and "\<forall>k. m_write_index b + length bs \<noteq> length (m_buffer b) * 2 ^ k"
  shows "\<exists>rs. delivers b bs rs"
  using assms
proof (induction "length bs" arbitrary: b bs rule: less_induct)
  case less
  let ?s = "length (m_buffer b)" and ?w = "m_write_index b"
  obtain b1 where b1: "make_room b = Some b1" "buf_ok b1" "contents b1 = contents b" "0 < writeAble b1"
    using make_room_ok [OF less.prems(2)] less.prems(3) by auto
  have idx: "m_read_index b1 = 0 \<and> m_write_index b1 = ?w
      \<and> (length (m_buffer b1) = ?s \<or> length (m_buffer b1) = 2 * ?s)"
  proof (cases "writeAble b = 0")
    case True
    then have w: "?w = ?s" by (simp add: writeAble_def)
    then have "length (contents b) = ?s" using less.prems(1) by (simp add: contents_def)
    with True w b1(1) less.prems(1) show ?thesis
      using resizeBuffer_ok [OF less.prems(2), of "2 * getSize b"]
      by (auto simp: make_room_def resizeBuffer_def getSize_def slice_def overwrite_def readAble_def Let_def
          bind_eq_Some_iff split: if_splits)
  qed (use b1(1) less.prems(1) in \<open>simp add: make_room_def\<close>)
  let ?r = "nat (writeAble b1)"
  have r: "?w + ?r = length (m_buffer b1)" using idx b1(4) by (auto simp: writeAble_def)
  have ne: "\<forall>k. ?w + length bs \<noteq> length (m_buffer b1) * 2 ^ k"
    using less.prems(5) idx by (auto simp: mult.assoc simp flip: power_Suc)
  show ?case
  proof (cases "length bs < ?r")
    case True
    then have "int (length bs) < writeAble b1" by linarith
    with less.prems(4) b1(1) show ?thesis by (blast intro: delivers.last_read)
  next
    case False
    have "length bs \<noteq> ?r" using ne [rule_format, of 0] r by auto
    with False have long: "?r < length bs" by simp
    let ?xs = "take ?r bs" and ?ys = "drop ?r bs"
    obtain b2 where b2: "store_read ?xs b1 = Some b2" "buf_ok b2"
      using store_read_ok [OF b1(2), of ?xs] by auto
    have i2: "m_read_index b2 = 0" "m_write_index b2 = ?w + ?r" "length (m_buffer b2) = length (m_buffer b1)"
      using store_read_indices [OF b2(1)] idx long b1(4) by auto
    have "\<forall>k. m_write_index b2 + length ?ys \<noteq> length (m_buffer b2) * 2 ^ k"
      using ne long by (simp add: i2)
    moreover have "m_buffer b2 \<noteq> []" using i2(2,3) b1(4) r by auto
    moreover have "?ys \<noteq> []" "length ?ys < length bs" using long b1(4) by auto
    ultimately obtain rs where "delivers b2 ?ys rs" using less.hyps [of ?ys b2] i2(1) b2(2) by blast
    then have "delivers b (?xs @ ?ys) ((Got ?xs, []) # rs)"
      using b1 b2(1) long less.prems(4) by (intro delivers.full_read [of ?xs b b1 b2 ?ys rs]) auto
    then show ?thesis by auto
  qed
qed

lemma delivers_new:
  assumes "0 < n" "bs \<noteq> []" "\<forall>k. length bs \<noteq> n * 2 ^ k"
  shows "\<exists>rs. delivers (TcpBuffer n) bs rs"
  using delivers_exists [OF _ buf_ok_TcpBuffer, of n bs] assms by (simp add: TcpBuffer_def)

text \<open>The kernel takes the bytes that \<open>output\<close> offers in any number of writes.\<close>

abbreviation writes :: "nat list \<Rightarrow> write_script" where
  "writes ns \<equiv> map (\<lambda>n. (int n, [])) ns"

lemma output_all:
  assumes "buf_ok (m_write_buffer c)" "m_state c = Connected" "\<not> m_is_over_time c"
    and "sum_list ns = length (contents (m_write_buffer c))" "0 \<notin> set ns"
  shows "\<exists>wb e. conn_output (writes ns) c = Some (c\<lparr>m_write_buffer := wb\<rparr>, [], e, Done)
           \<and> buf_ok wb \<and> contents wb = [] \<and> sent_bytes e = contents (m_write_buffer c)
           \<and> set e \<subseteq> range FreshSlot \<union> range Sent"
  using assms
proof (induction ns arbitrary: c)
  case Nil
  then have "conn_output (writes []) c = Some (c\<lparr>m_write_buffer := m_write_buffer c\<rparr>, [], [], Done)"
    by (simp add: conn_output_def output_loop.simps [of "[]"] getState_def readAble_contents)
  with Nil show ?case by (intro exI conjI) auto
next
  case (Cons n ns)
  let ?b = "m_write_buffer c"
  let ?out = "contents ?b"
  have n: "0 < n" "n \<le> length ?out" using Cons.prems(4,5) by auto
  have part: "slice (m_buffer ?b) (m_read_index ?b) n = Some (take n ?out)"
  proof -
    have "length ?out = m_write_index ?b - m_read_index ?b" using Cons.prems(1) by (simp add: buf_ok_def contents_def)
    with Cons.prems(1) n(2) show ?thesis by (auto simp: slice_def buf_ok_def contents_def drop_take min_def)
  qed
  obtain wb where wb: "recycleRead n ?b = Some wb" "buf_ok wb" "contents wb = drop n ?out"
    using recycleRead_ok [OF Cons.prems(1), of n] n(2) by auto
  let ?c = "c\<lparr>m_write_buffer := wb\<rparr>"
  obtain wb' e where rest: "conn_output (writes ns) ?c = Some (?c\<lparr>m_write_buffer := wb'\<rparr>, [], e, Done)"
    "buf_ok wb'" "contents wb' = []" "sent_bytes e = drop n ?out" "set e \<subseteq> range FreshSlot \<union> range Sent"
  proof -
    have "sum_list ns = length (contents wb)" using Cons.prems(4) wb(3) by simp
    with that Cons.IH [of ?c] Cons.prems(2,3,5) wb(2,3) show thesis by force
  qed
  have "conn_output (writes (n # ns)) c = Some (c\<lparr>m_write_buffer := wb'\<rparr>, [], Sent (take n ?out) # e, Done)"
  proof (cases "ns = []")
    case True
    with rest n Cons.prems wb part show ?thesis
      by (auto simp: conn_output_def output_loop.simps [of "_ # _"] output_loop.simps [of "[]"] getState_def readAble_contents)
  next
    case False
    then have "drop n ?out \<noteq> []" using Cons.prems(4,5) by (cases ns) auto
    with False rest n Cons.prems wb part show ?thesis
      by (auto simp: conn_output_def output_loop.simps [of "(int n, []) # _"] getState_def readAble_contents)
  qed
  then show ?case using rest n
    by (intro exI [of _ wb'] exI [of _ "Sent (take n ?out) # e"]) simp
qed

lemma server_turn_once:
  fixes services :: "'m service_map"
  assumes "buf_ok (m_read_buffer c)" "buf_ok (m_write_buffer c)" "m_codec c = TinyPb_Protocal"
    and "m_connection_type c = ServerConnection" "m_state c = Connected" "\<not> m_is_over_time c" "\<not> m_stop c"
    and "contents (m_read_buffer c) = []" "contents (m_write_buffer c) = []"
    and "\<forall>p\<in>set ps. packet_ok p" "delivers (m_read_buffer c) (concat (map frame_of ps)) rs"
    and "sum_list ns = length out" "0 \<notin> set ns"
    and out: "out = concat (map (\<lambda>p. reply_frame services (deliver RpcStruct (Some p))) ps)"
  shows "\<exists>rb wb rt' e. MainServerLoopCorFunc services servlets fresh (rs, writes ns) (c, rt)
             = Some ((c\<lparr>m_read_buffer := rb, m_write_buffer := wb\<rparr>, rt'), e, Suspended)
           \<and> sent_bytes e = out \<and> set e \<subseteq> range FreshSlot \<union> range Sent
           \<and> buf_ok rb \<and> contents rb = [] \<and> buf_ok wb \<and> contents wb = []"
proof -
  let ?bs = "concat (map frame_of ps)"
  obtain rb e1 where i: "conn_input False rs c = Some (c\<lparr>m_read_buffer := rb\<rparr>, [], e1, Done)"
    "buf_ok rb" "contents rb = ?bs" "sent_bytes e1 = []" "set e1 \<subseteq> range FreshSlot \<union> range Sent"
    using input_delivers [OF assms(11,1,5,6), of False] assms(8) by auto
  have its: "items rpc_parse decode_succ RpcStruct ?bs = (map (\<lambda>p. deliver RpcStruct (Some p)) ps, [])"
    using items_frames [OF assms(10), of "[]"] by (simp add: items.simps [of _ _ _ "[]"] split: prod.split)
  obtain rb1 wb rt1 where x: "conn_execute services servlets fresh (c\<lparr>m_read_buffer := rb\<rparr>, rt)
      = Some (c\<lparr>m_read_buffer := rb1, m_write_buffer := wb\<rparr>, rt1)" "buf_ok rb1" "contents rb1 = []" "buf_ok wb" "contents wb = out"
    using execute_rpc_server [of "c\<lparr>m_read_buffer := rb\<rparr>" services servlets fresh rt] i(2,3) assms(2-4,9)
    by (auto simp: its out comp_def)
  obtain wb1 e2 where o: "conn_output (writes ns) (c\<lparr>m_read_buffer := rb1, m_write_buffer := wb\<rparr>)
      = Some (c\<lparr>m_read_buffer := rb1, m_write_buffer := wb1\<rparr>, [], e2, Done)" "buf_ok wb1" "contents wb1 = []" "sent_bytes e2 = out"
      "set e2 \<subseteq> range FreshSlot \<union> range Sent"
    using output_all [of "c\<lparr>m_read_buffer := rb1, m_write_buffer := wb\<rparr>" ns] x(4,5) assms(5,6,12,13) by auto
  have pass: "loop_pass services servlets fresh (rs, writes ns) (c, rt)
      = Some ((c\<lparr>m_read_buffer := rb1, m_write_buffer := wb1\<rparr>, rt1), ([], []), e1 @ e2, Done)"
    using i(1) x(1) o(1) by (simp add: loop_pass_def)
  obtain rb2 where r: "make_room rb1 = Some rb2" "buf_ok rb2" "contents rb2 = []"
    using make_room_ok [OF x(2)] x(3) by auto
  have wait: "loop_pass services servlets fresh ([], []) (c\<lparr>m_read_buffer := rb1, m_write_buffer := wb1\<rparr>, rt1)
      = Some ((c\<lparr>m_read_buffer := rb2, m_write_buffer := wb1\<rparr>, rt1), ([], []), [], Suspended)"
    using assms(5,6) r(1) by (simp add: loop_pass_def conn_input_def getState_def)
  have "MainServerLoopCorFunc services servlets fresh (rs, writes ns) (c, rt)
      = Some ((c\<lparr>m_read_buffer := rb2, m_write_buffer := wb1\<rparr>, rt1), e1 @ e2, Suspended)"
    using assms(7) by (simp add: MainServerLoopCorFunc.simps [of services servlets fresh] pass wait)
  with i(4,5) o(2-5) r show ?thesis by (intro exI [of _ rb2] exI [of _ wb1]) auto
qed

text \<open>
  C9: One turn of a server connection. Any number of request frames arrive together: the kernel fills
  the buffer as often as there are enough bytes, and then delivers the rest; it takes the replies in
  any number of writes. Then the connection's coroutine has sent the reply frames of these requests, in
  order, and waits in the next read: of the connection only the contents of the two buffers have
  changed, so that it is connected and not stopped as before; both buffers are empty, and nothing but
  sends and the move to the newest slot of the time wheel was asked of the surroundings.
\<close>

theorem server_turn:
  fixes services :: "'m service_map"
  assumes "buf_ok (m_read_buffer c)" "buf_ok (m_write_buffer c)" "m_codec c = TinyPb_Protocal"
    and "m_connection_type c = ServerConnection" "m_state c = Connected" "\<not> m_is_over_time c" "\<not> m_stop c"
    and "contents (m_read_buffer c) = []" "contents (m_write_buffer c) = []"
    and "\<forall>p\<in>set ps. packet_ok p" "delivers (m_read_buffer c) (concat (map frame_of ps)) rs"
  defines "out \<equiv> concat (map (\<lambda>p. reply_frame services (deliver RpcStruct (Some p))) ps)"
  assumes "sum_list ns = length out" "0 \<notin> set ns"
  shows "\<exists>rb wb rt' e. MainServerLoopCorFunc services servlets fresh (rs, writes ns) (c, rt)
             = Some ((c\<lparr>m_read_buffer := rb, m_write_buffer := wb\<rparr>, rt'), e, Suspended)
           \<and> sent_bytes e = out \<and> set e \<subseteq> range FreshSlot \<union> range Sent
           \<and> buf_ok rb \<and> contents rb = [] \<and> buf_ok wb \<and> contents wb = []"
  using server_turn_once [OF assms(1-11,13,14), of services servlets fresh rt] unfolding out_def by simp

theorem server_turn_witness:
  "\<exists>rs rb wb rt' e. delivers (TcpBuffer 16) (concat (map frame_of [packet_of sample_rpc])) rs
     \<and> MainServerLoopCorFunc sample_services [] []
       (rs, writes [3, length (reply_frame sample_services (deliver RpcStruct (Some (packet_of sample_rpc)))) - 3])
       (sample_connection\<lparr>m_read_buffer := TcpBuffer 16\<rparr>, \<lparr>m_msg_no = [], m_interface_name = []\<rparr>)
     = Some ((sample_connection\<lparr>m_read_buffer := rb, m_write_buffer := wb\<rparr>, rt'), e, Suspended)
     \<and> contents rb = [] \<and> contents wb = []"
proof -
  let ?c = "sample_connection\<lparr>m_read_buffer := TcpBuffer 16\<rparr>" and ?ps = "[packet_of sample_rpc]"
  have len: "length (concat (map frame_of ?ps))= 41"
    by (simp add: frame_len_def packet_of_def sample_rpc_def full_name_of_def RpcStruct_def kMinPacketLen_def)
  have "41 \<noteq> (16::nat) * 2 ^ k" for k by (cases k) (auto simp: dest: arg_cong [of _ _ even])
  then have "\<forall>k. 41 \<noteq> (16::nat) * 2 ^ k" by blast
  moreover have "concat (map frame_of ?ps) \<noteq> []" using len by (metis list.size(3) zero_neq_numeral)
  ultimately obtain rs where rs: "delivers (TcpBuffer 16) (concat (map frame_of ?ps)) rs"
    using delivers_new [of 16 "concat (map frame_of ?ps)", unfolded len] by auto
  let ?L = "length (reply_frame sample_services (deliver RpcStruct (Some (packet_of sample_rpc))))"
  have "3 < ?L"
    by (simp add: reply_frame_def rpc_reply_def deliver_def packet_of_def sample_rpc_def sample_services_def registerService_def
        map_find_def RpcStruct_def frame_len_def full_name_of_def kMinPacketLen_def kMaxPacketLen_def)
  then have ns: "sum_list [3, ?L - 3]
      = length (concat (map (\<lambda>p. reply_frame sample_services (deliver RpcStruct (Some p))) ?ps))" "0 \<notin> set [3, ?L - 3]"
    by simp_all
  have "\<forall>p\<in>set ?ps. packet_ok p" using packet_ok_sample by simp
  with rs server_turn [where c = ?c and ps = ?ps and rs = rs and services = sample_services and servlets = "[]"
      and fresh = "[]" and rt = "\<lparr>m_msg_no = [], m_interface_name = []\<rparr>", OF _ _ _ _ _ _ _ _ _ _ _ ns]
  show ?thesis by simp blast
qed

end
