(* ===== verification/Timer.thy ===== *)
theory Timer
  imports StdMap
begin

text \<open>
  \<open>src/net/timer.{h,cc}\<close>: timer events and the timer of a reactor. A \<open>TimerEvent::ptr\<close> is an
  identifier into a store, since events are shared and mutated; the pending events are the
  \<open>std::multimap\<close> from arrival time to identifier. What is armed in the kernel is the deadline given
  to \<open>timerfd_settime\<close>, where a relative time of zero disarms. Tasks are numbers; \<open>onTimer\<close> returns
  the ones it runs, in order. The values of \<open>getNowMs\<close> are arguments.
\<close>

section \<open>The code\<close>

text \<open>The milliseconds of \<open>gettimeofday\<close>.\<close>

definition getNowMs :: "int \<Rightarrow> int \<Rightarrow> int" where
  "getNowMs tv_sec tv_usec = tv_sec * 1000 + tv_usec div 1000"

lemma getNowMs_mono:
  assumes "(s, u) = (s', u') \<or> s < s' \<or> s = s' \<and> u \<le> u'" "0 \<le> u" "u < 1000000" "0 \<le> u'" "u' < 1000000"
  shows "getNowMs s u \<le> getNowMs s' u'"
proof (cases "s < s'")
  case True
  then have "s * 1000 + 1000 \<le> s' * 1000" by simp
  moreover have "u div 1000 \<le> 999" "0 \<le> u' div 1000" using assms(2-5) by simp_all
  ultimately show ?thesis by (simp add: getNowMs_def)
next
  case False
  then show ?thesis using assms(1) by (auto simp: getNowMs_def zdiv_mono1)
qed

record timer_event =
  m_arrive_time :: int
  m_interval :: int
  m_is_repeated :: bool
  m_is_cancled :: bool
  m_task :: nat

definition TimerEvent :: "int \<Rightarrow> int \<Rightarrow> bool \<Rightarrow> nat \<Rightarrow> timer_event" where
  "TimerEvent now interval is_repeated task =
     \<lparr>m_arrive_time = now + interval, m_interval = interval, m_is_repeated = is_repeated,
      m_is_cancled = False, m_task = task\<rparr>"

definition resetTime :: "int \<Rightarrow> timer_event \<Rightarrow> timer_event" where
  "resetTime now e = e\<lparr>m_arrive_time := now + m_interval e, m_is_cancled := False\<rparr>"
definition wake :: "timer_event \<Rightarrow> timer_event" where "wake e = e\<lparr>m_is_cancled := False\<rparr>"
definition cancle :: "timer_event \<Rightarrow> timer_event" where "cancle e = e\<lparr>m_is_cancled := True\<rparr>"
definition cancleRepeated :: "timer_event \<Rightarrow> timer_event" where
  "cancleRepeated e = e\<lparr>m_is_repeated := False\<rparr>"

record timer_state =
  events :: "nat \<Rightarrow> timer_event"
  m_pending_events :: "(int, nat) std_map"
  armed :: "int option"

definition resetArriveTime :: "int \<Rightarrow> timer_state \<Rightarrow> timer_state" where
  "resetArriveTime now st =
     (case m_pending_events st of
        [] \<Rightarrow> st
      | it # _ \<Rightarrow>
          if fst it < now then st
          else let interval = fst it - now in
            st\<lparr>armed := (if interval = 0 then None else Some (now + interval))\<rparr>)"

definition addTimerEvent :: "int \<Rightarrow> nat \<Rightarrow> bool \<Rightarrow> timer_state \<Rightarrow> timer_state" where
  "addTimerEvent now event need_reset st =
     (let is_reset = (case m_pending_events st of
                        [] \<Rightarrow> True
                      | it # _ \<Rightarrow> m_arrive_time (events st event) < m_arrive_time (events st (snd it)));
          st = st\<lparr>m_pending_events :=
                 mm_emplace (m_arrive_time (events st event)) event (m_pending_events st)\<rparr>
      in if is_reset \<and> need_reset then resetArriveTime now st else st)"

text \<open>
  The iterators of \<open>delTimerEvent\<close> are positions in the sequence: \<open>it\<close> runs over the entries with
  the event's arrival time and stops at the event, or behind the last of them.
\<close>

definition delTimerEvent :: "nat \<Rightarrow> timer_state \<Rightarrow> timer_state" where
  "delTimerEvent event st =
     (let st = st\<lparr>events := (events st)(event := cancle (events st event))\<rparr>;
          arrive = m_arrive_time (events st event);
          pending = m_pending_events st;
          start = length (takeWhile (\<lambda>e. fst e < arrive) pending);
          equal_range = takeWhile (\<lambda>e. fst e \<le> arrive) (drop start pending);
          it = start + length (takeWhile (\<lambda>e. snd e \<noteq> event) equal_range)
      in if it < length pending
         then st\<lparr>m_pending_events := take it pending @ drop (Suc it) pending\<rparr>
         else st)"

text \<open>
  \<open>clock i\<close> is the value of the \<open>i\<close>-th call of \<open>getNowMs\<close>: the first for the test of the pending
  events, one for each repeated event, and one more for the timer.
\<close>

fun rearm :: "(nat \<Rightarrow> int) \<Rightarrow> nat list \<Rightarrow> timer_state \<Rightarrow> timer_state" where
  "rearm clock [] st = resetArriveTime (clock 0) st"
| "rearm clock (i # is) st =
     (if m_is_repeated (events st i)
      then let st = st\<lparr>events := (events st)(i := resetTime (clock 0) (events st i))\<rparr>
           in rearm (\<lambda>n. clock (Suc n)) is (addTimerEvent (clock 0) i False st)
      else rearm clock is st)"

definition onTimer :: "(nat \<Rightarrow> int) \<Rightarrow> timer_state \<Rightarrow> timer_state \<times> nat list" where
  "onTimer clock st =
     (let now = clock 0;
          st = st\<lparr>armed := None\<rparr>;
          due = takeWhile (\<lambda>e. fst e \<le> now \<and> \<not> m_is_cancled (events st (snd e))) (m_pending_events st);
          tasks = map (\<lambda>e. m_task (events st (snd e))) due;
          st = st\<lparr>m_pending_events := drop (length due) (m_pending_events st)\<rparr>
      in (rearm (\<lambda>n. clock (Suc n)) (map snd due) st, tasks))"

section \<open>The multimap\<close>

lemma mm_ok_drop: "mm_ok m \<Longrightarrow> mm_ok (drop n m)"
  by (simp add: mm_ok_def sorted_wrt_drop flip: drop_map)

lemma mm_ok_Cons: "mm_ok (e # m) \<longleftrightarrow> (\<forall>e'\<in>set m. fst e \<le> fst e') \<and> mm_ok m"
  by (auto simp: mm_ok_def)

lemma takeWhile_le_filter: "mm_ok m \<Longrightarrow> takeWhile (\<lambda>e. fst e \<le> t) m = filter (\<lambda>e. fst e \<le> t) m"
proof (induction m)
  case (Cons e m)
  then show ?case
    by (fastforce simp: mm_ok_Cons filter_empty_conv eq_commute [of "[]"])
qed simp

lemma dropWhile_less_filter: "mm_ok m \<Longrightarrow> dropWhile (\<lambda>e. fst e < t) m = filter (\<lambda>e. t \<le> fst e) m"
proof (induction m)
  case (Cons e m)
  then show ?case
    by (force simp: mm_ok_Cons intro: filter_True [symmetric])
qed simp

lemma length_takeWhile_less: "\<exists>x\<in>set xs. \<not> P x \<Longrightarrow> length (takeWhile P xs) < length xs"
  by (induction xs) auto

lemma dropWhile_le_filter: "mm_ok m \<Longrightarrow> dropWhile (\<lambda>e. fst e \<le> t) m = filter (\<lambda>e. t < fst e) m"
proof (induction m)
  case (Cons e m)
  then show ?case
    by (force simp: mm_ok_Cons intro: filter_True [symmetric])
qed simp

section \<open>Adding\<close>

text \<open>
  Every pending entry is filed under its event's arrival time, in order. \<open>timer_ok\<close> is the invariant
  of a timer whose events are changed only by the timer itself.
\<close>

definition timer_ok :: "timer_state \<Rightarrow> bool" where
  "timer_ok st \<longleftrightarrow> mm_ok (m_pending_events st)
     \<and> (\<forall>e\<in>set (m_pending_events st). fst e = m_arrive_time (events st (snd e)))"

lemma resetArriveTime_keeps [simp]:
  "events (resetArriveTime now st) = events st"
  "m_pending_events (resetArriveTime now st) = m_pending_events st"
  by (simp_all add: resetArriveTime_def Let_def split: list.split)

lemma addTimerEvent_pending:
  "m_pending_events (addTimerEvent now i r st) = mm_emplace (m_arrive_time (events st i)) i (m_pending_events st)"
  "events (addTimerEvent now i r st) = events st"
  by (simp_all add: addTimerEvent_def Let_def)

lemma timer_ok_add:
  assumes "timer_ok st"
  shows "timer_ok (addTimerEvent now i r st)"
proof -
  have "set (mm_emplace k i m) = insert (k, i) (set m)" for k m
    using mset_mm_emplace [of k i m] by (metis set_mset_add_mset_insert set_mset_mset)
  with assms show ?thesis by (simp add: timer_ok_def addTimerEvent_pending)
qed

text \<open>The earliest arrival is in front.\<close>

definition next_arrival :: "timer_state \<Rightarrow> int option" where
  "next_arrival st = (case m_pending_events st of [] \<Rightarrow> None | e # _ \<Rightarrow> Some (fst e))"

lemma hd_mm_emplace:
  "hd (mm_emplace k v m) = (case m of [] \<Rightarrow> (k, v) | e # _ \<Rightarrow> if fst e \<le> k then e else (k, v))"
  by (cases m) auto

lemma mm_emplace_neq_Nil [simp]: "mm_emplace k v m \<noteq> []"
  by (cases m) auto

text \<open>
  A timer that is armed for its next event stays so when events are added ahead of time: this is
  what the code relies on when it arms only for a new first event.
\<close>

lemma addTimerEvent_armed:
  assumes "timer_ok st" "armed st = next_arrival st" "now < m_arrive_time (events st i)"
    and "\<forall>e\<in>set (m_pending_events st). now < fst e"
  shows "armed (addTimerEvent now i True st) = next_arrival (addTimerEvent now i True st)"
proof (cases "m_pending_events st")
  case Nil
  then show ?thesis
    using assms(3) by (simp add: addTimerEvent_def resetArriveTime_def next_arrival_def Let_def)
next
  case (Cons e m)
  have key: "m_arrive_time (events st (snd e)) = fst e" using assms(1) Cons by (simp add: timer_ok_def)
  show ?thesis
    using assms(2,3) Cons key
    by (cases "m_arrive_time (events st i) < fst e")
       (simp_all add: addTimerEvent_def resetArriveTime_def next_arrival_def Let_def)
qed

section \<open>Deleting\<close>

lemma sorted_split:
  assumes "mm_ok m"
  shows "takeWhile (\<lambda>e. fst e \<le> t) (drop (length (takeWhile (\<lambda>e. fst e < t) m)) m) = filter (\<lambda>e. fst e = t) m"
proof -
  have "drop (length (takeWhile (\<lambda>e. fst e < t) m)) m = dropWhile (\<lambda>e. fst e < t) m"
    by (rule dropWhile_eq_drop [symmetric])
  moreover have "dropWhile (\<lambda>e. fst e < t) m = filter (\<lambda>e. t \<le> fst e) m"
    using assms by (rule dropWhile_less_filter)
  moreover have "mm_ok (dropWhile (\<lambda>e. fst e < t) m)"
    using assms by (simp add: dropWhile_eq_drop mm_ok_drop)
  ultimately have "takeWhile (\<lambda>e. fst e \<le> t) (drop (length (takeWhile (\<lambda>e. fst e < t) m)) m)
      = filter (\<lambda>e. fst e \<le> t) (filter (\<lambda>e. t \<le> fst e) m)"
    by (simp add: takeWhile_le_filter)
  also have "\<dots> = filter (\<lambda>e. fst e = t) m" unfolding filter_filter by (intro filter_cong) auto
  finally show ?thesis .
qed

text \<open>The position at which \<open>delTimerEvent\<close> erases, and what is there.\<close>

definition del_position :: "nat \<Rightarrow> timer_state \<Rightarrow> nat" where
  "del_position i st =
     (let arrive = m_arrive_time (events st i); pending = m_pending_events st;
          start = length (takeWhile (\<lambda>e. fst e < arrive) pending)
      in start + length (takeWhile (\<lambda>e. snd e \<noteq> i)
                 (takeWhile (\<lambda>e. fst e \<le> arrive) (drop start pending))))"

lemma delTimerEvent_pending:
  "m_pending_events (delTimerEvent i st) =
     take (del_position i st) (m_pending_events st) @ drop (Suc (del_position i st)) (m_pending_events st)"
  "events (delTimerEvent i st) = (events st)(i := cancle (events st i))"
  by (auto simp: delTimerEvent_def del_position_def Let_def cancle_def)

lemma mset_remove_nth:
  assumes "n < length xs"
  shows "mset (take n xs @ drop (Suc n) xs) = mset xs - {#xs ! n#}"
proof -
  have "mset xs = mset (take n xs @ xs ! n # drop (Suc n) xs)"
    by (simp only: id_take_nth_drop [OF assms, symmetric])
  then show ?thesis by simp
qed

lemma start_length:
  "mm_ok m \<Longrightarrow> length (takeWhile (\<lambda>e. fst e < t) m) + length (filter (\<lambda>e. fst e = t) m)
     = length (takeWhile (\<lambda>e. fst e \<le> t) m)"
  by (induction m) (auto simp: mm_ok_Cons filter_empty_conv takeWhile_le_filter
      intro!: arg_cong [where f = length] filter_cong)

lemma nth_start:
  assumes "mm_ok m" "k < length (filter (\<lambda>e. fst e = t) m)"
  shows "m ! (length (takeWhile (\<lambda>e. fst e < t) m) + k) = filter (\<lambda>e. fst e = t) m ! k"
    and "length (takeWhile (\<lambda>e. fst e < t) m) + k < length m"
proof -
  let ?s = "length (takeWhile (\<lambda>e. fst e < t) m)"
  have r: "takeWhile (\<lambda>e. fst e \<le> t) (drop ?s m) = filter (\<lambda>e. fst e = t) m"
    by (rule sorted_split [OF assms(1)])
  then have "k < length (takeWhile (\<lambda>e. fst e \<le> t) (drop ?s m))" using assms(2) by simp
  moreover from this have "k < length (drop ?s m)"
    by (rule order_less_le_trans) (rule length_takeWhile_le)
  ultimately have "takeWhile (\<lambda>e. fst e \<le> t) (drop ?s m) ! k = drop ?s m ! k" "k < length (drop ?s m)"
    by (simp_all only: takeWhile_nth)
  then show "m ! (?s + k) = filter (\<lambda>e. fst e = t) m ! k" "?s + k < length m" using r by simp_all
qed

text \<open>An event that is pending is removed, and nothing else.\<close>

lemma delTimerEvent_pending_event:
  assumes ok: "timer_ok st" and mem: "(m_arrive_time (events st i), i) \<in> set (m_pending_events st)"
  shows "mset (m_pending_events (delTimerEvent i st))
           = mset (m_pending_events st) - {#(m_arrive_time (events st i), i)#}"
proof -
  let ?t = "m_arrive_time (events st i)" and ?m = "m_pending_events st"
  let ?r = "filter (\<lambda>e. fst e = ?t) ?m"
  let ?k = "length (takeWhile (\<lambda>e. snd e \<noteq> i) ?r)"
  have mm: "mm_ok ?m" using ok by (simp add: timer_ok_def)
  have pos: "del_position i st = length (takeWhile (\<lambda>e. fst e < ?t) ?m) + ?k"
    by (simp add: del_position_def Let_def sorted_split [OF mm])
  have "(?t, i) \<in> set ?r" using mem by simp
  then have k: "?k < length ?r"
    by (intro length_takeWhile_less) force
  then have "snd (?r ! ?k) = i" by (metis (mono_tags, lifting) nth_length_takeWhile)
  moreover have "fst (?r ! ?k) = ?t" using k nth_mem [OF k] by simp
  ultimately have "?r ! ?k = (?t, i)" by (simp add: prod_eq_iff)
  with nth_start [OF mm k] have "?m ! del_position i st = (?t, i)" "del_position i st < length ?m"
    by (simp_all add: pos)
  then show ?thesis by (simp add: delTimerEvent_pending mset_remove_nth del: mset_append)
qed

text \<open>
  An event that is not pending any more (its task has run) is not found; the iterator is then at
  the first later event, and that one is erased.
\<close>

lemma delTimerEvent_not_pending:
  assumes ok: "timer_ok st" and mem: "i \<notin> snd ` set (m_pending_events st)"
    and later: "filter (\<lambda>e. m_arrive_time (events st i) < fst e) (m_pending_events st) = e # later"
  shows "m_pending_events (delTimerEvent i st)
           = filter (\<lambda>e. fst e \<le> m_arrive_time (events st i)) (m_pending_events st) @ later"
proof -
  let ?t = "m_arrive_time (events st i)" and ?m = "m_pending_events st"
  let ?r = "filter (\<lambda>e. fst e = ?t) ?m"
  have mm: "mm_ok ?m" using ok by (simp add: timer_ok_def)
  have "takeWhile (\<lambda>e. snd e \<noteq> i) ?r = ?r" using mem by (force simp: takeWhile_eq_all_conv)
  then have pos: "del_position i st = length (takeWhile (\<lambda>e. fst e \<le> ?t) ?m)"
    unfolding del_position_def Let_def sorted_split [OF mm] by (simp only: start_length [OF mm])
  have "drop (length (takeWhile (\<lambda>e. fst e \<le> ?t) ?m)) ?m = e # later"
    using later dropWhile_le_filter [OF mm, of ?t] by (simp add: dropWhile_eq_drop)
  then have "drop (Suc (length (takeWhile (\<lambda>e. fst e \<le> ?t) ?m))) ?m = later"
    by (metis drop_Suc list.sel(3) tl_drop)
  moreover have "take (length (takeWhile (\<lambda>e. fst e \<le> ?t) ?m)) ?m = filter (\<lambda>e. fst e \<le> ?t) ?m"
    unfolding takeWhile_eq_take [symmetric] by (rule takeWhile_le_filter [OF mm])
  ultimately show ?thesis by (simp add: delTimerEvent_pending pos)
qed

section \<open>Firing\<close>

lemma onTimer_tasks:
  assumes "timer_ok st" "\<forall>e\<in>set (m_pending_events st). \<not> m_is_cancled (events st (snd e))"
  shows "snd (onTimer clock st)
           = map (\<lambda>e. m_task (events st (snd e))) (filter (\<lambda>e. fst e \<le> clock 0) (m_pending_events st))"
proof -
  have "takeWhile (\<lambda>e. fst e \<le> clock 0 \<and> \<not> m_is_cancled (events st (snd e))) (m_pending_events st)
      = takeWhile (\<lambda>e. fst e \<le> clock 0) (m_pending_events st)"
    using assms(2) by (intro takeWhile_cong) auto
  then show ?thesis
    using assms(1) by (simp add: onTimer_def Let_def takeWhile_le_filter timer_ok_def)
qed

text \<open>
  A cancelled event in front stops the scan: nothing behind it runs, however late it is.
\<close>

lemma onTimer_blocked:
  assumes "m_pending_events st = e # rest" "m_is_cancled (events st (snd e))"
  shows "snd (onTimer clock st) = []" "m_pending_events (fst (onTimer clock st)) = m_pending_events st"
  using assms by (simp_all add: onTimer_def Let_def)

text \<open>
  Arming happens only for a first event that lies in the future. Once the first event is due and
  the timer is not armed, adding later events never arms it again.
\<close>

lemma resetArriveTime_due:
  assumes "m_pending_events st = e # rest" "fst e \<le> now" "armed st = None"
  shows "armed (resetArriveTime now st) = None"
  using assms by (simp add: resetArriveTime_def)

lemma add_after_due:
  assumes "timer_ok st" "m_pending_events st = e # rest" "armed st = None"
    and "fst e \<le> m_arrive_time (events st i)"
  shows "armed (addTimerEvent now i True st) = None"
    and "\<exists>rest'. m_pending_events (addTimerEvent now i True st) = e # rest'"
  using assms by (simp_all add: addTimerEvent_def timer_ok_def Let_def)

lemma timer_stalls:
  assumes "timer_ok st" "m_pending_events st = e # rest" "armed st = None"
    and "\<forall>(now, i)\<in>set adds. fst e \<le> m_arrive_time (events st i)"
  shows "armed (fold (\<lambda>(now, i). addTimerEvent now i True) adds st) = None"
  using assms
proof (induction adds arbitrary: st rest)
  case (Cons a adds)
  obtain now i where a: "a = (now, i)" by fastforce
  let ?st = "addTimerEvent now i True st"
  have due: "fst e \<le> m_arrive_time (events st i)" using Cons.prems(4) a by simp
  obtain rest' where "m_pending_events ?st = e # rest'" "armed ?st = None"
    using add_after_due [OF Cons.prems(1-3) due] by blast
  with Cons.IH [of ?st rest'] Cons.prems(1,4) a show ?case
    by (simp add: timer_ok_add addTimerEvent_pending)
qed simp

section \<open>Properties\<close>

text \<open>The entries under which \<open>onTimer\<close> files the repeated ones of the events it ran.\<close>

fun repeated_entries :: "(nat \<Rightarrow> int) \<Rightarrow> nat list \<Rightarrow> (nat \<Rightarrow> timer_event) \<Rightarrow> (int \<times> nat) list" where
  "repeated_entries clock [] evs = []"
| "repeated_entries clock (i # is) evs =
     (if m_is_repeated (evs i) then (clock 0 + m_interval (evs i), i) # repeated_entries (\<lambda>n. clock (Suc n)) is evs
      else repeated_entries clock is evs)"

lemma repeated_entries_cong:
  "(\<And>i. m_is_repeated (evs i) = m_is_repeated (evs' i)) \<Longrightarrow> (\<And>i. m_interval (evs i) = m_interval (evs' i))
     \<Longrightarrow> repeated_entries clock is evs = repeated_entries clock is evs'"
  by (induction clock "is" evs rule: repeated_entries.induct) auto

lemma rearm_pending:
  "mset (m_pending_events (rearm clock is st)) = mset (m_pending_events st) + mset (repeated_entries clock is (events st))"
proof (induction "is" arbitrary: clock st)
  case (Cons i "is")
  let ?st = "st\<lparr>events := (events st)(i := resetTime (clock 0) (events st i))\<rparr>"
  have same: "repeated_entries (\<lambda>n. clock (Suc n)) is (events ?st) = repeated_entries (\<lambda>n. clock (Suc n)) is (events st)"
    by (rule repeated_entries_cong) (simp_all add: resetTime_def)
  have "m_arrive_time (events ?st i) = clock 0 + m_interval (events st i)" by (simp add: resetTime_def)
  then have "mset (m_pending_events (rearm (\<lambda>n. clock (Suc n)) is (addTimerEvent (clock 0) i False ?st)))
      = add_mset (clock 0 + m_interval (events st i), i)
          (mset (m_pending_events st) + mset (repeated_entries (\<lambda>n. clock (Suc n)) is (events st)))"
    unfolding Cons addTimerEvent_pending mset_mm_emplace same by simp
  with Cons [of clock st] show ?case by (simp add: Let_def)
qed simp

text \<open>No event is pending twice.\<close>

definition timer_inv :: "timer_state \<Rightarrow> bool" where
  "timer_inv st \<longleftrightarrow> timer_ok st \<and> distinct (map snd (m_pending_events st))"

lemma mset_map_distinct: "mset xs = mset ys \<Longrightarrow> distinct (map f xs) \<longleftrightarrow> distinct (map f ys)"
  by (metis mset_map mset_eq_imp_distinct_iff)

lemma timer_inv_rearm:
  "timer_inv st \<Longrightarrow> distinct is \<Longrightarrow> set is \<inter> snd ` set (m_pending_events st) = {} \<Longrightarrow> timer_inv (rearm clock is st)"
proof (induction "is" arbitrary: clock st)
  case Nil
  then show ?case by (simp add: timer_inv_def timer_ok_def)
next
  case (Cons i "is")
  let ?st = "st\<lparr>events := (events st)(i := resetTime (clock 0) (events st i))\<rparr>"
  let ?st' = "addTimerEvent (clock 0) i False ?st"
  show ?case
  proof (cases "m_is_repeated (events st i)")
    case True
    have i: "i \<notin> snd ` set (m_pending_events st)" using Cons.prems by simp
    have "timer_ok ?st" using Cons.prems(1) i by (force simp: timer_inv_def timer_ok_def)
    then have "timer_ok ?st'" by (rule timer_ok_add)
    moreover have m: "mset (m_pending_events ?st') = mset ((m_arrive_time (events ?st i), i) # m_pending_events st)"
      by (simp add: addTimerEvent_pending mset_mm_emplace)
    then have "distinct (map snd (m_pending_events ?st'))"
      using mset_map_distinct [OF m, of snd] Cons.prems(1) i by (simp add: timer_inv_def)
    moreover have "set (m_pending_events ?st') = insert (m_arrive_time (events ?st i), i) (set (m_pending_events st))"
      using arg_cong [OF m, of set_mset] by simp
    ultimately show ?thesis
      using Cons.IH [of ?st' "\<lambda>n. clock (Suc n)"] Cons.prems True by (simp add: timer_inv_def Let_def)
  next
    case False
    with Cons show ?thesis by simp
  qed
qed

lemma onTimer_due:
  fixes clock :: "nat \<Rightarrow> int"
  assumes "timer_ok st" "\<forall>e\<in>set (m_pending_events st). \<not> m_is_cancled (events st (snd e))"
  defines "due \<equiv> filter (\<lambda>e. fst e \<le> clock 0) (m_pending_events st)"
  shows "onTimer clock st = (rearm (\<lambda>n. clock (Suc n)) (map snd due)
      (st\<lparr>armed := None, m_pending_events := filter (\<lambda>e. clock 0 < fst e) (m_pending_events st)\<rparr>),
      map (\<lambda>e. m_task (events st (snd e))) due)"
proof -
  let ?m = "m_pending_events st"
  have mm: "mm_ok ?m" using assms(1) by (simp add: timer_ok_def)
  have "takeWhile (\<lambda>e. fst e \<le> clock 0 \<and> \<not> m_is_cancled (events st (snd e))) ?m = takeWhile (\<lambda>e. fst e \<le> clock 0) ?m"
    using assms(2) by (intro takeWhile_cong) auto
  moreover have "takeWhile (\<lambda>e. fst e \<le> clock 0) ?m = due" unfolding due_def by (rule takeWhile_le_filter [OF mm])
  moreover have "drop (length (takeWhile (\<lambda>e. fst e \<le> clock 0) ?m)) ?m = filter (\<lambda>e. clock 0 < fst e) ?m"
    using dropWhile_le_filter [OF mm] by (simp only: dropWhile_eq_drop [symmetric])
  ultimately show ?thesis by (simp add: onTimer_def Let_def)
qed

text \<open>
  C26: The timer runs what is due. When the timer fires and no pending event is cancelled, the tasks
  that run are those of the events whose time has come, in the order of their times, each once;
  afterwards pending are the others and, at one interval from the time they are reset, the repeated
  ones of those that ran. The queue stays sorted by time and no event is in it twice.
\<close>

theorem timer_runs_due:
  assumes "timer_inv st" "\<forall>e\<in>set (m_pending_events st). \<not> m_is_cancled (events st (snd e))"
  shows "let (st', tasks) = onTimer clock st;
             due = filter (\<lambda>e. fst e \<le> clock 0) (m_pending_events st) in
           tasks = map (\<lambda>e. m_task (events st (snd e))) due
         \<and> mset (m_pending_events st') = mset (filter (\<lambda>e. clock 0 < fst e) (m_pending_events st))
             + mset (repeated_entries (\<lambda>n. clock (Suc n)) (map snd due) (events st))
         \<and> timer_inv st'"
proof -
  let ?m = "m_pending_events st"
  let ?due = "filter (\<lambda>e. fst e \<le> clock 0) ?m" and ?late = "filter (\<lambda>e. clock 0 < fst e) ?m"
  let ?st = "st\<lparr>armed := None, m_pending_events := ?late\<rparr>"
  have ok: "timer_ok st" and dist: "distinct (map snd ?m)" using assms(1) by (simp_all add: timer_inv_def)
  have "timer_inv ?st"
    using ok dist by (auto simp: timer_inv_def timer_ok_def mm_ok_def sorted_filter distinct_map_filter)
  moreover have "set (map snd ?due) \<inter> snd ` set (m_pending_events ?st) = {}"
    using dist by (force simp: distinct_map inj_on_def)
  moreover have "distinct (map snd ?due)" using dist by (rule distinct_map_filter)
  ultimately have "timer_inv (rearm (\<lambda>n. clock (Suc n)) (map snd ?due) ?st)" by (intro timer_inv_rearm)
  then show ?thesis
    using onTimer_due [OF ok assms(2), of clock] rearm_pending [of "\<lambda>n. clock (Suc n)" "map snd ?due" ?st] by simp
qed

definition sample_timer :: timer_state where
  "sample_timer = \<lparr>events = (\<lambda>i. TimerEvent 0 (int i * 10) (i = 1) i), m_pending_events = [(10, 1), (20, 2), (30, 3)], armed = Some 10\<rparr>"

lemma sample_timer_inv: "timer_inv sample_timer"
  by (simp add: timer_inv_def timer_ok_def mm_ok_def sample_timer_def TimerEvent_def)

theorem timer_runs_due_witness:
  "snd (onTimer (\<lambda>n. 20 + int n) sample_timer) = [1, 2]
   \<and> mset (m_pending_events (fst (onTimer (\<lambda>n. 20 + int n) sample_timer))) = {#(30, 3), (31, 1)#}"
  using timer_runs_due [OF sample_timer_inv, of "\<lambda>n. 20 + int n"]
  by (simp add: sample_timer_def TimerEvent_def split: prod.splits)

text \<open>
  Deleting a pending event removes exactly its entry, and marks the event cancelled.
\<close>

theorem timer_delete_pending:
  assumes "timer_ok st" "(m_arrive_time (events st i), i) \<in> set (m_pending_events st)"
  shows "mset (m_pending_events (delTimerEvent i st)) = mset (m_pending_events st) - {#(m_arrive_time (events st i), i)#}
    \<and> m_is_cancled (events (delTimerEvent i st) i)"
  using delTimerEvent_pending_event [OF assms] delTimerEvent_pending(2) [of i st] by (simp add: cancle_def)

theorem timer_delete_pending_witness:
  "mset (m_pending_events (delTimerEvent 2 sample_timer)) = {#(10, 1), (30, 3)#}"
  using timer_delete_pending [of sample_timer 2] sample_timer_inv
  by (simp add: timer_inv_def sample_timer_def TimerEvent_def)

text \<open>
  Deleting an event that is not pending removes another one. The search stops behind the last
  entry with the event's time, and the code removes what is there: the first event with a later
  time never runs.
\<close>

theorem timer_delete_other:
  assumes "timer_ok st" "i \<notin> snd ` set (m_pending_events st)"
    and "filter (\<lambda>e. m_arrive_time (events st i) < fst e) (m_pending_events st) = e # later"
  shows "m_pending_events (delTimerEvent i st)
           = filter (\<lambda>e. fst e \<le> m_arrive_time (events st i)) (m_pending_events st) @ later"
  by (rule delTimerEvent_not_pending [OF assms])

theorem timer_delete_other_witness:
  "m_pending_events (delTimerEvent 0 sample_timer) = [(20, 2), (30, 3)]"
  using timer_delete_other [of sample_timer 0 "(10, 1)" "[(20, 2), (30, 3)]"] sample_timer_inv
  by (simp add: timer_inv_def sample_timer_def TimerEvent_def)

lemma rearm_once: "\<forall>i\<in>set is. \<not> m_is_repeated (events st i) \<Longrightarrow> rearm clock is st = resetArriveTime (clock 0) st"
  by (induction "is") auto

text \<open>
  The timer can stop for good. If the next event becomes due while \<open>onTimer\<close> runs, that is
  between its reading of the clock and the one that rearms the timer, the timer is left disarmed;
  and however many events with later times are added afterwards, it stays disarmed, so none of the
  pending events runs.
\<close>

theorem timer_stops_for_good:
  assumes "timer_ok st" "\<forall>e\<in>set (m_pending_events st). \<not> m_is_cancled (events st (snd e)) \<and> \<not> m_is_repeated (events st (snd e))"
    and "filter (\<lambda>e. clock 0 < fst e) (m_pending_events st) = e # rest" "fst e \<le> clock 1"
    and "\<forall>(now, i)\<in>set adds. fst e \<le> m_arrive_time (events st i)"
  shows "armed (fold (\<lambda>(now, i). addTimerEvent now i True) adds (fst (onTimer clock st))) = None"
proof -
  let ?m = "m_pending_events st"
  let ?st = "st\<lparr>armed := None, m_pending_events := e # rest\<rparr>"
  have "fst (onTimer clock st) = resetArriveTime (clock 1) ?st"
    using onTimer_due [OF assms(1), of clock] assms(2) by (simp add: assms(3) rearm_once)
  moreover have "timer_ok ?st"
    using assms(1) by (simp add: timer_ok_def mm_ok_def sorted_filter flip: assms(3))
  moreover have "armed (resetArriveTime (clock 1) ?st) = None"
    using assms(4) by (intro resetArriveTime_due [of _ e rest]) simp_all
  ultimately show ?thesis
    using timer_stalls [of "fst (onTimer clock st)" e rest adds] assms(5) by (simp add: timer_ok_def)
qed

theorem timer_stops_for_good_witness:
  "armed (fold (\<lambda>(now, i). addTimerEvent now i True) [(20, 5), (21, 6)]
      (fst (onTimer (\<lambda>n. 20 + 10 * int n) (sample_timer\<lparr>m_pending_events := [(20, 2), (30, 3)]\<rparr>)))) = None"
proof -
  let ?st = "sample_timer\<lparr>m_pending_events := [(20, 2), (30, 3)]\<rparr>"
  have "timer_ok ?st" "filter (\<lambda>e. (\<lambda>n. 20 + 10 * int n) 0 < fst e) (m_pending_events ?st) = (30, 3) # []"
    by (simp_all add: timer_ok_def mm_ok_def sample_timer_def TimerEvent_def)
  moreover have "\<forall>e\<in>set (m_pending_events ?st). \<not> m_is_cancled (events ?st (snd e)) \<and> \<not> m_is_repeated (events ?st (snd e))"
    "\<forall>(now, i)\<in>set [(20, 5), (21, 6)]. fst ((30, 3) :: int \<times> nat) \<le> m_arrive_time (events ?st i)"
    by (simp_all add: sample_timer_def TimerEvent_def)
  ultimately show ?thesis by (intro timer_stops_for_good) auto
qed

end
