(* ===== verification/TimeWheel.thy ===== *)
theory TimeWheel
  imports TcpConnection
begin

text \<open>
  \<open>src/net/tcp/tcp_connection_time_wheel.{h,cc}\<close> and \<open>src/net/tcp/abstract_slot.h\<close>: idle
  connections are shut down. A slot (identified by a number) is alive while some bucket holds a
  reference to it; \<open>loopFunc\<close>, the task of the wheel's repeated timer, drops the front bucket. The
  destructor of a slot whose last reference is gone calls \<open>shutdownConnection\<close>.
\<close>

type_synonym wheel = "nat list list"

definition TcpTimeWheel :: "nat \<Rightarrow> wheel" where
  "TcpTimeWheel bucket_count = replicate bucket_count []"

text \<open>\<open>back()\<close> and \<open>pop()\<close> of an empty queue are undefined: \<^term>\<open>None\<close>.\<close>

definition wheel_fresh :: "nat \<Rightarrow> wheel \<Rightarrow> wheel option" where
  "wheel_fresh slot w = (if w = [] then None else Some (butlast w @ [last w @ [slot]]))"

definition loopFunc :: "wheel \<Rightarrow> (wheel \<times> nat list) option" where
  "loopFunc w =
     (case w of
        [] \<Rightarrow> None
      | front # rest \<Rightarrow>
          Some (rest @ [[]], filter (\<lambda>s. s \<notin> set (concat rest)) (remdups front)))"

text \<open>\<open>~AbstractSlot\<close>: the callback runs if the connection still exists.\<close>

definition AbstractSlot_destroy :: "tcp_connection option \<Rightarrow> tcp_connection option \<times> effect list" where
  "AbstractSlot_destroy c =
     (case c of None \<Rightarrow> (None, []) | Some c \<Rightarrow> (let (c, e) = shutdownConnection c in (Some c, e)))"

section \<open>A connection lives for \<open>bucket_count\<close> ticks without traffic\<close>

datatype wheel_op = Tick | Fresh nat

fun run_wheel :: "wheel_op list \<Rightarrow> wheel \<Rightarrow> (wheel \<times> nat list) option" where
  "run_wheel [] w = Some (w, [])"
| "run_wheel (Tick # ops) w = do {
     (w, dead) \<leftarrow> loopFunc w;
     (w, dead') \<leftarrow> run_wheel ops w;
     Some (w, dead @ dead')
   }"
| "run_wheel (Fresh s # ops) w = do {
     w \<leftarrow> wheel_fresh s w;
     run_wheel ops w
   }"

definition ticks :: "wheel_op list \<Rightarrow> nat" where
  "ticks ops = length (filter (\<lambda>op. op = Tick) ops)"

text \<open>The last bucket that holds the slot, counted from the front.\<close>

definition last_in :: "nat \<Rightarrow> wheel \<Rightarrow> nat \<Rightarrow> bool" where
  "last_in s w i \<longleftrightarrow> i < length w \<and> s \<in> set (w ! i) \<and> (\<forall>j. i < j \<and> j < length w \<longrightarrow> s \<notin> set (w ! j))"

lemma length_fresh: "wheel_fresh s w = Some w' \<Longrightarrow> length w' = length w \<and> w' \<noteq> []"
  by (cases w rule: rev_cases) (auto simp: wheel_fresh_def split: if_splits)

lemma last_in_fresh:
  assumes "wheel_fresh s w = Some w'"
  shows "last_in s w' (length w - 1)"
  using assms by (cases w rule: rev_cases) (auto simp: wheel_fresh_def last_in_def)

lemma last_in_fresh_other:
  assumes "last_in s w i" "s' \<noteq> s" "wheel_fresh s' w = Some w'"
  shows "last_in s w' i"
proof -
  obtain us u where w: "w = us @ [u]" using assms(3) by (cases w rule: rev_cases) (auto simp: wheel_fresh_def)
  then have w': "w' = us @ [u @ [s']]" using assms(3) by (simp add: wheel_fresh_def)
  show ?thesis using assms(1,2) by (auto simp: last_in_def w w' nth_append less_Suc_eq split: if_splits)
qed

lemma loopFunc_step:
  assumes "last_in s w i" "loopFunc w = Some (w', dead)"
  shows "length w' = length w" "0 < i \<Longrightarrow> last_in s w' (i - 1) \<and> s \<notin> set dead"
    and "i = 0 \<Longrightarrow> s \<in> set dead \<and> count_list dead s = 1 \<and> s \<notin> set (concat w')"
proof -
  obtain front rest where w: "w = front # rest" and w': "w' = rest @ [[]]"
    and dead: "dead = filter (\<lambda>s. s \<notin> set (concat rest)) (remdups front)"
    using assms(2) by (cases w) (auto simp: loopFunc_def)
  show "length w' = length w" by (simp add: w w')
  show "last_in s w' (i - 1) \<and> s \<notin> set dead" if "0 < i"
  proof -
    have i: "i - 1 < length rest" "s \<in> set (rest ! (i - 1))"
      "\<forall>j. i < j \<and> j < length w \<longrightarrow> s \<notin> set (w ! j)"
      using assms(1) that by (auto simp: last_in_def w nth_Cons')
    have "s \<notin> set (rest ! j)" if "i - 1 < j" "j < length rest" for j
      using i(3) [rule_format, of "Suc j"] that by (simp add: w)
    then have "last_in s w' (i - 1)" using i(1,2) by (auto simp: last_in_def w' nth_append less_Suc_eq)
    moreover have "s \<in> set (concat rest)" using i(1,2) nth_mem by fastforce
    ultimately show ?thesis by (simp add: dead)
  qed
  show "s \<in> set dead \<and> count_list dead s = 1 \<and> s \<notin> set (concat w')" if "i = 0"
  proof -
    have "s \<in> set front" using assms(1) that by (simp add: last_in_def w)
    have *: "\<forall>j. 0 < j \<and> j < length w \<longrightarrow> s \<notin> set (w ! j)"
      using assms(1) that by (simp add: last_in_def)
    have "s \<notin> set (rest ! j)" if "j < length rest" for j
      using * [rule_format, of "Suc j"] that by (simp add: w)
    then have "\<forall>bucket\<in>set rest. s \<notin> set bucket" by (metis in_set_conv_nth)
    then have "s \<notin> set (concat rest)" by auto
    with \<open>s \<in> set front\<close> have "s \<in> set dead" by (simp add: dead)
    moreover have "distinct dead" by (simp add: dead)
    then have "count_list dead s = (if s \<in> set dead then 1 else 0)"
      by (simp add: distinct_count_atmost_1 count_mset [symmetric])
    ultimately show ?thesis using \<open>s \<notin> set (concat rest)\<close> by (simp add: w')
  qed
qed

text \<open>Until its bucket reaches the front, and without a refresh, the slot moves one bucket per tick.\<close>

lemma run_wheel_alive:
  assumes "last_in s w i" "Fresh s \<notin> set ops" "ticks ops \<le> i"
  shows "\<exists>w' dead. run_wheel ops w = Some (w', dead) \<and> length w' = length w
           \<and> last_in s w' (i - ticks ops) \<and> s \<notin> set dead"
  using assms
proof (induction ops arbitrary: w i)
  case Nil
  then show ?case by (simp add: ticks_def)
next
  case (Cons op ops)
  have ne: "w \<noteq> []" using Cons.prems(1) by (auto simp: last_in_def)
  show ?case
  proof (cases op)
    case Tick
    obtain w1 dead1 where w1: "loopFunc w = Some (w1, dead1)" using ne by (cases w) (auto simp: loopFunc_def)
    have t: "ticks (op # ops) = Suc (ticks ops)" by (simp add: ticks_def Tick)
    then have "0 < i" "ticks ops \<le> i - 1" using Cons.prems(3) by simp_all
    have step: "length w1 = length w" "last_in s w1 (i - 1)" "s \<notin> set dead1"
      using loopFunc_step [OF Cons.prems(1) w1] \<open>0 < i\<close> by blast+
    obtain w' dead where "run_wheel ops w1 = Some (w', dead)" "length w' = length w1"
      "last_in s w' (i - 1 - ticks ops)" "s \<notin> set dead"
      using Cons.IH [OF step(2) _ \<open>ticks ops \<le> i - 1\<close>] Cons.prems(2) by auto
    with step w1 show ?thesis by (simp add: Tick t [unfolded Tick])
  next
    case (Fresh s')
    obtain w1 where w1: "wheel_fresh s' w = Some w1" using ne by (simp add: wheel_fresh_def)
    have t: "ticks (op # ops) = ticks ops" by (simp add: ticks_def Fresh)
    have "s' \<noteq> s" using Cons.prems(2) Fresh by auto
    with last_in_fresh_other [OF Cons.prems(1) _ w1] Cons.IH [of w1 i] Cons.prems(2,3) w1 length_fresh [OF w1] t
    show ?thesis by (simp add: Fresh t [unfolded Fresh])
  qed
qed

section \<open>Properties\<close>

text \<open>
  A connection lives for \<open>bucket_count\<close> ticks after its last traffic. A slot that has just been
  put into the wheel survives fewer than \<open>bucket_count\<close> ticks, whatever other slots are put in
  meanwhile, and is destroyed, once, by the tick with that number.
\<close>

theorem wheel_lifetime:
  assumes "w \<noteq> []" "Fresh s \<notin> set ops" "ticks ops = length w - 1"
  shows "\<exists>w1 dead1 w2 dead2. run_wheel (Fresh s # ops) w = Some (w1, dead1) \<and> s \<notin> set dead1 \<and> s \<in> set (concat w1)
           \<and> loopFunc w1 = Some (w2, dead2) \<and> s \<in> set dead2 \<and> count_list dead2 s = 1 \<and> s \<notin> set (concat w2)
           \<and> length w2 = length w"
proof -
  obtain w0 where w0: "wheel_fresh s w = Some w0" using assms(1) by (simp add: wheel_fresh_def)
  obtain w1 dead1 where w1: "run_wheel ops w0 = Some (w1, dead1)" "length w1 = length w0" "last_in s w1 0" "s \<notin> set dead1"
    using run_wheel_alive [OF last_in_fresh [OF w0] assms(2)] assms(3) by auto
  have "w1 \<noteq> []" using w1(2) length_fresh [OF w0] by auto
  then obtain w2 dead2 where w2: "loopFunc w1 = Some (w2, dead2)" by (cases w1) (simp_all add: loopFunc_def)
  have "s \<in> set (concat w1)" using w1(3) by (auto simp: last_in_def)
  then show ?thesis
    using loopFunc_step [OF w1(3) w2] w1 w2 w0 length_fresh [OF w0] by auto
qed

theorem wheel_lifetime_witness:
  "\<exists>w1 dead1 w2 dead2. run_wheel [Fresh 7, Tick, Fresh 8, Tick] (TcpTimeWheel 3) = Some (w1, dead1) \<and> 7 \<notin> set dead1
     \<and> loopFunc w1 = Some (w2, dead2) \<and> 7 \<in> set dead2"
proof -
  have "TcpTimeWheel 3 \<noteq> []" "Fresh 7 \<notin> set [Tick, Fresh 8, Tick]" "ticks [Tick, Fresh 8, Tick] = length (TcpTimeWheel 3) - 1"
    by (simp_all add: TcpTimeWheel_def ticks_def)
  from wheel_lifetime [OF this] show ?thesis by blast
qed

end
