(* ===== verification/Coroutine.thy ===== *)
theory Coroutine
  imports Prelude
begin

unbundle bit_operations_syntax

text \<open>
  \<open>src/coroutine/coctx.h\<close>, \<open>src/coroutine/coctx_swap.S\<close> and \<open>src/coroutine/coroutine.{h,cc}\<close>: the
  context switch as a machine step on registers, saved contexts and stack memory, and the
  thread-local coroutine state on top of it. Coroutines are numbered objects; pointers are
  optional numbers.
\<close>

section \<open>\<open>coctx_swap\<close>\<close>

type_synonym w64 = "64 word"

record cpu =
  rax :: w64
  rbx :: w64
  rcx :: w64
  rdx :: w64
  rsi :: w64
  rdi :: w64
  rbp :: w64
  rsp :: w64
  r8 :: w64
  r9 :: w64
  r12 :: w64
  r13 :: w64
  r14 :: w64
  r15 :: w64
  rip :: w64

text \<open>\<open>regs[14]\<close> of a \<open>coctx\<close>; the slot at byte offset \<open>8 * i\<close> is \<open>regs[i]\<close>.\<close>

type_synonym coctx = "w64 list"

definition kRBP :: nat where "kRBP = 6"
definition kRDI :: nat where "kRDI = 7"
definition kRSI :: nat where "kRSI = 8"
definition kRETAddr :: nat where "kRETAddr = 9"
definition kRSP :: nat where "kRSP = 13"

text \<open>The eight-byte cells of the stacks.\<close>

type_synonym stack_memory = "w64 \<Rightarrow> w64"

text \<open>The first half: everything goes into the first context, the return address from the stack.\<close>

definition save_context :: "stack_memory \<Rightarrow> cpu \<Rightarrow> coctx" where
  "save_context m c =
     [r15 c, r14 c, r13 c, r12 c, r9 c, r8 c, rbp c, rdi c, rsi c, m (rsp c), rdx c, rcx c, rbx c, rsp c]"

text \<open>The second half, instruction by instruction, up to and including \<open>ret\<close>.\<close>

definition load_context :: "coctx \<Rightarrow> cpu \<Rightarrow> stack_memory \<Rightarrow> cpu \<times> stack_memory" where
  "load_context ctx c m =
     (let c = c\<lparr>rax := 0\<rparr>;
          c = c\<lparr>rbp := ctx ! 6, rsp := ctx ! 13, r15 := ctx ! 0, r14 := ctx ! 1, r13 := ctx ! 2,
                r12 := ctx ! 3, r9 := ctx ! 4, r8 := ctx ! 5, rdi := ctx ! 7, rdx := ctx ! 10,
                rcx := ctx ! 11, rbx := ctx ! 12\<rparr>;
          c = c\<lparr>rsp := rsp c + 8\<rparr>;
          c = c\<lparr>rsp := rsp c - 8\<rparr>;
          m = m(rsp c := ctx ! 9);
          c = c\<lparr>rsi := ctx ! 8\<rparr>;
          c = c\<lparr>rip := m (rsp c)\<rparr>;
          c = c\<lparr>rsp := rsp c + 8\<rparr>
      in (c, m))"

type_synonym contexts = "nat \<Rightarrow> coctx"

definition coctx_swap ::
  "nat \<Rightarrow> nat \<Rightarrow> cpu \<times> contexts \<times> stack_memory \<Rightarrow> cpu \<times> contexts \<times> stack_memory" where
  "coctx_swap from to s =
     (case s of (c, ctxs, m) \<Rightarrow>
        let ctxs = ctxs(from := save_context m c);
            (c, m) = load_context (ctxs to) c m
        in (c, ctxs, m))"

text \<open>The registers a function must preserve for its caller.\<close>

definition callee_saved :: "cpu \<Rightarrow> w64 list" where
  "callee_saved c = [rbx c, rbp c, r12 c, r13 c, r14 c, r15 c]"

lemma load_saved:
  "load_context (save_context m c) c' m' =
     (c'\<lparr>rax := 0, rbp := rbp c, rsp := rsp c + 8, r15 := r15 c, r14 := r14 c, r13 := r13 c, r12 := r12 c,
         r9 := r9 c, r8 := r8 c, rdi := rdi c, rdx := rdx c, rcx := rcx c, rbx := rbx c, rsi := rsi c,
         rip := m (rsp c)\<rparr>, m'(rsp c := m (rsp c)))"
  by (simp add: load_context_def save_context_def Let_def)

text \<open>
  A switch away and back is a return from the first call: the code that called \<open>coctx_swap\<close> goes on
  behind its call, with its own stack and registers, whatever ran in between, as long as that left
  its context alone.
\<close>

lemma swap_there_and_back:
  assumes "a \<noteq> b" "coctx_swap a b (c, ctxs, m) = (c1, ctxs1, m1)" "ctxs2 a = ctxs1 a"
    and "coctx_swap b a (c2, ctxs2, m2) = (c3, ctxs3, m3)"
  shows "rip c3 = m (rsp c)" "rsp c3 = rsp c + 8" "callee_saved c3 = callee_saved c" "rdi c3 = rdi c"
    and "m3 = m2(rsp c := m (rsp c))"
proof -
  have "ctxs1 a = save_context m c"
    using assms(1,2) by (auto simp: coctx_swap_def Let_def split: prod.splits)
  with assms(1,3) have "(ctxs2(b := save_context m2 c2)) a = save_context m c" by simp
  with assms(4) have "(c3, m3) = load_context (save_context m c) c2 m2"
    by (auto simp: coctx_swap_def Let_def split: prod.splits)
  then show "rip c3 = m (rsp c)" "rsp c3 = rsp c + 8" "callee_saved c3 = callee_saved c" "rdi c3 = rdi c"
    "m3 = m2(rsp c := m (rsp c))"
    by (simp_all add: load_saved callee_saved_def)
qed

section \<open>\<open>Coroutine\<close>\<close>

record coroutine =
  m_cor_id :: nat
  m_stack_size :: nat
  m_stack_sp :: w64
  m_is_in_cofunc :: bool
  m_can_resume :: bool
  m_index :: int
  m_call_back :: "nat option"

text \<open>A main coroutine, and one with a stack.\<close>

definition main_coroutine :: coroutine where
  "main_coroutine = \<lparr>m_cor_id = 0, m_stack_size = 0, m_stack_sp = 0, m_is_in_cofunc = False,
     m_can_resume = True, m_index = - 1, m_call_back = None\<rparr>"

record thread =
  cors :: "nat \<Rightarrow> coroutine"
  next_obj :: nat
  t_main_coroutine :: "nat option"
  t_cur_coroutine :: "nat option"
  t_cur_run_time :: "nat option"
  t_cur_coroutine_id :: nat
  t_coroutine_count :: nat
  machine :: "cpu \<times> contexts \<times> stack_memory"

text \<open>The private constructor makes its object the current coroutine.\<close>

definition new_main :: "thread \<Rightarrow> nat \<times> thread" where
  "new_main t =
     (next_obj t,
      t\<lparr>cors := (cors t)(next_obj t := main_coroutine), next_obj := next_obj t + 1,
        t_cur_coroutine := Some (next_obj t), t_coroutine_count := t_coroutine_count t + 1\<rparr>)"

definition ensure_main :: "thread \<Rightarrow> thread" where
  "ensure_main t =
     (case t_main_coroutine t of
        None \<Rightarrow> (let (obj, t) = new_main t in t\<lparr>t_main_coroutine := Some obj\<rparr>)
      | Some _ \<Rightarrow> t)"

definition Coroutine :: "nat \<Rightarrow> w64 \<Rightarrow> thread \<Rightarrow> nat \<times> thread" where
  "Coroutine stack_size stack_ptr t =
     (let t = ensure_main t;
          obj = next_obj t;
          co = main_coroutine\<lparr>m_cor_id := t_cur_coroutine_id t, m_stack_size := stack_size, m_stack_sp := stack_ptr\<rparr>
      in (obj, t\<lparr>cors := (cors t)(obj := co), next_obj := obj + 1,
               t_cur_coroutine_id := t_cur_coroutine_id t + 1,
               t_coroutine_count := t_coroutine_count t + 1\<rparr>))"

definition GetCurrentCoroutine :: "thread \<Rightarrow> nat \<times> thread" where
  "GetCurrentCoroutine t =
     (case t_cur_coroutine t of
        Some c \<Rightarrow> (c, t)
      | None \<Rightarrow> (let (obj, t) = new_main t in (obj, t\<lparr>t_main_coroutine := Some obj, t_cur_coroutine := Some obj\<rparr>)))"

definition GetMainCoroutine :: "thread \<Rightarrow> nat \<times> thread" where
  "GetMainCoroutine t =
     (case t_main_coroutine t of
        Some c \<Rightarrow> (c, t)
      | None \<Rightarrow> (let (obj, t) = new_main t in (obj, t\<lparr>t_main_coroutine := Some obj\<rparr>)))"

definition IsMainCoroutine :: "thread \<Rightarrow> bool" where
  "IsMainCoroutine t \<longleftrightarrow> t_main_coroutine t = None \<or> t_cur_coroutine t = t_main_coroutine t"

definition setIsInCoFunc :: "nat \<Rightarrow> bool \<Rightarrow> thread \<Rightarrow> thread" where
  "setIsInCoFunc obj v t = t\<lparr>cors := (cors t)(obj := (cors t obj)\<lparr>m_is_in_cofunc := v\<rparr>)\<rparr>"

definition setCanResume :: "nat \<Rightarrow> bool \<Rightarrow> thread \<Rightarrow> thread" where
  "setCanResume obj v t = t\<lparr>cors := (cors t)(obj := (cors t obj)\<lparr>m_can_resume := v\<rparr>)\<rparr>"

definition setIndex :: "nat \<Rightarrow> int \<Rightarrow> thread \<Rightarrow> thread" where
  "setIndex obj i t = t\<lparr>cors := (cors t)(obj := (cors t obj)\<lparr>m_index := i\<rparr>)\<rparr>"

text \<open>
  \<open>setCallBack\<close> builds the first context of the coroutine: \<open>co_function\<close> is the address of
  \<open>CoFunction\<close>, \<open>this\<close> that of the object.
\<close>

definition stack_top :: "coroutine \<Rightarrow> w64" where
  "stack_top co = (m_stack_sp co + word_of_nat (m_stack_size co)) AND (- 16)"

definition first_context :: "w64 \<Rightarrow> w64 \<Rightarrow> coroutine \<Rightarrow> coctx" where
  "first_context co_function this co =
     (replicate 14 0)[kRSP := stack_top co, kRBP := stack_top co, kRETAddr := co_function, kRDI := this]"

definition setCallBack :: "w64 \<Rightarrow> w64 \<Rightarrow> nat \<Rightarrow> nat \<Rightarrow> thread \<Rightarrow> bool \<times> thread" where
  "setCallBack co_function this obj cb t =
     (if t_main_coroutine t = Some obj then (False, t)
      else if m_is_in_cofunc (cors t obj) then (False, t)
      else
        let t = t\<lparr>cors := (cors t)(obj := (cors t obj)\<lparr>m_call_back := Some cb, m_can_resume := True\<rparr>),
                  machine := (case machine t of (c, ctxs, m) \<Rightarrow>
                    (c, ctxs(obj := first_context co_function this (cors t obj)), m))\<rparr>
        in (True, t))"

definition Yield :: "thread \<Rightarrow> thread" where
  "Yield t =
     (case t_main_coroutine t of
        None \<Rightarrow> t
      | Some main \<Rightarrow>
          (case t_cur_coroutine t of
             None \<Rightarrow> t
           | Some co \<Rightarrow>
               if co = main then t
               else t\<lparr>t_cur_coroutine := Some main, t_cur_run_time := None,
                      machine := coctx_swap co main (machine t)\<rparr>))"

definition Resume :: "nat option \<Rightarrow> thread \<Rightarrow> thread" where
  "Resume co t =
     (if t_cur_coroutine t \<noteq> t_main_coroutine t then t
      else case t_main_coroutine t of
        None \<Rightarrow> t
      | Some main \<Rightarrow>
          (case co of
             None \<Rightarrow> t
           | Some co \<Rightarrow>
               if \<not> m_can_resume (cors t co) then t
               else if t_cur_coroutine t = Some co then t
               else t\<lparr>t_cur_coroutine := Some co, t_cur_run_time := Some co,
                      machine := coctx_swap main co (machine t)\<rparr>))"

text \<open>
  \<open>CoFunction\<close>: the flag is up exactly while the callback runs (\<open>body\<close> is its effect on the
  thread), then the coroutine yields for good.
\<close>

definition CoFunction :: "nat option \<Rightarrow> (thread \<Rightarrow> thread) \<Rightarrow> thread \<Rightarrow> thread" where
  "CoFunction co body t =
     (case co of
        None \<Rightarrow> Yield t
      | Some obj \<Rightarrow> Yield (setIsInCoFunc obj False (body (setIsInCoFunc obj True t))))"

text \<open>
  The constructor that takes the callback enters it before the object has its number; \<^term>\<open>None\<close> is the failed
  assertion. The destructor, and the variables of the thread that others use.
\<close>

definition Coroutine_cb :: "nat \<Rightarrow> w64 \<Rightarrow> w64 \<Rightarrow> w64 \<Rightarrow> nat \<Rightarrow> thread \<Rightarrow> (nat \<times> thread) option" where
  "Coroutine_cb stack_size stack_ptr co_function this cb t =
     (if stack_ptr = 0 then None
      else
        let t = ensure_main t;
            obj = next_obj t;
            co = main_coroutine\<lparr>m_stack_size := stack_size, m_stack_sp := stack_ptr\<rparr>;
            t = t\<lparr>cors := (cors t)(obj := co), next_obj := obj + 1\<rparr>;
            t = snd (setCallBack co_function this obj cb t);
            t = t\<lparr>cors := (cors t)(obj := (cors t obj)\<lparr>m_cor_id := t_cur_coroutine_id t\<rparr>)\<rparr>
        in Some (obj, t\<lparr>t_cur_coroutine_id := t_cur_coroutine_id t + 1, t_coroutine_count := t_coroutine_count t + 1\<rparr>))"

definition Coroutine_destroy :: "thread \<Rightarrow> thread" where
  "Coroutine_destroy t = t\<lparr>t_coroutine_count := t_coroutine_count t - 1\<rparr>"

definition getCoroutineIndex :: "thread \<Rightarrow> nat" where "getCoroutineIndex t = t_cur_coroutine_id t"
definition getCurrentRunTime :: "thread \<Rightarrow> nat option" where "getCurrentRunTime t = t_cur_run_time t"
definition setCurrentRunTime :: "nat option \<Rightarrow> thread \<Rightarrow> thread" where
  "setCurrentRunTime v t = t\<lparr>t_cur_run_time := v\<rparr>"

section \<open>Making coroutines\<close>

text \<open>
  A coroutine that is made with its callback is one that is made without and given the callback
  afterwards, as the pool does.
\<close>

lemma Coroutine_cb_is_setCallBack:
  assumes "stack_ptr \<noteq> 0" and "\<forall>main. t_main_coroutine t = Some main \<longrightarrow> main < next_obj t"
  shows "Coroutine_cb stack_size stack_ptr co_function this cb t
     = Some (fst (Coroutine stack_size stack_ptr t),
         snd (setCallBack co_function this (fst (Coroutine stack_size stack_ptr t)) cb (snd (Coroutine stack_size stack_ptr t))))"
  using assms
  by (cases "machine t")
     (auto simp: Coroutine_cb_def Coroutine_def setCallBack_def Let_def ensure_main_def new_main_def main_coroutine_def
       first_context_def stack_top_def split: option.split)

text \<open>The numbers go up by one with each coroutine, and none is given twice.\<close>

lemma Coroutine_numbers:
  "m_cor_id (cors (snd (Coroutine stack_size stack_ptr t)) (fst (Coroutine stack_size stack_ptr t))) = getCoroutineIndex t"
  "getCoroutineIndex (snd (Coroutine stack_size stack_ptr t)) = Suc (getCoroutineIndex t)"
  by (simp_all add: Coroutine_def getCoroutineIndex_def ensure_main_def new_main_def Let_def split: option.split)

section \<open>Switching\<close>

text \<open>\<open>Resume\<close> runs a coroutine only from the main one, and only if it may be resumed.\<close>

lemma Resume_runs:
  "t_cur_coroutine (Resume (Some co) t) \<noteq> t_cur_coroutine t \<longleftrightarrow>
     t_main_coroutine t \<noteq> None \<and> t_cur_coroutine t = t_main_coroutine t
     \<and> m_can_resume (cors t co) \<and> t_main_coroutine t \<noteq> Some co"
  by (auto simp: Resume_def split: option.splits)

lemma Resume_refused: "\<not> m_can_resume (cors t co) \<Longrightarrow> Resume (Some co) t = t"
  by (simp add: Resume_def split: option.split)

text \<open>\<open>Resume\<close> followed by the coroutine's \<open>Yield\<close> brings the main coroutine back behind its call.\<close>

lemma Resume_Yield:
  assumes "t_main_coroutine t = Some main" "t_cur_coroutine t = Some main" "m_can_resume (cors t co)" "co \<noteq> main"
    and m: "machine t = (c, ctxs, m)"
    and ran: "t_main_coroutine t2 = Some main" "t_cur_coroutine t2 = Some co"
      "fst (snd (machine t2)) main = fst (snd (machine (Resume (Some co) t))) main"
  shows "t_cur_coroutine (Yield t2) = Some main"
    and "rip (fst (machine (Yield t2))) = m (rsp c)" "rsp (fst (machine (Yield t2))) = rsp c + 8"
    and "callee_saved (fst (machine (Yield t2))) = callee_saved c"
proof -
  obtain c1 ctxs1 m1 where 1: "coctx_swap main co (c, ctxs, m) = (c1, ctxs1, m1)"
    by (cases "coctx_swap main co (c, ctxs, m)") blast
  then have r: "machine (Resume (Some co) t) = (c1, ctxs1, m1)"
    using assms(1-4) m by (simp add: Resume_def)
  obtain c2 ctxs2 m2 where 2: "machine t2 = (c2, ctxs2, m2)" by (cases "machine t2") blast
  obtain c3 ctxs3 m3 where 3: "coctx_swap co main (c2, ctxs2, m2) = (c3, ctxs3, m3)"
    by (cases "coctx_swap co main (c2, ctxs2, m2)") blast
  have y: "machine (Yield t2) = (c3, ctxs3, m3)" "t_cur_coroutine (Yield t2) = Some main"
    using ran(1,2) assms(4) by (simp_all add: Yield_def 2 3)
  have "ctxs2 main = ctxs1 main" using ran(3) by (simp add: r 2)
  from swap_there_and_back [OF assms(4) [symmetric] 1 this 3]
  show "rip (fst (machine (Yield t2))) = m (rsp c)" "rsp (fst (machine (Yield t2))) = rsp c + 8"
    "callee_saved (fst (machine (Yield t2))) = callee_saved c" by (simp_all add: y)
  show "t_cur_coroutine (Yield t2) = Some main" by (rule y(2))
qed

text \<open>
  The first switch to a coroutine enters \<open>CoFunction\<close> with the object as argument, and writes the
  return address at the top of the stack.
\<close>

lemma first_switch:
  assumes "a \<noteq> b" "ctxs b = first_context co_function this co"
    and "coctx_swap a b (c, ctxs, m) = (c', ctxs', m')"
  shows "rip c' = co_function" "rdi c' = this" "rsp c' = stack_top co + 8" "m' = m(stack_top co := co_function)"
proof -
  have "(c', m') = load_context (first_context co_function this co) c m"
    using assms by (auto simp: coctx_swap_def Let_def split: prod.splits)
  then show "rip c' = co_function" "rdi c' = this" "rsp c' = stack_top co + 8" "m' = m(stack_top co := co_function)"
    by (simp_all add: load_context_def first_context_def kRSP_def kRBP_def kRETAddr_def kRDI_def Let_def
        numeral_eq_Suc)
qed

text \<open>
  When the end of the stack block is 16-aligned, the top of the stack is the first byte behind the
  block: the write of the first switch is outside it.
\<close>

lemma stack_top_aligned:
  assumes "(m_stack_sp co + word_of_nat (m_stack_size co)) AND 15 = (0 :: w64)"
  shows "stack_top co = m_stack_sp co + word_of_nat (m_stack_size co)"
proof -
  have "x AND (- 16) = x" if "x AND 15 = 0" for x :: w64
  proof -
    have "(- 16 :: w64) = NOT 15" by (simp add: not_eq_complement)
    then have "x = (x AND 15) OR (x AND (- 16))"
      by (metis bit.conj_cancel_right bit.conj_disj_distrib bit.disj_cancel_right and.right_neutral)
    with that show ?thesis by simp
  qed
  with assms show ?thesis by (simp add: stack_top_def)
qed

section \<open>Properties\<close>

definition sample_cpu :: cpu where
  "sample_cpu = \<lparr>rax = 1, rbx = 2, rcx = 3, rdx = 4, rsi = 5, rdi = 6, rbp = 7, rsp = 4096, r8 = 8, r9 = 9,
     r12 = 10, r13 = 11, r14 = 12, r15 = 13, rip = 0\<rparr>"

definition sample_thread :: thread where
  "sample_thread = \<lparr>cors = (\<lambda>_. main_coroutine), next_obj = 2, t_main_coroutine = Some 0, t_cur_coroutine = Some 0,
     t_cur_run_time = None, t_cur_coroutine_id = 1, t_coroutine_count = 2,
     machine = (sample_cpu, \<lambda>_. first_context 64 1 main_coroutine, \<lambda>_. 77)\<rparr>"

text \<open>
  C32: \<open>Resume\<close> and \<open>Yield\<close> nest like a call. The main coroutine resumes another; whatever that one
  does, as long as it leaves the saved context of the main coroutine alone, its \<open>Yield\<close> brings the
  main coroutine back: it is current again, and goes on at the return address of its own switch,
  with its stack pointer behind it and its callee-saved registers.
\<close>

theorem resume_yield_returns:
  assumes "t_main_coroutine t = Some main" "t_cur_coroutine t = Some main" "m_can_resume (cors t co)" "co \<noteq> main"
    and "machine t = (c, ctxs, m)"
    and "t_main_coroutine t2 = Some main" "t_cur_coroutine t2 = t_cur_coroutine (Resume (Some co) t)"
      "fst (snd (machine t2)) main = fst (snd (machine (Resume (Some co) t))) main"
  shows "t_cur_coroutine (Resume (Some co) t) = Some co \<and> t_cur_coroutine (Yield t2) = Some main
    \<and> rip (fst (machine (Yield t2))) = m (rsp c) \<and> rsp (fst (machine (Yield t2))) = rsp c + 8
    \<and> callee_saved (fst (machine (Yield t2))) = callee_saved c"
proof -
  have cur: "t_cur_coroutine (Resume (Some co) t) = Some co" using assms(1-4) by (simp add: Resume_def)
  with assms(7) have t2: "t_cur_coroutine t2 = Some co" by simp
  from cur Resume_Yield [OF assms(1-6) t2 assms(8)] show ?thesis by blast
qed

theorem resume_yield_returns_witness:
  "t_cur_coroutine (Yield (Resume (Some 1) sample_thread)) = Some 0
   \<and> rip (fst (machine (Yield (Resume (Some 1) sample_thread)))) = 77
   \<and> rsp (fst (machine (Yield (Resume (Some 1) sample_thread)))) = 4104"
proof -
  have m: "machine sample_thread = (sample_cpu, \<lambda>_. first_context 64 1 main_coroutine, \<lambda>_. 77)"
    and main: "t_main_coroutine sample_thread = Some 0" "t_cur_coroutine sample_thread = Some 0"
      "m_can_resume (cors sample_thread 1)"
    by (simp_all add: sample_thread_def main_coroutine_def)
  have "t_main_coroutine (Resume (Some 1) sample_thread) = Some 0" using main by (simp add: Resume_def)
  from resume_yield_returns [OF main _ m this refl refl] show ?thesis by (simp add: sample_cpu_def)
qed

text \<open>
  The first switch writes outside the stack. When the block of a coroutine ends at a multiple of
  16, as the blocks of the pool do, the first switch to the coroutine enters \<open>CoFunction\<close> with the
  object as its argument, but stores the return address in the eight bytes behind the block.
\<close>

theorem first_switch_outside_block:
  assumes "(m_stack_sp co + word_of_nat (m_stack_size co)) AND 15 = (0 :: w64)" "m_stack_size co < 2 ^ 64"
    and "a \<noteq> b" "ctxs b = first_context co_function this co" "coctx_swap a b (c, ctxs, m) = (c', ctxs', m')"
  shows "rip c' = co_function \<and> rdi c' = this
    \<and> m' (m_stack_sp co + word_of_nat (m_stack_size co)) = co_function
    \<and> (\<forall>off<m_stack_size co. m_stack_sp co + word_of_nat off \<noteq> m_stack_sp co + word_of_nat (m_stack_size co)
         \<and> m' (m_stack_sp co + word_of_nat off) = m (m_stack_sp co + word_of_nat off))"
proof -
  have "(word_of_nat off :: w64) \<noteq> word_of_nat (m_stack_size co)" if "off < m_stack_size co" for off
    using that assms(2) by (simp add: word_of_nat_eq_iff take_bit_nat_eq_self)
  then show ?thesis using first_switch [OF assms(3-5)] stack_top_aligned [OF assms(1)] by auto
qed

theorem first_switch_outside_block_witness:
  "\<exists>c' ctxs' m'. coctx_swap 0 1 (sample_cpu, \<lambda>_. first_context 64 9 (main_coroutine\<lparr>m_stack_sp := 8192, m_stack_size := 4096\<rparr>), \<lambda>_. 77)
       = (c', ctxs', m') \<and> rip c' = 64 \<and> m' 12288 = 64"
proof -
  let ?co = "main_coroutine\<lparr>m_stack_sp := 8192, m_stack_size := 4096\<rparr>"
  obtain c' ctxs' m' where s: "coctx_swap 0 1 (sample_cpu, \<lambda>_. first_context 64 9 ?co, \<lambda>_. 77) = (c', ctxs', m')"
    by (metis prod_cases3)
  have "(m_stack_sp ?co + word_of_nat (m_stack_size ?co)) AND 15 = (0 :: w64)" by simp
  from first_switch_outside_block [OF this _ _ _ s] s show ?thesis by simp
qed

end
