(* ===== verification/CoroutinePool.thy ===== *)
theory CoroutinePool
  imports Coroutine
begin

text \<open>
  \<open>src/coroutine/memory.{h,cc}\<close> and \<open>src/coroutine/coroutine_pool.{h,cc}\<close>: the stack blocks, and the
  pool that hands coroutines out. Addresses are natural numbers, 0 the null pointer. Sizes are products
  of \<open>int\<close>s: one that does not fit, like an assertion that fails, has no value. The pool keeps, per pooled
  coroutine, its object and whether it is handed out; \<open>in_cofunc\<close> of an object is the flag of
  \<open>Coroutine\<close> and is passed in.
\<close>

section \<open>\<open>Memory\<close>\<close>

record memory =
  m_block_size :: nat
  m_size :: nat
  m_start :: nat
  m_ref_counts :: int
  m_blocks :: "bool list"

text \<open>The product of two \<open>int\<close>s that are not negative; its overflow is undefined behaviour.\<close>

definition int_prod :: "nat \<Rightarrow> nat \<Rightarrow> nat option" where
  "int_prod a b = (if a * b < 2 ^ 31 then Some (a * b) else None)"

definition Memory :: "nat \<Rightarrow> nat \<Rightarrow> nat \<Rightarrow> memory option" where
  "Memory malloc_result block_size block_count = do {
     bytes \<leftarrow> int_prod block_count block_size;
     if malloc_result = 2 ^ 64 - 1 then None
     else Some \<lparr>m_block_size = block_size, m_size = bytes, m_start = malloc_result, m_ref_counts = 0,
                m_blocks = replicate block_count False\<rparr> }"

definition m_end :: "memory \<Rightarrow> int" where
  "m_end m = int (m_start m + m_size m) - 1"

fun first_free :: "bool list \<Rightarrow> nat option" where
  "first_free [] = None"
| "first_free (used # bs) = (if \<not> used then Some 0 else map_option Suc (first_free bs))"

definition as_pointer :: "nat \<Rightarrow> nat option" where
  "as_pointer a = (if a = 0 then None else Some a)"

text \<open>The block, or the null pointer, and the memory afterwards.\<close>

definition getBlock :: "memory \<Rightarrow> (nat option \<times> memory) option" where
  "getBlock m =
     (case first_free (m_blocks m) of
        None \<Rightarrow> Some (None, m)
      | Some t \<Rightarrow> do {
          off \<leftarrow> int_prod t (m_block_size m);
          Some (as_pointer (m_start m + off),
                m\<lparr>m_blocks := (m_blocks m)[t := True], m_ref_counts := m_ref_counts m + 1\<rparr>) })"

definition hasBlock :: "nat \<Rightarrow> memory \<Rightarrow> bool" where
  "hasBlock s m \<longleftrightarrow> m_start m \<le> s \<and> int s \<le> m_end m"

definition backBlock :: "nat \<Rightarrow> memory \<Rightarrow> memory" where
  "backBlock s m =
     (if m_end m < int s \<or> s < m_start m then m
      else let i = (s - m_start m) div m_block_size m in
        m\<lparr>m_blocks := (m_blocks m)[i := False], m_ref_counts := m_ref_counts m - 1\<rparr>)"

text \<open>The destructor: what it frees, and the members afterwards. \<open>m_start\<close> is compared with null and with all ones.\<close>

definition Memory_destroy :: "memory \<Rightarrow> memory \<times> nat list" where
  "Memory_destroy m =
     (if m_start m = 0 \<or> m_start m = 2 ^ 64 - 1 then (m, [])
      else (m\<lparr>m_start := 0, m_ref_counts := 0\<rparr>, [m_start m]))"

definition getStart :: "memory \<Rightarrow> nat" where "getStart m = m_start m"
definition getRefCount :: "memory \<Rightarrow> int" where "getRefCount m = m_ref_counts m"

lemma Memory_freed_once: "snd (Memory_destroy (fst (Memory_destroy m))) = []"
  by (simp add: Memory_destroy_def)

text \<open>An arena that \<open>malloc\<close> has given, all of it addressed by \<open>int\<close>s. The count is the number of blocks in use.\<close>

definition memory_ok :: "memory \<Rightarrow> bool" where
  "memory_ok m \<longleftrightarrow> 0 < m_block_size m \<and> 0 < m_start m \<and> m_size m = length (m_blocks m) * m_block_size m
     \<and> m_size m < 2 ^ 31 \<and> m_ref_counts m = int (length (filter id (m_blocks m)))"

definition block_addr :: "memory \<Rightarrow> nat \<Rightarrow> nat" where
  "block_addr m i = m_start m + i * m_block_size m"

text \<open>The constructor makes such an arena, with every block free, unless its size does not fit.\<close>

lemma Memory_ok:
  assumes "0 < block_size" "0 < a" "a < 2 ^ 64 - 1"
  shows "Memory a block_size n = None \<longleftrightarrow> 2 ^ 31 \<le> n * block_size"
    and "Memory a block_size n = Some m \<Longrightarrow> memory_ok m \<and> m_blocks m = replicate n False \<and> m_block_size m = block_size"
  using assms by (auto simp: Memory_def int_prod_def memory_ok_def bind_eq_Some_iff split: if_splits)

lemma first_free_Some:
  "first_free bs = Some t \<Longrightarrow> t < length bs \<and> \<not> bs ! t \<and> (\<forall>j<t. bs ! j)"
proof (induction bs arbitrary: t)
  case (Cons used bs)
  show ?case
  proof (cases used)
    case True
    with Cons.prems obtain k where "first_free bs = Some k" "t = Suc k" by auto
    with Cons.IH [of k] True show ?thesis by (auto simp: less_Suc_eq_0_disj)
  next
    case False
    with Cons.prems show ?thesis by simp
  qed
qed simp

lemma first_free_None: "first_free bs = None \<longleftrightarrow> (\<forall>b\<in>set bs. b)"
  by (induction bs) auto

lemma filter_id_update:
  "i < length bs \<Longrightarrow> length (filter id (bs[i := v])) + (if bs ! i then 1 else 0)
     = length (filter id bs) + (if v then 1 else 0)"
proof (induction bs arbitrary: i)
  case (Cons b bs)
  show ?case
  proof (cases i)
    case (Suc k)
    with Cons.IH [of k] Cons.prems show ?thesis by auto
  qed simp
qed simp

lemma hasBlock_iff: "hasBlock s m \<longleftrightarrow> m_start m \<le> s \<and> s < m_start m + m_size m"
  unfolding hasBlock_def m_end_def by linarith

lemma backBlock_iff:
  "backBlock s m =
     (if hasBlock s m
      then m\<lparr>m_blocks := (m_blocks m)[(s - m_start m) div m_block_size m := False], m_ref_counts := m_ref_counts m - 1\<rparr>
      else m)"
  unfolding backBlock_def hasBlock_def Let_def by (simp add: not_le not_less)

lemma block_in_arena:
  assumes "memory_ok m" "t < length (m_blocks m)" "off < m_block_size m"
  shows "block_addr m t + off < m_start m + m_size m" "int_prod t (m_block_size m) = Some (t * m_block_size m)"
proof -
  have "(t + 1) * m_block_size m \<le> length (m_blocks m) * m_block_size m"
    using assms(2) by (intro mult_le_mono1) simp
  then have "t * m_block_size m + off < m_size m" using assms(1,3) by (simp add: memory_ok_def)
  then show "block_addr m t + off < m_start m + m_size m" "int_prod t (m_block_size m) = Some (t * m_block_size m)"
    using assms(1) by (simp_all add: block_addr_def int_prod_def memory_ok_def)
qed

lemma getBlock_full: "first_free (m_blocks m) = None \<Longrightarrow> getBlock m = Some (None, m)"
  by (simp add: getBlock_def)

lemma getBlock_free:
  assumes "memory_ok m" "first_free (m_blocks m) = Some t"
  shows "getBlock m = Some (Some (block_addr m t),
           m\<lparr>m_blocks := (m_blocks m)[t := True], m_ref_counts := m_ref_counts m + 1\<rparr>)"
    and "memory_ok (m\<lparr>m_blocks := (m_blocks m)[t := True], m_ref_counts := m_ref_counts m + 1\<rparr>)"
    and "hasBlock (block_addr m t) m"
proof -
  note t = first_free_Some [OF assms(2)]
  have pos: "0 < m_block_size m" using assms(1) by (simp add: memory_ok_def)
  note arena = block_in_arena [OF assms(1) conjunct1 [OF t] pos]
  show "getBlock m = Some (Some (block_addr m t),
      m\<lparr>m_blocks := (m_blocks m)[t := True], m_ref_counts := m_ref_counts m + 1\<rparr>)"
    using assms arena(2) by (simp add: getBlock_def as_pointer_def block_addr_def memory_ok_def)
  show "memory_ok (m\<lparr>m_blocks := (m_blocks m)[t := True], m_ref_counts := m_ref_counts m + 1\<rparr>)"
    using assms(1) filter_id_update [of t "m_blocks m" True] t by (simp add: memory_ok_def)
  show "hasBlock (block_addr m t) m"
    using arena(1) by (simp add: hasBlock_iff block_addr_def)
qed

lemma block_of_addr:
  "0 < m_block_size m \<Longrightarrow> off < m_block_size m \<Longrightarrow>
     (block_addr m i + off - m_start m) div m_block_size m = i"
  by (simp add: block_addr_def)

text \<open>Giving a block back through any address inside it frees exactly that block.\<close>

lemma backBlock_ok:
  assumes "memory_ok m" "i < length (m_blocks m)" "m_blocks m ! i" "off < m_block_size m"
  shows "m_blocks (backBlock (block_addr m i + off) m) = (m_blocks m)[i := False]"
    and "memory_ok (backBlock (block_addr m i + off) m)"
proof -
  have "hasBlock (block_addr m i + off) m"
    using block_in_arena(1) [OF assms(1,2,4)] by (simp add: hasBlock_iff block_addr_def)
  then have given: "backBlock (block_addr m i + off) m
      = m\<lparr>m_blocks := (m_blocks m)[i := False], m_ref_counts := m_ref_counts m - 1\<rparr>"
    using assms(4) by (simp add: backBlock_iff block_of_addr)
  then show "m_blocks (backBlock (block_addr m i + off) m) = (m_blocks m)[i := False]" by simp
  show "memory_ok (backBlock (block_addr m i + off) m)"
    using filter_id_update [OF assms(2), of False] assms(1,3) by (simp add: given memory_ok_def)
qed

text \<open>Two blocks do not overlap.\<close>

lemma blocks_disjoint:
  assumes "i \<noteq> j" "off < m_block_size m" "off' < m_block_size m"
  shows "block_addr m i + off \<noteq> block_addr m j + off'"
proof
  assume eq: "block_addr m i + off = block_addr m j + off'"
  have "0 < m_block_size m" using assms(2) by linarith
  then have "i = j"
    using block_of_addr [OF _ assms(2), of i] block_of_addr [OF _ assms(3), of j] eq by metis
  with assms(1) show False by simp
qed

lemma gives_back:
  assumes "memory_ok m" "first_free (m_blocks m) = Some i" "off < m_block_size m"
  shows "backBlock (block_addr m i + off)
      (m\<lparr>m_blocks := (m_blocks m)[i := True], m_ref_counts := m_ref_counts m + 1\<rparr>) = m"
proof -
  let ?m = "m\<lparr>m_blocks := (m_blocks m)[i := True], m_ref_counts := m_ref_counts m + 1\<rparr>"
  note i = first_free_Some [OF assms(2)]
  have "block_addr m i + off < m_start m + m_size m" by (rule block_in_arena(1) [OF assms(1) conjunct1 [OF i] assms(3)])
  then have "hasBlock (block_addr m i + off) ?m" by (simp add: hasBlock_iff block_addr_def)
  moreover have "(block_addr m i + off - m_start m) div m_block_size m = i"
    using assms(3) by (intro block_of_addr) auto
  moreover have "(m_blocks m)[i := False] = m_blocks m" using i by (simp add: list_update_same_conv)
  ultimately show ?thesis by (simp add: backBlock_iff)
qed

section \<open>\<open>CoroutinePool\<close>\<close>

text \<open>A coroutine as the pool sees it.\<close>

record pooled =
  p_obj :: nat
  p_stack :: nat
  p_index :: int

record pool =
  m_free_cors :: "(pooled \<times> bool) list"
  m_memory_pool :: "memory list"
  pool_stack_size :: nat
  pool_next :: nat

text \<open>\<open>mallocs i\<close> is what the \<open>i\<close>-th \<open>malloc\<close> of the pool returns.\<close>

fun make_cors :: "nat list \<Rightarrow> memory \<Rightarrow> ((pooled \<times> bool) list \<times> memory) option" where
  "make_cors [] mem = Some ([], mem)"
| "make_cors (i # is) mem = do {
     (b, mem) \<leftarrow> getBlock mem;
     s \<leftarrow> b;
     (cors, mem) \<leftarrow> make_cors is mem;
     Some ((\<lparr>p_obj = i, p_stack = s, p_index = int i\<rparr>, False) # cors, mem) }"

definition CoroutinePool :: "(nat \<Rightarrow> nat) \<Rightarrow> nat \<Rightarrow> nat \<Rightarrow> pool option" where
  "CoroutinePool mallocs pool_size stack_size = do {
     mem \<leftarrow> Memory (mallocs 0) stack_size pool_size;
     (cors, mem) \<leftarrow> make_cors [0..<pool_size] mem;
     Some \<lparr>m_free_cors = cors, m_memory_pool = [mem], pool_stack_size = stack_size, pool_next = pool_size\<rparr> }"

fun first_idle :: "(nat \<Rightarrow> bool) \<Rightarrow> (pooled \<times> bool) list \<Rightarrow> nat option" where
  "first_idle in_cofunc [] = None"
| "first_idle in_cofunc (c # cs) =
     (if \<not> in_cofunc (p_obj (fst c)) \<and> \<not> snd c then Some 0 else map_option Suc (first_idle in_cofunc cs))"

text \<open>The search for a block in the memories behind the first one.\<close>

fun first_block :: "memory list \<Rightarrow> (nat option \<times> memory list) option" where
  "first_block [] = Some (None, [])"
| "first_block (m # ms) = do {
     (b, m) \<leftarrow> getBlock m;
     case b of
       Some s \<Rightarrow> Some (Some s, m # ms)
     | None \<Rightarrow> do { (b, ms) \<leftarrow> first_block ms; Some (b, m # ms) } }"

text \<open>The pool of the process, which the first thread that asks for it makes with the configured numbers.\<close>

definition GetCoroutinePool :: "(nat \<Rightarrow> nat) \<Rightarrow> nat \<Rightarrow> nat \<Rightarrow> pool option \<Rightarrow> pool option" where
  "GetCoroutinePool malloc pool_size stack_size container =
     (case container of Some p \<Rightarrow> Some p | None \<Rightarrow> CoroutinePool malloc pool_size stack_size)"

text \<open>The constructor of \<open>Coroutine\<close> asserts that its stack is not null.\<close>

definition getCoroutineInstanse :: "(nat \<Rightarrow> nat) \<Rightarrow> (nat \<Rightarrow> bool) \<Rightarrow> pool \<Rightarrow> (pooled \<times> pool) option" where
  "getCoroutineInstanse mallocs in_cofunc p =
     (case first_idle in_cofunc (m_free_cors p) of
        Some i \<Rightarrow>
          (let cor = fst (m_free_cors p ! i)
           in Some (cor, p\<lparr>m_free_cors := (m_free_cors p)[i := (cor, True)]\<rparr>))
      | None \<Rightarrow> do {
          (b, ms) \<leftarrow> first_block (tl (m_memory_pool p));
          case b of
            Some s \<Rightarrow>
              Some (\<lparr>p_obj = pool_next p, p_stack = s, p_index = - 1\<rparr>,
                    p\<lparr>m_memory_pool := hd (m_memory_pool p) # ms, pool_next := pool_next p + 1\<rparr>)
          | None \<Rightarrow> do {
              mem \<leftarrow> Memory (mallocs (length (m_memory_pool p))) (pool_stack_size p) (length (m_free_cors p));
              (b, mem) \<leftarrow> getBlock mem;
              s \<leftarrow> b;
              Some (\<lparr>p_obj = pool_next p, p_stack = s, p_index = - 1\<rparr>,
                    p\<lparr>m_memory_pool := hd (m_memory_pool p) # ms @ [mem], pool_next := pool_next p + 1\<rparr>) } })"

definition returnCoroutine :: "pooled \<Rightarrow> pool \<Rightarrow> pool" where
  "returnCoroutine cor p =
     (let i = p_index cor in
      if 0 \<le> i \<and> i < int (length (m_free_cors p))
      then p\<lparr>m_free_cors := (m_free_cors p)[nat i := (fst (m_free_cors p ! nat i), False)]\<rparr>
      else p\<lparr>m_memory_pool := hd (m_memory_pool p)
               # map (\<lambda>m. if hasBlock (p_stack cor) m then backBlock (p_stack cor) m else m)
                   (tl (m_memory_pool p))\<rparr>)"

lemma first_idle_Some:
  "first_idle f cs = Some i \<Longrightarrow> i < length cs \<and> \<not> f (p_obj (fst (cs ! i))) \<and> \<not> snd (cs ! i)"
proof (induction cs arbitrary: i)
  case (Cons c cs)
  show ?case
  proof (cases "\<not> f (p_obj (fst c)) \<and> \<not> snd c")
    case False
    with Cons.prems obtain k where "first_idle f cs = Some k" "i = Suc k"
      by (auto simp del: de_Morgan_conj split: if_splits)
    with Cons.IH show ?thesis by simp
  qed (use Cons.prems in simp)
qed simp

text \<open>What is handed out from the pool was idle, and is marked.\<close>

lemma getCoroutine_pooled:
  assumes "first_idle f (m_free_cors p) = Some i"
  shows "\<exists>p'. getCoroutineInstanse ma f p = Some (fst (m_free_cors p ! i), p')
           \<and> \<not> snd (m_free_cors p ! i) \<and> \<not> f (p_obj (fst (m_free_cors p ! i)))
           \<and> m_free_cors p' = (m_free_cors p)[i := (fst (m_free_cors p ! i), True)]"
  using assms first_idle_Some [OF assms] by (simp add: getCoroutineInstanse_def Let_def)

text \<open>
  A pooled coroutine that is returned while it is still inside its function, which is how the
  coroutine of a closed connection ends, is never handed out again.
\<close>

lemma returned_in_cofunc_is_lost:
  assumes "i < length (m_free_cors p)" "f (p_obj (fst (m_free_cors p ! i)))"
  shows "first_idle f (m_free_cors p) \<noteq> Some i"
  using assms first_idle_Some [of f "m_free_cors p" i] by auto

section \<open>Properties\<close>

text \<open>
  C33: Stack blocks. Where \<open>malloc\<close> succeeds, the constructor makes an arena of free blocks exactly when the product of the two
  numbers fits an \<open>int\<close>; otherwise the size overflows. In an arena \<open>getBlock\<close> never computes outside
  the range of \<open>int\<close>, and returns no block exactly when every block is in use. The block it returns lies in
  the arena, was free, and overlaps no other block in use; giving it back through any address inside it, which is how
  a coroutine returns it, restores the state exactly.
\<close>

theorem blocks_are_exclusive:
  assumes "0 < block_size" "0 < a" "a < 2 ^ 64 - 1" "memory_ok m"
  shows "(case Memory a block_size n of
            None \<Rightarrow> 2 ^ 31 \<le> n * block_size
          | Some m0 \<Rightarrow> n * block_size < 2 ^ 31 \<and> memory_ok m0 \<and> m_blocks m0 = replicate n False)
    \<and> (\<exists>b m'. getBlock m = Some (b, m') \<and> memory_ok m'
        \<and> (case b of
             None \<Rightarrow> (\<forall>used\<in>set (m_blocks m). used) \<and> m' = m
           | Some s \<Rightarrow> \<exists>i<length (m_blocks m). s = block_addr m i \<and> \<not> m_blocks m ! i
               \<and> m_blocks m' = (m_blocks m)[i := True]
               \<and> (\<forall>off<m_block_size m. hasBlock (s + off) m \<and> backBlock (s + off) m' = m
                   \<and> (\<forall>j<length (m_blocks m). m_blocks m ! j \<longrightarrow>
                         (\<forall>off'<m_block_size m. s + off \<noteq> block_addr m j + off')))))"
proof
  show "case Memory a block_size n of
      None \<Rightarrow> 2 ^ 31 \<le> n * block_size
    | Some m0 \<Rightarrow> n * block_size < 2 ^ 31 \<and> memory_ok m0 \<and> m_blocks m0 = replicate n False"
    using Memory_ok [OF assms(1-3), of n] by (cases "Memory a block_size n") auto
next
  show "\<exists>b m'. getBlock m = Some (b, m') \<and> memory_ok m'
        \<and> (case b of
             None \<Rightarrow> (\<forall>used\<in>set (m_blocks m). used) \<and> m' = m
           | Some s \<Rightarrow> \<exists>i<length (m_blocks m). s = block_addr m i \<and> \<not> m_blocks m ! i
               \<and> m_blocks m' = (m_blocks m)[i := True]
               \<and> (\<forall>off<m_block_size m. hasBlock (s + off) m \<and> backBlock (s + off) m' = m
                   \<and> (\<forall>j<length (m_blocks m). m_blocks m ! j \<longrightarrow>
                         (\<forall>off'<m_block_size m. s + off \<noteq> block_addr m j + off'))))"
  proof (cases "first_free (m_blocks m)")
    case None
    then show ?thesis using assms(4) by (simp add: getBlock_full first_free_None)
  next
    case (Some i)
    let ?m = "m\<lparr>m_blocks := (m_blocks m)[i := True], m_ref_counts := m_ref_counts m + 1\<rparr>"
    note i = first_free_Some [OF Some] and free = getBlock_free [OF assms(4) Some]
    have "hasBlock (block_addr m i + off) m" "backBlock (block_addr m i + off) ?m = m"
      if off: "off < m_block_size m" for off
      using gives_back [OF assms(4) Some off] block_in_arena(1) [OF assms(4) conjunct1 [OF i] off]
      by (simp_all add: hasBlock_iff block_addr_def)
    moreover have "block_addr m i + off \<noteq> block_addr m j + off'"
      if "m_blocks m ! j" "off < m_block_size m" "off' < m_block_size m" for j off off'
      by (rule blocks_disjoint) (use that i in auto)
    ultimately show ?thesis using i free by (auto intro!: exI [of _ i])
  qed
qed

theorem blocks_are_exclusive_witness:
  "\<exists>m m'. Memory 4096 4096 1 = Some m \<and> getBlock m = Some (Some 4096, m') \<and> backBlock (4096 + 100) m' = m
     \<and> getBlock m' = Some (None, m') \<and> Memory 4096 (2 ^ 21) 1024 = None"
proof -
  obtain m where m: "Memory 4096 4096 1 = Some m" by (simp add: Memory_def int_prod_def)
  then have ok: "memory_ok m" "m_block_size m = 4096" "m_start m = 4096" "m_blocks m = [False]"
    using Memory_ok(2) [of 4096 4096 1 m] by (auto simp: Memory_def int_prod_def)
  have "Memory 4096 (2 ^ 21) 1024 = None"
    using blocks_are_exclusive [of "2 ^ 21" 4096 m 1024] ok(1) by (auto split: option.splits)
  moreover obtain b m' where m': "getBlock m = Some (b, m')" "memory_ok m'" and
    b: "case b of None \<Rightarrow> (\<forall>used\<in>set (m_blocks m). used) \<and> m' = m
        | Some s \<Rightarrow> \<exists>i<length (m_blocks m). s = block_addr m i \<and> \<not> m_blocks m ! i \<and> m_blocks m' = (m_blocks m)[i := True]
            \<and> (\<forall>off<m_block_size m. hasBlock (s + off) m \<and> backBlock (s + off) m' = m
              \<and> (\<forall>j<length (m_blocks m). m_blocks m ! j \<longrightarrow> (\<forall>off'<m_block_size m. s + off \<noteq> block_addr m j + off')))"
    using blocks_are_exclusive [of 4096 4096 m 1, THEN conjunct2] ok by auto
  then have "b = Some 4096 \<and> m_blocks m' = [True] \<and> (\<forall>off<4096. backBlock (4096 + off) m' = m)"
    using ok by (auto simp: block_addr_def split: option.splits)
  then have "b = Some 4096" "m_blocks m' = [True]" "backBlock (4096 + 100) m' = m"
    by (simp, simp, elim conjE allE [of _ 100]) simp
  moreover from this(2) have "getBlock m' = Some (None, m')" by (simp add: getBlock_def)
  ultimately show ?thesis using m m'(1) by blast
qed

text \<open>
  The pool hands out a coroutine at most once. When some pooled coroutine is idle, the pool gives
  one that is neither handed out nor inside its function, marks it, and leaves the others; so the
  next caller gets a different one.
\<close>

theorem pool_gives_idle:
  assumes "first_idle f (m_free_cors p) \<noteq> None"
  shows "\<exists>i p'. i < length (m_free_cors p) \<and> getCoroutineInstanse ma f p = Some (fst (m_free_cors p ! i), p')
           \<and> \<not> snd (m_free_cors p ! i) \<and> \<not> f (p_obj (fst (m_free_cors p ! i)))
           \<and> snd (m_free_cors p' ! i) \<and> (\<forall>j. j \<noteq> i \<longrightarrow> m_free_cors p' ! j = m_free_cors p ! j)
           \<and> first_idle g (m_free_cors p') \<noteq> Some i"
proof -
  obtain i where i: "first_idle f (m_free_cors p) = Some i" using assms by blast
  have "first_idle g ((m_free_cors p)[i := (fst (m_free_cors p ! i), True)]) \<noteq> Some i"
    using first_idle_Some [of g "(m_free_cors p)[i := (fst (m_free_cors p ! i), True)]" i] by auto
  with getCoroutine_pooled [OF i, of ma] first_idle_Some [OF i] show ?thesis by (intro exI [of _ i]) auto
qed

definition sample_pool :: pool where
  "sample_pool = the (CoroutinePool (\<lambda>i. 65536 * (i + 1)) 2 4096)"

lemma replicate_2: "replicate 2 x = [x, x]"
  by (simp add: numeral_2_eq_2)

lemma sample_pool_eq:
  "m_free_cors sample_pool = [(\<lparr>p_obj = 0, p_stack = 65536, p_index = 0\<rparr>, False), (\<lparr>p_obj = 1, p_stack = 69632, p_index = 1\<rparr>, False)]"
  by (simp add: sample_pool_def CoroutinePool_def Memory_def getBlock_def int_prod_def as_pointer_def upt_rec [of _ "Suc _"] upt_rec [of _ 2]
      numeral_2_eq_2 [symmetric] replicate_2)

theorem pool_gives_idle_witness:
  "\<exists>c p'. getCoroutineInstanse (\<lambda>i. 65536 * (i + 1)) (\<lambda>o1. o1 = 0) sample_pool = Some (c, p')
     \<and> first_idle (\<lambda>o1. o1 = 0) (m_free_cors p') \<noteq> Some 1"
proof -
  have "first_idle (\<lambda>o1. o1 = 0) (m_free_cors sample_pool) = Some 1" by (simp add: sample_pool_eq)
  with pool_gives_idle [of "\<lambda>o1. o1 = 0" sample_pool "\<lambda>i. 65536 * (i + 1)" "\<lambda>o1. o1 = 0"]
    getCoroutine_pooled [of "\<lambda>o1. o1 = 0" sample_pool 1 "\<lambda>i. 65536 * (i + 1)"] show ?thesis by fastforce
qed

text \<open>
  A coroutine that is returned inside its function is lost. The coroutine of a connection is
  returned when the connection is destroyed, after its function has parked it; its flag is still up
  then, and \<open>getCoroutineInstanse\<close> looks at the flag: this coroutine is never handed out again.
\<close>

theorem pool_loses_parked:
  assumes "i < length (m_free_cors p)" "p_index cor = int i" "f (p_obj (fst (m_free_cors p ! i)))"
  shows "\<not> snd (m_free_cors (returnCoroutine cor p) ! i)
    \<and> first_idle f (m_free_cors (returnCoroutine cor p)) \<noteq> Some i"
proof -
  have r: "m_free_cors (returnCoroutine cor p) = (m_free_cors p)[i := (fst (m_free_cors p ! i), False)]"
    using assms(1,2) by (simp add: returnCoroutine_def)
  then show ?thesis using returned_in_cofunc_is_lost [of i "returnCoroutine cor p" f] assms(1,3) by simp
qed

theorem pool_loses_parked_witness:
  "first_idle (\<lambda>o1. o1 = 0) (m_free_cors (returnCoroutine \<lparr>p_obj = 0, p_stack = 65536, p_index = 0\<rparr> sample_pool)) \<noteq> Some 0"
  using pool_loses_parked [of 0 sample_pool "\<lparr>p_obj = 0, p_stack = 65536, p_index = 0\<rparr>" "\<lambda>o1. o1 = 0"]
  by (simp add: sample_pool_eq)

end
