(* ===== verification/Mutexes.thy ===== *)
theory Mutexes
  imports Prelude "HOL-Library.Multiset"
begin

text \<open>
  \<open>src/net/mutex.{h,cc}\<close>: the scoped locks, and the mutex for coroutines. A scoped lock is the flag
  \<open>m_locked\<close>; its calls on the wrapped mutex are a list. The coroutine mutex is a step relation
  over \<open>lock\<close>, \<open>unlock\<close> and the resumption of a waiter that \<open>unlock\<close> has queued as a task of
  the reactor.
\<close>

section \<open>Scoped locks\<close>

datatype mutex_call = Acquire | Release

definition scoped_lock_new :: "bool \<times> mutex_call list" where
  "scoped_lock_new = (True, [Acquire])"

definition scoped_lock_lock :: "bool \<times> mutex_call list \<Rightarrow> bool \<times> mutex_call list" where
  "scoped_lock_lock s = (if \<not> fst s then (True, snd s @ [Acquire]) else s)"

definition scoped_lock_unlock :: "bool \<times> mutex_call list \<Rightarrow> bool \<times> mutex_call list" where
  "scoped_lock_unlock s = (if fst s then (False, snd s @ [Release]) else s)"

definition scoped_lock_destroy :: "bool \<times> mutex_call list \<Rightarrow> mutex_call list" where
  "scoped_lock_destroy s = snd (scoped_lock_unlock s)"

text \<open>The uses of a lock in its scope: \<^term>\<open>True\<close> is a call of \<open>lock\<close>, \<^term>\<open>False\<close> one of \<open>unlock\<close>.\<close>

definition use_lock :: "bool list \<Rightarrow> bool \<times> mutex_call list \<Rightarrow> bool \<times> mutex_call list" where
  "use_lock = fold (\<lambda>acquire. if acquire then scoped_lock_lock else scoped_lock_unlock)"

fun alternating :: "mutex_call list \<Rightarrow> bool" where
  "alternating [] = True"
| "alternating [Acquire] = False"
| "alternating (Acquire # Release # cs) = alternating cs"
| "alternating (Release # cs) = False"
| "alternating (Acquire # Acquire # cs) = False"

lemma alternating_append:
  "alternating xs \<Longrightarrow> alternating (xs @ ys) = alternating ys"
  by (induction xs rule: alternating.induct) auto

lemma use_lock_alternating:
  "(if fst s then \<exists>cs. snd s = cs @ [Acquire] \<and> alternating cs else alternating (snd s)) \<Longrightarrow>
   (if fst (use_lock us s) then \<exists>cs. snd (use_lock us s) = cs @ [Acquire] \<and> alternating cs
    else alternating (snd (use_lock us s)))"
proof (induction us arbitrary: s)
  case (Cons u us)
  let ?s = "if u then scoped_lock_lock s else scoped_lock_unlock s"
  have "if fst ?s then \<exists>cs. snd ?s = cs @ [Acquire] \<and> alternating cs else alternating (snd ?s)"
    using Cons.prems
    by (cases "fst s") (auto simp: scoped_lock_lock_def scoped_lock_unlock_def alternating_append)
  moreover have "use_lock (u # us) s = use_lock us ?s" by (simp add: use_lock_def)
  ultimately show ?case using Cons.IH [of ?s] by simp
qed (simp add: use_lock_def)

section \<open>Scoped locks on a shared mutex\<close>

text \<open>
  The calls of a scoped lock on its mutex. \<open>acq\<close> is \<open>lock\<close>, \<open>rdlock\<close> or \<open>wrlock\<close> by the kind of the scoped
  lock, \<^term>\<open>None\<close> while it waits; \<open>rel\<close> is \<open>unlock\<close>, \<^term>\<open>None\<close> where its effect is undefined.
\<close>

fun run_calls ::
  "('k \<Rightarrow> 'm \<Rightarrow> 'm option) \<Rightarrow> ('m \<Rightarrow> 'm option) \<Rightarrow> 'k \<Rightarrow> mutex_call list \<Rightarrow> 'm \<Rightarrow> 'm option" where
  "run_calls acq rel k [] m = Some m"
| "run_calls acq rel k (Acquire # cs) m = do { m \<leftarrow> acq k m; run_calls acq rel k cs m }"
| "run_calls acq rel k (Release # cs) m = do { m \<leftarrow> rel m; run_calls acq rel k cs m }"

text \<open>
  The threads of the program and their scoped locks on one mutex, each with its kind and its flag. A
  thread constructs a scoped lock, calls \<open>lock\<close> and \<open>unlock\<close> on it, and destroys it at the end of
  its scope; which thread goes next is open.
\<close>

inductive scope_step ::
  "('k \<Rightarrow> 'm \<Rightarrow> 'm option) \<Rightarrow> ('m \<Rightarrow> 'm option) \<Rightarrow> 'm \<times> ('k \<times> bool) list \<Rightarrow> 'm \<times> ('k \<times> bool) list \<Rightarrow> bool"
  for acq rel where
  scope_opens: "scoped_lock_new = (l, cs) \<Longrightarrow> run_calls acq rel k cs m = Some m'
    \<Longrightarrow> scope_step acq rel (m, xs) (m', xs @ [(k, l)])"
| scope_locks: "scoped_lock_lock (l, []) = (l', cs) \<Longrightarrow> run_calls acq rel k cs m = Some m'
    \<Longrightarrow> scope_step acq rel (m, xs @ (k, l) # ys) (m', xs @ (k, l') # ys)"
| scope_unlocks: "scoped_lock_unlock (l, []) = (l', cs) \<Longrightarrow> run_calls acq rel k cs m = Some m'
    \<Longrightarrow> scope_step acq rel (m, xs @ (k, l) # ys) (m', xs @ (k, l') # ys)"
| scope_closes: "scoped_lock_destroy (l, []) = cs \<Longrightarrow> run_calls acq rel k cs m = Some m'
    \<Longrightarrow> scope_step acq rel (m, xs @ (k, l) # ys) (m', xs @ ys)"

text \<open>The kinds of the scoped locks whose flag is up.\<close>

definition held :: "('k \<times> bool) list \<Rightarrow> 'k multiset" where
  "held xs = mset (map fst (filter snd xs))"

lemma held_simps [simp]:
  "held [] = {#}" "held ((k, True) # xs) = add_mset k (held xs)" "held ((k, False) # xs) = held xs"
  "held (xs @ ys) = held xs + held ys"
  by (simp_all add: held_def)

text \<open>
  What a mutex promises: its state tells by which kinds it is held, acquiring adds one, and releasing is
  defined while it is held and takes one away.
\<close>

locale lockable =
  fixes acq :: "'k \<Rightarrow> 'm \<Rightarrow> 'm option" and rel :: "'m \<Rightarrow> 'm option"
    and new :: 'm and held_by :: "'m \<Rightarrow> 'k multiset \<Rightarrow> bool"
  assumes new_free: "held_by new {#}"
    and acq_held: "held_by m ks \<Longrightarrow> acq k m = Some m' \<Longrightarrow> held_by m' (add_mset k ks)"
    and rel_held: "held_by m (add_mset k ks) \<Longrightarrow> \<exists>m'. rel m = Some m' \<and> held_by m' ks"
begin

lemma scope_step_keeps:
  "scope_step acq rel s t \<Longrightarrow> held_by (fst s) (held (snd s)) \<Longrightarrow> held_by (fst t) (held (snd t))"
proof (induction rule: scope_step.induct)
  case (scope_opens l cs k m m' xs)
  then show ?case using acq_held [of m "held xs" k m'] by (auto simp: scoped_lock_new_def bind_eq_Some_iff)
next
  case (scope_locks l l' cs k m m' xs ys)
  then show ?case
    using acq_held [of m "held xs + held ys" k m']
    by (cases l) (auto simp: scoped_lock_lock_def bind_eq_Some_iff)
next
  case (scope_unlocks l l' cs k m m' xs ys)
  then show ?case
    using rel_held [of m k "held xs + held ys"]
    by (cases l) (auto simp: scoped_lock_unlock_def bind_eq_Some_iff)
next
  case (scope_closes l cs k m m' xs ys)
  then show ?case
    using rel_held [of m k "held xs + held ys"]
    by (cases l) (auto simp: scoped_lock_destroy_def scoped_lock_unlock_def bind_eq_Some_iff)
qed

lemma scopes_agree:
  assumes "(scope_step acq rel)\<^sup>*\<^sup>* (new, []) (m, xs)"
  shows "held_by m (held xs)"
  using assms
proof (induction "(m, xs)" arbitrary: m xs rule: rtranclp_induct)
  case base
  then show ?case using new_free by simp
next
  case (step s)
  then show ?case using scope_step_keeps [of s] by (cases s) auto
qed

text \<open>Every scoped lock whose flag is up may unlock.\<close>

lemma locked_scope_releases:
  assumes "(scope_step acq rel)\<^sup>*\<^sup>* (new, []) (m, xs)" and "(k, True) \<in> set xs"
  shows "rel m \<noteq> None"
proof -
  obtain us vs where "xs = us @ (k, True) # vs" using split_list [OF assms(2)] by blast
  with scopes_agree [OF assms(1)] rel_held [of m k "held us + held vs"] show ?thesis by auto
qed

end

subsection \<open>\<open>Mutex\<close> and \<open>RWMutex\<close>\<close>

definition mutex_lock :: "unit \<Rightarrow> bool \<Rightarrow> bool option" where
  "mutex_lock k locked = (if locked then None else Some True)"

definition mutex_unlock :: "bool \<Rightarrow> bool option" where
  "mutex_unlock locked = (if locked then Some False else None)"

record rw_mutex =
  rw_readers :: nat
  rw_writer :: bool

definition RWMutex :: rw_mutex where
  "RWMutex = \<lparr>rw_readers = 0, rw_writer = False\<rparr>"

datatype rw_kind = ReadLock | WriteLock

definition rdlock :: "rw_mutex \<Rightarrow> rw_mutex option" where
  "rdlock m = (if rw_writer m then None else Some (m\<lparr>rw_readers := rw_readers m + 1\<rparr>))"

definition wrlock :: "rw_mutex \<Rightarrow> rw_mutex option" where
  "wrlock m = (if rw_writer m \<or> 0 < rw_readers m then None else Some (m\<lparr>rw_writer := True\<rparr>))"

definition rw_unlock :: "rw_mutex \<Rightarrow> rw_mutex option" where
  "rw_unlock m =
     (if rw_writer m then Some (m\<lparr>rw_writer := False\<rparr>)
      else if 0 < rw_readers m then Some (m\<lparr>rw_readers := rw_readers m - 1\<rparr>) else None)"

definition rw_acquire :: "rw_kind \<Rightarrow> rw_mutex \<Rightarrow> rw_mutex option" where
  "rw_acquire k = (case k of ReadLock \<Rightarrow> rdlock | WriteLock \<Rightarrow> wrlock)"

definition rw_held :: "rw_mutex \<Rightarrow> rw_kind multiset \<Rightarrow> bool" where
  "rw_held m ks \<longleftrightarrow>
     ks = replicate_mset (rw_readers m) ReadLock + (if rw_writer m then {#WriteLock#} else {#})
     \<and> (rw_writer m \<longrightarrow> rw_readers m = 0)"

interpretation mutex: lockable mutex_lock mutex_unlock False "\<lambda>locked ks. ks = (if locked then {#()#} else {#})"
  by unfold_locales (auto simp: mutex_lock_def mutex_unlock_def split: if_splits)

lemma rw_held_add:
  "rw_held m (add_mset k ks) \<Longrightarrow> \<exists>m'. rw_unlock m = Some m' \<and> rw_held m' ks"
proof -
  assume h: "rw_held m (add_mset k ks)"
  show ?thesis
  proof (cases "rw_writer m")
    case True
    then show ?thesis using h by (auto simp: rw_held_def rw_unlock_def)
  next
    case False
    with h have r: "add_mset k ks = replicate_mset (rw_readers m) ReadLock" by (simp add: rw_held_def)
    then have "k \<in># replicate_mset (rw_readers m) ReadLock" by (metis union_single_eq_member)
    then have "k = ReadLock" "0 < rw_readers m" by (simp_all split: if_splits)
    with r False show ?thesis by (cases "rw_readers m") (simp_all add: rw_held_def rw_unlock_def)
  qed
qed

interpretation rw: lockable rw_acquire rw_unlock RWMutex rw_held
proof
  show "rw_held RWMutex {#}" by (simp add: rw_held_def RWMutex_def)
  show "rw_held m' (add_mset k ks)" if "rw_held m ks" "rw_acquire k m = Some m'" for m ks k m'
    using that by (cases k) (auto simp: rw_held_def rw_acquire_def rdlock_def wrlock_def split: if_splits)
  show "\<exists>m'. rw_unlock m = Some m' \<and> rw_held m' ks" if "rw_held m (add_mset k ks)" for m k ks
    by (rule rw_held_add [OF that])
qed

text \<open>
  C34: Scoped locks exclude. Whatever the threads of the program do with their scoped locks on a \<open>Mutex\<close> and
  on an \<open>RWMutex\<close>, in any order: at most one scoped lock on the \<open>Mutex\<close> has its flag up; on the \<open>RWMutex\<close>
  a write lock that has its flag up is the only one with its flag up; and no scoped lock with its flag
  up unlocks a mutex that is not locked.
\<close>

theorem scoped_locks_exclude:
  assumes "(scope_step mutex_lock mutex_unlock)\<^sup>*\<^sup>* (False, []) (locked, xs)"
    and "(scope_step rw_acquire rw_unlock)\<^sup>*\<^sup>* (RWMutex, []) (rw, ys)"
  shows "size (held xs) \<le> 1 \<and> (WriteLock \<in># held ys \<longrightarrow> held ys = {#WriteLock#})
     \<and> (((), True) \<in> set xs \<longrightarrow> mutex_unlock locked \<noteq> None)
     \<and> ((ReadLock, True) \<in> set ys \<or> (WriteLock, True) \<in> set ys \<longrightarrow> rw_unlock rw \<noteq> None)"
proof -
  have "held xs = (if locked then {#()#} else {#})" by (rule mutex.scopes_agree [OF assms(1)])
  moreover have "rw_held rw (held ys)" by (rule rw.scopes_agree [OF assms(2)])
  then have "WriteLock \<in># held ys \<longrightarrow> held ys = {#WriteLock#}" by (auto simp: rw_held_def split: if_splits)
  ultimately show ?thesis
    using mutex.locked_scope_releases [OF assms(1)] rw.locked_scope_releases [OF assms(2)] by auto
qed

theorem scoped_locks_exclude_witness:
  "size (held [((), True)]) \<le> 1 \<and> rw_unlock (RWMutex\<lparr>rw_readers := 1\<rparr>) \<noteq> None"
proof -
  have "scope_step mutex_lock mutex_unlock (False, []) (True, [] @ [((), True)])"
    by (rule scope_opens [of True "[Acquire]"]) (simp_all add: scoped_lock_new_def mutex_lock_def)
  moreover have "scope_step rw_acquire rw_unlock (RWMutex, []) (RWMutex\<lparr>rw_readers := 1\<rparr>, [] @ [(ReadLock, True)])"
    by (rule scope_opens [of True "[Acquire]"])
       (simp_all add: scoped_lock_new_def rw_acquire_def rdlock_def RWMutex_def)
  ultimately show ?thesis
    using scoped_locks_exclude [OF r_into_rtranclp r_into_rtranclp, of True "[((), True)]" "RWMutex\<lparr>rw_readers := 1\<rparr>"
        "[(ReadLock, True)]"] by simp
qed

section \<open>\<open>CoroutineMutex\<close>\<close>

record co_mutex =
  m_lock :: bool
  m_sleep_cors :: "nat list"

definition CoroutineMutex :: co_mutex where
  "CoroutineMutex = \<lparr>m_lock = False, m_sleep_cors = []\<rparr>"

datatype lock_result = Acquired | Yielded | Refused

text \<open>\<open>cor\<close> is the current coroutine, \<^term>\<open>None\<close> for the main one.\<close>

definition CoroutineMutex_lock :: "nat option \<Rightarrow> co_mutex \<Rightarrow> co_mutex \<times> lock_result" where
  "CoroutineMutex_lock cor m =
     (case cor of
        None \<Rightarrow> (m, Refused)
      | Some c \<Rightarrow>
          if \<not> m_lock m then (m\<lparr>m_lock := True\<rparr>, Acquired)
          else (m\<lparr>m_sleep_cors := m_sleep_cors m @ [c]\<rparr>, Yielded))"

text \<open>The second result is the coroutine for which \<open>unlock\<close> adds a task that resumes it.\<close>

definition CoroutineMutex_unlock :: "nat option \<Rightarrow> co_mutex \<Rightarrow> co_mutex \<times> nat option" where
  "CoroutineMutex_unlock cor m =
     (case cor of
        None \<Rightarrow> (m, None)
      | Some _ \<Rightarrow>
          if m_lock m then
            let m = m\<lparr>m_lock := False\<rparr> in
            (case m_sleep_cors m of
               [] \<Rightarrow> (m, None)
             | c # cs \<Rightarrow> (m\<lparr>m_sleep_cors := cs\<rparr>, Some c))
          else (m, None))"

definition CoroutineMutex_destroy :: "nat option \<Rightarrow> co_mutex \<Rightarrow> co_mutex \<times> nat option" where
  "CoroutineMutex_destroy cor m = (if m_lock m then CoroutineMutex_unlock cor m else (m, None))"

text \<open>
  The system: the mutex, the coroutines inside their critical section, those asleep in \<open>lock\<close>,
  and those for which a task is pending. A coroutine calls \<open>lock\<close> when it is outside, \<open>unlock\<close>
  when it is inside; a resumed waiter returns from \<open>lock\<close> and is inside.
\<close>

record mutex_system =
  mx :: co_mutex
  inside :: "nat list"
  asleep :: "nat list"
  to_resume :: "nat list"

definition idle_system :: mutex_system where
  "idle_system = \<lparr>mx = CoroutineMutex, inside = [], asleep = [], to_resume = []\<rparr>"

inductive mutex_step :: "mutex_system \<Rightarrow> mutex_system \<Rightarrow> bool" where
  step_lock: "c \<notin> set (inside s) \<Longrightarrow> c \<notin> set (asleep s) \<Longrightarrow>
     CoroutineMutex_lock (Some c) (mx s) = (m, Acquired) \<Longrightarrow>
     mutex_step s (s\<lparr>mx := m, inside := inside s @ [c]\<rparr>)"
| step_wait: "c \<notin> set (inside s) \<Longrightarrow> c \<notin> set (asleep s) \<Longrightarrow>
     CoroutineMutex_lock (Some c) (mx s) = (m, Yielded) \<Longrightarrow>
     mutex_step s (s\<lparr>mx := m, asleep := asleep s @ [c]\<rparr>)"
| step_unlock: "c \<in> set (inside s) \<Longrightarrow> CoroutineMutex_unlock (Some c) (mx s) = (m, woken) \<Longrightarrow>
     mutex_step s (s\<lparr>mx := m, inside := removeAll c (inside s),
                    to_resume := to_resume s @ (case woken of None \<Rightarrow> [] | Some w \<Rightarrow> [w])\<rparr>)"
| step_resume: "to_resume s = c # cs \<Longrightarrow>
     mutex_step s (s\<lparr>to_resume := cs, asleep := removeAll c (asleep s), inside := inside s @ [c]\<rparr>)"

inductive_cases mutex_stepE: "mutex_step s s'"

abbreviation mutex_reachable :: "mutex_system \<Rightarrow> bool" where
  "mutex_reachable s \<equiv> mutex_step\<^sup>*\<^sup>* idle_system s"

text \<open>
  As long as no coroutine has had to wait, the mutex excludes: the flag says whether somebody is
  inside, and at most one is.
\<close>

definition uncontended :: "mutex_system \<Rightarrow> bool" where
  "uncontended s \<longleftrightarrow> asleep s = [] \<and> m_sleep_cors (mx s) = [] \<and> to_resume s = []"

lemma uncontended_excludes_step:
  assumes "mutex_step s s'" "uncontended s" "uncontended s'"
    and "length (inside s) \<le> 1" "m_lock (mx s) = (inside s \<noteq> [])"
  shows "length (inside s') \<le> 1 \<and> m_lock (mx s') = (inside s' \<noteq> [])"
  using assms(1)
proof cases
  case (step_lock c m)
  then show ?thesis using assms(4,5) by (auto simp: CoroutineMutex_lock_def split: if_splits)
next
  case (step_wait c m)
  then show ?thesis using assms(3) by (simp add: uncontended_def)
next
  case (step_unlock c m woken)
  then obtain xs where "inside s = [c]" using assms(4) by (cases "inside s") auto
  with step_unlock assms(2,5) show ?thesis by (auto simp: CoroutineMutex_unlock_def uncontended_def)
next
  case (step_resume c cs)
  then show ?thesis using assms(2) by (simp add: uncontended_def)
qed

text \<open>Waiters are woken in the order in which they came.\<close>

lemma unlock_fifo:
  assumes "CoroutineMutex_unlock (Some c) m = (m', Some w)"
  shows "m_sleep_cors m = w # m_sleep_cors m'" "m_lock m" "\<not> m_lock m'"
  using assms by (auto simp: CoroutineMutex_unlock_def Let_def split: if_splits list.splits)

text \<open>
  With contention it does not exclude: \<open>unlock\<close> clears the flag although it hands the mutex to a
  waiter, so that a third coroutine can lock before or after the waiter goes on.
\<close>

definition three_coroutines :: mutex_system where
  "three_coroutines =
     \<lparr>mx = \<lparr>m_lock = True, m_sleep_cors = []\<rparr>, inside = [3, 2], asleep = [], to_resume = []\<rparr>"

lemma two_inside: "mutex_reachable three_coroutines"
proof -
  let ?s1 = "idle_system\<lparr>mx := \<lparr>m_lock = True, m_sleep_cors = []\<rparr>, inside := [1]\<rparr>"
  let ?s2 = "?s1\<lparr>mx := \<lparr>m_lock = True, m_sleep_cors = [2]\<rparr>, asleep := [2]\<rparr>"
  let ?s3 = "?s2\<lparr>mx := \<lparr>m_lock = False, m_sleep_cors = []\<rparr>, inside := [], to_resume := [2]\<rparr>"
  let ?s4 = "?s3\<lparr>mx := \<lparr>m_lock = True, m_sleep_cors = []\<rparr>, inside := [3]\<rparr>"
  have "mutex_step idle_system ?s1"
    using step_lock [of 1 idle_system "\<lparr>m_lock = True, m_sleep_cors = []\<rparr>"]
    by (simp add: idle_system_def CoroutineMutex_def CoroutineMutex_lock_def)
  moreover have "mutex_step ?s1 ?s2"
    using step_wait [of 2 ?s1 "\<lparr>m_lock = True, m_sleep_cors = [2]\<rparr>"]
    by (simp add: idle_system_def CoroutineMutex_lock_def)
  moreover have "mutex_step ?s2 ?s3"
    using step_unlock [of 1 ?s2 "\<lparr>m_lock = False, m_sleep_cors = []\<rparr>" "Some 2"]
    by (simp add: idle_system_def CoroutineMutex_unlock_def)
  moreover have "mutex_step ?s3 ?s4"
    using step_lock [of 3 ?s3 "\<lparr>m_lock = True, m_sleep_cors = []\<rparr>"]
    by (simp add: idle_system_def CoroutineMutex_lock_def)
  moreover have "mutex_step ?s4 three_coroutines"
    using step_resume [of ?s4 2 "[]"] by (simp add: idle_system_def three_coroutines_def)
  ultimately show ?thesis by (meson rtranclp.rtrancl_into_rtrancl rtranclp.rtrancl_refl)
qed

section \<open>Properties\<close>

text \<open>
  A scoped lock keeps the mutex balanced. Whatever calls of \<open>lock\<close> and \<open>unlock\<close> are made on it in
  its scope, the calls that reach the mutex between construction and destruction are acquire and
  release in turn, ending with a release.
\<close>

theorem scoped_lock_balanced:
  "alternating (scoped_lock_destroy (use_lock us scoped_lock_new))"
proof -
  have "if fst (use_lock us scoped_lock_new)
    then \<exists>cs. snd (use_lock us scoped_lock_new) = cs @ [Acquire] \<and> alternating cs
    else alternating (snd (use_lock us scoped_lock_new))"
    by (rule use_lock_alternating) (simp add: scoped_lock_new_def)
  then show ?thesis
    by (cases "use_lock us scoped_lock_new")
       (auto simp: scoped_lock_destroy_def scoped_lock_unlock_def alternating_append split: if_splits)
qed

text \<open>
  Without waiters the coroutine mutex excludes. In every run in which no coroutine has to wait,
  at most one coroutine is inside, and the flag is up exactly while one is.
\<close>

theorem coroutine_mutex_uncontended:
  assumes "(\<lambda>s s'. mutex_step s s' \<and> uncontended s')\<^sup>*\<^sup>* idle_system s"
  shows "length (inside s) \<le> 1 \<and> m_lock (mx s) = (inside s \<noteq> [])"
proof -
  have "uncontended s \<and> length (inside s) \<le> 1 \<and> m_lock (mx s) = (inside s \<noteq> [])"
    using assms
  proof induction
    case base
    then show ?case by (simp add: idle_system_def CoroutineMutex_def uncontended_def)
  next
    case (step s s')
    then show ?case using uncontended_excludes_step [of s s'] by blast
  qed
  then show ?thesis by blast
qed

theorem coroutine_mutex_uncontended_witness:
  "length (inside (idle_system\<lparr>mx := \<lparr>m_lock = True, m_sleep_cors = []\<rparr>, inside := [1]\<rparr>)) \<le> 1"
proof -
  let ?s = "idle_system\<lparr>mx := \<lparr>m_lock = True, m_sleep_cors = []\<rparr>, inside := [1]\<rparr>"
  have "mutex_step idle_system ?s \<and> uncontended ?s"
    using step_lock [of 1 idle_system "\<lparr>m_lock = True, m_sleep_cors = []\<rparr>"]
    by (simp add: idle_system_def CoroutineMutex_def CoroutineMutex_lock_def uncontended_def)
  then have "(\<lambda>s s'. mutex_step s s' \<and> uncontended s')\<^sup>*\<^sup>* idle_system ?s" by (rule r_into_rtranclp)
  from coroutine_mutex_uncontended [OF this] show ?thesis by blast
qed

text \<open>
  With waiters it does not. Coroutine 1 holds the mutex and 2 waits; 1 unlocks, which clears the
  flag and queues 2; before 2 runs, 3 locks; then 2 returns from its \<open>lock\<close> and is inside as well.
\<close>

theorem coroutine_mutex_not_exclusive:
  "mutex_reachable three_coroutines \<and> inside three_coroutines = [3, 2] \<and> asleep three_coroutines = []"
  using two_inside by (simp add: three_coroutines_def)

end
