(* ===== verification/Config.thy ===== *)
theory Config
  imports StdMap
begin

text \<open>
  \<open>src/comm/config.{h,cc}\<close>: the configuration, read once from a file. The file is its text
  (\<^term>\<open>None\<close> when it cannot be opened). The unordered maps are modelled by \<open>std_map\<close>, since no
  result depends on their order.
\<close>

section \<open>The code\<close>

datatype LogLevel = DEBUG | INFO | WARN | ERROR | NONE

type_synonym ConfigValues = "(string, string) std_map"

record config =
  m_rpc_server_ip :: string
  m_rpc_server_port :: int
  m_zookeeper_ip :: string
  m_zookeeper_port :: int
  m_log_path :: string
  m_log_prefix :: string
  m_log_max_file_size :: int
  m_log_enable :: bool
  m_log_level :: LogLevel
  m_app_log_level :: LogLevel
  m_log_sync_interval :: int
  m_cor_stack_size :: int
  m_cor_pool_size :: int
  m_msg_req_len :: int
  m_max_connect_timeout :: int
  m_iothread_num :: int
  m_timewheel_bucket_num :: int
  m_timewheel_inteval :: int
  m_loaded :: bool
  m_extra_values :: ConfigValues

definition default_config :: config where
  "default_config =
     \<lparr>m_rpc_server_ip = ''127.0.0.1'', m_rpc_server_port = 8000, m_zookeeper_ip = ''127.0.0.1'',
      m_zookeeper_port = 2181, m_log_path = ''./log/'', m_log_prefix = ''coroutine_rpc'',
      m_log_max_file_size = 5 * 1024 * 1024, m_log_enable = True, m_log_level = DEBUG,
      m_app_log_level = DEBUG, m_log_sync_interval = 500, m_cor_stack_size = 128 * 1024,
      m_cor_pool_size = 1024, m_msg_req_len = 20, m_max_connect_timeout = 10000, m_iothread_num = 4,
      m_timewheel_bucket_num = 10, m_timewheel_inteval = 10, m_loaded = False, m_extra_values = []\<rparr>"

definition config_Trim :: "string \<Rightarrow> string" where
  "config_Trim v =
     (let whitespace = [CHR '' '', CHR 0x09, CHR 0x0D, CHR 0x0A] in
      case find_first_not_of whitespace v of
        None \<Rightarrow> []
      | Some start \<Rightarrow>
          (case find_last_not_of whitespace v of
             None \<Rightarrow> drop start v
           | Some fin \<Rightarrow> substr v start (fin - start + 1)))"

definition config_ToUpper :: "string \<Rightarrow> string" where "config_ToUpper v = map char_upper v"

definition ParseLogLevel :: "string \<Rightarrow> LogLevel option" where
  "ParseLogLevel v =
     (let normalized = config_ToUpper v in
      if normalized = ''DEBUG'' then Some DEBUG
      else if normalized = ''INFO'' then Some INFO
      else if normalized = ''WARN'' then Some WARN
      else if normalized = ''ERROR'' then Some ERROR
      else if normalized = ''NONE'' then Some NONE
      else None)"

definition StringToLogLevel :: "string \<Rightarrow> LogLevel" where
  "StringToLogLevel v = (case ParseLogLevel v of None \<Rightarrow> DEBUG | Some level \<Rightarrow> level)"

fun LogLevelToString :: "LogLevel \<Rightarrow> string" where
  "LogLevelToString DEBUG = ''DEBUG''"
| "LogLevelToString INFO = ''INFO''"
| "LogLevelToString WARN = ''WARN''"
| "LogLevelToString ERROR = ''ERROR''"
| "LogLevelToString NONE = ''NONE''"

text \<open>
  The readers take the value to keep when the key is absent; \<^term>\<open>None\<close> is the result false.
\<close>

definition ReadInteger :: "ConfigValues \<Rightarrow> string \<Rightarrow> int \<Rightarrow> int \<Rightarrow> int \<Rightarrow> int option" where
  "ReadInteger vals key minimum maximum result =
     (case map_find vals key of
        None \<Rightarrow> Some result
      | Some text \<Rightarrow>
          let (parsed, fin, erange) = strtoll text in
          if erange \<or> fin = 0 \<or> fin < length (c_str text) \<or> parsed < minimum \<or> maximum < parsed
          then None else Some parsed)"

definition ReadText :: "ConfigValues \<Rightarrow> string \<Rightarrow> string \<Rightarrow> string option" where
  "ReadText vals key result =
     (case map_find vals key of
        None \<Rightarrow> Some result
      | Some text \<Rightarrow> if text = [] then None else Some text)"

definition ReadBoolean :: "ConfigValues \<Rightarrow> string \<Rightarrow> bool \<Rightarrow> bool option" where
  "ReadBoolean vals key result =
     (case map_find vals key of
        None \<Rightarrow> Some result
      | Some text \<Rightarrow>
          let normalized = config_ToUpper text in
          if normalized = ''TRUE'' then Some True
          else if normalized = ''FALSE'' then Some False
          else None)"

definition ReadLevel :: "ConfigValues \<Rightarrow> string \<Rightarrow> LogLevel \<Rightarrow> LogLevel option" where
  "ReadLevel vals key result =
     (case map_find vals key of None \<Rightarrow> Some result | Some text \<Rightarrow> ParseLogLevel text)"

definition KnownKeys :: "string list" where
  "KnownKeys =
     [''rpcserverip'', ''rpcserverport'', ''zookeeperip'', ''zookeeperport'', ''log_path'', ''log_prefix'',
      ''log_max_file_size'', ''log_enable'', ''rpc_log_level'', ''app_log_level'', ''log_sync_interval'',
      ''log_sync_inteval'', ''cor_stack_size'', ''cor_pool_size'', ''msg_req_len'',
      ''max_connect_timeout'', ''iothread_num'', ''timewheel_bucket_num'', ''timewheel_inteval'']"

text \<open>\<open>std::getline\<close> until the end of the file.\<close>

function getlines :: "string \<Rightarrow> string list" where
  "getlines s =
     (if s = [] then []
      else takeWhile (\<lambda>c. c \<noteq> CHR 0x0A) s # getlines (drop 1 (dropWhile (\<lambda>c. c \<noteq> CHR 0x0A) s)))"
  by pat_completeness auto

termination
proof (relation "measure length", goal_cases)
  case (2 s)
  then have "length (drop 1 (dropWhile (\<lambda>c. c \<noteq> CHR 0x0A) s)) < length s"
    using length_dropWhile_le [of "\<lambda>c. c \<noteq> CHR 0x0A" s]
    by (cases s) (auto simp: le_diff_conv intro: order_le_less_trans [OF _ lessI])
  then show ?case by simp
qed simp

definition add_line :: "string \<Rightarrow> ConfigValues \<Rightarrow> ConfigValues" where
  "add_line line vals =
     (let line = config_Trim line in
      if line = [] \<or> hd line = CHR ''#'' then vals
      else case find_char (CHR ''='') line of
        None \<Rightarrow> vals
      | Some separator \<Rightarrow>
          let key = config_Trim (take separator line); val = config_Trim (drop (separator + 1) line)
          in if key = [] then vals else map_put key val vals)"

definition read_values :: "string \<Rightarrow> ConfigValues" where
  "read_values text = fold add_line (getlines text) []"

text \<open>The checks and the assignments; nothing is assigned unless every check passes.\<close>

definition read_settings :: "ConfigValues \<Rightarrow> config \<Rightarrow> config option" where
  "read_settings vals c = do {
     rpc_server_ip \<leftarrow> ReadText vals ''rpcserverip'' (m_rpc_server_ip c);
     zookeeper_ip \<leftarrow> ReadText vals ''zookeeperip'' (m_zookeeper_ip c);
     log_path \<leftarrow> ReadText vals ''log_path'' (m_log_path c);
     log_prefix \<leftarrow> ReadText vals ''log_prefix'' (m_log_prefix c);
     log_enable \<leftarrow> ReadBoolean vals ''log_enable'' (m_log_enable c);
     rpc_server_port \<leftarrow> ReadInteger vals ''rpcserverport'' 1 65535 (m_rpc_server_port c);
     zookeeper_port \<leftarrow> ReadInteger vals ''zookeeperport'' 1 65535 (m_zookeeper_port c);
     log_max_file_size_mb \<leftarrow> ReadInteger vals ''log_max_file_size'' 1 (INT_MAX div (1024 * 1024))
                                (m_log_max_file_size c div 1024 div 1024);
     cor_stack_size \<leftarrow> ReadInteger vals ''cor_stack_size'' 1 INT_MAX (m_cor_stack_size c);
     cor_pool_size \<leftarrow> ReadInteger vals ''cor_pool_size'' 1 INT_MAX (m_cor_pool_size c);
     msg_req_len \<leftarrow> ReadInteger vals ''msg_req_len'' 1 INT_MAX (m_msg_req_len c);
     max_connect_timeout \<leftarrow> ReadInteger vals ''max_connect_timeout'' 1 INT_MAX (m_max_connect_timeout c);
     iothread_num \<leftarrow> ReadInteger vals ''iothread_num'' 1 INT_MAX (m_iothread_num c);
     timewheel_bucket_num \<leftarrow> ReadInteger vals ''timewheel_bucket_num'' 1 INT_MAX (m_timewheel_bucket_num c);
     timewheel_interval \<leftarrow> ReadInteger vals ''timewheel_inteval'' 1 INT_MAX (m_timewheel_inteval c);
     let sync_key = (if map_find vals ''log_sync_interval'' \<noteq> None then ''log_sync_interval''
                     else ''log_sync_inteval'');
     log_sync_interval \<leftarrow> ReadInteger vals sync_key 1 INT_MAX (m_log_sync_interval c);
     rpc_log_level \<leftarrow> ReadLevel vals ''rpc_log_level'' (m_log_level c);
     app_log_level \<leftarrow> ReadLevel vals ''app_log_level'' (m_app_log_level c);
     Some (c\<lparr>m_rpc_server_ip := rpc_server_ip, m_rpc_server_port := rpc_server_port,
             m_zookeeper_ip := zookeeper_ip, m_zookeeper_port := zookeeper_port,
             m_log_path := log_path, m_log_prefix := log_prefix,
             m_log_max_file_size := log_max_file_size_mb * 1024 * 1024, m_log_enable := log_enable,
             m_log_level := rpc_log_level, m_app_log_level := app_log_level,
             m_log_sync_interval := log_sync_interval, m_cor_stack_size := cor_stack_size,
             m_cor_pool_size := cor_pool_size, m_msg_req_len := msg_req_len,
             m_max_connect_timeout := max_connect_timeout, m_iothread_num := iothread_num,
             m_timewheel_bucket_num := timewheel_bucket_num, m_timewheel_inteval := timewheel_interval\<rparr>)
   }"

definition keep_extra :: "ConfigValues \<Rightarrow> ConfigValues \<Rightarrow> ConfigValues" where
  "keep_extra vals extra =
     fold (\<lambda>item m. if fst item \<in> set KnownKeys then m else map_put (fst item) (snd item) m) vals extra"

definition loadFromFile :: "string option \<Rightarrow> config \<Rightarrow> config \<times> bool" where
  "loadFromFile file c =
     (if m_loaded c then (c, False)
      else case file of
        None \<Rightarrow> (c, False)
      | Some text \<Rightarrow>
          let vals = read_values text in
          (case read_settings vals c of
             None \<Rightarrow> (c, False)
           | Some c \<Rightarrow> (c\<lparr>m_extra_values := keep_extra vals (m_extra_values c), m_loaded := True\<rparr>, True)))"

definition isLoaded :: "config \<Rightarrow> bool" where "isLoaded c = m_loaded c"

definition config_get :: "config \<Rightarrow> string \<Rightarrow> string" where
  "config_get c key =
     (if key = ''rpcserverip'' then m_rpc_server_ip c
      else if key = ''rpcserverport'' then int_str (m_rpc_server_port c)
      else if key = ''zookeeperip'' then m_zookeeper_ip c
      else if key = ''zookeeperport'' then int_str (m_zookeeper_port c)
      else if key = ''log_path'' then m_log_path c
      else if key = ''log_prefix'' then m_log_prefix c
      else if key = ''log_enable'' then (if m_log_enable c then ''true'' else ''false'')
      else if key = ''log_max_file_size'' then int_str (m_log_max_file_size c div 1024 div 1024)
      else if key = ''rpc_log_level'' then LogLevelToString (m_log_level c)
      else if key = ''app_log_level'' then LogLevelToString (m_app_log_level c)
      else if key = ''log_sync_interval'' \<or> key = ''log_sync_inteval'' then int_str (m_log_sync_interval c)
      else if key = ''cor_stack_size'' then int_str (m_cor_stack_size c)
      else if key = ''cor_pool_size'' then int_str (m_cor_pool_size c)
      else if key = ''msg_req_len'' then int_str (m_msg_req_len c)
      else if key = ''max_connect_timeout'' then int_str (m_max_connect_timeout c)
      else if key = ''iothread_num'' then int_str (m_iothread_num c)
      else if key = ''timewheel_bucket_num'' then int_str (m_timewheel_bucket_num c)
      else if key = ''timewheel_inteval'' then int_str (m_timewheel_inteval c)
      else (case map_find (m_extra_values c) key of None \<Rightarrow> [] | Some v \<Rightarrow> v))"

section \<open>Loading is all or nothing, and checked\<close>

definition in_range :: "int \<Rightarrow> int \<Rightarrow> int \<Rightarrow> bool" where
  "in_range lo hi x \<longleftrightarrow> lo \<le> x \<and> x \<le> hi"

text \<open>What the framework may assume of the settings.\<close>

definition config_ok :: "config \<Rightarrow> bool" where
  "config_ok c \<longleftrightarrow>
     m_rpc_server_ip c \<noteq> [] \<and> m_zookeeper_ip c \<noteq> [] \<and> m_log_path c \<noteq> [] \<and> m_log_prefix c \<noteq> []
     \<and> in_range 1 65535 (m_rpc_server_port c) \<and> in_range 1 65535 (m_zookeeper_port c)
     \<and> in_range (1024 * 1024) (2047 * 1024 * 1024) (m_log_max_file_size c)
     \<and> (\<forall>f\<in>{m_log_sync_interval, m_cor_stack_size, m_cor_pool_size, m_msg_req_len,
             m_max_connect_timeout, m_iothread_num, m_timewheel_bucket_num, m_timewheel_inteval}.
          in_range 1 INT_MAX (f c))"

lemma config_ok_default: "config_ok default_config"
  by (simp add: config_ok_def default_config_def in_range_def INT_MAX_def)

lemma ReadInteger_range:
  "ReadInteger vals key lo hi old = Some x \<Longrightarrow> in_range lo hi old \<Longrightarrow> in_range lo hi x"
  by (auto simp: ReadInteger_def in_range_def Let_def split: option.splits prod.splits if_splits)

lemma ReadText_nonempty: "ReadText vals key old = Some x \<Longrightarrow> old \<noteq> [] \<Longrightarrow> x \<noteq> []"
  by (auto simp: ReadText_def split: option.splits if_splits)

lemma read_settings_ok:
  assumes "read_settings vals c = Some c'" "config_ok c"
  shows "config_ok c'"
proof -
  have size: "in_range 1 2047 (m_log_max_file_size c div 1024 div 1024)"
    using assms(2) by (auto simp: config_ok_def in_range_def)
  have scale: "in_range 1 2047 x \<Longrightarrow> in_range 1048576 2146435072 (x * 1024 * 1024)" for x
    by (simp add: in_range_def)
  have max: "INT_MAX div (1024 * 1024) = 2047" by (simp add: INT_MAX_def)
  note old = assms(2) [unfolded config_ok_def, simplified]
  obtain ip zip lp pre en port zport mb ss ps ml mt io bn iv sy l1 l2 where
    t: "ReadText vals ''rpcserverip'' (m_rpc_server_ip c) = Some ip"
      "ReadText vals ''zookeeperip'' (m_zookeeper_ip c) = Some zip"
      "ReadText vals ''log_path'' (m_log_path c) = Some lp"
      "ReadText vals ''log_prefix'' (m_log_prefix c) = Some pre"
    and i: "ReadInteger vals ''rpcserverport'' 1 65535 (m_rpc_server_port c) = Some port"
      "ReadInteger vals ''zookeeperport'' 1 65535 (m_zookeeper_port c) = Some zport"
      "ReadInteger vals ''log_max_file_size'' 1 (INT_MAX div (1024 * 1024))
         (m_log_max_file_size c div 1024 div 1024) = Some mb"
      "ReadInteger vals ''cor_stack_size'' 1 INT_MAX (m_cor_stack_size c) = Some ss"
      "ReadInteger vals ''cor_pool_size'' 1 INT_MAX (m_cor_pool_size c) = Some ps"
      "ReadInteger vals ''msg_req_len'' 1 INT_MAX (m_msg_req_len c) = Some ml"
      "ReadInteger vals ''max_connect_timeout'' 1 INT_MAX (m_max_connect_timeout c) = Some mt"
      "ReadInteger vals ''iothread_num'' 1 INT_MAX (m_iothread_num c) = Some io"
      "ReadInteger vals ''timewheel_bucket_num'' 1 INT_MAX (m_timewheel_bucket_num c) = Some bn"
      "ReadInteger vals ''timewheel_inteval'' 1 INT_MAX (m_timewheel_inteval c) = Some iv"
      "ReadInteger vals (if map_find vals ''log_sync_interval'' \<noteq> None then ''log_sync_interval''
         else ''log_sync_inteval'') 1 INT_MAX (m_log_sync_interval c) = Some sy"
    and c': "c' = c\<lparr>m_rpc_server_ip := ip, m_rpc_server_port := port,
             m_zookeeper_ip := zip, m_zookeeper_port := zport,
             m_log_path := lp, m_log_prefix := pre,
             m_log_max_file_size := mb * 1024 * 1024, m_log_enable := en,
             m_log_level := l1, m_app_log_level := l2,
             m_log_sync_interval := sy, m_cor_stack_size := ss,
             m_cor_pool_size := ps, m_msg_req_len := ml,
             m_max_connect_timeout := mt, m_iothread_num := io,
             m_timewheel_bucket_num := bn, m_timewheel_inteval := iv\<rparr>"
    using assms(1) unfolding read_settings_def Let_def bind_eq_Some_iff by blast
  have "ip \<noteq> []" "zip \<noteq> []" "lp \<noteq> []" "pre \<noteq> []"
    using t [THEN ReadText_nonempty] old by simp_all
  moreover have "in_range 1 65535 port" "in_range 1 65535 zport" "in_range 1 2047 mb"
    "in_range 1 INT_MAX ss" "in_range 1 INT_MAX ps" "in_range 1 INT_MAX ml" "in_range 1 INT_MAX mt"
    "in_range 1 INT_MAX io" "in_range 1 INT_MAX bn" "in_range 1 INT_MAX iv" "in_range 1 INT_MAX sy"
    using i [THEN ReadInteger_range] size old by (simp_all add: max [simplified])
  ultimately show ?thesis using scale [of mb] by (simp add: config_ok_def c')
qed

lemma read_settings_keeps:
  "read_settings vals c = Some c' \<Longrightarrow> m_extra_values c' = m_extra_values c \<and> m_loaded c' = m_loaded c"
  by (auto simp: read_settings_def Let_def bind_eq_Some_iff)

text \<open>The extra values are exactly those under keys the framework does not know.\<close>

lemma keep_extra_find:
  assumes "map_ok vals" "map_ok extra"
  shows "map_ok (keep_extra vals extra)"
    and "map_find (keep_extra vals extra) k =
           (if k \<in> set KnownKeys then map_find extra k
            else case map_find vals k of Some v \<Rightarrow> Some v | None \<Rightarrow> map_find extra k)"
proof -
  let ?f = "\<lambda>item m. if fst item \<in> set KnownKeys then m else map_put (fst item) (snd item) m"
  have "map_ok (fold ?f vals m) \<and> map_find (fold ?f vals m) k =
           (if k \<in> set KnownKeys then map_find m k
            else case map_find vals k of Some v \<Rightarrow> Some v | None \<Rightarrow> map_find m k)"
    if "map_ok m" for m
    using assms(1) that
  proof (induction vals arbitrary: m)
    case (Cons e vals)
    have tail: "map_ok vals" using Cons.prems(1) by (simp add: map_ok_Cons)
    have "map_find vals (fst e) = None"
      using Cons.prems(1) by (auto simp: map_ok_Cons intro!: map_find_ge)
    then show ?case
      using Cons.IH [OF tail, of "?f e m"] Cons.prems(2)
      by (auto simp: map_find_put split: option.splits)
  qed simp
  from this [OF assms(2)]
  show "map_ok (keep_extra vals extra)" "map_find (keep_extra vals extra) k =
           (if k \<in> set KnownKeys then map_find extra k
            else case map_find vals k of Some v \<Rightarrow> Some v | None \<Rightarrow> map_find extra k)"
    by (simp_all add: keep_extra_def)
qed

lemma map_ok_read_values: "map_ok (read_values text)"
proof -
  have "map_ok (fold add_line lines m)" if "map_ok m" for lines m
    using that
    by (induction lines arbitrary: m) (simp_all add: add_line_def Let_def split: option.split)
  then show ?thesis by (simp add: read_values_def)
qed

lemma loadFromFile_cases:
  "loadFromFile file c = (c, False) \<or>
   (\<exists>text c'. file = Some text \<and> \<not> m_loaded c \<and> read_settings (read_values text) c = Some c'
      \<and> loadFromFile file c
          = (c'\<lparr>m_extra_values := keep_extra (read_values text) (m_extra_values c), m_loaded := True\<rparr>, True))"
  using read_settings_keeps
  by (cases "file") (auto simp: loadFromFile_def Let_def split: option.split)

text \<open>Reading back: a setting that was given as a decimal number is what \<open>get\<close> prints.\<close>

lemma ReadInteger_nat_str:
  assumes "map_find vals key = Some (nat_str n)" "lo \<le> int n" "int n \<le> hi" "hi \<le> LLONG_MAX"
  shows "ReadInteger vals key lo hi old = Some (int n)"
proof -
  have c: "c_str (nat_str n) = nat_str n"
    using nat_str_digits [of n] by (auto simp: c_str_def takeWhile_eq_all_conv dest: digit_not_sign)
  have "strtoll (nat_str n) = (int n, length (nat_str n), False)"
    using assms by (intro strtoll_nat_str) simp
  with assms show ?thesis by (simp add: ReadInteger_def c)
qed

section \<open>Properties\<close>

text \<open>
  C36: Loading is all or nothing, and checked. If any line of the file is refused, the configuration
  is exactly what it was; if the load succeeds, every setting is again in the range the framework
  may assume, and the configuration is marked as loaded.
\<close>

theorem config_load_checked:
  assumes "config_ok c" "loadFromFile file_text c = (c', res)"
  shows "config_ok c' \<and> (\<not> res \<longrightarrow> c' = c) \<and> (res \<longrightarrow> isLoaded c')"
  using loadFromFile_cases [of file_text c] assms read_settings_ok [OF _ assms(1)]
  by (auto simp: config_ok_def isLoaded_def)

theorem config_load_checked_witness:
  "config_ok (fst (loadFromFile (Some (''rpcserverport=70000'')) default_config))"
  using config_load_checked [OF config_ok_default, of "Some ''rpcserverport=70000''"]
  by (cases "loadFromFile (Some ''rpcserverport=70000'') default_config") simp

text \<open>
  \<open>get\<close> returns what the file said. After a successful load, a port that the file gives in
  decimal is printed back as it stood there, and a key that the framework does not know has the
  value of the file.
\<close>

theorem config_get_after_load:
  assumes "loadFromFile (Some text) c = (c', True)" "\<not> m_loaded c" "map_ok (m_extra_values c)"
  shows "(map_find (read_values text) ''rpcserverport'' = Some (nat_str n) \<and> 1 \<le> n \<and> n \<le> 65535
            \<longrightarrow> config_get c' ''rpcserverport'' = nat_str n)
    \<and> (key \<notin> set KnownKeys \<and> map_find (read_values text) key = Some v \<longrightarrow> config_get c' key = v)"
proof -
  from loadFromFile_cases [of "Some text" c] assms(1) obtain c1 where
    c1: "read_settings (read_values text) c = Some c1"
    and c': "c' = c1\<lparr>m_extra_values := keep_extra (read_values text) (m_extra_values c), m_loaded := True\<rparr>"
    by auto
  have "ReadInteger (read_values text) ''rpcserverport'' 1 65535 (m_rpc_server_port c) = Some (m_rpc_server_port c1)"
    using c1 by (auto simp: read_settings_def Let_def bind_eq_Some_iff)
  moreover have "ReadInteger (read_values text) ''rpcserverport'' 1 65535 (m_rpc_server_port c) = Some (int n)"
    if "map_find (read_values text) ''rpcserverport'' = Some (nat_str n)" "1 \<le> n" "n \<le> 65535"
    using that by (intro ReadInteger_nat_str) (simp_all add: LLONG_MAX_def)
  ultimately have "m_rpc_server_port c1 = int n"
    if "map_find (read_values text) ''rpcserverport'' = Some (nat_str n)" "1 \<le> n" "n \<le> 65535"
    using that by simp
  then have port: "config_get c' ''rpcserverport'' = nat_str n"
    if "map_find (read_values text) ''rpcserverport'' = Some (nat_str n)" "1 \<le> n" "n \<le> 65535"
    using that by (simp add: config_get_def c' int_str_def)
  have "config_get c' key = v" if "key \<notin> set KnownKeys" "map_find (read_values text) key = Some v"
    using that keep_extra_find(2) [OF map_ok_read_values assms(3), of "text" key]
    by (simp add: config_get_def KnownKeys_def c')
  with port show ?thesis by blast
qed

theorem config_get_after_load_witness:
  "config_get (fst (loadFromFile (Some ''x=1'') default_config)) ''x'' = ''1''"
proof -
  have vals: "read_values ''x=1'' = [(''x'', ''1'')]" by code_simp
  have "read_settings [(''x'', ''1'')] default_config \<noteq> None" by code_simp
  then have "loadFromFile (Some ''x=1'') default_config = (fst (loadFromFile (Some ''x=1'') default_config), True)"
    by (auto simp: loadFromFile_def vals default_config_def split: option.split)
  moreover have "\<not> m_loaded default_config" "map_ok (m_extra_values default_config)"
    by (simp_all add: default_config_def map_ok_def)
  moreover have "''x'' \<notin> set KnownKeys \<and> map_find (read_values ''x=1'') ''x'' = Some ''1''"
    by (simp add: KnownKeys_def vals map_find_def)
  ultimately show ?thesis using config_get_after_load by metis
qed

end
