(* ===== verification/NetAddress.thy ===== *)
theory NetAddress
  imports StdString "HOL-Library.Word"
begin

text \<open>
  \<open>src/net/net_address.{h,cc}\<close>: IPv4 and Unix-domain addresses. \<open>inet_addr\<close> and \<open>inet_ntoa\<close> are
  library functions and therefore arguments; \<open>INADDR_NONE\<close> is \<^term>\<open>None\<close>.
\<close>

type_synonym inet_addr_fun = "string \<Rightarrow> 32 word option"

record ip_address =
  m_ip :: string
  m_port :: "16 word"
  s_addr :: "32 word"

definition split_addr :: "string \<Rightarrow> (string \<times> int) option" where
  "split_addr addr =
     (case find_char (CHR '':'') addr of
        None \<Rightarrow> None
      | Some i \<Rightarrow> Some (take i addr, atoi (substr addr (i + 1) (length addr - i - 1))))"

definition CheckValidIPAddr :: "inet_addr_fun \<Rightarrow> string \<Rightarrow> bool" where
  "CheckValidIPAddr inet_addr addr =
     (case split_addr addr of
        None \<Rightarrow> False
      | Some (ip, port) \<Rightarrow>
          if port < 0 \<or> 65536 < port then False
          else if inet_addr ip = None then False
          else True)"

text \<open>\<open>INADDR_NONE\<close> is all ones.\<close>

definition IPAddress_ip_port :: "inet_addr_fun \<Rightarrow> string \<Rightarrow> 16 word \<Rightarrow> ip_address" where
  "IPAddress_ip_port inet_addr ip port =
     \<lparr>m_ip = ip, m_port = port, s_addr = (case inet_addr ip of None \<Rightarrow> - 1 | Some a \<Rightarrow> a)\<rparr>"

definition IPAddress_sockaddr :: "(32 word \<Rightarrow> string) \<Rightarrow> 32 word \<Rightarrow> 16 word \<Rightarrow> ip_address" where
  "IPAddress_sockaddr inet_ntoa sin_addr sin_port =
     \<lparr>m_ip = inet_ntoa sin_addr, m_port = sin_port, s_addr = sin_addr\<rparr>"

text \<open>Without a colon the constructor leaves the members uninitialised: \<^term>\<open>None\<close>.\<close>

definition IPAddress_string :: "inet_addr_fun \<Rightarrow> string \<Rightarrow> ip_address option" where
  "IPAddress_string inet_addr addr =
     (case split_addr addr of
        None \<Rightarrow> None
      | Some (ip, port) \<Rightarrow> Some (IPAddress_ip_port inet_addr ip (word_of_int port)))"

definition IPAddress_port :: "16 word \<Rightarrow> ip_address" where
  "IPAddress_port port = \<lparr>m_ip = [], m_port = port, s_addr = 0\<rparr>"

definition IPAddress_toString :: "ip_address \<Rightarrow> string" where
  "IPAddress_toString a = m_ip a @ '':'' @ nat_str (unat (m_port a))"

text \<open>\<open>sun_path\<close> has 108 bytes; \<open>strcpy\<close> of a longer path is out of bounds.\<close>

definition UnixDomainAddress :: "string \<Rightarrow> string option" where
  "UnixDomainAddress path = (if 108 \<le> length (c_str path) then None else Some (c_str path))"

text \<open>The same from a \<open>sockaddr_un\<close>, whose path need not be terminated: then the read goes behind it.\<close>

definition UnixDomainAddress_sockaddr :: "bytes \<Rightarrow> string option" where
  "UnixDomainAddress_sockaddr sun_path =
     (if CHR 0x00 \<in> set (take 108 sun_path) then Some (c_str sun_path) else None)"

text \<open>What the server asks of an address, whichever its class.\<close>

datatype net_address = IPv4 ip_address | UnixDomain string

definition AF_UNIX_number :: int where "AF_UNIX_number = 1"
definition AF_INET_number :: int where "AF_INET_number = 2"

definition getFamily :: "net_address \<Rightarrow> int" where
  "getFamily a = (case a of IPv4 _ \<Rightarrow> AF_INET_number | UnixDomain _ \<Rightarrow> AF_UNIX_number)"

definition toString :: "net_address \<Rightarrow> string" where
  "toString a = (case a of IPv4 a \<Rightarrow> IPAddress_toString a | UnixDomain path \<Rightarrow> path)"

text \<open>\<open>sizeof\<close> of the two structures.\<close>

definition getSockLen :: "net_address \<Rightarrow> nat" where
  "getSockLen a = (case a of IPv4 _ \<Rightarrow> 16 | UnixDomain _ \<Rightarrow> 110)"

definition getIP :: "ip_address \<Rightarrow> string" where "getIP a = m_ip a"
definition getPort :: "ip_address \<Rightarrow> int" where "getPort a = uint (m_port a)"

text \<open>A path that was put into a structure of zeros is read back.\<close>

lemma UnixDomainAddress_roundtrip:
  assumes "UnixDomainAddress path = Some p"
  shows "UnixDomainAddress_sockaddr (p @ replicate (108 - length p) (CHR 0x00)) = Some p"
proof -
  have p: "p = c_str path" "length p < 108" using assms by (auto simp: UnixDomainAddress_def split: if_splits)
  have "CHR 0x00 \<notin> set p" using p(1) by (auto simp: c_str_def dest: set_takeWhileD)
  moreover obtain k where "108 - length p = Suc k" using p(2) by (cases "108 - length p") auto
  ultimately show ?thesis
    using p(2) by (simp add: UnixDomainAddress_sockaddr_def c_str_def takeWhile_neq_append)
qed

section \<open>Reading what \<open>toString\<close> wrote\<close>

lemma split_addr_toString:
  assumes "CHR '':'' \<notin> set ip" "n \<le> 65536"
  shows "split_addr (ip @ '':'' @ nat_str n) = Some (ip, int n)"
proof -
  have "strtoll (nat_str n) = (int n, length (nat_str n), False)"
    using assms(2) by (intro strtoll_nat_str) (simp add: LLONG_MAX_def)
  moreover have "signed_take_bit 31 (int n) = int n"
    using assms(2) by (intro signed_take_bit_int_eq_self) simp_all
  ultimately have "atoi (nat_str n) = int n" by (simp add: atoi_def)
  then show ?thesis using assms(1) by (simp add: split_addr_def substr_def)
qed

lemma IPAddress_roundtrip:
  assumes "CHR '':'' \<notin> set ip"
  shows "IPAddress_string inet (IPAddress_toString (IPAddress_ip_port inet ip port))
           = Some (IPAddress_ip_port inet ip port)"
proof -
  have "unat port < 65536" using unsigned_less [of port, where ?'a = nat] by simp
  then show ?thesis
    using split_addr_toString [OF assms, of "unat port"]
    by (simp add: IPAddress_string_def IPAddress_toString_def IPAddress_ip_port_def)
qed

text \<open>The check lets one port through that does not fit: it becomes port 0.\<close>

lemma CheckValid_port:
  assumes "CHR '':'' \<notin> set ip" "inet ip \<noteq> None" "n \<le> 65536"
  shows "CheckValidIPAddr inet (ip @ '':'' @ nat_str n)"
  using assms split_addr_toString [OF assms(1,3)] by (auto simp: CheckValidIPAddr_def)

section \<open>Properties\<close>

text \<open>
  Round trip. For every port, the text of an address whose host has no colon is read back to the
  same host, port and network address, and passes the check if the host does.
\<close>

theorem address_roundtrip:
  assumes "CHR '':'' \<notin> set ip" "inet ip \<noteq> None"
  shows "IPAddress_string inet (IPAddress_toString (IPAddress_ip_port inet ip port))
           = Some (IPAddress_ip_port inet ip port)
    \<and> CheckValidIPAddr inet (IPAddress_toString (IPAddress_ip_port inet ip port))"
proof -
  have "unat port < 65536" using unsigned_less [of port, where ?'a = nat] by simp
  then show ?thesis
    using IPAddress_roundtrip [OF assms(1), of inet port] CheckValid_port [of ip inet "unat port"] assms
    by (simp add: IPAddress_toString_def IPAddress_ip_port_def)
qed

definition loopback_only :: inet_addr_fun where
  "loopback_only ip = (if ip = ''127.0.0.1'' then Some 16777343 else None)"

theorem address_roundtrip_witness:
  "CheckValidIPAddr loopback_only (IPAddress_toString (IPAddress_ip_port loopback_only ''127.0.0.1'' 8080))"
  using address_roundtrip [of "''127.0.0.1''" loopback_only 8080] by (simp add: loopback_only_def)

text \<open>
  Port 65536 passes the check. It does not fit the 16 bits of a port, and the address that is
  built from such a text has port 0.
\<close>

theorem address_check_port_65536:
  assumes "CHR '':'' \<notin> set ip" "inet ip \<noteq> None"
  shows "CheckValidIPAddr inet (ip @ '':65536'')
    \<and> IPAddress_string inet (ip @ '':65536'') = Some (IPAddress_ip_port inet ip 0)"
proof -
  have zero: "(65536 :: 16 word) = 0" by code_simp
  have s: "nat_str 65536 = ''65536''" by (simp add: nat_str.simps digit_char_def) code_simp
  have "CheckValidIPAddr inet (ip @ '':'' @ nat_str 65536)" using CheckValid_port [of ip inet 65536] assms by simp
  moreover have "IPAddress_string inet (ip @ '':'' @ nat_str 65536) = Some (IPAddress_ip_port inet ip 0)"
    using split_addr_toString [OF assms(1), of 65536] by (simp add: IPAddress_string_def zero)
  ultimately show ?thesis by (simp add: s)
qed

theorem address_check_port_65536_witness:
  "CheckValidIPAddr loopback_only (''127.0.0.1'' @ '':65536'')"
  using address_check_port_65536 [of "''127.0.0.1''" loopback_only] by (simp add: loopback_only_def)

end
