(* ===== verification/FdEvent.thy ===== *)
theory FdEvent
  imports Prelude
begin

text \<open>
  \<open>src/net/fd_event.{h,cc}\<close>: what the framework keeps of a descriptor, and the table of all of them.
  Callbacks are numbers and \<^term>\<open>None\<close> the empty \<open>std::function\<close>, whose call throws; coroutines
  and reactors are numbers as well. The operations that call a reactor are in theory
  \<open>Reactor\<close>. The descriptor flags that \<open>fcntl\<close> reads and writes are an argument.
\<close>

section \<open>The code\<close>

unbundle bit_operations_syntax

type_synonym io_event = i32

definition READ :: io_event where "READ = 0x001"
definition WRITE :: io_event where "WRITE = 0x004"
definition ETModel :: io_event where "ETModel = 0x80000000"

record fd_event =
  m_fd :: int
  m_read_callback :: "nat option"
  m_write_callback :: "nat option"
  m_listen_events :: i32
  m_reactor :: "nat option"
  m_coroutine :: "nat option"

definition FdEvent :: "nat option \<Rightarrow> int \<Rightarrow> fd_event" where
  "FdEvent r fd =
     \<lparr>m_fd = fd, m_read_callback = None, m_write_callback = None, m_listen_events = 0,
      m_reactor = r, m_coroutine = None\<rparr>"

text \<open>Which callback runs; \<open>Inl\<close> is the exception of an empty function, \<open>Inr None\<close> the logged error.\<close>

definition handleEvent :: "i32 \<Rightarrow> fd_event \<Rightarrow> unit + nat option" where
  "handleEvent flag e =
     (let call = (\<lambda>cb. case cb of None \<Rightarrow> Inl () | Some f \<Rightarrow> Inr (Some f))
      in if flag = READ then call (m_read_callback e)
         else if flag = WRITE then call (m_write_callback e)
         else Inr None)"

definition setCallBack :: "io_event \<Rightarrow> nat option \<Rightarrow> fd_event \<Rightarrow> fd_event" where
  "setCallBack flag cb e =
     (if flag = READ then e\<lparr>m_read_callback := cb\<rparr>
      else if flag = WRITE then e\<lparr>m_write_callback := cb\<rparr>
      else e)"

definition getCallBack :: "io_event \<Rightarrow> fd_event \<Rightarrow> nat option" where
  "getCallBack flag e =
     (if flag = READ then m_read_callback e
      else if flag = WRITE then m_write_callback e
      else None)"

definition getFd :: "fd_event \<Rightarrow> int" where "getFd e = m_fd e"
definition setFd :: "int \<Rightarrow> fd_event \<Rightarrow> fd_event" where "setFd fd e = e\<lparr>m_fd := fd\<rparr>"
definition getListenEvents :: "fd_event \<Rightarrow> i32" where "getListenEvents e = m_listen_events e"
definition getReactor :: "fd_event \<Rightarrow> nat option" where "getReactor e = m_reactor e"
definition setReactor :: "nat option \<Rightarrow> fd_event \<Rightarrow> fd_event" where "setReactor r e = e\<lparr>m_reactor := r\<rparr>"
definition setCoroutine :: "nat \<Rightarrow> fd_event \<Rightarrow> fd_event" where "setCoroutine c e = e\<lparr>m_coroutine := Some c\<rparr>"
definition clearCoroutine :: "fd_event \<Rightarrow> fd_event" where "clearCoroutine e = e\<lparr>m_coroutine := None\<rparr>"
definition getCoroutine :: "fd_event \<Rightarrow> nat option" where "getCoroutine e = m_coroutine e"

text \<open>\<open>fl fd\<close> are the status flags of the open file behind \<open>fd\<close>; \<open>F_SETFL\<close> writes them.\<close>

definition O_NONBLOCK :: i32 where "O_NONBLOCK = 0x800"

definition setNonBlock :: "fd_event \<Rightarrow> (int \<Rightarrow> i32) \<Rightarrow> int \<Rightarrow> i32" where
  "setNonBlock e fl =
     (if m_fd e = -1 then fl
      else if fl (m_fd e) AND O_NONBLOCK \<noteq> 0 then fl
      else fl(m_fd e := fl (m_fd e) OR O_NONBLOCK))"

definition isNonBlock :: "fd_event \<Rightarrow> (int \<Rightarrow> i32) \<Rightarrow> bool" where
  "isNonBlock e fl \<longleftrightarrow> m_fd e \<noteq> -1 \<and> fl (m_fd e) AND O_NONBLOCK \<noteq> 0"

text \<open>
  The container. \<open>getFdEvent\<close> answers the index into the vector, \<^term>\<open>None\<close> where \<open>m_fds[fd]\<close> leaves
  it. \<open>(int)(fd * 1.5)\<close> truncates, which for the descriptors that reach it (\<open>fd \<ge> m_fds.size()\<close>) is
  the division below.
\<close>

definition FdEventContainer :: "nat \<Rightarrow> fd_event list" where
  "FdEventContainer n = map (\<lambda>i. FdEvent None (int i)) [0..<n]"

definition getFdEvent :: "int \<Rightarrow> fd_event list \<Rightarrow> (fd_event list \<times> nat) option" where
  "getFdEvent fd fds =
     (if fd < int (length fds)
      then (if 0 \<le> fd then Some (fds, nat fd) else None)
      else let n = nat (fd * 3 div 2);
               fds = fds @ map (\<lambda>i. FdEvent None (int i)) [length fds..<n]
           in if nat fd < length fds then Some (fds, nat fd) else None)"

definition GetFdContainer :: "fd_event list option \<Rightarrow> fd_event list" where
  "GetFdContainer g = (case g of None \<Rightarrow> FdEventContainer 1000 | Some fds \<Rightarrow> fds)"

section \<open>Callbacks and flags\<close>

lemma io_event_distinct [simp]: "READ \<noteq> WRITE" "WRITE \<noteq> READ"
  by (simp_all add: READ_def WRITE_def)

lemma getCallBack_setCallBack:
  "flag \<in> {READ, WRITE} \<Longrightarrow>
     getCallBack flag' (setCallBack flag cb e) = (if flag' = flag then cb else getCallBack flag' e)"
  by (auto simp: getCallBack_def setCallBack_def)

lemma handleEvent_getCallBack:
  "flag \<in> {READ, WRITE} \<Longrightarrow> handleEvent flag e = Inr (Some f) \<longleftrightarrow> getCallBack flag e = Some f"
  by (auto simp: handleEvent_def getCallBack_def split: option.split)

lemma or_flag_set: "(a OR b :: i32) AND b = b"
  by (rule bit_eqI) (auto simp: bit_simps)

lemma O_NONBLOCK_neq_0 [simp]: "O_NONBLOCK \<noteq> 0"
  by (simp add: O_NONBLOCK_def)

lemma setNonBlock_isNonBlock: "m_fd e \<noteq> -1 \<Longrightarrow> isNonBlock e (setNonBlock e fl)"
  by (simp add: isNonBlock_def setNonBlock_def or_flag_set)

lemma setNonBlock_keeps:
  "setNonBlock e fl fd AND NOT O_NONBLOCK = fl fd AND NOT O_NONBLOCK"
  by (rule bit_eqI) (auto simp: setNonBlock_def bit_simps)

section \<open>The container\<close>

text \<open>The entry at every index describes the descriptor of that number.\<close>

definition container_ok :: "fd_event list \<Rightarrow> bool" where
  "container_ok fds \<longleftrightarrow> map m_fd fds = map int [0..<length fds]"

lemma m_fd_FdEvent [simp]: "m_fd (FdEvent r fd) = fd"
  by (simp add: FdEvent_def)

lemma container_ok_new [simp]: "container_ok (FdEventContainer n)"
  by (simp add: container_ok_def FdEventContainer_def)

lemma container_ok_extend:
  "container_ok fds \<Longrightarrow> container_ok (fds @ map (\<lambda>i. FdEvent None (int i)) [length fds..<n])"
proof -
  assume ok: "container_ok fds"
  have "[0..<length fds + (n - length fds)] = [0..<length fds] @ [length fds..<length fds + (n - length fds)]"
    by (rule upt_add_eq_append) simp
  moreover have "[length fds..<length fds + (n - length fds)] = [length fds..<n]"
    by (cases "length fds \<le> n") simp_all
  ultimately show ?thesis using ok by (simp add: container_ok_def)
qed

lemma container_ok_nth:
  "container_ok fds \<Longrightarrow> i < length fds \<Longrightarrow> m_fd (fds ! i) = int i"
proof -
  assume "container_ok fds" "i < length fds"
  then have "map m_fd fds ! i = map int [0..<length fds] ! i" by (simp add: container_ok_def)
  then show ?thesis using \<open>i < length fds\<close> by simp
qed

lemma getFdEvent_grows:
  assumes "getFdEvent fd fds = Some (fds', i)"
  shows "i < length fds' \<and> int i = fd \<and> prefix fds fds' \<and> (container_ok fds \<longrightarrow> container_ok fds')"
  using assms container_ok_extend [of fds]
  by (auto simp: getFdEvent_def Let_def split: if_splits)

lemma getFdEvent_returns:
  assumes "2 \<le> length fds" and "0 \<le> fd"
  shows "\<exists>fds'. getFdEvent fd fds = Some (fds', nat fd)"
proof (cases "fd < int (length fds)")
  case True
  then show ?thesis using assms by (simp add: getFdEvent_def)
next
  case False
  with assms have "fd \<ge> 2" by linarith
  then have "nat fd < nat (fd * 3 div 2)" by linarith
  then show ?thesis using False by (auto simp: getFdEvent_def Let_def)
qed

theorem container_lookup:
  assumes "container_ok fds" and "2 \<le> length fds" and "0 \<le> fd"
  shows "\<exists>fds'. getFdEvent fd fds = Some (fds', nat fd) \<and> container_ok fds' \<and> prefix fds fds'
           \<and> nat fd < length fds' \<and> getFd (fds' ! nat fd) = fd"
proof -
  obtain fds' where get: "getFdEvent fd fds = Some (fds', nat fd)"
    using getFdEvent_returns [OF assms(2,3)] by blast
  from getFdEvent_grows [OF get] assms(1,3)
  show ?thesis using get by (auto simp: getFd_def container_ok_nth)
qed

text \<open>A descriptor that failed to open is looked up all the same, outside the vector.\<close>

lemma container_lookup_invalid: "getFdEvent (-1) fds = None"
  by (simp add: getFdEvent_def)

theorem container_lookup_witness:
  "\<exists>fds'. getFdEvent 5 (FdEventContainer 4) = Some (fds', 5) \<and> container_ok fds' \<and> getFd (fds' ! 5) = 5"
proof -
  have "2 \<le> length (FdEventContainer 4)" by (simp add: FdEventContainer_def)
  from container_lookup [OF container_ok_new this, of 5] show ?thesis by auto
qed

end
