(* ===== verification/Reactor.thy ===== *)
theory Reactor
  imports FdEvent StdMap
begin

text \<open>
  \<open>src/net/reactor.{h,cc}\<close> without its loop (theory \<open>ReactorLoop\<close>), and the operations of
  \<open>src/net/fd_event.cc\<close> that call it. An \<open>epoll_event\<close> is its mask and its 64 bits of data; an
  \<open>FdEvent*\<close> is such a 64-bit address. The descriptors' entries in the kernel's interest list are
  part of the reactor, since only this reactor's \<open>epoll_ctl\<close> changes them; which descriptors are open
  is a state of its own, because every component opens and closes some. The thread that makes a call is
  an argument as well.
\<close>

section \<open>The code\<close>

type_synonym fd_ptr = "64 word"

record epoll_event =
  ev_events :: i32
  ev_data :: "64 word"

text \<open>The union read as a descriptor: its low half.\<close>

definition data_fd :: "64 word \<Rightarrow> int" where
  "data_fd d = sint (ucast d :: i32)"

definition fd_data :: "int \<Rightarrow> 64 word" where
  "fd_data fd = ucast (word_of_int fd :: i32)"

text \<open>What a task does when it is called; the empty \<open>std::function\<close> is \<^term>\<open>None\<close>.\<close>

datatype effect = Call nat | Resume nat

type_synonym task = "effect option"

datatype reactor_type = MainReactor | SubReactor

record reactor =
  m_wake_fd :: int
  m_timer_fd :: int
  m_stop_flag :: bool
  m_is_looping :: bool
  m_tid :: int
  m_fds :: "int list"
  m_pending_add_fds :: "(int, epoll_event) std_map"
  m_pending_del_fds :: "int list"
  m_pending_tasks :: "task list"
  m_timer :: "fd_ptr option"
  m_reactor_type :: reactor_type
  interest :: "int \<Rightarrow> epoll_event option"
  wake_count :: nat

subsection \<open>The kernel's side\<close>

datatype epoll_op = EPOLL_CTL_ADD | EPOLL_CTL_MOD | EPOLL_CTL_DEL

definition epoll_ctl ::
  "(int \<Rightarrow> bool) \<Rightarrow> epoll_op \<Rightarrow> int \<Rightarrow> epoll_event \<Rightarrow> (int \<Rightarrow> epoll_event option)
     \<Rightarrow> (int \<Rightarrow> epoll_event option) option" where
  "epoll_ctl fd_open op fd ev ints =
     (if \<not> fd_open fd then None
      else case op of
        EPOLL_CTL_ADD \<Rightarrow> if ints fd = None then Some (ints(fd := Some ev)) else None
      | EPOLL_CTL_MOD \<Rightarrow> if ints fd = None then None else Some (ints(fd := Some ev))
      | EPOLL_CTL_DEL \<Rightarrow> if ints fd = None then None else Some (ints(fd := None)))"

text \<open>Closing the last descriptor of a file takes it off the list.\<close>

definition fd_closed :: "int \<Rightarrow> reactor \<Rightarrow> reactor" where
  "fd_closed fd r = r\<lparr>interest := (interest r)(fd := None)\<rparr>"

subsection \<open>Construction\<close>

definition addWakeupFd :: "(int \<Rightarrow> bool) \<Rightarrow> reactor \<Rightarrow> reactor" where
  "addWakeupFd fd_open r =
     (let ev = \<lparr>ev_events = READ, ev_data = fd_data (m_wake_fd r)\<rparr>;
          r = (case epoll_ctl fd_open EPOLL_CTL_ADD (m_wake_fd r) ev (interest r) of
                 None \<Rightarrow> r
               | Some ints \<Rightarrow> r\<lparr>interest := ints\<rparr>)
      in r\<lparr>m_fds := m_fds r @ [m_wake_fd r]\<rparr>)"

text \<open>
  \<open>t_reactor\<close> is the thread's reactor, \<open>epfd\<close> and \<open>wake\<close> what the two system calls answer;
  \<^term>\<open>None\<close> is \<open>abort\<close>.
\<close>

definition Reactor ::
  "(int \<Rightarrow> bool) \<Rightarrow> 'r option \<Rightarrow> int \<Rightarrow> int \<Rightarrow> int \<Rightarrow> reactor option" where
  "Reactor fd_open t_reactor tid epfd wake =
     (if t_reactor \<noteq> None \<or> epfd \<le> 0 \<or> wake \<le> 0 then None
      else Some (addWakeupFd fd_open
        \<lparr>m_wake_fd = wake, m_timer_fd = -1, m_stop_flag = False, m_is_looping = False, m_tid = tid,
         m_fds = [], m_pending_add_fds = [], m_pending_del_fds = [], m_pending_tasks = [],
         m_timer = None, m_reactor_type = SubReactor, interest = Map.empty, wake_count = 0\<rparr>))"

subsection \<open>Events\<close>

definition isLoopThread :: "int \<Rightarrow> reactor \<Rightarrow> bool" where
  "isLoopThread caller r \<longleftrightarrow> m_tid r = caller"

definition wakeup :: "reactor \<Rightarrow> reactor" where
  "wakeup r = (if \<not> m_is_looping r then r else r\<lparr>wake_count := wake_count r + 1\<rparr>)"

definition addEventInLoopThread ::
  "(int \<Rightarrow> bool) \<Rightarrow> int \<Rightarrow> epoll_event \<Rightarrow> reactor \<Rightarrow> reactor" where
  "addEventInLoopThread fd_open fd event r =
     (let is_add = fd \<notin> set (m_fds r);
          op = (if is_add then EPOLL_CTL_ADD else EPOLL_CTL_MOD)
      in case epoll_ctl fd_open op fd event (interest r) of
           None \<Rightarrow> r
         | Some ints \<Rightarrow>
             let r = r\<lparr>interest := ints\<rparr>
             in if is_add then r\<lparr>m_fds := m_fds r @ [fd]\<rparr> else r)"

definition delEventInLoopThread :: "(int \<Rightarrow> bool) \<Rightarrow> int \<Rightarrow> reactor \<Rightarrow> reactor" where
  "delEventInLoopThread fd_open fd r =
     (if fd \<notin> set (m_fds r) then r
      else let r = (case epoll_ctl fd_open EPOLL_CTL_DEL fd \<lparr>ev_events = 0, ev_data = 0\<rparr> (interest r) of
                      None \<Rightarrow> r
                    | Some ints \<Rightarrow> r\<lparr>interest := ints\<rparr>)
           in r\<lparr>m_fds := remove1 fd (m_fds r)\<rparr>)"

definition addEvent ::
  "(int \<Rightarrow> bool) \<Rightarrow> int \<Rightarrow> int \<Rightarrow> epoll_event \<Rightarrow> bool \<Rightarrow> reactor \<Rightarrow> reactor" where
  "addEvent fd_open caller fd event is_wakeup r =
     (if fd = -1 then r
      else if isLoopThread caller r then addEventInLoopThread fd_open fd event r
      else let r = r\<lparr>m_pending_add_fds := fst (map_emplace fd event (m_pending_add_fds r))\<rparr>
           in if is_wakeup then wakeup r else r)"

definition delEvent :: "(int \<Rightarrow> bool) \<Rightarrow> int \<Rightarrow> int \<Rightarrow> bool \<Rightarrow> reactor \<Rightarrow> reactor" where
  "delEvent fd_open caller fd is_wakeup r =
     (if fd = -1 then r
      else if isLoopThread caller r then delEventInLoopThread fd_open fd r
      else let r = r\<lparr>m_pending_del_fds := m_pending_del_fds r @ [fd]\<rparr>
           in if is_wakeup then wakeup r else r)"

subsection \<open>Tasks and control\<close>

definition addTask :: "task \<Rightarrow> bool \<Rightarrow> reactor \<Rightarrow> reactor" where
  "addTask t is_wakeup r =
     (let r = r\<lparr>m_pending_tasks := m_pending_tasks r @ [t]\<rparr>
      in if is_wakeup then wakeup r else r)"

definition addTasks :: "task list \<Rightarrow> bool \<Rightarrow> reactor \<Rightarrow> reactor" where
  "addTasks ts is_wakeup r =
     (if ts = [] then r
      else let r = r\<lparr>m_pending_tasks := m_pending_tasks r @ ts\<rparr>
           in if is_wakeup then wakeup r else r)"

definition addCoroutine :: "nat \<Rightarrow> bool \<Rightarrow> reactor \<Rightarrow> reactor" where
  "addCoroutine cor is_wakeup r = addTask (Some (Resume cor)) is_wakeup r"

definition stop :: "reactor \<Rightarrow> reactor" where
  "stop r = (if \<not> m_stop_flag r \<and> m_is_looping r then wakeup (r\<lparr>m_stop_flag := True\<rparr>) else r)"

definition getTid :: "reactor \<Rightarrow> int" where "getTid r = m_tid r"

definition setReactorType :: "reactor_type \<Rightarrow> reactor \<Rightarrow> reactor" where
  "setReactorType t r = r\<lparr>m_reactor_type := t\<rparr>"

subsection \<open>The queue of coroutines that io threads share\<close>

definition queue_push :: "fd_ptr \<Rightarrow> fd_ptr list \<Rightarrow> fd_ptr list" where
  "queue_push p q = q @ [p]"

fun queue_pop :: "fd_ptr list \<Rightarrow> fd_ptr option \<times> fd_ptr list" where
  "queue_pop [] = (None, [])"
| "queue_pop (p # q) = (Some p, q)"

subsection \<open>A descriptor's event and its reactor\<close>

text \<open>
  The reactors by number, the \<open>FdEvent\<close> objects by address, the reactor of each thread, and the
  descriptors that are open. \<open>ran\<close> is no state of the code: it records what the reactors called.
  \<open>GetReactor\<close> makes one for a thread that has none; \<open>boot\<close> is what the system calls of that
  construction answer.
\<close>

record net =
  reactors :: "nat \<Rightarrow> reactor"
  fd_events :: "fd_ptr \<Rightarrow> fd_event option"
  m_task :: "fd_ptr list"
  t_reactor_ptr :: "int \<Rightarrow> nat option"
  next_reactor :: nat
  opened :: "int \<Rightarrow> bool"
  ran :: "effect list"

record kernel =
  boot_epfd :: int
  boot_wake :: int

definition GetReactor :: "kernel \<Rightarrow> int \<Rightarrow> net \<Rightarrow> (nat \<times> net) option" where
  "GetReactor k caller w =
     (case t_reactor_ptr w caller of
        Some r \<Rightarrow> Some (r, w)
      | None \<Rightarrow> do {
          r \<leftarrow> Reactor (opened w) (t_reactor_ptr w caller) caller (boot_epfd k) (boot_wake k);
          let n = next_reactor w;
          Some (n, w\<lparr>reactors := (reactors w)(n := r),
                      t_reactor_ptr := (t_reactor_ptr w)(caller \<mapsto> n), next_reactor := n + 1\<rparr>) })"

definition on_reactor :: "nat \<Rightarrow> (reactor \<Rightarrow> reactor) \<Rightarrow> net \<Rightarrow> net" where
  "on_reactor i f w = w\<lparr>reactors := (reactors w)(i := f (reactors w i))\<rparr>"

definition put_event :: "fd_ptr \<Rightarrow> fd_event \<Rightarrow> net \<Rightarrow> net" where
  "put_event p e w = w\<lparr>fd_events := (fd_events w)(p \<mapsto> e)\<rparr>"

text \<open>\<open>close\<close>: the descriptor leaves every interest list, but not the lists that the reactors keep themselves.\<close>

definition close_fd :: "int \<Rightarrow> net \<Rightarrow> net" where
  "close_fd fd w = w\<lparr>opened := (opened w)(fd := False), reactors := (\<lambda>n. fd_closed fd (reactors w n))\<rparr>"

text \<open>The first lines of \<open>updateToReactor\<close> and \<open>unregisterFromReactor\<close>: the event's reactor.\<close>

definition own_reactor :: "kernel \<Rightarrow> int \<Rightarrow> fd_ptr \<Rightarrow> net \<Rightarrow> (nat \<times> fd_event \<times> net) option" where
  "own_reactor k caller p w = do {
     e \<leftarrow> fd_events w p;
     case FdEvent.m_reactor e of
       Some r \<Rightarrow> Some (r, e, w)
     | None \<Rightarrow> do {
         (r, w) \<leftarrow> GetReactor k caller w;
         let e = e\<lparr>FdEvent.m_reactor := Some r\<rparr>;
         Some (r, e, put_event p e w) } }"

definition updateToReactor :: "kernel \<Rightarrow> int \<Rightarrow> fd_ptr \<Rightarrow> net \<Rightarrow> net option" where
  "updateToReactor k caller p w = do {
     (r, e, w) \<leftarrow> own_reactor k caller p w;
     Some (on_reactor r (addEvent (opened w) caller (m_fd e)
             \<lparr>ev_events = m_listen_events e, ev_data = p\<rparr> True) w) }"

definition unregisterFromReactor :: "kernel \<Rightarrow> int \<Rightarrow> fd_ptr \<Rightarrow> net \<Rightarrow> net option" where
  "unregisterFromReactor k caller p w = do {
     (r, e, w) \<leftarrow> own_reactor k caller p w;
     let w = on_reactor r (delEvent (opened w) caller (m_fd e) True) w;
     Some (put_event p (e\<lparr>m_listen_events := 0, m_read_callback := None, m_write_callback := None\<rparr>) w) }"

definition addListenEvents :: "kernel \<Rightarrow> int \<Rightarrow> io_event \<Rightarrow> fd_ptr \<Rightarrow> net \<Rightarrow> net option" where
  "addListenEvents k caller event p w = do {
     e \<leftarrow> fd_events w p;
     if m_listen_events e AND event \<noteq> 0 then Some w
     else updateToReactor k caller p (put_event p (e\<lparr>m_listen_events := m_listen_events e OR event\<rparr>) w) }"

definition delListenEvents :: "kernel \<Rightarrow> int \<Rightarrow> io_event \<Rightarrow> fd_ptr \<Rightarrow> net \<Rightarrow> net option" where
  "delListenEvents k caller event p w = do {
     e \<leftarrow> fd_events w p;
     if m_listen_events e AND event \<noteq> 0
     then updateToReactor k caller p (put_event p (e\<lparr>m_listen_events := m_listen_events e AND NOT event\<rparr>) w)
     else Some w }"

text \<open>
  \<open>Timer::Timer(reactor)\<close> and \<open>Reactor::getTimer\<close>. \<open>tfd\<close> is the answer of \<open>timerfd_create\<close>,
  \<open>onTimer\<close> the number of the timer's callback, \<open>p\<close> the address of the new object.
\<close>

definition new_Timer :: "kernel \<Rightarrow> int \<Rightarrow> int \<Rightarrow> nat \<Rightarrow> fd_ptr \<Rightarrow> nat \<Rightarrow> net \<Rightarrow> net option" where
  "new_Timer k caller tfd onTimer p r w =
     addListenEvents k caller READ p
       (put_event p ((FdEvent (Some r) (-1))\<lparr>m_fd := tfd, m_read_callback := Some onTimer\<rparr>) w)"

definition getTimer :: "kernel \<Rightarrow> int \<Rightarrow> int \<Rightarrow> nat \<Rightarrow> fd_ptr \<Rightarrow> nat \<Rightarrow> net \<Rightarrow> (fd_ptr \<times> net) option" where
  "getTimer k caller tfd onTimer p r w =
     (case m_timer (reactors w r) of
        Some t \<Rightarrow> Some (t, w)
      | None \<Rightarrow> do {
          w \<leftarrow> new_Timer k caller tfd onTimer p r w;
          Some (p, on_reactor r (\<lambda>r. r\<lparr>m_timer := Some p, m_timer_fd := tfd\<rparr>) w) })"

section \<open>The list of descriptors\<close>

text \<open>
  \<open>m_fds\<close> repeats, without duplicates, the kernel's interest list, on which only open descriptors
  are.
\<close>

definition reactor_ok :: "(int \<Rightarrow> bool) \<Rightarrow> reactor \<Rightarrow> bool" where
  "reactor_ok fd_open r \<longleftrightarrow>
     distinct (m_fds r) \<and> set (m_fds r) = dom (interest r) \<and> (\<forall>fd\<in>dom (interest r). fd_open fd)
     \<and> map_ok (m_pending_add_fds r)"

lemma reactor_ok_addLoop:
  "reactor_ok fd_open r \<Longrightarrow> reactor_ok fd_open (addEventInLoopThread fd_open fd ev r)"
  by (auto simp: reactor_ok_def addEventInLoopThread_def epoll_ctl_def Let_def)

lemma reactor_ok_delLoop:
  "reactor_ok fd_open r \<Longrightarrow> reactor_ok fd_open (delEventInLoopThread fd_open fd r)"
  by (auto simp: reactor_ok_def delEventInLoopThread_def epoll_ctl_def Let_def)

lemma reactor_ok_wakeup [simp]: "reactor_ok fd_open (wakeup r) = reactor_ok fd_open r"
  by (simp add: reactor_ok_def wakeup_def)

lemma reactor_ok_addEvent:
  "reactor_ok fd_open r \<Longrightarrow> reactor_ok fd_open (addEvent fd_open caller fd ev is_wakeup r)"
  by (auto simp: addEvent_def Let_def reactor_ok_addLoop) (auto simp: reactor_ok_def)

lemma reactor_ok_delEvent:
  "reactor_ok fd_open r \<Longrightarrow> reactor_ok fd_open (delEvent fd_open caller fd is_wakeup r)"
  by (auto simp: delEvent_def Let_def reactor_ok_delLoop) (auto simp: reactor_ok_def)

lemma reactor_ok_task [simp]:
  "reactor_ok fd_open (addTask t b r) = reactor_ok fd_open r"
  "reactor_ok fd_open (addTasks ts b r) = reactor_ok fd_open r"
  "reactor_ok fd_open (addCoroutine c b r) = reactor_ok fd_open r"
  "reactor_ok fd_open (stop r) = reactor_ok fd_open r"
  "reactor_ok fd_open (setReactorType ty r) = reactor_ok fd_open r"
  by (simp_all add: addTask_def addTasks_def addCoroutine_def stop_def setReactorType_def Let_def
      reactor_ok_def wakeup_def)

lemma reactor_ok_new:
  "Reactor fd_open t tid epfd wake = Some r \<Longrightarrow> fd_open wake \<Longrightarrow> reactor_ok fd_open r"
  by (auto simp: Reactor_def addWakeupFd_def reactor_ok_def epoll_ctl_def Let_def split: if_splits)

lemma interest_addLoop:
  "reactor_ok fd_open r \<Longrightarrow> fd_open fd \<Longrightarrow>
     interest (addEventInLoopThread fd_open fd ev r) = (interest r)(fd \<mapsto> ev)"
  by (auto simp: addEventInLoopThread_def epoll_ctl_def reactor_ok_def Let_def split: option.split)

lemma interest_delLoop:
  "reactor_ok fd_open r \<Longrightarrow>
     interest (delEventInLoopThread fd_open fd r) = (interest r)(fd := None)"
  by (rule ext) (auto simp: delEventInLoopThread_def epoll_ctl_def reactor_ok_def Let_def domIff)

text \<open>A descriptor closed behind the reactor's back cannot be registered again when its number is reused.\<close>

lemma stale_fd_not_registered:
  "reactor_ok fd_open r \<Longrightarrow> fd \<in> set (m_fds r) \<Longrightarrow>
     addEventInLoopThread fd_open' fd ev (fd_closed fd r) = fd_closed fd r"
  by (auto simp: addEventInLoopThread_def fd_closed_def epoll_ctl_def Let_def)

section \<open>The mask of a descriptor\<close>

text \<open>
  What a reactor's own thread keeps of the event at \<open>p\<close>: the kernel waits for exactly the mask the
  event remembers, and hands back the address of the event.
\<close>

definition registered :: "int \<Rightarrow> fd_ptr \<Rightarrow> nat \<Rightarrow> net \<Rightarrow> bool" where
  "registered caller p r w \<longleftrightarrow>
     reactor_ok (opened w) (reactors w r) \<and> m_tid (reactors w r) = caller
     \<and> (case fd_events w p of
          None \<Rightarrow> False
        | Some e \<Rightarrow> FdEvent.m_reactor e = Some r \<and> m_fd e \<noteq> -1 \<and> opened w (m_fd e)
            \<and> (case interest (reactors w r) (m_fd e) of
                 None \<Rightarrow> m_listen_events e = 0
               | Some ev \<Rightarrow> ev = \<lparr>ev_events = m_listen_events e, ev_data = p\<rparr>))"

lemmas net_defs = own_reactor_def updateToReactor_def on_reactor_def put_event_def


lemma m_tid_addEvent [simp]: "m_tid (addEvent fd_open caller fd ev b r) = m_tid r"
  by (auto simp: addEvent_def addEventInLoopThread_def wakeup_def Let_def split: option.split)

lemma m_tid_delEvent [simp]: "m_tid (delEvent fd_open caller fd b r) = m_tid r"
  by (auto simp: delEvent_def delEventInLoopThread_def wakeup_def Let_def split: option.split)

lemma update_registered:
  assumes reg: "registered caller p r w" and e: "fd_events w p = Some e"
    and w': "w' = put_event p (e\<lparr>m_listen_events := msk\<rparr>) w"
  shows "\<exists>w''. updateToReactor k caller p w' = Some w'' \<and> registered caller p r w''
           \<and> fd_events w'' p = Some (e\<lparr>m_listen_events := msk\<rparr>)"
proof -
  from reg e have *: "reactor_ok (opened w) (reactors w r)" "m_tid (reactors w r) = caller"
    "FdEvent.m_reactor e = Some r" "m_fd e \<noteq> -1" "opened w (m_fd e)"
    by (simp_all add: registered_def)
  from * have "interest (addEvent (opened w) caller (m_fd e) ev True (reactors w r)) (m_fd e) = Some ev"
    for ev by (simp add: addEvent_def isLoopThread_def interest_addLoop)
  with * show ?thesis
    by (simp add: w' net_defs registered_def reactor_ok_addEvent)
qed

lemma addListenEvents_registered:
  assumes reg: "registered caller p r w" and e: "fd_events w p = Some e"
  shows "\<exists>w'. addListenEvents k caller event p w = Some w' \<and> registered caller p r w'
           \<and> map_option getListenEvents (fd_events w' p)
             = Some (if m_listen_events e AND event \<noteq> 0 then m_listen_events e else m_listen_events e OR event)"
proof (cases "m_listen_events e AND event = 0")
  case True
  from update_registered [OF reg e refl, where msk = "m_listen_events e OR event" and k = k] True e show ?thesis
    by (auto simp: addListenEvents_def getListenEvents_def)
next
  case False
  then show ?thesis using reg e by (simp add: addListenEvents_def getListenEvents_def)
qed

lemma and_not_disjoint: "(a :: i32) AND b = 0 \<Longrightarrow> a AND NOT b = a"
  by (rule bit_eqI) (auto simp: bit_eq_iff bit_simps)

lemma delListenEvents_registered:
  assumes reg: "registered caller p r w" and e: "fd_events w p = Some e"
  shows "\<exists>w'. delListenEvents k caller event p w = Some w' \<and> registered caller p r w'
           \<and> map_option getListenEvents (fd_events w' p) = Some (m_listen_events e AND NOT event)"
proof (cases "m_listen_events e AND event = 0")
  case True
  then show ?thesis using reg e by (simp add: delListenEvents_def getListenEvents_def and_not_disjoint)
next
  case False
  from update_registered [OF reg e refl, where msk = "m_listen_events e AND NOT event" and k = k] False e show ?thesis
    by (auto simp: delListenEvents_def getListenEvents_def)
qed

lemma unregisterFromReactor_registered:
  assumes reg: "registered caller p r w" and e: "fd_events w p = Some e"
  shows "\<exists>w'. unregisterFromReactor k caller p w = Some w' \<and> registered caller p r w'
           \<and> m_fd e \<notin> set (m_fds (reactors w' r))"
proof -
  from reg e have *: "reactor_ok (opened w) (reactors w r)" "m_tid (reactors w r) = caller"
    "FdEvent.m_reactor e = Some r" "m_fd e \<noteq> -1" "opened w (m_fd e)"
    by (simp_all add: registered_def)
  from * have int: "interest (delEvent (opened w) caller (m_fd e) True (reactors w r)) (m_fd e) = None"
    by (simp add: delEvent_def isLoopThread_def interest_delLoop)
  have ok: "reactor_ok (opened w) (delEvent (opened w) caller (m_fd e) True (reactors w r))"
    using * by (simp add: reactor_ok_delEvent)
  with int have "m_fd e \<notin> set (m_fds (delEvent (opened w) caller (m_fd e) True (reactors w r)))"
    by (auto simp: reactor_ok_def domIff)
  with * e int ok show ?thesis
    by (simp add: unregisterFromReactor_def net_defs registered_def)
qed

text \<open>
  A call from another thread files the mask under the descriptor and keeps the first of two: the
  second one never reaches the kernel.
\<close>

lemma cross_thread_mask_lost:
  assumes "fd \<noteq> -1" and "m_tid r \<noteq> caller" and "map_ok (m_pending_add_fds r)"
    and "map_find (m_pending_add_fds r) fd = None"
  shows "map_find (m_pending_add_fds (addEvent fo caller fd ev2 b (addEvent fo caller fd ev1 b r))) fd
           = Some ev1"
  using assms by (simp add: addEvent_def isLoopThread_def wakeup_def map_emplace_def map_find_put Let_def)

end
