(* ===== verification/ReactorLoop.thy ===== *)
theory ReactorLoop
  imports Reactor
begin

text \<open>
  \<open>Reactor::loop\<close> of \<open>src/net/reactor.cc\<close>. What a task or a resumed coroutine does is the parameter
  \<open>act\<close>: any change of the reactors, the events, the queue, or a crash (\<^term>\<open>None\<close>); each call is
  recorded before it is made. The answers of \<open>epoll_wait\<close> are a list, one for each pass, and the end
  of the list is a thread blocked in \<open>epoll_wait\<close>. The queue loop, which may never end when a
  coroutine keeps the queue full, is a partial function.
\<close>

section \<open>The code\<close>

definition perform :: "(effect \<Rightarrow> net \<Rightarrow> net option) \<Rightarrow> effect \<Rightarrow> net \<Rightarrow> net option" where
  "perform act f w = act f (w\<lparr>ran := ran w @ [f]\<rparr>)"

definition resume_cor :: "(effect \<Rightarrow> net \<Rightarrow> net option) \<Rightarrow> nat option \<Rightarrow> net \<Rightarrow> net option" where
  "resume_cor act c w = (case c of None \<Rightarrow> Some w | Some c \<Rightarrow> perform act (Resume c) w)"

partial_function (option) drain_queue ::
  "(effect \<Rightarrow> net \<Rightarrow> net option) \<Rightarrow> nat \<Rightarrow> net \<Rightarrow> net option" where
  [code]: "drain_queue act this w =
     (case queue_pop (m_task w) of
        (None, _) \<Rightarrow> Some w
      | (Some p, q) \<Rightarrow>
          Option.bind (fd_events w p) (\<lambda>e.
          Option.bind (resume_cor act (getCoroutine e)
             (put_event p (setReactor (Some this) e) (w\<lparr>m_task := q\<rparr>))) (\<lambda>w.
          drain_queue act this w)))"

fun call_tasks :: "(effect \<Rightarrow> net \<Rightarrow> net option) \<Rightarrow> task list \<Rightarrow> net \<Rightarrow> net option" where
  "call_tasks act [] w = Some w"
| "call_tasks act (None # ts) w = call_tasks act ts w"
| "call_tasks act (Some t # ts) w = do { w \<leftarrow> perform act t w; call_tasks act ts w }"

definition run_tasks :: "(effect \<Rightarrow> net \<Rightarrow> net option) \<Rightarrow> nat \<Rightarrow> net \<Rightarrow> net option" where
  "run_tasks act this w =
     (let tmp_tasks = m_pending_tasks (reactors w this)
      in call_tasks act tmp_tasks (on_reactor this (\<lambda>r. r\<lparr>m_pending_tasks := []\<rparr>) w))"

definition push_tasks :: "fd_event \<Rightarrow> i32 \<Rightarrow> reactor \<Rightarrow> reactor" where
  "push_tasks e evs r =
     (let r = (if evs AND READ \<noteq> 0
               then r\<lparr>m_pending_tasks := m_pending_tasks r @ [map_option Call (getCallBack READ e)]\<rparr> else r)
      in if evs AND WRITE \<noteq> 0
         then r\<lparr>m_pending_tasks := m_pending_tasks r @ [map_option Call (getCallBack WRITE e)]\<rparr> else r)"

text \<open>
  One event of \<open>re_events\<close>, with \<open>first_coroutine\<close>. The wake-up descriptor is read until it is
  empty. A null timer callback, or an event that points to no object, is \<^term>\<open>None\<close>.
\<close>

definition handle_event ::
  "(effect \<Rightarrow> net \<Rightarrow> net option) \<Rightarrow> nat \<Rightarrow> epoll_event \<Rightarrow> nat option \<times> net \<Rightarrow> (nat option \<times> net) option" where
  "handle_event act this one_event s =
     (let (first_coroutine, w) = s; r = reactors w this; evs = ev_events one_event
      in if data_fd (ev_data one_event) = m_wake_fd r \<and> evs AND READ \<noteq> 0
         then Some (first_coroutine, on_reactor this (\<lambda>r. r\<lparr>wake_count := 0\<rparr>) w)
         else if ev_data one_event = 0 then Some (first_coroutine, w)
         else do {
           let p = ev_data one_event;
           e \<leftarrow> fd_events w p;
           let fd = getFd e;
           if evs AND READ = 0 \<and> evs AND WRITE = 0
           then Some (first_coroutine, on_reactor this (delEventInLoopThread (opened w) fd) w)
           else (case getCoroutine e of
             Some c \<Rightarrow>
               if first_coroutine = None then Some (Some c, w)
               else if m_reactor_type r = SubReactor
               then let w = on_reactor this (delEventInLoopThread (opened w) fd) w;
                        w = put_event p (setReactor None e) w
                    in Some (first_coroutine, w\<lparr>m_task := queue_push p (m_task w)\<rparr>)
               else do { w \<leftarrow> perform act (Resume c) w; Some (None, w) }
           | None \<Rightarrow>
               if fd = m_timer_fd r
               then do { f \<leftarrow> getCallBack READ e; w \<leftarrow> perform act (Call f) w; Some (first_coroutine, w) }
               else Some (first_coroutine, on_reactor this (push_tasks e evs) w)) })"

fun handle_events ::
  "(effect \<Rightarrow> net \<Rightarrow> net option) \<Rightarrow> nat \<Rightarrow> epoll_event list \<Rightarrow> nat option \<times> net \<Rightarrow> (nat option \<times> net) option" where
  "handle_events act this [] s = Some s"
| "handle_events act this (ev # evs) s = do { s \<leftarrow> handle_event act this ev s; handle_events act this evs s }"

definition apply_pending :: "(int \<Rightarrow> bool) \<Rightarrow> reactor \<Rightarrow> reactor" where
  "apply_pending fd_open r =
     (let tmp_add = m_pending_add_fds r; tmp_del = m_pending_del_fds r;
          r = r\<lparr>m_pending_add_fds := [], m_pending_del_fds := []\<rparr>;
          r = fold (\<lambda>(fd, ev). addEventInLoopThread fd_open fd ev) tmp_add r
      in fold (delEventInLoopThread fd_open) tmp_del r)"

datatype wait_result = WaitFailed | Ready "epoll_event list"

text \<open>A pass up to \<open>epoll_wait\<close>, and the rest of it.\<close>

definition before_wait ::
  "(effect \<Rightarrow> net \<Rightarrow> net option) \<Rightarrow> nat \<Rightarrow> nat option \<Rightarrow> net \<Rightarrow> net option" where
  "before_wait act this first_coroutine w = do {
     w \<leftarrow> resume_cor act first_coroutine w;
     w \<leftarrow> (if m_reactor_type (reactors w this) \<noteq> MainReactor then drain_queue act this w else Some w);
     run_tasks act this w }"

definition after_wait ::
  "(effect \<Rightarrow> net \<Rightarrow> net option) \<Rightarrow> nat \<Rightarrow> wait_result \<Rightarrow> net \<Rightarrow> (nat option \<times> net) option" where
  "after_wait act this rt w =
     (case rt of
        WaitFailed \<Rightarrow> Some (None, w)
      | Ready evs \<Rightarrow> do {
          (first_coroutine, w) \<leftarrow> handle_events act this evs (None, w);
          Some (first_coroutine, on_reactor this (apply_pending (opened w)) w) })"

fun loop_from ::
  "(effect \<Rightarrow> net \<Rightarrow> net option) \<Rightarrow> nat \<Rightarrow> wait_result list \<Rightarrow> nat option \<Rightarrow> net \<Rightarrow> net option" where
  "loop_from act this [] first_coroutine w =
     (if m_stop_flag (reactors w this) then Some (on_reactor this (\<lambda>r. r\<lparr>m_is_looping := False\<rparr>) w)
      else before_wait act this first_coroutine w)"
| "loop_from act this (rt # rts) first_coroutine w =
     (if m_stop_flag (reactors w this) then Some (on_reactor this (\<lambda>r. r\<lparr>m_is_looping := False\<rparr>) w)
      else do {
        w \<leftarrow> before_wait act this first_coroutine w;
        (first_coroutine, w) \<leftarrow> after_wait act this rt w;
        loop_from act this rts first_coroutine w })"

definition reactor_loop ::
  "(effect \<Rightarrow> net \<Rightarrow> net option) \<Rightarrow> nat \<Rightarrow> int \<Rightarrow> wait_result list \<Rightarrow> net \<Rightarrow> net option" where
  "reactor_loop act this caller rts w =
     (if \<not> isLoopThread caller (reactors w this) then None
      else if m_is_looping (reactors w this) then Some w
      else loop_from act this rts None
             (on_reactor this (\<lambda>r. r\<lparr>m_is_looping := True, m_stop_flag := False\<rparr>) w))"

section \<open>The descriptors of a reactor\<close>

text \<open>
  \<open>net_ok\<close> says of every reactor that it and the kernel agree on its descriptors. What keeps this, and
  what does not, is the subject of theory \<open>NetSteps\<close>.
\<close>

definition net_ok :: "net \<Rightarrow> bool" where
  "net_ok w \<longleftrightarrow> (\<forall>i. reactor_ok (opened w) (reactors w i))"

lemma net_ok_on_reactor:
  "net_ok w \<Longrightarrow> (reactor_ok (opened w) (reactors w i) \<Longrightarrow> reactor_ok (opened w) (f (reactors w i)))
     \<Longrightarrow> net_ok (on_reactor i f w)"
  by (simp add: net_ok_def on_reactor_def)

lemma net_ok_frame [simp]:
  "net_ok (put_event p e w) = net_ok w" "net_ok (w\<lparr>m_task := q\<rparr>) = net_ok w"
  "net_ok (w\<lparr>ran := t\<rparr>) = net_ok w"
  by (simp_all add: net_ok_def put_event_def)

lemma reactor_ok_flags [simp]:
  "reactor_ok fo (r\<lparr>wake_count := n\<rparr>) = reactor_ok fo r"
  "reactor_ok fo (r\<lparr>m_is_looping := b\<rparr>) = reactor_ok fo r"
  "reactor_ok fo (r\<lparr>m_is_looping := b, m_stop_flag := c\<rparr>) = reactor_ok fo r"
  "reactor_ok fo (r\<lparr>m_pending_tasks := ts\<rparr>) = reactor_ok fo r"
  "reactor_ok fo (push_tasks e evs r) = reactor_ok fo r"
  by (simp_all add: reactor_ok_def push_tasks_def Let_def)

lemma fold_ok:
  assumes "\<And>x r. P r \<Longrightarrow> P (f x r)"
  shows "P r \<Longrightarrow> P (fold f xs r)"
  by (induction xs arbitrary: r) (simp_all add: assms)

section \<open>Ready coroutines\<close>

text \<open>
  What \<open>epoll_wait\<close> can report: at most \<open>MAX_EVENTS\<close> entries of the reactor's interest list, each once, and of
  \<open>EPOLLIN\<close> and \<open>EPOLLOUT\<close> only what was asked for.
\<close>

definition reported :: "reactor \<Rightarrow> epoll_event list \<Rightarrow> bool" where
  "reported r evs \<longleftrightarrow>
     length evs \<le> 10 \<and> distinct (map ev_data evs)
     \<and> (\<forall>ev\<in>set evs. \<exists>fd\<in>set (m_fds r). case interest r fd of
          None \<Rightarrow> False
        | Some reg \<Rightarrow> ev_data reg = ev_data ev \<and> (ev_events ev AND (READ OR WRITE)) AND NOT (ev_events reg) = 0)"

text \<open>
  What the scheduling results ask of tasks and coroutines, as long as no other thread acts: they return, leave the shared
  queue and the types of the reactors alone, and an event that names a coroutine goes on naming it until
  that coroutine itself is resumed, which may clear it, as the hooks do. They may change everything else.
  \<open>need\<close> is what they need and keep of the coroutines that the events name and of the threads' reactors.
\<close>

abbreviation cor_of :: "net \<Rightarrow> fd_ptr \<Rightarrow> nat option option" where
  "cor_of w p \<equiv> map_option getCoroutine (fd_events w p)"

type_synonym schedule_inv = "(fd_ptr \<Rightarrow> nat option option) \<Rightarrow> (int \<Rightarrow> nat option) \<Rightarrow> bool"

definition calm :: "schedule_inv \<Rightarrow> (effect \<Rightarrow> net \<Rightarrow> net option) \<Rightarrow> bool" where
  "calm need act \<longleftrightarrow> (\<forall>f w. need (cor_of w) (t_reactor_ptr w) \<longrightarrow>
     (\<exists>w'. act f w = Some w' \<and> need (cor_of w') (t_reactor_ptr w') \<and> m_task w' = m_task w \<and> ran w' = ran w
        \<and> (\<forall>p d. cor_of w p = Some (Some d) \<longrightarrow> f \<noteq> Resume d \<longrightarrow> cor_of w' p = Some (Some d))
        \<and> (\<forall>i. m_reactor_type (reactors w' i) = m_reactor_type (reactors w i))))"

definition holds_inv :: "schedule_inv \<Rightarrow> net \<Rightarrow> bool" where
  "holds_inv need w \<longleftrightarrow> need (cor_of w) (t_reactor_ptr w)"

lemma holds_inv_cong: "cor_of w' = cor_of w \<Longrightarrow> t_reactor_ptr w' = t_reactor_ptr w \<Longrightarrow> holds_inv need w' = holds_inv need w"
  by (simp add: holds_inv_def)

lemma calmE:
  assumes "calm need act" "holds_inv need w"
  obtains w' where "act f w = Some w'" "holds_inv need w'" "m_task w' = m_task w" "ran w' = ran w"
    "\<And>p d. cor_of w p = Some (Some d) \<Longrightarrow> f \<noteq> Resume d \<Longrightarrow> cor_of w' p = Some (Some d)"
    "\<And>i. m_reactor_type (reactors w' i) = m_reactor_type (reactors w i)"
  using assms unfolding calm_def holds_inv_def by blast

lemma calmI:
  assumes "\<And>f w. holds_inv need w \<Longrightarrow> \<exists>w'. act f w = Some w' \<and> holds_inv need w' \<and> m_task w' = m_task w \<and> ran w' = ran w
     \<and> (\<forall>p d. cor_of w p = Some (Some d) \<longrightarrow> f \<noteq> Resume d \<longrightarrow> cor_of w' p = Some (Some d))
     \<and> (\<forall>i. m_reactor_type (reactors w' i) = m_reactor_type (reactors w i))"
  shows "calm need act"
  using assms unfolding calm_def holds_inv_def by blast

text \<open>One after the other.\<close>

lemma calm_seq:
  assumes "calm need act" "calm need act'"
  shows "calm need (\<lambda>f w. Option.bind (act f w) (act' f))"
proof (rule calmI)
  fix f w
  assume w: "holds_inv need w"
  obtain w1 where w1: "act f w = Some w1" "holds_inv need w1" "m_task w1 = m_task w" "ran w1 = ran w"
    "\<And>p d. cor_of w p = Some (Some d) \<Longrightarrow> f \<noteq> Resume d \<Longrightarrow> cor_of w1 p = Some (Some d)"
    "\<And>i. m_reactor_type (reactors w1 i) = m_reactor_type (reactors w i)"
    using calmE [OF assms(1) w, of f] by blast
  obtain w2 where w2: "act' f w1 = Some w2" "holds_inv need w2" "m_task w2 = m_task w1" "ran w2 = ran w1"
    "\<And>p d. cor_of w1 p = Some (Some d) \<Longrightarrow> f \<noteq> Resume d \<Longrightarrow> cor_of w2 p = Some (Some d)"
    "\<And>i. m_reactor_type (reactors w2 i) = m_reactor_type (reactors w1 i)"
    using calmE [OF assms(2) w1(2), of f] by blast
  show "\<exists>w'. Option.bind (act f w) (act' f) = Some w' \<and> holds_inv need w' \<and> m_task w' = m_task w \<and> ran w' = ran w
     \<and> (\<forall>p d. cor_of w p = Some (Some d) \<longrightarrow> f \<noteq> Resume d \<longrightarrow> cor_of w' p = Some (Some d))
     \<and> (\<forall>i. m_reactor_type (reactors w' i) = m_reactor_type (reactors w i))"
    using w1 w2 by (intro exI [of _ w2]) auto
qed

lemma calm_perform:
  assumes "calm need act" "holds_inv need w"
  obtains w' where "perform act f w = Some w'" "holds_inv need w'" "m_task w' = m_task w" "ran w' = ran w @ [f]"
    "\<And>p d. cor_of w p = Some (Some d) \<Longrightarrow> f \<noteq> Resume d \<Longrightarrow> cor_of w' p = Some (Some d)"
    "\<And>i. m_reactor_type (reactors w' i) = m_reactor_type (reactors w i)"
proof -
  have "holds_inv need (w\<lparr>ran := ran w @ [f]\<rparr>)" using assms(2) by (simp add: holds_inv_def)
  from calmE [OF assms(1) this, of f] obtain w' where "act f (w\<lparr>ran := ran w @ [f]\<rparr>) = Some w'" "holds_inv need w'"
    "m_task w' = m_task (w\<lparr>ran := ran w @ [f]\<rparr>)" "ran w' = ran (w\<lparr>ran := ran w @ [f]\<rparr>)"
    "\<And>p d. cor_of (w\<lparr>ran := ran w @ [f]\<rparr>) p = Some (Some d) \<Longrightarrow> f \<noteq> Resume d \<Longrightarrow> cor_of w' p = Some (Some d)"
    "\<And>i. m_reactor_type (reactors w' i) = m_reactor_type (reactors (w\<lparr>ran := ran w @ [f]\<rparr>) i)"
    by blast
  then show ?thesis by (intro that [of w']) (simp_all add: perform_def)
qed

lemma getCoroutine_setReactor [simp]: "getCoroutine (setReactor r e) = getCoroutine e"
  by (simp add: getCoroutine_def setReactor_def)

lemma getFd_setReactor [simp]: "getFd (setReactor r e) = getFd e"
  by (simp add: getFd_def setReactor_def)

lemma drain_queue_empty: "m_task w = [] \<Longrightarrow> drain_queue act this w = Some w"
  by (simp add: drain_queue.simps)

lemma still_named:
  assumes "map (cor_of w) ps = map (Some \<circ> Some) cs"
    and "\<And>p d. cor_of w p = Some (Some d) \<Longrightarrow> Resume c \<noteq> Resume d \<Longrightarrow> cor_of w' p = Some (Some d)" and "c \<notin> set cs"
  shows "map (cor_of w') ps = map (Some \<circ> Some) cs"
  using assms(1,3)
proof (induction cs arbitrary: ps)
  case (Cons d cs)
  then obtain p ps' where ps: "ps = p # ps'" "cor_of w p = Some (Some d)" "map (cor_of w) ps' = map (Some \<circ> Some) cs"
    by (cases ps) auto
  moreover have "cor_of w' p = Some (Some d)" using assms(2) [OF ps(2)] Cons.prems(2) by auto
  ultimately show ?case using Cons.IH [of ps'] Cons.prems(2) by simp
qed simp

lemma drain_queue_calm:
  assumes "calm need act" and "holds_inv need w" and "map (cor_of w) (m_task w) = map (Some \<circ> Some) cs" and "distinct cs"
  shows "\<exists>w'. drain_queue act this w = Some w' \<and> holds_inv need w' \<and> m_task w' = [] \<and> ran w' = ran w @ map Resume cs
           \<and> (\<forall>i. m_reactor_type (reactors w' i) = m_reactor_type (reactors w i))"
  using assms(2-4)
proof (induction cs arbitrary: w)
  case Nil
  then show ?case by (simp add: drain_queue_empty)
next
  case (Cons c cs)
  then obtain p q e where q: "m_task w = p # q" and e: "fd_events w p = Some e" "getCoroutine e = Some c"
    and rest: "map (cor_of w) q = map (Some \<circ> Some) cs"
    by (cases "m_task w") auto
  let ?w = "put_event p (setReactor (Some this) e) (w\<lparr>m_task := q\<rparr>)"
  have same: "cor_of ?w = cor_of w" using e by (auto simp: put_event_def fun_eq_iff)
  then have need: "holds_inv need ?w" using holds_inv_cong [OF same] Cons.prems(1) by (simp add: put_event_def)
  from calm_perform [OF assms(1) need, of "Resume c"] obtain w1
    where w1: "perform act (Resume c) ?w = Some w1" "holds_inv need w1" "m_task w1 = q" "ran w1 = ran w @ [Resume c]"
      "\<And>p d. cor_of ?w p = Some (Some d) \<Longrightarrow> Resume c \<noteq> Resume d \<Longrightarrow> cor_of w1 p = Some (Some d)"
      "\<And>i. m_reactor_type (reactors w1 i) = m_reactor_type (reactors w i)"
    by (auto simp: put_event_def)
  have "map (cor_of ?w) q = map (Some \<circ> Some) cs" by (simp only: same rest)
  from still_named [OF this w1(5)] Cons.prems(3) have "map (cor_of w1) (m_task w1) = map (Some \<circ> Some) cs"
    unfolding w1(3) by simp
  with Cons.IH [OF w1(2) this] Cons.prems(3) w1 e q show ?case
    by (auto simp: drain_queue.simps [of act this w] resume_cor_def)
qed

text \<open>The event \<open>ev\<close> makes the coroutine \<open>c\<close> ready in the reactor \<open>this\<close>.\<close>

definition ready :: "nat \<Rightarrow> net \<Rightarrow> epoll_event \<Rightarrow> nat \<Rightarrow> bool" where
  "ready this w ev c \<longleftrightarrow>
     ev_data ev \<noteq> 0 \<and> data_fd (ev_data ev) \<noteq> m_wake_fd (reactors w this)
     \<and> (ev_events ev AND READ \<noteq> 0 \<or> ev_events ev AND WRITE \<noteq> 0)
     \<and> cor_of w (ev_data ev) = Some (Some c)"

lemma delLoop_keeps [simp]:
  "m_wake_fd (delEventInLoopThread fo fd r) = m_wake_fd r"
  "m_reactor_type (delEventInLoopThread fo fd r) = m_reactor_type r"
  by (simp_all add: delEventInLoopThread_def Let_def split: option.split)

lemma handle_event_first:
  "ready this w ev c \<Longrightarrow> handle_event act this ev (None, w) = Some (Some c, w)"
  by (auto simp: handle_event_def ready_def Let_def)

lemma handle_event_queued:
  assumes "ready this w ev c" and "m_reactor_type (reactors w this) = SubReactor"
  shows "\<exists>w'. handle_event act this ev (Some c0, w) = Some (Some c0, w')
           \<and> m_task w' = m_task w @ [ev_data ev] \<and> ran w' = ran w \<and> cor_of w' = cor_of w \<and> t_reactor_ptr w' = t_reactor_ptr w
           \<and> m_wake_fd (reactors w' this) = m_wake_fd (reactors w this)
           \<and> (\<forall>i. m_reactor_type (reactors w' i) = m_reactor_type (reactors w i))"
  using assms
  by (auto simp: handle_event_def ready_def Let_def on_reactor_def put_event_def queue_push_def
      intro!: ext)

lemma handle_events_queued:
  assumes "list_all2 (ready this w) evs cs" and "m_reactor_type (reactors w this) = SubReactor"
  shows "\<exists>w'. handle_events act this evs (Some c0, w) = Some (Some c0, w')
           \<and> m_task w' = m_task w @ map ev_data evs \<and> ran w' = ran w \<and> cor_of w' = cor_of w \<and> t_reactor_ptr w' = t_reactor_ptr w
           \<and> (\<forall>i. m_reactor_type (reactors w' i) = m_reactor_type (reactors w i))"
  using assms
proof (induction evs arbitrary: cs w)
  case (Cons ev evs)
  from Cons.prems(1) obtain c cs' where cs: "cs = c # cs'" and c: "ready this w ev c"
    and rest: "list_all2 (ready this w) evs cs'"
    by (auto simp: list_all2_Cons1)
  from handle_event_queued [OF c Cons.prems(2), of act c0] obtain w1
    where w1: "handle_event act this ev (Some c0, w) = Some (Some c0, w1)"
      "m_task w1 = m_task w @ [ev_data ev]" "ran w1 = ran w" "cor_of w1 = cor_of w" "t_reactor_ptr w1 = t_reactor_ptr w"
      "m_wake_fd (reactors w1 this) = m_wake_fd (reactors w this)"
      "\<forall>i. m_reactor_type (reactors w1 i) = m_reactor_type (reactors w i)"
    by blast
  then have "ready this w1 = ready this w" by (auto simp: ready_def fun_eq_iff)
  with Cons.IH [of w1 cs'] rest Cons.prems(2) w1 obtain w2 where "handle_events act this evs (Some c0, w1) = Some (Some c0, w2)"
      "m_task w2 = m_task w1 @ map ev_data evs" "ran w2 = ran w1" "cor_of w2 = cor_of w1" "t_reactor_ptr w2 = t_reactor_ptr w1"
      "\<forall>i. m_reactor_type (reactors w2 i) = m_reactor_type (reactors w1 i)"
    by metis
  with w1 show ?case by auto
qed simp

lemma call_tasks_calm:
  assumes "calm need act" "holds_inv need w"
  shows "\<exists>w'. call_tasks act ts w = Some w' \<and> holds_inv need w' \<and> ran w' = ran w @ map the (filter (\<lambda>t. t \<noteq> None) ts)
           \<and> m_task w' = m_task w"
  using assms(2)
proof (induction ts arbitrary: w)
  case (Cons t ts)
  show ?case
  proof (cases t)
    case None
    then show ?thesis using Cons by simp
  next
    case (Some f)
    obtain w1 where w1: "perform act f w = Some w1" "holds_inv need w1" "m_task w1 = m_task w" "ran w1 = ran w @ [f]"
      by (rule calm_perform [OF assms(1) Cons.prems, of f]) blast
    with Cons.IH [OF w1(2)] show ?thesis by (auto simp: Some)
  qed
qed simp

lemma holds_inv_on_reactor [simp]: "holds_inv need (on_reactor i f w) = holds_inv need w"
  by (simp add: holds_inv_def on_reactor_def)

lemma run_tasks_calm:
  assumes "calm need act" "holds_inv need w"
  shows "\<exists>w'. run_tasks act this w = Some w' \<and> holds_inv need w'
           \<and> ran w' = ran w @ map the (filter (\<lambda>t. t \<noteq> None) (m_pending_tasks (reactors w this)))
           \<and> m_task w' = m_task w"
  using call_tasks_calm [OF assms(1), of "on_reactor this (\<lambda>r. r\<lparr>m_pending_tasks := []\<rparr>) w"
      "m_pending_tasks (reactors w this)"] assms(2)
  by (simp add: run_tasks_def on_reactor_def [of _ _ w] holds_inv_def)

lemma apply_pending_frame [simp]: "m_reactor_type (apply_pending fo r) = m_reactor_type r"
proof -
  have "m_reactor_type (fold (delEventInLoopThread fo) ds r) = m_reactor_type r" for ds r
    by (induction ds arbitrary: r) simp_all
  moreover have "m_reactor_type (fold (\<lambda>(fd, ev). addEventInLoopThread fo fd ev) as r) = m_reactor_type r" for as r
    by (induction as arbitrary: r) (auto simp: addEventInLoopThread_def Let_def split: option.split)
  ultimately show ?thesis by (simp add: apply_pending_def Let_def)
qed

lemma sub_reactor_resumes:
  assumes "calm need act" and "holds_inv need w" and "m_reactor_type (reactors w this) = SubReactor"
    and "list_all2 (ready this w) evs cs" and "cs \<noteq> []" and "distinct cs" and "m_task w = []"
  shows "\<exists>w1 w2. after_wait act this (Ready evs) w = Some (Some (hd cs), w1)
           \<and> m_task w1 = map ev_data (tl evs) \<and> ran w1 = ran w
           \<and> before_wait act this (Some (hd cs)) w1 = Some w2
           \<and> m_task w2 = [] \<and> prefix (ran w @ map Resume cs) (ran w2)"
proof -
  from assms(4,5) obtain ev evs' c cs' where evs: "evs = ev # evs'" "cs = c # cs'"
    and c: "ready this w ev c" and rest: "list_all2 (ready this w) evs' cs'"
    by (cases cs) (auto simp: list_all2_Cons2)
  from handle_events_queued [OF rest assms(3), of act c] assms(7) obtain w0
    where w0: "handle_events act this evs' (Some c, w) = Some (Some c, w0)"
      "m_task w0 = map ev_data evs'" "ran w0 = ran w" "cor_of w0 = cor_of w" "t_reactor_ptr w0 = t_reactor_ptr w"
      "m_reactor_type (reactors w0 this) = SubReactor"
    using assms(3) by auto
  let ?w1 = "on_reactor this (apply_pending (opened w0)) w0"
  have after: "after_wait act this (Ready evs) w = Some (Some c, ?w1)"
    using c w0(1) by (simp add: after_wait_def evs handle_event_first)
  have need: "holds_inv need ?w1" using holds_inv_cong [OF w0(4,5)] assms(2) by simp
  have named: "map (cor_of w) (map ev_data evs') = map (Some \<circ> Some) cs'"
    using rest by (induction evs' cs' rule: list_all2_induct) (auto simp: ready_def)
  have w1: "m_task ?w1 = map ev_data evs'" "ran ?w1 = ran w" "m_reactor_type (reactors ?w1 this) = SubReactor"
    "cor_of ?w1 = cor_of w"
    using w0 by (simp_all add: on_reactor_def)
  obtain w2 where w2: "perform act (Resume c) ?w1 = Some w2" "holds_inv need w2" "m_task w2 = m_task ?w1"
      "ran w2 = ran w @ [Resume c]"
      "\<And>p d. cor_of ?w1 p = Some (Some d) \<Longrightarrow> Resume c \<noteq> Resume d \<Longrightarrow> cor_of w2 p = Some (Some d)"
      "m_reactor_type (reactors w2 this) = SubReactor"
    by (rule calm_perform [OF assms(1) need, of "Resume c"]) (use w1 in auto)
  have "map (cor_of ?w1) (map ev_data evs') = map (Some \<circ> Some) cs'" by (simp only: w1(4) named)
  from still_named [OF this w2(5)] assms(6) have "map (cor_of w2) (m_task w2) = map (Some \<circ> Some) cs'"
    unfolding w2(3) w1(1) by (simp add: evs)
  from drain_queue_calm [OF assms(1) w2(2) this, of this] w1 w2 assms(6) obtain w3
    where w3: "drain_queue act this w2 = Some w3" "holds_inv need w3" "m_task w3 = []"
      "ran w3 = ran w @ Resume c # map Resume cs'"
    by (auto simp: evs)
  from run_tasks_calm [OF assms(1) w3(2), of this] w3 obtain w4
    where "run_tasks act this w3 = Some w4" "m_task w4 = []" "prefix (ran w @ map Resume cs) (ran w4)"
    by (auto simp: evs)
  then have "before_wait act this (Some c) ?w1 = Some w4 \<and> m_task w4 = []
      \<and> prefix (ran w @ map Resume cs) (ran w4)"
    using w2 w3 by (simp add: before_wait_def resume_cor_def)
  with after w1(1,2) show ?thesis by (auto simp: evs)
qed

text \<open>
  The main reactor can forget a coroutine. When \<open>epoll_wait\<close> of the main reactor
  reports two events for which coroutines wait, the second one is resumed and overwrites the place of
  the first one with null: the first coroutine is neither resumed nor queued.
\<close>

theorem main_reactor_forgets_first:
  assumes "calm need act" and "holds_inv need w" and "m_reactor_type (reactors w this) = MainReactor"
    and "ready this w ev1 c1" and "ready this w ev2 c2"
  shows "\<exists>w'. after_wait act this (Ready [ev1, ev2]) w = Some (None, w')
           \<and> ran w' = ran w @ [Resume c2] \<and> m_task w' = m_task w"
proof -
  obtain w1 where w1: "perform act (Resume c2) w = Some w1" "m_task w1 = m_task w"
      "ran w1 = ran w @ [Resume c2]"
    by (rule calm_perform [OF assms(1,2), of "Resume c2"]) blast
  have "handle_event act this ev2 (Some c1, w) = Some (None, w1)"
    using assms(3,5) w1(1) by (auto simp: handle_event_def ready_def Let_def)
  then show ?thesis using w1(2,3) assms(4)
    by (simp add: after_wait_def handle_event_first on_reactor_def)
qed

section \<open>Tasks\<close>

text \<open>
  Tasks posted by tasks: \<open>posts f\<close> are the ones that \<open>f\<close> adds to the reactor it runs in.
\<close>

definition posting :: "(effect \<Rightarrow> task list) \<Rightarrow> nat \<Rightarrow> effect \<Rightarrow> net \<Rightarrow> net option" where
  "posting posts this f w = Some (on_reactor this (addTasks (posts f) True) w)"

lemma pending_addTasks [simp]: "m_pending_tasks (addTasks ts b r) = m_pending_tasks r @ ts"
  by (simp add: addTasks_def wakeup_def Let_def)

lemma call_tasks_posting:
  "\<exists>w'. call_tasks (posting posts this) ts w = Some w'
     \<and> ran w' = ran w @ map the (filter (\<lambda>t. t \<noteq> None) ts)
     \<and> m_pending_tasks (reactors w' this) = m_pending_tasks (reactors w this)
         @ concat (map (\<lambda>t. case t of None \<Rightarrow> [] | Some f \<Rightarrow> posts f) ts)"
proof (induction ts arbitrary: w)
  case (Cons t ts)
  show ?case
  proof (cases t)
    case None
    then show ?thesis using Cons by simp
  next
    case (Some f)
    with Cons.IH [of "on_reactor this (addTasks (posts f) True) (w\<lparr>ran := ran w @ [f]\<rparr>)"]
    show ?thesis by (simp add: perform_def posting_def on_reactor_def)
  qed
qed simp

text \<open>
  C35: Posted tasks run exactly once, in the order in which they were posted, null tasks are passed
  over, and what the tasks themselves post to this reactor is left for the next turn, in order.
\<close>

theorem tasks_run_once_in_order:
  "\<exists>w'. run_tasks (posting posts this) this w = Some w'
     \<and> ran w' = ran w @ map the (filter (\<lambda>t. t \<noteq> None) (m_pending_tasks (reactors w this)))
     \<and> m_pending_tasks (reactors w' this)
         = concat (map (\<lambda>t. case t of None \<Rightarrow> [] | Some f \<Rightarrow> posts f) (m_pending_tasks (reactors w this)))"
  using call_tasks_posting [of posts this "m_pending_tasks (reactors w this)"
      "on_reactor this (\<lambda>r. r\<lparr>m_pending_tasks := []\<rparr>) w"]
  by (simp add: run_tasks_def on_reactor_def)

section \<open>Requests of other threads\<close>

text \<open>
  The additions that other threads asked for are made before the removals, in whatever order they
  were asked: a descriptor removed and added again is gone.
\<close>

text \<open>
  Another thread that removes a descriptor and adds it again loses it. Both requests are queued;
  the loop carries out all additions before all removals, and the descriptor ends up unwatched.
\<close>

theorem cross_thread_readd_lost:
  assumes "reactor_ok fo r" and "m_tid r \<noteq> caller" and "fd \<noteq> -1"
  shows "interest (apply_pending fo (addEvent fo caller fd ev b (delEvent fo caller fd b' r))) fd = None"
proof -
  let ?r = "addEvent fo caller fd ev b (delEvent fo caller fd b' r)"
  have dels: "m_pending_del_fds ?r = m_pending_del_fds r @ [fd]"
    using assms(2,3) by (simp add: addEvent_def delEvent_def isLoopThread_def wakeup_def Let_def)
  have "reactor_ok fo (?r\<lparr>m_pending_add_fds := [], m_pending_del_fds := []\<rparr>)"
    using reactor_ok_addEvent [OF reactor_ok_delEvent [OF assms(1)]] by (simp add: reactor_ok_def)
  then have "reactor_ok fo (fold (\<lambda>(fd, ev). addEventInLoopThread fo fd ev) (m_pending_add_fds ?r)
               (?r\<lparr>m_pending_add_fds := [], m_pending_del_fds := []\<rparr>))"
    by (rule fold_ok [where P = "reactor_ok fo", rotated]) (auto intro: reactor_ok_addLoop)
  then have "reactor_ok fo (fold (delEventInLoopThread fo) (m_pending_del_fds r)
      (fold (\<lambda>(fd, ev). addEventInLoopThread fo fd ev) (m_pending_add_fds ?r)
               (?r\<lparr>m_pending_add_fds := [], m_pending_del_fds := []\<rparr>)))"
    by (rule fold_ok [where P = "reactor_ok fo", rotated]) (rule reactor_ok_delLoop)
  then show ?thesis
    by (simp add: apply_pending_def Let_def dels interest_delLoop)
qed

section \<open>A concrete reactor\<close>

text \<open>
  A reactor of thread 7 whose wake-up descriptor is 5, with two connections on the descriptors 8
  and 9 whose coroutines are 11 and 12.
\<close>

definition sample_reactor :: "reactor_type \<Rightarrow> reactor" where
  "sample_reactor t =
     \<lparr>m_wake_fd = 5, m_timer_fd = -1, m_stop_flag = False, m_is_looping = False, m_tid = 7,
      m_fds = [5, 8, 9], m_pending_add_fds = [], m_pending_del_fds = [], m_pending_tasks = [],
      m_timer = None, m_reactor_type = t,
      interest = [5 \<mapsto> \<lparr>ev_events = READ, ev_data = 5\<rparr>, 8 \<mapsto> \<lparr>ev_events = READ, ev_data = 16\<rparr>,
                  9 \<mapsto> \<lparr>ev_events = READ, ev_data = 32\<rparr>], wake_count = 0\<rparr>"

definition sample_net :: "reactor_type \<Rightarrow> net" where
  "sample_net t =
     \<lparr>reactors = (\<lambda>_. sample_reactor t),
      fd_events = [16 \<mapsto> setCoroutine 11 (FdEvent (Some 0) 8), 32 \<mapsto> setCoroutine 12 (FdEvent (Some 0) 9)],
      m_task = [], t_reactor_ptr = [7 \<mapsto> 0], next_reactor = 1, opened = (\<lambda>fd. fd \<in> {5, 8, 9}), ran = []\<rparr>"

lemma sample_reactor_ok: "fd_open = (\<lambda>fd. fd \<in> {5, 8, 9}) \<Longrightarrow> reactor_ok fd_open (sample_reactor t)"
  by (auto simp: reactor_ok_def sample_reactor_def)

lemma net_ok_sample: "net_ok (sample_net t)"
  by (simp add: net_ok_def sample_net_def sample_reactor_ok)

lemma sample_ready:
  "ready i (sample_net t) \<lparr>ev_events = READ, ev_data = 16\<rparr> 11"
  "ready i (sample_net t) \<lparr>ev_events = READ, ev_data = 32\<rparr> 12"
  by (simp_all add: ready_def sample_net_def sample_reactor_def data_fd_def READ_def getCoroutine_def
      setCoroutine_def FdEvent_def)

lemma type_sample [simp]: "m_reactor_type (reactors (sample_net t) i) = t" "m_task (sample_net t) = []"
  "ran (sample_net t) = []" "m_tid (reactors (sample_net t) i) = 7"
  "m_is_looping (reactors (sample_net t) i) = False"
  by (simp_all add: sample_net_def sample_reactor_def)

theorem cross_thread_readd_lost_witness:
  "interest (apply_pending (\<lambda>fd. fd \<in> {5, 8, 9})
     (addEvent (\<lambda>fd. fd \<in> {5, 8, 9}) 1 8 \<lparr>ev_events = WRITE, ev_data = 16\<rparr> True
       (delEvent (\<lambda>fd. fd \<in> {5, 8, 9}) 1 8 True (sample_reactor SubReactor)))) 8 = None"
  using cross_thread_readd_lost [OF sample_reactor_ok [OF refl], of SubReactor 1 8]
  by (simp add: sample_reactor_def)

end
