(* ===== verification/NetSteps.thy ===== *)
theory NetSteps
  imports ReactorLoop
begin

text \<open>
  What all threads together do to the reactors, the event objects and the descriptors: any sequence of the operations
  of \<open>FdEvent\<close> and \<open>Reactor\<close> and of \<open>socket\<close> and \<open>close\<close>, by any thread, and the turns of \<open>Reactor::loop\<close>, in which tasks
  and coroutines make such operations themselves. Which ones they make is a parameter, the program; nothing is asked of it.
\<close>

section \<open>Operations and programs\<close>

datatype net_op =
    AddEvents io_event fd_ptr | DelEvents io_event fd_ptr | UpdateEvents fd_ptr | UnregisterEvents fd_ptr
  | SetEvent fd_ptr fd_event | MakeReactor | MakeTimer int nat fd_ptr nat
  | PostTasks nat "task list" bool | StopReactor nat | SetType nat reactor_type
  | OpensFd int | ClosesFd int

text \<open>
  \<open>SetEvent\<close> is any change of an event object, as its setters make. When \<open>orderly\<close> is set, only those runs are
  considered in which no descriptor is closed that a reactor still lists.
\<close>

definition listed :: "int \<Rightarrow> net \<Rightarrow> bool" where
  "listed fd w \<longleftrightarrow> list_ex (\<lambda>i. fd \<in> set (m_fds (reactors w i))) [0..<next_reactor w]"

fun net_do :: "bool \<Rightarrow> kernel \<Rightarrow> int \<Rightarrow> net_op \<Rightarrow> net \<Rightarrow> net option" where
  "net_do orderly k caller (AddEvents event p) w = addListenEvents k caller event p w"
| "net_do orderly k caller (DelEvents event p) w = delListenEvents k caller event p w"
| "net_do orderly k caller (UpdateEvents p) w = updateToReactor k caller p w"
| "net_do orderly k caller (UnregisterEvents p) w = unregisterFromReactor k caller p w"
| "net_do orderly k caller (SetEvent p e) w = Some (put_event p e w)"
| "net_do orderly k caller MakeReactor w = map_option snd (GetReactor k caller w)"
| "net_do orderly k caller (MakeTimer tfd onTimer p i) w = map_option snd (getTimer k caller tfd onTimer p i w)"
| "net_do orderly k caller (PostTasks i ts is_wakeup) w = Some (on_reactor i (addTasks ts is_wakeup) w)"
| "net_do orderly k caller (StopReactor i) w = Some (on_reactor i stop w)"
| "net_do orderly k caller (SetType i t) w = Some (on_reactor i (setReactorType t) w)"
| "net_do orderly k caller (OpensFd fd) w = Some (w\<lparr>opened := (opened w)(fd := True)\<rparr>)"
| "net_do orderly k caller (ClosesFd fd) w = (if orderly \<and> listed fd w then None else Some (close_fd fd w))"

text \<open>A call with its thread and what the kernel answers when it makes a reactor: an eventfd that is open.\<close>

type_synonym net_call = "kernel \<times> int \<times> net_op"

fun may_make_reactor :: "net_op \<Rightarrow> bool" where
  "may_make_reactor (SetEvent p e) = False"
| "may_make_reactor (PostTasks i ts b) = False"
| "may_make_reactor (StopReactor i) = False"
| "may_make_reactor (SetType i ty) = False"
| "may_make_reactor (OpensFd fd) = False"
| "may_make_reactor (ClosesFd fd) = False"
| "may_make_reactor _ = True"

definition make_call :: "bool \<Rightarrow> net_call \<Rightarrow> net \<Rightarrow> net option" where
  "make_call orderly c w =
     (let (k, caller, a) = c
      in if may_make_reactor a \<and> t_reactor_ptr w caller = None \<and> \<not> opened w (boot_wake k) then None
         else net_do orderly k caller a w)"

fun make_calls :: "bool \<Rightarrow> net_call list \<Rightarrow> net \<Rightarrow> net option" where
  "make_calls orderly [] w = Some w"
| "make_calls orderly (c # cs) w = do { w \<leftarrow> make_call orderly c w; make_calls orderly cs w }"

text \<open>
  A program: the calls that are made while a task runs, or until a resumed coroutine yields, those of other threads meanwhile
  included. \<^term>\<open>None\<close> is one that does not return.
\<close>

type_synonym net_program = "effect \<Rightarrow> net \<Rightarrow> net_call list option"

definition program_act :: "bool \<Rightarrow> net_program \<Rightarrow> effect \<Rightarrow> net \<Rightarrow> net option" where
  "program_act orderly prog f w = Option.bind (prog f w) (\<lambda>cs. make_calls orderly cs w)"

inductive net_step :: "bool \<Rightarrow> net_program \<Rightarrow> net \<Rightarrow> net \<Rightarrow> bool" for orderly and prog where
  thread_calls: "make_call orderly c w = Some w' \<Longrightarrow> net_step orderly prog w w'"
| turn_begins: "before_wait (program_act orderly prog) i fc w = Some w' \<Longrightarrow> net_step orderly prog w w'"
| turn_ends: "after_wait (program_act orderly prog) i rt w = Some (fc, w') \<Longrightarrow> net_step orderly prog w w'"
| loop_begins: "net_step orderly prog w (on_reactor i (\<lambda>r. r\<lparr>m_is_looping := True, m_stop_flag := False\<rparr>) w)"
| loop_ends: "net_step orderly prog w (on_reactor i (\<lambda>r. r\<lparr>m_is_looping := False\<rparr>) w)"

text \<open>\<open>Reactor::loop\<close> is made of these steps.\<close>

lemma loop_from_steps:
  "loop_from (program_act orderly prog) i rts fc w = Some w' \<Longrightarrow> (net_step orderly prog)\<^sup>*\<^sup>* w w'"
proof (induction rts arbitrary: fc w)
  case Nil
  then show ?case by (auto split: if_splits intro: turn_begins loop_ends)
next
  case (Cons rt rts)
  show ?case
  proof (cases "m_stop_flag (reactors w i)")
    case True
    then show ?thesis using Cons.prems by (auto intro: loop_ends)
  next
    case False
    with Cons.prems obtain w1 fc2 w2 where "before_wait (program_act orderly prog) i fc w = Some w1"
      "after_wait (program_act orderly prog) i rt w1 = Some (fc2, w2)"
      "loop_from (program_act orderly prog) i rts fc2 w2 = Some w'"
      by (auto simp: bind_eq_Some_iff)
    then show ?thesis using Cons.IH by (meson turn_begins turn_ends converse_rtranclp_into_rtranclp)
  qed
qed

lemma reactor_loop_steps:
  assumes "reactor_loop (program_act orderly prog) i caller rts w = Some w'"
  shows "(net_step orderly prog)\<^sup>*\<^sup>* w w'"
proof (cases "m_is_looping (reactors w i)")
  case True
  then show ?thesis using assms by (auto simp: reactor_loop_def split: if_splits)
next
  case False
  with assms have "loop_from (program_act orderly prog) i rts None
      (on_reactor i (\<lambda>r. r\<lparr>m_is_looping := True, m_stop_flag := False\<rparr>) w) = Some w'"
    by (auto simp: reactor_loop_def split: if_splits)
  from loop_from_steps [OF this] show ?thesis
    using loop_begins [of orderly prog w i] by (meson converse_rtranclp_into_rtranclp)
qed

section \<open>What the loop keeps\<close>

definition all_reactors :: "((int \<Rightarrow> bool) \<Rightarrow> reactor \<Rightarrow> bool) \<Rightarrow> net \<Rightarrow> bool" where
  "all_reactors good w \<longleftrightarrow> (\<forall>i<next_reactor w. good (opened w) (reactors w i))"

lemma push_tasks_frame [simp]: "m_fds (push_tasks e evs r) = m_fds r" "interest (push_tasks e evs r) = interest r"
  by (simp_all add: push_tasks_def Let_def)

lemma all_reactors_frame [simp]:
  "all_reactors good (put_event p e w) = all_reactors good w"
  "all_reactors good (w\<lparr>m_task := q\<rparr>) = all_reactors good w"
  "all_reactors good (w\<lparr>ran := t\<rparr>) = all_reactors good w"
  by (simp_all add: all_reactors_def put_event_def)

text \<open>
  A property of a reactor and the open descriptors that rests on the list and the interest list alone, is kept by the two
  operations that change them in the loop, and by tasks and coroutines.
\<close>

locale descriptor_contract =
  fixes good :: "(int \<Rightarrow> bool) \<Rightarrow> reactor \<Rightarrow> bool" and act :: "effect \<Rightarrow> net \<Rightarrow> net option"
  assumes good_add: "good fo r \<Longrightarrow> good fo (addEventInLoopThread fo fd ev r)"
    and good_del: "good fo r \<Longrightarrow> good fo (delEventInLoopThread fo fd r)"
    and good_frame: "m_fds r' = m_fds r \<Longrightarrow> interest r' = interest r \<Longrightarrow> good fo r \<Longrightarrow> good fo r'"
    and good_act: "act f w = Some w' \<Longrightarrow> all_reactors good w \<Longrightarrow> all_reactors good w'"
begin

lemma good_on_reactor:
  "all_reactors good w \<Longrightarrow> (good (opened w) (reactors w i) \<Longrightarrow> good (opened w) (f (reactors w i)))
     \<Longrightarrow> all_reactors good (on_reactor i f w)"
  by (simp add: all_reactors_def on_reactor_def)

lemma good_pending: "good fo r \<Longrightarrow> good fo (apply_pending fo r)"
proof -
  assume "good fo r"
  then have "good fo (r\<lparr>m_pending_add_fds := [], m_pending_del_fds := []\<rparr>)" by (rule good_frame [rotated 2]) simp_all
  then have "good fo (fold (\<lambda>(fd, ev). addEventInLoopThread fo fd ev) (m_pending_add_fds r)
               (r\<lparr>m_pending_add_fds := [], m_pending_del_fds := []\<rparr>))"
    by (rule fold_ok [where P = "good fo", rotated]) (auto intro: good_add)
  then show ?thesis
    unfolding apply_pending_def Let_def
    by (rule fold_ok [where P = "good fo", rotated]) (rule good_del)
qed

lemma perform_good: "perform act f w = Some w' \<Longrightarrow> all_reactors good w \<Longrightarrow> all_reactors good w'"
  unfolding perform_def using good_act all_reactors_frame(3) by blast

lemma resume_good: "resume_cor act c w = Some w' \<Longrightarrow> all_reactors good w \<Longrightarrow> all_reactors good w'"
  by (auto simp: resume_cor_def split: option.splits intro: perform_good)

lemma drain_good_imp:
  "drain_queue a this w = Some w' \<Longrightarrow> a = act \<longrightarrow> all_reactors good w \<longrightarrow> all_reactors good w'"
proof (rule drain_queue.raw_induct [of "\<lambda>a this w w'. a = act \<longrightarrow> all_reactors good w \<longrightarrow> all_reactors good w'"],
    goal_cases)
  case (1 drain a this w w')
  show ?case
  proof (intro impI)
    assume a: "a = act" and w: "all_reactors good w"
    show "all_reactors good w'"
    proof (cases "m_task w")
      case Nil
      with 1(3) w show ?thesis by simp
    next
      case (Cons p q)
      with 1(3) obtain e w1 where e: "fd_events w p = Some e"
        and w1: "resume_cor a (getCoroutine e) (put_event p (setReactor (Some this) e) (w\<lparr>m_task := q\<rparr>)) = Some w1"
        and rest: "drain a this w1 = Some w'"
        by (auto simp: bind_eq_Some_iff)
      from resume_good [OF w1 [unfolded a]] w have "all_reactors good w1" by simp
      then show ?thesis using 1(2) [OF rest] a by simp
    qed
  qed
qed

lemma drain_good: "drain_queue act this w = Some w' \<Longrightarrow> all_reactors good w \<Longrightarrow> all_reactors good w'"
  using drain_good_imp by blast

lemma call_tasks_good: "call_tasks act ts w = Some w' \<Longrightarrow> all_reactors good w \<Longrightarrow> all_reactors good w'"
proof (induction ts arbitrary: w)
  case (Cons t ts)
  then show ?case by (cases t) (auto simp: bind_eq_Some_iff dest: perform_good)
qed simp

lemma before_wait_good:
  assumes "before_wait act this c w = Some w'" and "all_reactors good w"
  shows "all_reactors good w'"
proof -
  from assms(1) obtain w1 w2 where w1: "resume_cor act c w = Some w1"
    and w2: "(if m_reactor_type (reactors w1 this) \<noteq> MainReactor then drain_queue act this w1 else Some w1) = Some w2"
    and w': "run_tasks act this w2 = Some w'"
    by (auto simp: before_wait_def bind_eq_Some_iff)
  from resume_good [OF w1 assms(2)] have "all_reactors good w1" .
  then have "all_reactors good w2" using w2 drain_good by (auto split: if_splits)
  then have "all_reactors good (on_reactor this (\<lambda>r. r\<lparr>m_pending_tasks := []\<rparr>) w2)"
    by (rule good_on_reactor) (rule good_frame [rotated 2], simp_all)
  then show ?thesis using w' call_tasks_good unfolding run_tasks_def Let_def by blast
qed

lemma handle_event_good:
  assumes "handle_event act this ev (c, w) = Some (c', w')" and "all_reactors good w"
  shows "all_reactors good w'"
proof -
  have r: "all_reactors good (on_reactor this (delEventInLoopThread (opened w) fd) w)" for fd
    using assms(2) by (rule good_on_reactor) (rule good_del)
  have p: "all_reactors good (on_reactor this (push_tasks e evs) w)" for e evs
    using assms(2) by (rule good_on_reactor) (rule good_frame [rotated 2], simp_all)
  have k: "all_reactors good (on_reactor this (\<lambda>r. r\<lparr>wake_count := 0\<rparr>) w)"
    using assms(2) by (rule good_on_reactor) (rule good_frame [rotated 2], simp_all)
  from assms r p k show ?thesis
    by (auto simp: handle_event_def Let_def bind_eq_Some_iff split: if_splits option.splits
        dest: perform_good)
qed

lemma handle_events_good:
  "handle_events act this evs s = Some s' \<Longrightarrow> all_reactors good (snd s) \<Longrightarrow> all_reactors good (snd s')"
proof (induction evs arbitrary: s)
  case (Cons ev evs)
  then show ?case by (cases s) (auto simp: bind_eq_Some_iff dest!: handle_event_good)
qed simp

lemma after_wait_good:
  assumes "after_wait act this rt w = Some (c, w')" and "all_reactors good w"
  shows "all_reactors good w'"
proof (cases rt)
  case (Ready evs)
  with assms(1) obtain w1 where w1: "handle_events act this evs (None, w) = Some (c, w1)"
    and w': "w' = on_reactor this (apply_pending (opened w1)) w1"
    by (auto simp: after_wait_def bind_eq_Some_iff)
  from handle_events_good [OF w1] assms(2) have "all_reactors good w1" by simp
  then show ?thesis unfolding w' by (rule good_on_reactor) (rule good_pending)
qed (use assms in \<open>auto simp: after_wait_def\<close>)

end

section \<open>The list of descriptors and the kernel's\<close>

text \<open>
  The reactor's list has no duplicates, every descriptor that the kernel watches is on it and open; and, when no
  listed descriptor is ever closed, it has nothing else.
\<close>

definition watch_ok :: "bool \<Rightarrow> (int \<Rightarrow> bool) \<Rightarrow> reactor \<Rightarrow> bool" where
  "watch_ok orderly fd_open r \<longleftrightarrow>
     distinct (m_fds r) \<and> dom (interest r) \<subseteq> set (m_fds r) \<and> (\<forall>fd\<in>dom (interest r). fd_open fd)
     \<and> (orderly \<longrightarrow> set (m_fds r) \<subseteq> dom (interest r))"

lemma watch_ok_frame: "m_fds r' = m_fds r \<Longrightarrow> interest r' = interest r \<Longrightarrow> watch_ok orderly fo r' = watch_ok orderly fo r"
  by (simp add: watch_ok_def)

lemma watch_ok_addLoop: "watch_ok orderly fo r \<Longrightarrow> watch_ok orderly fo (addEventInLoopThread fo fd ev r)"
  by (auto simp: watch_ok_def addEventInLoopThread_def epoll_ctl_def Let_def)

lemma watch_ok_delLoop: "watch_ok orderly fo r \<Longrightarrow> watch_ok orderly fo (delEventInLoopThread fo fd r)"
  by (auto simp: watch_ok_def delEventInLoopThread_def epoll_ctl_def Let_def)

lemma watch_ok_addEvent: "watch_ok orderly fo r \<Longrightarrow> watch_ok orderly fo (addEvent fo caller fd ev b r)"
  by (auto simp: addEvent_def wakeup_def Let_def watch_ok_addLoop) (auto simp: watch_ok_def)

lemma watch_ok_delEvent: "watch_ok orderly fo r \<Longrightarrow> watch_ok orderly fo (delEvent fo caller fd b r)"
  by (auto simp: delEvent_def wakeup_def Let_def watch_ok_delLoop) (auto simp: watch_ok_def)

lemma watch_ok_opens: "watch_ok orderly fo r \<Longrightarrow> watch_ok orderly (fo(fd := True)) r"
  by (auto simp: watch_ok_def)

lemma watch_ok_closes:
  "watch_ok orderly fo r \<Longrightarrow> (orderly \<Longrightarrow> fd \<notin> set (m_fds r)) \<Longrightarrow> watch_ok orderly (fo(fd := False)) (fd_closed fd r)"
  by (auto simp: watch_ok_def fd_closed_def)

lemma watch_ok_new:
  "Reactor fo t tid epfd wake = Some r \<Longrightarrow> fo wake \<Longrightarrow> watch_ok orderly fo r"
  by (auto simp: Reactor_def addWakeupFd_def watch_ok_def epoll_ctl_def Let_def split: if_splits)

abbreviation watched :: "bool \<Rightarrow> net \<Rightarrow> bool" where
  "watched orderly \<equiv> all_reactors (watch_ok orderly)"

lemma watched_on_reactor:
  "watched orderly w \<Longrightarrow> (\<And>r. watch_ok orderly (opened w) r \<Longrightarrow> watch_ok orderly (opened w) (f r))
     \<Longrightarrow> watched orderly (on_reactor i f w)"
  by (simp add: all_reactors_def on_reactor_def)

lemma GetReactor_watched:
  assumes "GetReactor k caller w = Some (r, w')" "watched orderly w" "t_reactor_ptr w caller = None \<longrightarrow> opened w (boot_wake k)"
  shows "watched orderly w' \<and> opened w' = opened w \<and> fd_events w' = fd_events w"
  using assms
  by (auto simp: GetReactor_def all_reactors_def bind_eq_Some_iff Let_def less_Suc_eq split: option.splits
      intro: watch_ok_new)

lemma own_reactor_watched:
  assumes "own_reactor k caller p w = Some (r, e, w')" "watched orderly w" "t_reactor_ptr w caller = None \<longrightarrow> opened w (boot_wake k)"
  shows "watched orderly w'"
  using assms GetReactor_watched [of k caller w _ _ orderly]
  by (auto simp: own_reactor_def bind_eq_Some_iff Let_def split: option.splits)

lemma update_watched:
  assumes "updateToReactor k caller p w = Some w'" "watched orderly w" "t_reactor_ptr w caller = None \<longrightarrow> opened w (boot_wake k)"
  shows "watched orderly w'"
  using assms own_reactor_watched [of k caller p w _ _ _ orderly]
  by (auto simp: updateToReactor_def bind_eq_Some_iff intro!: watched_on_reactor watch_ok_addEvent)

lemma addListen_watched:
  assumes "addListenEvents k caller event p w = Some w'" "watched orderly w" "t_reactor_ptr w caller = None \<longrightarrow> opened w (boot_wake k)"
  shows "watched orderly w'"
  using assms update_watched [of k caller p _ w' orderly]
  by (auto simp: addListenEvents_def bind_eq_Some_iff put_event_def all_reactors_def split: if_splits)


lemma delListen_watched:
  assumes "delListenEvents k caller event p w = Some w'" "watched orderly w" "t_reactor_ptr w caller = None \<longrightarrow> opened w (boot_wake k)"
  shows "watched orderly w'"
  using assms update_watched [of k caller p _ w' orderly]
  by (auto simp: delListenEvents_def bind_eq_Some_iff put_event_def all_reactors_def split: if_splits)

lemma unregister_watched:
  assumes "unregisterFromReactor k caller p w = Some w'" "watched orderly w"
    "t_reactor_ptr w caller = None \<longrightarrow> opened w (boot_wake k)"
  shows "watched orderly w'"
  using assms own_reactor_watched [of k caller p w _ _ _ orderly]
  by (auto simp: unregisterFromReactor_def bind_eq_Some_iff intro!: watched_on_reactor watch_ok_delEvent)

lemma getTimer_watched:
  assumes "getTimer k caller tfd onTimer p i w = Some (t, w')" "watched orderly w"
    "t_reactor_ptr w caller = None \<longrightarrow> opened w (boot_wake k)"
  shows "watched orderly w'"
proof (cases "m_timer (reactors w i)")
  case None
  with assms(1) obtain w1 where w1: "new_Timer k caller tfd onTimer p i w = Some w1"
    and w': "w' = on_reactor i (\<lambda>r. r\<lparr>m_timer := Some p, m_timer_fd := tfd\<rparr>) w1"
    by (auto simp: getTimer_def bind_eq_Some_iff)
  from addListen_watched [OF w1 [unfolded new_Timer_def], of orderly] assms(2,3) have "watched orderly w1"
    by (simp add: put_event_def all_reactors_def)
  then show ?thesis unfolding w' by (rule watched_on_reactor) (simp add: watch_ok_def)
qed (use assms in \<open>simp add: getTimer_def\<close>)

lemma close_watched:
  assumes "watched orderly w" "orderly \<longrightarrow> \<not> listed fd w"
  shows "watched orderly (close_fd fd w)"
  using assms
  by (auto simp: all_reactors_def close_fd_def listed_def list_ex_iff intro!: watch_ok_closes)

lemma net_do_watched:
  assumes "net_do orderly k caller a w = Some w'" "watched orderly w"
    "may_make_reactor a \<and> t_reactor_ptr w caller = None \<longrightarrow> opened w (boot_wake k)"
  shows "watched orderly w'"
proof (cases a)
  case MakeReactor
  then show ?thesis using assms GetReactor_watched [of k caller w _ _ orderly] by auto
next
  case (MakeTimer tfd onTimer p i)
  then show ?thesis using assms getTimer_watched [of k caller tfd onTimer p i w _ _ orderly] by auto
next
  case (ClosesFd fd)
  then show ?thesis using assms close_watched [of orderly w fd] by (auto split: if_splits)
next
  case (OpensFd fd)
  then show ?thesis using assms by (auto simp: all_reactors_def watch_ok_opens)
next
  case (PostTasks i ts b)
  then show ?thesis using assms
    by (auto intro!: watched_on_reactor simp: addTasks_def wakeup_def Let_def watch_ok_def)
next
  case (StopReactor i)
  then show ?thesis using assms by (auto intro!: watched_on_reactor simp: stop_def wakeup_def watch_ok_def)
next
  case (SetType i ty)
  then show ?thesis using assms by (auto intro!: watched_on_reactor simp: setReactorType_def watch_ok_def)
qed (use assms in \<open>auto intro: addListen_watched delListen_watched update_watched unregister_watched\<close>)

lemma make_call_watched: "make_call orderly c w = Some w' \<Longrightarrow> watched orderly w \<Longrightarrow> watched orderly w'"
  by (auto simp: make_call_def Let_def split: if_splits prod.splits dest!: net_do_watched)

lemma make_calls_watched: "make_calls orderly cs w = Some w' \<Longrightarrow> watched orderly w \<Longrightarrow> watched orderly w'"
  by (induction cs arbitrary: w) (auto simp: bind_eq_Some_iff dest: make_call_watched)

lemma program_watched: "program_act orderly prog f w = Some w' \<Longrightarrow> watched orderly w \<Longrightarrow> watched orderly w'"
  unfolding program_act_def bind_eq_Some_iff using make_calls_watched by blast

interpretation descriptors: descriptor_contract "watch_ok orderly" "program_act orderly prog" for orderly prog
  by (rule descriptor_contract.intro)
    (rule watch_ok_addLoop watch_ok_delLoop watch_ok_frame [THEN iffD2] program_watched, assumption+)+

lemma net_step_watched: "net_step orderly prog w w' \<Longrightarrow> watched orderly w \<Longrightarrow> watched orderly w'"
proof (induction rule: net_step.induct)
  case (thread_calls c w w')
  then show ?case by (rule make_call_watched)
next
  case (turn_begins i fc w w')
  then show ?case by (rule descriptors.before_wait_good)
next
  case (turn_ends i rt w fc w')
  then show ?case by (rule descriptors.after_wait_good)
qed (auto intro!: watched_on_reactor simp: watch_ok_def)

lemma net_steps_watched: "(net_step orderly prog)\<^sup>*\<^sup>* w w' \<Longrightarrow> watched orderly w \<Longrightarrow> watched orderly w'"
  by (induction rule: rtranclp_induct) (auto dest: net_step_watched)


text \<open>
  C18: The reactors' lists of descriptors and the kernel's interest lists. Take any run of a process that begins without
  a reactor: any threads, in any order, make reactors, timers, listen to events, stop listening, unregister, post tasks, open
  and close descriptors, and the turns of the loops interleave with them, with whatever answers of \<open>epoll_wait\<close> and whatever
  calls of the tasks and coroutines that a turn runs. Then in every reactor the list has no duplicates, the kernel watches only
  descriptors that are on it, and these are open. When moreover no descriptor is closed while a reactor still lists it,
  the list is exactly what the kernel watches. (\<open>clearClient\<close> on a thread that is not the reactor's breaks that condition:
  \<open>closed_before_unregistered\<close>.)
\<close>

theorem reactor_keeps_interest_list:
  assumes "next_reactor w = 0" and "(net_step orderly prog)\<^sup>*\<^sup>* w w'" and "i < next_reactor w'"
  shows "distinct (m_fds (reactors w' i))
    \<and> dom (interest (reactors w' i)) \<subseteq> set (m_fds (reactors w' i))
    \<and> (\<forall>fd\<in>dom (interest (reactors w' i)). opened w' fd)
    \<and> (orderly \<longrightarrow> set (m_fds (reactors w' i)) = dom (interest (reactors w' i)))"
proof -
  have "watched orderly w" using assms(1) by (simp add: all_reactors_def)
  then have "watched orderly w'" by (rule net_steps_watched [OF assms(2)])
  then have "watch_ok orderly (opened w') (reactors w' i)" using assms(3) by (simp add: all_reactors_def)
  then show ?thesis unfolding watch_ok_def by blast
qed

section \<open>A descriptor closed too early\<close>

lemma fold_del_unwatched:
  "interest r fd = None \<Longrightarrow> interest (fold (delEventInLoopThread fo) ds r) fd = None"
proof (induction ds arbitrary: r)
  case (Cons d ds)
  have "interest (delEventInLoopThread fo d r) fd = None"
    using Cons.prems by (auto simp: delEventInLoopThread_def epoll_ctl_def Let_def)
  then show ?case using Cons.IH by simp
qed simp

text \<open>
  \<open>TcpConnection::clearClient\<close> on another thread than the reactor's: the removal is queued, \<open>close\<close> happens at once, and the
  reactor's list keeps a descriptor that the kernel has dropped. When a new connection gets the same number and listens
  on the reactor's own thread before the queue is worked off, its registration is taken for a change of the old one and
  fails, and the queued removal then takes the number off the list: nothing watches the new connection.
\<close>

definition clear_from :: "int \<Rightarrow> (int \<Rightarrow> bool) \<Rightarrow> int \<Rightarrow> reactor \<Rightarrow> reactor" where
  "clear_from caller fo fd r = fd_closed fd (delEvent fo caller fd True r)"

theorem closed_before_unregistered:
  assumes "fd \<in> set (m_fds r)" and "fd \<noteq> -1" and "m_tid r \<noteq> caller"
  shows "fd \<in> set (m_fds (clear_from caller fo fd r)) \<and> interest (clear_from caller fo fd r) fd = None
    \<and> interest (apply_pending fo' (addEvent fo' (m_tid r) fd ev True (clear_from caller fo fd r))) fd = None"
proof -
  have r: "fd \<in> set (m_fds (clear_from caller fo fd r))" "interest (clear_from caller fo fd r) fd = None"
    "m_tid (clear_from caller fo fd r) = m_tid r"
    using assms by (simp_all add: clear_from_def delEvent_def isLoopThread_def wakeup_def fd_closed_def Let_def)
  let ?stale = "\<lambda>r. fd \<in> set (m_fds r) \<and> interest r fd = None"
  have add: "?stale r \<Longrightarrow> ?stale (addEventInLoopThread fo' d ev r)" for d ev r
    by (auto simp: addEventInLoopThread_def epoll_ctl_def Let_def)
  have "?stale (addEvent fo' (m_tid r) fd ev True (clear_from caller fo fd r))"
    using r add assms(2) by (simp add: addEvent_def isLoopThread_def)
  then have "?stale ((addEvent fo' (m_tid r) fd ev True (clear_from caller fo fd r))
      \<lparr>m_pending_add_fds := [], m_pending_del_fds := []\<rparr>)" by simp
  then have "?stale (fold (\<lambda>(fd, ev). addEventInLoopThread fo' fd ev) as
      ((addEvent fo' (m_tid r) fd ev True (clear_from caller fo fd r))
      \<lparr>m_pending_add_fds := [], m_pending_del_fds := []\<rparr>))" for as
    by (rule fold_ok [where P = ?stale, rotated]) (use add in auto)
  then show ?thesis using r by (simp add: apply_pending_def Let_def fold_del_unwatched)
qed

section \<open>A concrete run\<close>

text \<open>
  Thread 7 makes its reactor, whose wake-up descriptor is 5, accepts a connection on 8 whose coroutine is 4, and listens
  to it. The loop reports the connection; its coroutine reads the end of the stream, unregisters and closes.
\<close>

definition start_net :: net where
  "start_net = \<lparr>reactors = (\<lambda>_. sample_reactor SubReactor), fd_events = Map.empty, m_task = [], t_reactor_ptr = Map.empty,
     next_reactor = 0, opened = (\<lambda>_. False), ran = []\<rparr>"

definition client_calls :: "net_call list" where
  "client_calls = map (\<lambda>a. (\<lparr>boot_epfd = 3, boot_wake = 5\<rparr>, 7, a))
     [OpensFd 5, MakeReactor, OpensFd 8, SetEvent 16 (setCoroutine 4 (FdEvent None 8)), AddEvents READ 16]"

definition client_prog :: net_program where
  "client_prog f w = Some (if f = Resume 4
     then map (\<lambda>a. (\<lparr>boot_epfd = 3, boot_wake = 5\<rparr>, 7, a)) [UnregisterEvents 16, ClosesFd 8] else [])"

lemma make_calls_steps: "make_calls orderly cs w = Some w' \<Longrightarrow> (net_step orderly prog)\<^sup>*\<^sup>* w w'"
proof (induction cs arbitrary: w)
  case (Cons c cs)
  then obtain w1 where "make_call orderly c w = Some w1" "make_calls orderly cs w1 = Some w'"
    by (auto simp: bind_eq_Some_iff)
  then show ?case using Cons.IH by (meson thread_calls converse_rtranclp_into_rtranclp)
qed simp


text \<open>The run up to the loop, and the loop's pass.\<close>

definition client_net :: net where
  "client_net =
     \<lparr>reactors = (\<lambda>_. sample_reactor SubReactor)(0 := \<lparr>m_wake_fd = 5, m_timer_fd = -1, m_stop_flag = False,
        m_is_looping = False, m_tid = 7, m_fds = [5, 8], m_pending_add_fds = [], m_pending_del_fds = [], m_pending_tasks = [],
        m_timer = None, m_reactor_type = SubReactor,
        interest = [5 \<mapsto> \<lparr>ev_events = READ, ev_data = 5\<rparr>, 8 \<mapsto> \<lparr>ev_events = READ, ev_data = 16\<rparr>], wake_count = 0\<rparr>),
      fd_events = [16 \<mapsto> (setCoroutine 4 (FdEvent (Some 0) 8))\<lparr>m_listen_events := READ\<rparr>], m_task = [],
      t_reactor_ptr = [7 \<mapsto> 0], next_reactor = 1, opened = (\<lambda>_. False)(5 := True, 8 := True), ran = []\<rparr>"

lemmas client_simps = make_call_def GetReactor_def Reactor_def addWakeupFd_def fd_data_def epoll_ctl_def
  addListenEvents_def updateToReactor_def unregisterFromReactor_def own_reactor_def put_event_def on_reactor_def addEvent_def
  delEvent_def addEventInLoopThread_def delEventInLoopThread_def isLoopThread_def setCoroutine_def getCoroutine_def
  FdEvent_def getFd_def READ_def WRITE_def

lemma client_connects: "make_calls True client_calls start_net = Some client_net"
  by (simp add: client_calls_def client_net_def start_net_def client_simps Let_def)

lemma client_reported:
  "after_wait (program_act True client_prog) 0 (Ready [\<lparr>ev_events = READ, ev_data = 16\<rparr>]) client_net = Some (Some 4, client_net)"
  by (simp add: after_wait_def handle_event_def client_net_def client_simps Let_def data_fd_def apply_pending_def)

lemma client_served:
  "\<exists>w'. before_wait (program_act True client_prog) 0 (Some 4) client_net = Some w'
     \<and> m_fds (reactors w' 0) = [5] \<and> next_reactor w' = 1 \<and> \<not> opened w' 8"
  by (simp add: before_wait_def resume_cor_def perform_def program_act_def client_prog_def client_net_def client_simps Let_def
      close_fd_def fd_closed_def listed_def drain_queue_empty run_tasks_def)

theorem reactor_keeps_interest_list_witness:
  "\<exists>w'. (net_step True client_prog)\<^sup>*\<^sup>* start_net w' \<and> m_fds (reactors w' 0) = [5]
     \<and> dom (interest (reactors w' 0)) = {5} \<and> opened w' 5 \<and> \<not> opened w' 8"
proof -
  from client_served obtain w' where w': "before_wait (program_act True client_prog) 0 (Some 4) client_net = Some w'"
    "m_fds (reactors w' 0) = [5]" "next_reactor w' = 1" "\<not> opened w' 8"
    by blast
  have steps: "(net_step True client_prog)\<^sup>*\<^sup>* start_net w'"
    using make_calls_steps [OF client_connects] turn_ends [OF client_reported] turn_begins [OF w'(1)]
    by (meson rtranclp.rtrancl_into_rtrancl)
  have "dom (interest (reactors w' 0)) = {5} \<and> opened w' 5"
    using reactor_keeps_interest_list [OF _ steps, of 0] w'(2,3) by (simp add: start_net_def) blast
  then show ?thesis using steps w'(2,4) by blast
qed

theorem closed_before_unregistered_witness:
  "8 \<in> set (m_fds (clear_from 1 (\<lambda>fd. fd \<in> {5, 8, 9}) 8 (sample_reactor SubReactor)))
   \<and> interest (apply_pending (\<lambda>fd. fd \<in> {5, 8, 9}) (addEvent (\<lambda>fd. fd \<in> {5, 8, 9}) 7 8 \<lparr>ev_events = READ, ev_data = 48\<rparr> True
       (clear_from 1 (\<lambda>fd. fd \<in> {5, 8, 9}) 8 (sample_reactor SubReactor)))) 8 = None"
  using closed_before_unregistered [of 8 "sample_reactor SubReactor" 1 "\<lambda>fd. fd \<in> {5, 8, 9}" "\<lambda>fd. fd \<in> {5, 8, 9}"]
  by (simp add: sample_reactor_def)

end
