(* ===== verification/IoThread.thy ===== *)
theory IoThread
  imports ReactorLoop
begin

text \<open>
  \<open>src/net/tcp/io_thread.{h,cc}\<close>: the io threads and their pool. A thread is its number in
  \<open>pthread_self\<close> order, the number of its reactor, and whether it has been let go into its loop. The
  coroutine that \<open>getCoroutineInstanse\<close> hands out, and what \<open>rand\<close> answers, are arguments.
\<close>

section \<open>The code\<close>

record io_thread =
  m_reactor :: nat
  m_thread :: nat
  m_index :: int
  start_posted :: bool

definition setThreadIndex :: "int \<Rightarrow> io_thread \<Rightarrow> io_thread" where
  "setThreadIndex i t = t\<lparr>m_index := i\<rparr>"
definition getThreadIndex :: "io_thread \<Rightarrow> int" where "getThreadIndex t = m_index t"
definition getPthreadId :: "io_thread \<Rightarrow> nat" where "getPthreadId t = m_thread t"
definition getReactor :: "io_thread \<Rightarrow> nat" where "getReactor t = IoThread.m_reactor t"

text \<open>
  The constructor, up to the semaphore that says the new thread has set itself up: \<open>main\<close> made a
  reactor of type \<open>SubReactor\<close> (\<^term>\<open>None\<close> when that aborts) and waits to be started.
\<close>

definition IOThread :: "kernel \<Rightarrow> int \<Rightarrow> nat \<Rightarrow> net \<Rightarrow> (io_thread \<times> net) option" where
  "IOThread k tid pthread w = do {
     r \<leftarrow> Reactor (opened w) (t_reactor_ptr w tid) tid (boot_epfd k) (boot_wake k);
     let n = next_reactor w;
     let w = w\<lparr>reactors := (reactors w)(n := setReactorType SubReactor r),
               t_reactor_ptr := (t_reactor_ptr w)(tid \<mapsto> n), next_reactor := n + 1\<rparr>;
     Some (\<lparr>m_reactor = n, m_thread = pthread, m_index = -1, start_posted = False\<rparr>, w) }"

record io_pool =
  m_size :: nat
  m_next :: int
  m_io_threads :: "io_thread list"

text \<open>\<open>boots i\<close> are the thread identifier and the system's answers for the \<open>i\<close>-th thread.\<close>

fun new_threads :: "(nat \<Rightarrow> int \<times> kernel) \<Rightarrow> nat list \<Rightarrow> net \<Rightarrow> (io_thread list \<times> net) option" where
  "new_threads boots [] w = Some ([], w)"
| "new_threads boots (i # is) w = do {
     (t, w) \<leftarrow> IOThread (snd (boots i)) (fst (boots i)) i w;
     (ts, w) \<leftarrow> new_threads boots is w;
     Some (setThreadIndex (int i) t # ts, w) }"

definition IOThreadPool :: "(nat \<Rightarrow> int \<times> kernel) \<Rightarrow> nat \<Rightarrow> net \<Rightarrow> (io_pool \<times> net) option" where
  "IOThreadPool boots n w = do {
     (ts, w) \<leftarrow> new_threads boots [0..<n] w;
     Some (\<lparr>m_size = n, m_next = -1, m_io_threads = ts\<rparr>, w) }"

definition start :: "io_pool \<Rightarrow> io_pool" where
  "start p = p\<lparr>m_io_threads := map (\<lambda>t. t\<lparr>start_posted := True\<rparr>) (m_io_threads p)\<rparr>"

definition getIOThread :: "io_pool \<Rightarrow> (io_thread \<times> io_pool) option" where
  "getIOThread p =
     (let i = (if m_next p = int (m_size p) \<or> m_next p = -1 then 0 else m_next p)
      in if 0 \<le> i \<and> i < int (length (m_io_threads p))
         then Some (m_io_threads p ! nat i, p\<lparr>m_next := i + 1\<rparr>)
         else None)"

definition getIOThreadPoolSize :: "io_pool \<Rightarrow> nat" where "getIOThreadPoolSize p = m_size p"

definition broadcastTask :: "task \<Rightarrow> io_pool \<Rightarrow> net \<Rightarrow> net" where
  "broadcastTask cb p w = fold (\<lambda>t. on_reactor (getReactor t) (addTask cb True)) (m_io_threads p) w"

definition addTaskByIndex :: "int \<Rightarrow> task \<Rightarrow> io_pool \<Rightarrow> net \<Rightarrow> net" where
  "addTaskByIndex index cb p w =
     (if 0 \<le> index \<and> index < int (m_size p)
      then on_reactor (getReactor (m_io_threads p ! nat index)) (addTask cb True) w else w)"

text \<open>
  The thread that \<open>addCoroutineToRandomThread\<close> chooses. \<open>cur\<close> is the thread's own \<open>t_cur_io_thread\<close>,
  which is null outside the io threads; then, and for an empty pool, the result is \<^term>\<open>None\<close>.
\<close>

definition random_index :: "nat \<Rightarrow> io_thread option \<Rightarrow> bool \<Rightarrow> io_pool \<Rightarrow> int option" where
  "random_index rnd cur self p =
     (if m_size p = 1 then Some 0
      else if m_size p = 0 then None
      else let i = int (rnd mod m_size p)
           in if self then Some i
              else do {
                cur \<leftarrow> cur;
                if getPthreadId (m_io_threads p ! nat i) = getPthreadId cur
                then let i = i + 1 in Some (if i = int (m_size p) then i - 2 else i)
                else Some i })"

definition addCoroutineToRandomThread ::
  "nat \<Rightarrow> io_thread option \<Rightarrow> nat \<Rightarrow> bool \<Rightarrow> io_pool \<Rightarrow> net \<Rightarrow> net option" where
  "addCoroutineToRandomThread rnd cur cor self p w = do {
     i \<leftarrow> random_index rnd cur self p;
     Some (on_reactor (getReactor (m_io_threads p ! nat i)) (addCoroutine cor True) w) }"

text \<open>The forms that take a callback: \<open>cor\<close> is the coroutine that the pool hands out and that gets it.\<close>

definition addCallbackToRandomThread ::
  "nat \<Rightarrow> io_thread option \<Rightarrow> nat \<Rightarrow> bool \<Rightarrow> io_pool \<Rightarrow> net \<Rightarrow> (nat \<times> net) option" where
  "addCallbackToRandomThread rnd cur cor self p w =
     map_option (\<lambda>w. (cor, w)) (addCoroutineToRandomThread rnd cur cor self p w)"

definition addCoroutineToThreadByIndex :: "int \<Rightarrow> nat \<Rightarrow> io_pool \<Rightarrow> net \<Rightarrow> nat option \<times> net" where
  "addCoroutineToThreadByIndex index cor p w =
     (if index \<ge> int (length (m_io_threads p)) \<or> index < 0 then (None, w)
      else (Some cor, on_reactor (getReactor (m_io_threads p ! nat index)) (addCoroutine cor True) w))"

text \<open>\<open>cors i\<close> is the coroutine handed out for the \<open>i\<close>-th thread.\<close>

fun addCoroutineToEach :: "(nat \<Rightarrow> nat) \<Rightarrow> nat \<Rightarrow> io_thread list \<Rightarrow> net \<Rightarrow> net" where
  "addCoroutineToEach cors i [] w = w"
| "addCoroutineToEach cors i (t # ts) w =
     addCoroutineToEach cors (Suc i) ts (on_reactor (getReactor t) (addCoroutine (cors i) True) w)"

definition addCoroutineToEachThread :: "(nat \<Rightarrow> nat) \<Rightarrow> io_pool \<Rightarrow> net \<Rightarrow> net" where
  "addCoroutineToEachThread cors p w = addCoroutineToEach cors 0 (m_io_threads p) w"

section \<open>The pool\<close>

text \<open>
  Every thread of a new pool has a reactor of its own, of the type that shares ready coroutines, and
  its place in the pool as its index.
\<close>

definition pool_ok :: "io_pool \<Rightarrow> net \<Rightarrow> bool" where
  "pool_ok p w \<longleftrightarrow>
     length (m_io_threads p) = m_size p
     \<and> map getThreadIndex (m_io_threads p) = map int [0..<m_size p]
     \<and> distinct (map getReactor (m_io_threads p)) \<and> distinct (map getPthreadId (m_io_threads p))
     \<and> (\<forall>t\<in>set (m_io_threads p). m_reactor_type (reactors w (getReactor t)) = SubReactor)
     \<and> -1 \<le> m_next p \<and> m_next p \<le> int (m_size p)"

lemma new_threads_ok:
  assumes "new_threads boots is w = Some (ts, w')" and "distinct is"
  shows "map getThreadIndex ts = map int is \<and> map getPthreadId ts = is
     \<and> map getReactor ts = [next_reactor w..<next_reactor w + length is]
     \<and> (\<forall>t\<in>set ts. m_reactor_type (reactors w' (getReactor t)) = SubReactor)
     \<and> next_reactor w' = next_reactor w + length is
     \<and> (\<forall>r < next_reactor w. reactors w' r = reactors w r)"
  using assms
proof (induction "is" arbitrary: w ts)
  case (Cons i "is")
  from Cons.prems(1) obtain t w1 ts' where t: "IOThread (snd (boots i)) (fst (boots i)) i w = Some (t, w1)"
    and ts': "new_threads boots is w1 = Some (ts', w')" and ts: "ts = setThreadIndex (int i) t # ts'"
    by (auto simp: bind_eq_Some_iff)
  from t have w1: "getReactor t = next_reactor w" "getPthreadId t = i" "next_reactor w1 = next_reactor w + 1"
    "m_reactor_type (reactors w1 (next_reactor w)) = SubReactor"
    "\<forall>r < next_reactor w. reactors w1 r = reactors w r"
    by (auto simp: IOThread_def bind_eq_Some_iff getReactor_def getPthreadId_def setReactorType_def Let_def)
  from Cons.IH [OF ts'] Cons.prems(2)
  have rest: "map getThreadIndex ts' = map int is" "map getPthreadId ts' = is"
    "map getReactor ts' = [next_reactor w + 1..<next_reactor w + 1 + length is]"
    "\<forall>t\<in>set ts'. m_reactor_type (reactors w' (getReactor t)) = SubReactor"
    "next_reactor w' = next_reactor w + 1 + length is"
    "\<forall>r < next_reactor w + 1. reactors w' r = reactors w1 r"
    using w1(3) by simp_all
  have hd: "getThreadIndex (setThreadIndex (int i) t) = int i" "getReactor (setThreadIndex (int i) t) = next_reactor w"
    "getPthreadId (setThreadIndex (int i) t) = i"
    using w1(1,2) by (simp_all add: setThreadIndex_def getThreadIndex_def getReactor_def getPthreadId_def)
  have "[next_reactor w..<next_reactor w + length (i # is)]
      = next_reactor w # [next_reactor w + 1..<next_reactor w + 1 + length is]"
    by (simp add: upt_conv_Cons del: upt_Suc)
  then show ?case unfolding ts using rest w1(4,5) hd by (simp del: upt_Suc)
qed simp

lemma pool_ok_new: "IOThreadPool boots n w = Some (p, w') \<Longrightarrow> pool_ok p w'"
  using new_threads_ok [of boots "[0..<n]" w] length_map [of getThreadIndex]
  by (fastforce simp: IOThreadPool_def bind_eq_Some_iff pool_ok_def dest: arg_cong [of _ _ length])

section \<open>Taking turns\<close>

fun take_threads :: "nat \<Rightarrow> io_pool \<Rightarrow> (io_thread list \<times> io_pool) option" where
  "take_threads 0 p = Some ([], p)"
| "take_threads (Suc k) p = do {
     (t, p) \<leftarrow> getIOThread p;
     (ts, p) \<leftarrow> take_threads k p;
     Some (t # ts, p) }"

text \<open>The thread whose turn it is.\<close>

definition turn :: "io_pool \<Rightarrow> nat" where
  "turn p = (if m_next p = -1 then 0 else nat (m_next p) mod m_size p)"

lemma getIOThread_turn:
  assumes "pool_ok p w" and "0 < m_size p"
  shows "\<exists>p'. getIOThread p = Some (m_io_threads p ! turn p, p') \<and> pool_ok p' w
           \<and> m_size p' = m_size p \<and> m_io_threads p' = m_io_threads p \<and> turn p' = (turn p + 1) mod m_size p"
proof -
  let ?i = "if m_next p = int (m_size p) \<or> m_next p = -1 then 0 else m_next p"
  have i: "0 \<le> ?i" "?i < int (m_size p)" and turn: "turn p = nat ?i"
    using assms by (auto simp: pool_ok_def turn_def)
  have "getIOThread p = Some (m_io_threads p ! turn p, p\<lparr>m_next := ?i + 1\<rparr>)"
    using i turn assms(1) by (simp add: getIOThread_def Let_def pool_ok_def)
  moreover have "pool_ok (p\<lparr>m_next := ?i + 1\<rparr>) w" using i assms(1) by (simp add: pool_ok_def)
  moreover have "turn (p\<lparr>m_next := ?i + 1\<rparr>) = (turn p + 1) mod m_size p"
    using i by (simp add: turn_def [of "p\<lparr>m_next := ?i + 1\<rparr>"] turn nat_add_distrib)
  ultimately show ?thesis by fastforce
qed

text \<open>
  The pool's threads take turns: any number of calls of \<open>getIOThread\<close> gives the
  threads in cyclic order.
\<close>

theorem io_threads_take_turns:
  assumes "pool_ok p w" and "0 < m_size p"
  shows "\<exists>p'. take_threads k p
     = Some (map (\<lambda>i. m_io_threads p ! ((turn p + i) mod m_size p)) [0..<k], p') \<and> pool_ok p' w"
  using assms
proof (induction k arbitrary: p)
  case (Suc k)
  from getIOThread_turn [OF Suc.prems] obtain p1
    where p1: "getIOThread p = Some (m_io_threads p ! turn p, p1)" "pool_ok p1 w" "m_size p1 = m_size p"
      "m_io_threads p1 = m_io_threads p" "turn p1 = (turn p + 1) mod m_size p" by blast
  from Suc.IH [OF p1(2)] p1(3) Suc.prems(2) obtain p'
    where p': "take_threads k p1
        = Some (map (\<lambda>i. m_io_threads p1 ! ((turn p1 + i) mod m_size p1)) [0..<k], p')" "pool_ok p' w"
    by auto
  have "map (\<lambda>i. m_io_threads p1 ! ((turn p1 + i) mod m_size p1)) [0..<k]
      = map (\<lambda>i. m_io_threads p ! ((turn p + Suc i) mod m_size p)) [0..<k]"
    using p1(3-5) by (simp add: mod_simps)
  moreover have "turn p mod m_size p = turn p"
    using Suc.prems by (simp add: turn_def)
  ultimately show ?case using p1(1) p' by (simp add: upt_conv_Cons map_Suc_upt [symmetric] del: upt_Suc)
qed simp

section \<open>Another thread\<close>

text \<open>
  Work for \<open>another\<close> thread goes to another thread. In a pool of at least two, the
  thread that \<open>addCoroutineToRandomThread\<close> picks for a call from an io thread is in the
  pool and is not the caller, whatever the random number.
\<close>

theorem random_thread_is_another:
  assumes "pool_ok p w" and "2 \<le> m_size p" and "cur \<in> set (m_io_threads p)"
  shows "\<exists>i. random_index rnd (Some cur) False p = Some i \<and> 0 \<le> i \<and> i < int (m_size p)
           \<and> getPthreadId (m_io_threads p ! nat i) \<noteq> getPthreadId cur"
proof -
  let ?n = "m_size p" and ?ts = "m_io_threads p"
  let ?i = "rnd mod ?n"
  have len: "length ?ts = ?n" and dist: "distinct (map getPthreadId ?ts)"
    using assms(1) by (simp_all add: pool_ok_def)
  have i: "?i < ?n" using assms(2) by simp
  have other: "getPthreadId (?ts ! j) \<noteq> getPthreadId (?ts ! ?i)" if "j < ?n" "j \<noteq> ?i" for j
    using that i nth_eq_iff_index_eq [OF dist, of j ?i] len by simp
  show ?thesis
  proof (cases "getPthreadId (?ts ! ?i) = getPthreadId cur")
    case False
    then show ?thesis using assms(2) i by (simp add: random_index_def Let_def)
  next
    case True
    show ?thesis
    proof (cases "Suc ?i = ?n")
      case True
      with \<open>getPthreadId _ = _\<close> other [of "?i - 1"] assms(2) show ?thesis
        by (auto simp: random_index_def Let_def nat_diff_distrib)
    next
      case False
      with \<open>getPthreadId _ = _\<close> other [of "Suc ?i"] assms(2) i show ?thesis
        by (auto simp: random_index_def Let_def nat_add_distrib)
    qed
  qed
qed

section \<open>A concrete pool\<close>

definition sample_io_pool :: io_pool where
  "sample_io_pool =
     \<lparr>m_size = 3, m_next = -1,
      m_io_threads = map (\<lambda>i. \<lparr>m_reactor = i, m_thread = i + 20, m_index = int i, start_posted = True\<rparr>) [0, 1, 2]\<rparr>"

lemma pool_ok_sample: "pool_ok sample_io_pool (sample_net SubReactor)"
  by (simp add: pool_ok_def sample_io_pool_def getThreadIndex_def getReactor_def getPthreadId_def
      upt_rec)

lemma sample_io_pool_fields: "m_size sample_io_pool = 3" "turn sample_io_pool = 0"
  "length (m_io_threads sample_io_pool) = 3"
  by (simp_all add: sample_io_pool_def turn_def)

theorem io_threads_take_turns_witness:
  "map_option (\<lambda>(ts, p). map getPthreadId ts) (take_threads 5 sample_io_pool) = Some [20, 21, 22, 20, 21]"
  using io_threads_take_turns [OF pool_ok_sample, of 5]
  by (auto simp: sample_io_pool_fields upt_rec [of 0] upt_rec [of "Suc _"] upt_rec [of "numeral _"])
     (simp_all add: sample_io_pool_def getPthreadId_def)

theorem random_thread_is_another_witness:
  "\<exists>i. random_index 8 (Some (m_io_threads sample_io_pool ! 2)) False sample_io_pool = Some i
     \<and> getPthreadId (m_io_threads sample_io_pool ! nat i) \<noteq> 22"
  using random_thread_is_another [OF pool_ok_sample, of "m_io_threads sample_io_pool ! 2" 8]
  by (auto simp: sample_io_pool_fields nth_mem) (auto simp: sample_io_pool_def getPthreadId_def)

end
