(* ===== verification/TcpServer.thy ===== *)
theory TcpServer
  imports Dispatcher TimeWheel Timer Config IoThread
begin

text \<open>
  \<open>src/net/tcp/tcp_server.{h,cc}\<close>: the listening socket, the loop of the accept coroutine, the table
  of clients, registration of services and servlets. Connections are the objects of theory
  \<open>TcpConnection\<close>, by number; \<open>loop_cor\<close> is the coroutine that each took from the pool when it was
  constructed. The io threads and reactors are the ones of theories \<open>IoThread\<close> and \<open>Reactor\<close>. What
  \<open>accept\<close> answers, the coroutine handed out, and the address of a descriptor's \<open>FdEvent\<close> are
  arguments. \<open>main_reactor\<close> is the reactor of the thread that accepts.
\<close>

section \<open>\<open>TcpAcceptor\<close>\<close>

datatype family = AF_INET | AF_UNIX | AF_OTHER

text \<open>
  \<open>init\<close>, where \<open>abort\<close> is \<^term>\<open>None\<close>. The result of \<open>setsockopt\<close> is only logged. \<open>toAccept\<close> answers
  the descriptor, whether there is a new peer address, and the descriptors it closes.
\<close>

definition acceptor_init :: "int \<Rightarrow> int \<Rightarrow> int \<Rightarrow> int option" where
  "acceptor_init socket_rt bind_rt listen_rt =
     (if socket_rt < 0 \<or> bind_rt \<noteq> 0 \<or> listen_rt \<noteq> 0 then None else Some socket_rt)"

definition toAccept :: "family \<Rightarrow> int \<Rightarrow> int \<times> bool \<times> int list" where
  "toAccept fam accept_rt =
     (case fam of
        AF_OTHER \<Rightarrow> (-1, False, [0])
      | _ \<Rightarrow> if accept_rt = -1 then (-1, False, []) else (accept_rt, True, []))"

section \<open>\<open>TcpServer\<close>\<close>

datatype 'm dispatcher = RpcDispatcher "'m service_map" | HttpDispatcher servlet_map

record 'm tcp_server =
  m_protocal_type :: protocal_type
  m_dispatcher :: "'m dispatcher"
  s_codec :: protocal_type
  m_clients :: "(int, nat option) std_map"
  conns :: "nat \<Rightarrow> tcp_connection"
  loop_cor :: "nat \<Rightarrow> nat"
  next_conn :: nat
  m_io_pool :: io_pool
  main_reactor :: nat
  m_tcp_counts :: nat
  m_is_stop_accept :: bool
  m_family :: family
  m_time_wheel :: wheel
  main_timer :: timer_state

text \<open>
  The constructor. \<open>tm\<close> is the timer of the main reactor, to which the wheel and the server add their
  repeated events \<open>wheel_ev\<close> and \<open>clear_ev\<close>; tasks 0 and 1 stand for \<open>loopFunc\<close> and
  \<open>ClearClientTimerFunc\<close>.
\<close>

definition TcpServer ::
  "(nat \<Rightarrow> int \<times> kernel) \<Rightarrow> kernel \<Rightarrow> int \<Rightarrow> int \<Rightarrow> config \<Rightarrow> protocal_type \<Rightarrow> family
     \<Rightarrow> timer_state \<Rightarrow> nat \<Rightarrow> nat \<Rightarrow> net \<Rightarrow> ('m tcp_server \<times> net) option" where
  "TcpServer boots k caller now cfg ty fam tm wheel_ev clear_ev w = do {
     (pool, w) \<leftarrow> IOThreadPool boots (nat (Config.m_iothread_num cfg)) w;
     let disp = (if ty = Http_Protocal then HttpDispatcher [] else RpcDispatcher []);
     let proto = (if ty = Http_Protocal then Http_Protocal else TinyPb_Protocal);
     (main, w) \<leftarrow> GetReactor k caller w;
     let w = on_reactor main (setReactorType MainReactor) w;
     let wheel = TcpTimeWheel (nat (Config.m_timewheel_bucket_num cfg));
     let tm = tm\<lparr>events := (events tm)(wheel_ev := TimerEvent now (Config.m_timewheel_inteval cfg * 1000) True 0)\<rparr>;
     let tm = addTimerEvent now wheel_ev True tm;
     let tm = tm\<lparr>events := (events tm)(clear_ev := TimerEvent now 10000 True 1)\<rparr>;
     let tm = addTimerEvent now clear_ev True tm;
     Some (\<lparr>m_protocal_type = proto, m_dispatcher = disp, s_codec = proto,
            m_clients = [], conns = (\<lambda>_. fst (TcpConnection_server proto 0 0)), loop_cor = (\<lambda>_. 0),
            next_conn = 0, m_io_pool = pool, main_reactor = main, m_tcp_counts = 0,
            m_is_stop_accept = False, m_family = fam, m_time_wheel = wheel, main_timer = tm\<rparr>, w) }"

definition server_registerService :: "'m pb_service option \<Rightarrow> 'm tcp_server \<Rightarrow> bool \<times> 'm tcp_server" where
  "server_registerService service s =
     (if m_protocal_type s \<noteq> TinyPb_Protocal then (False, s)
      else case service of
             None \<Rightarrow> (False, s)
           | Some sv \<Rightarrow>
               (case m_dispatcher s of
                  RpcDispatcher m \<Rightarrow> (True, s\<lparr>m_dispatcher := RpcDispatcher (registerService sv m)\<rparr>)
                | HttpDispatcher _ \<Rightarrow> (False, s)))"

definition server_registerHttpServlet ::
  "string \<Rightarrow> servlet option \<Rightarrow> 'm tcp_server \<Rightarrow> bool \<times> 'm tcp_server" where
  "server_registerHttpServlet path sv s =
     (if m_protocal_type s \<noteq> Http_Protocal then (False, s)
      else if sv = None then (False, s)
      else case m_dispatcher s of
             RpcDispatcher _ \<Rightarrow> (False, s)
           | HttpDispatcher m \<Rightarrow>
               let (m, ok) = registerServlet path sv m in (ok, s\<lparr>m_dispatcher := HttpDispatcher m\<rparr>))"

text \<open>
  The constructor of a connection looks its \<open>FdEvent\<close> up and gives it the reactor of the io thread.
  \<open>addr fd\<close> is the address of the event; one that the table has not made yet is made.
\<close>

definition conn_event :: "(int \<Rightarrow> fd_ptr) \<Rightarrow> int \<Rightarrow> nat \<Rightarrow> net \<Rightarrow> net" where
  "conn_event addr fd r w =
     (let e = (case fd_events w (addr fd) of None \<Rightarrow> FdEvent None fd | Some e \<Rightarrow> e)
      in put_event (addr fd) (setReactor (Some r) e) w)"

text \<open>
  \<open>addClient\<close> answers the number of the new connection and what the destructor of a replaced one
  does.
\<close>

definition addClient ::
  "(int \<Rightarrow> fd_ptr) \<Rightarrow> io_thread \<Rightarrow> int \<Rightarrow> nat \<Rightarrow> 'm tcp_server \<Rightarrow> net
     \<Rightarrow> nat \<times> TcpConnection.effect list \<times> 'm tcp_server \<times> net" where
  "addClient addr io_thread fd cor s w =
     (let n = next_conn s;
          (c, _) = TcpConnection_server (s_codec s) fd 128;
          released = (case map_find (m_clients s) fd of
                        Some (Some old) \<Rightarrow> TcpConnection_destroy (conns s old)
                      | _ \<Rightarrow> []);
          s = s\<lparr>conns := (conns s)(n := c), loop_cor := (loop_cor s)(n := cor), next_conn := n + 1,
                m_clients := map_put fd (Some n) (m_clients s)\<rparr>
      in (n, released, s, conn_event addr fd (IoThread.getReactor io_thread) w))"

text \<open>\<open>IOThread::addClient\<close>, the other way to put a connection on a thread.\<close>

definition IOThread_addClient :: "nat \<Rightarrow> tcp_connection \<Rightarrow> tcp_connection \<times> TcpConnection.effect list" where
  "IOThread_addClient slot tcp_conn =
     (let (c, e) = registerToTimeWheel slot tcp_conn in (c, e @ setUpServer))"

text \<open>
  \<open>freshTcpConnection\<close>: the wheel belongs to the main reactor's thread, so the slot is handed over as
  a task, here the one with the slot's number.
\<close>

definition freshTcpConnection :: "nat \<Rightarrow> 'm tcp_server \<Rightarrow> net \<Rightarrow> net" where
  "freshTcpConnection slot s w = on_reactor (main_reactor s) (addTask (Some (Call slot)) True) w"

text \<open>
  One turn of \<open>MainAcceptCorFunc\<close>: \<open>accept_rt\<close> is the answer of \<open>accept_hook\<close>, \<open>cor\<close> and \<open>slot\<close> the
  coroutine and the slot of the connection. After a failed accept the coroutine yields, and the
  next turn is the one after it has been resumed.
\<close>

definition accept_turn ::
  "(int \<Rightarrow> fd_ptr) \<Rightarrow> int \<times> nat \<times> nat \<Rightarrow> 'm tcp_server \<Rightarrow> net \<Rightarrow> ('m tcp_server \<times> net) option" where
  "accept_turn addr a s w =
     (let (accept_rt, cor, slot) = a; fd = fst (toAccept (m_family s) accept_rt)
      in if fd = -1 then Some (s, w)
         else do {
           (io_thread, pool) \<leftarrow> getIOThread (m_io_pool s);
           let (n, _, s, w) = addClient addr io_thread fd cor (s\<lparr>m_io_pool := pool\<rparr>) w;
           let s = s\<lparr>conns := (conns s)(n := fst (initServer slot (conns s n)))\<rparr>;
           let w = freshTcpConnection slot s w;
           let w = on_reactor (IoThread.getReactor io_thread) (addCoroutine (loop_cor s n) True) w;
           Some (s\<lparr>m_tcp_counts := m_tcp_counts s + 1\<rparr>, w) })"

fun MainAcceptCorFunc ::
  "(int \<Rightarrow> fd_ptr) \<Rightarrow> (int \<times> nat \<times> nat) list \<Rightarrow> 'm tcp_server \<Rightarrow> net \<Rightarrow> ('m tcp_server \<times> net) option" where
  "MainAcceptCorFunc addr [] s w = Some (s, w)"
| "MainAcceptCorFunc addr (a # as) s w =
     (if m_is_stop_accept s then Some (s, w)
      else do { (s, w) \<leftarrow> accept_turn addr a s w; MainAcceptCorFunc addr as s w })"

definition ClearClientTimerFunc :: "'m tcp_server \<Rightarrow> 'm tcp_server \<times> TcpConnection.effect list" where
  "ClearClientTimerFunc s =
     (let closed = (\<lambda>c. case c of None \<Rightarrow> False | Some n \<Rightarrow> getState (conns s n) = Closed)
      in (s\<lparr>m_clients := map (\<lambda>(fd, c). (fd, if closed c then None else c)) (m_clients s)\<rparr>,
          concat (map (\<lambda>(fd, c). case c of
             Some n \<Rightarrow> if closed c then TcpConnection_destroy (conns s n) else []
           | None \<Rightarrow> []) (m_clients s))))"

definition server_addCoroutine :: "nat \<Rightarrow> 'm tcp_server \<Rightarrow> net \<Rightarrow> net" where
  "server_addCoroutine cor s w = on_reactor (main_reactor s) (addCoroutine cor True) w"

text \<open>
  \<open>start\<close>: the accept coroutine runs until its first \<open>accept\<close> that has to wait (\<open>as\<close> are the ones
  before), the io threads are let go, and the main reactor loops; \<open>act\<close> and \<open>rts\<close> are the arguments
  of its loop.
\<close>

definition server_start ::
  "(int \<Rightarrow> fd_ptr) \<Rightarrow> int \<times> int \<times> int \<Rightarrow> (int \<times> nat \<times> nat) list \<Rightarrow> (Reactor.effect \<Rightarrow> net \<Rightarrow> net option)
     \<Rightarrow> int \<Rightarrow> wait_result list \<Rightarrow> 'm tcp_server \<Rightarrow> net \<Rightarrow> (int \<times> 'm tcp_server \<times> net) option" where
  "server_start addr init_rts as act caller rts s w = do {
     fd \<leftarrow> acceptor_init (fst init_rts) (fst (snd init_rts)) (snd (snd init_rts));
     (s, w) \<leftarrow> MainAcceptCorFunc addr as s w;
     let s = s\<lparr>m_io_pool := IoThread.start (m_io_pool s)\<rparr>;
     w \<leftarrow> reactor_loop act (main_reactor s) caller rts w;
     Some (fd, s, w) }"

section \<open>Registration\<close>

text \<open>The dispatcher and the codec always fit the protocol.\<close>

definition protocol_ok :: "'m tcp_server \<Rightarrow> bool" where
  "protocol_ok s \<longleftrightarrow>
     s_codec s = m_protocal_type s
     \<and> (case m_dispatcher s of
          RpcDispatcher m \<Rightarrow> m_protocal_type s = TinyPb_Protocal
        | HttpDispatcher m \<Rightarrow> m_protocal_type s = Http_Protocal \<and> map_ok m)"

lemma protocol_ok_new:
  "TcpServer boots k caller now cfg ty fam tm e1 e2 w = Some (s, w') \<Longrightarrow> protocol_ok s"
  by (auto simp: TcpServer_def protocol_ok_def bind_eq_Some_iff Let_def)

lemma protocol_ok_registerService: "protocol_ok s \<Longrightarrow> protocol_ok (snd (server_registerService sv s))"
  by (auto simp: server_registerService_def protocol_ok_def split: option.split dispatcher.splits)

lemma protocol_ok_registerHttpServlet:
  "protocol_ok s \<Longrightarrow> protocol_ok (snd (server_registerHttpServlet path sv s))"
  by (auto simp: server_registerHttpServlet_def protocol_ok_def registerServlet_def Let_def
      split: option.split dispatcher.splits prod.splits)
     (metis fst_conv map_ok_emplace)

lemma registration_fits:
  assumes "protocol_ok s"
  shows "fst (server_registerService sv s) \<longleftrightarrow> m_protocal_type s = TinyPb_Protocal \<and> sv \<noteq> None"
    and "fst (server_registerHttpServlet path h s) \<Longrightarrow> m_protocal_type s = Http_Protocal \<and> h \<noteq> None"
  using assms
  by (auto simp: server_registerService_def server_registerHttpServlet_def protocol_ok_def
      split: option.split dispatcher.splits if_splits)

section \<open>The clients\<close>

text \<open>
  Under a descriptor is, if anything, a connection on that descriptor; no connection is filed twice.
\<close>

definition clients_ok :: "'m tcp_server \<Rightarrow> bool" where
  "clients_ok s \<longleftrightarrow>
     map_ok (m_clients s)
     \<and> (\<forall>fd n. map_find (m_clients s) fd = Some (Some n) \<longrightarrow>
          n < next_conn s \<and> TcpConnection.m_fd (conns s n) = fd
          \<and> m_connection_type (conns s n) = ServerConnection)"

lemma clients_ok_new:
  "TcpServer boots k caller now cfg ty fam tm e1 e2 w = Some (s, w') \<Longrightarrow> clients_ok s"
  by (auto simp: clients_ok_def TcpServer_def bind_eq_Some_iff Let_def)

lemma server_conn_fields [simp]:
  "TcpConnection.m_fd (fst (TcpConnection_server ty fd n)) = fd"
  "m_connection_type (fst (TcpConnection_server ty fd n)) = ServerConnection"
  "m_state (fst (TcpConnection_server ty fd n)) = Connected"
  by (simp_all add: TcpConnection_server_def initBuffer_def)

lemma initServer_fields [simp]:
  "TcpConnection.m_fd (fst (initServer slot c)) = TcpConnection.m_fd c"
  "m_connection_type (fst (initServer slot c)) = m_connection_type c"
  "m_state (fst (initServer slot c)) = m_state c"
  by (simp_all add: initServer_def registerToTimeWheel_def)

lemma find_map_values:
  "map_find (map (\<lambda>(k, v). (k, f v)) m) k = map_option f (map_find m k)"
  by (induction m) auto

lemma map_ok_map_values: "map_ok (map (\<lambda>(k, v). (k, f v)) m) = map_ok m"
proof -
  have "map fst (map (\<lambda>(k, v). (k, f v)) m) = map fst m" by auto
  then show ?thesis unfolding map_ok_def by (rule arg_cong)
qed

lemma clients_ok_clear: "clients_ok s \<Longrightarrow> clients_ok (fst (ClearClientTimerFunc s))"
  by (auto simp: ClearClientTimerFunc_def clients_ok_def find_map_values map_ok_map_values Let_def
      split: if_splits)

text \<open>What a turn of the accept loop does for a descriptor that was accepted.\<close>

lemma accept_turn_accepted:
  assumes "clients_ok s" and "getIOThread (m_io_pool s) = Some (t, pool)"
    and "m_family s \<noteq> AF_OTHER" and "fd \<noteq> -1"
  shows "\<exists>s' w'. accept_turn addr (fd, cor, slot) s w = Some (s', w')
     \<and> clients_ok s' \<and> m_io_pool s' = pool \<and> main_reactor s' = main_reactor s \<and> m_family s' = m_family s
     \<and> m_is_stop_accept s' = m_is_stop_accept s \<and> m_tcp_counts s' = m_tcp_counts s + 1
     \<and> (\<exists>n. map_find (m_clients s') fd = Some (Some n) \<and> m_state (conns s' n) = Connected
          \<and> m_weak_slot (conns s' n) = Some slot \<and> loop_cor s' n = cor)
     \<and> (\<forall>fd'. fd' \<noteq> fd \<longrightarrow> map_find (m_clients s') fd' = map_find (m_clients s) fd')
     \<and> (\<forall>r. m_pending_tasks (reactors w' r) = m_pending_tasks (reactors w r)
          @ (if r = main_reactor s then [Some (Call slot)] else [])
          @ (if r = IoThread.getReactor t then [Some (Resume cor)] else []))"
proof -
  have acc: "toAccept (m_family s) fd = (fd, True, [])"
    using assms(3,4) by (cases "m_family s") (simp_all add: toAccept_def)
  have pend: "m_pending_tasks (addTask tk b r) = m_pending_tasks r @ [tk]"
    "m_pending_tasks (addCoroutine c b r) = m_pending_tasks r @ [Some (Resume c)]" for tk b r c
    by (simp_all add: addTask_def addCoroutine_def wakeup_def Let_def)
  have ok: "map_ok (m_clients s)" using assms(1) by (simp add: clients_ok_def)
  obtain c eff where c: "TcpConnection_server (s_codec s) fd 128 = (c, eff)" by (cases "TcpConnection_server (s_codec s) fd 128")
  then have cf: "TcpConnection.m_fd c = fd" "m_connection_type c = ServerConnection" "m_state c = Connected"
    using server_conn_fields [of "s_codec s" fd 128] by simp_all
  show ?thesis
    using assms(1,2) cf
    by (auto simp: accept_turn_def acc assms(4) addClient_def c freshTcpConnection_def conn_event_def
        on_reactor_def put_event_def pend Let_def clients_ok_def map_find_put [OF ok]
        initServer_def registerToTimeWheel_def less_Suc_eq split: if_splits)
qed

lemma accept_turn_failed:
  "accept_turn addr (-1, cor, slot) s w = Some (s, w)"
  by (cases "m_family s") (simp_all add: accept_turn_def toAccept_def)

section \<open>Connections are dealt out to the io threads\<close>

text \<open>
  The coroutines that the reactor \<open>r\<close> is given for the accepts \<open>as\<close>, when the thread whose turn it is
  first is number \<open>k\<close>.
\<close>

fun dealt :: "io_pool \<Rightarrow> nat \<Rightarrow> nat \<Rightarrow> (int \<times> nat \<times> nat) list \<Rightarrow> task list" where
  "dealt p r k [] = []"
| "dealt p r k ((fd, cor, slot) # as) =
     (if fd = -1 then dealt p r k as
      else (if r = IoThread.getReactor (m_io_threads p ! (k mod m_size p)) then [Some (Resume cor)] else [])
        @ dealt p r (Suc k) as)"

definition accepted_fds :: "(int \<times> nat \<times> nat) list \<Rightarrow> int list" where
  "accepted_fds as = filter (\<lambda>fd. fd \<noteq> -1) (map fst as)"

lemma dealt_cong:
  "m_io_threads p' = m_io_threads p \<Longrightarrow> m_size p' = m_size p \<Longrightarrow> dealt p' r k as = dealt p r k as"
  by (induction p r k as rule: dealt.induct) auto

lemma dealt_mod: "dealt p r (k mod m_size p) as = dealt p r k as"
proof (induction as arbitrary: k)
  case (Cons a as)
  obtain fd cor slot where a: "a = (fd, cor, slot)" by (cases a)
  have "dealt p r (Suc (k mod m_size p)) as = dealt p r (Suc k) as"
    using Cons.IH [of "Suc (k mod m_size p)"] Cons.IH [of "Suc k"] by (simp add: mod_simps)
  then show ?case using Cons.IH by (simp add: a)
qed simp

lemma accepts_dealt:
  assumes "clients_ok s" and "m_family s \<noteq> AF_OTHER" and "\<not> m_is_stop_accept s"
    and "pool_ok (m_io_pool s) w0" and "0 < m_size (m_io_pool s)"
  shows "\<exists>s' w'. MainAcceptCorFunc addr as s w = Some (s', w')
     \<and> clients_ok s' \<and> m_tcp_counts s' = m_tcp_counts s + length (accepted_fds as)
     \<and> (\<forall>fd. fd \<in> set (accepted_fds as) \<or> (\<exists>n. map_find (m_clients s) fd = Some (Some n)) \<longrightarrow>
          (\<exists>n. map_find (m_clients s') fd = Some (Some n)))
     \<and> (\<forall>r. r \<noteq> main_reactor s \<longrightarrow> m_pending_tasks (reactors w' r)
          = m_pending_tasks (reactors w r) @ dealt (m_io_pool s) r (turn (m_io_pool s)) as)"
  using assms
proof (induction as arbitrary: s w)
  case Nil
  then show ?case by (simp add: accepted_fds_def)
next
  case (Cons a as)
  obtain fd cor slot where a: "a = (fd, cor, slot)" by (cases a)
  show ?case
  proof (cases "fd = -1")
    case True
    then show ?thesis
      using Cons.IH [OF Cons.prems] Cons.prems(3)
      by (auto simp: a accept_turn_failed accepted_fds_def)
  next
    case False
    let ?p = "m_io_pool s"
    from getIOThread_turn [OF Cons.prems(4,5)] obtain p'
      where p': "getIOThread ?p = Some (m_io_threads ?p ! turn ?p, p')" "pool_ok p' w0"
        "m_size p' = m_size ?p" "m_io_threads p' = m_io_threads ?p" "turn p' = (turn ?p + 1) mod m_size ?p"
      by blast
    have turn: "turn ?p mod m_size ?p = turn ?p" by (simp add: turn_def)
    from accept_turn_accepted [OF Cons.prems(1) p'(1) Cons.prems(2) False, of addr cor slot w]
    obtain s1 w1 where s1: "accept_turn addr (fd, cor, slot) s w = Some (s1, w1)" "clients_ok s1"
        "m_io_pool s1 = p'" "main_reactor s1 = main_reactor s" "m_family s1 = m_family s"
        "m_is_stop_accept s1 = m_is_stop_accept s" "m_tcp_counts s1 = m_tcp_counts s + 1"
      and n: "\<exists>n. map_find (m_clients s1) fd = Some (Some n)"
        "\<And>fd'. fd' \<noteq> fd \<Longrightarrow> map_find (m_clients s1) fd' = map_find (m_clients s) fd'"
      and w1: "\<And>r. r \<noteq> main_reactor s \<Longrightarrow> m_pending_tasks (reactors w1 r) = m_pending_tasks (reactors w r)
          @ (if r = IoThread.getReactor (m_io_threads ?p ! turn ?p) then [Some (Resume cor)] else [])"
      by auto
    from Cons.IH [OF s1(2), of w1] s1 Cons.prems p' obtain s' w'
      where s': "MainAcceptCorFunc addr as s1 w1 = Some (s', w')" "clients_ok s'"
        "m_tcp_counts s' = m_tcp_counts s + 1 + length (accepted_fds as)"
        "\<forall>fd. fd \<in> set (accepted_fds as) \<or> (\<exists>n. map_find (m_clients s1) fd = Some (Some n)) \<longrightarrow>
          (\<exists>n. map_find (m_clients s') fd = Some (Some n))"
        "\<forall>r. r \<noteq> main_reactor s \<longrightarrow> m_pending_tasks (reactors w' r)
          = m_pending_tasks (reactors w1 r) @ dealt p' r (turn p') as"
      by auto
    have keep: "\<exists>n. map_find (m_clients s') fd' = Some (Some n)"
      if "fd' \<in> set (accepted_fds (a # as)) \<or> (\<exists>n. map_find (m_clients s) fd' = Some (Some n))" for fd'
    proof (cases "fd' = fd")
      case True
      then show ?thesis using s'(4) n(1) by blast
    next
      case False
      then have "fd' \<in> set (accepted_fds as) \<or> (\<exists>n. map_find (m_clients s1) fd' = Some (Some n))"
        using that n(2) [OF False] by (auto simp: accepted_fds_def a split: if_splits)
      then show ?thesis using s'(4) by blast
    qed
    have len: "length (accepted_fds (a # as)) = Suc (length (accepted_fds as))"
      using False by (simp add: accepted_fds_def a)
    have run: "MainAcceptCorFunc addr (a # as) s w = Some (s', w')"
      using s1(1) s'(1) Cons.prems(3) by (simp add: a)
    have "dealt p' r (turn p') as = dealt ?p r (Suc (turn ?p)) as" for r
      using dealt_mod [of ?p r "Suc (turn ?p)" as] p'(3-5) dealt_cong [of p' ?p r _ as] by simp
    then have "m_pending_tasks (reactors w' r)
        = m_pending_tasks (reactors w r) @ dealt ?p r (turn ?p) (a # as)" if "r \<noteq> main_reactor s" for r
      using s'(5) w1 that False turn by (simp add: a)
    then show ?thesis using run s'(2,3) len keep by (intro exI [of _ s'] exI [of _ w']) auto
  qed
qed

text \<open>
  C19: Accepted connections are dealt out in turn. Over any sequence of answers of
  \<open>accept\<close>, each accepted connection is counted and filed under its descriptor, and the
  coroutine of the \<open>i\<close>-th one is posted to the reactor of the \<open>i\<close>-th io
  thread in cyclic order, and to no other.
\<close>

theorem accepts_are_dealt_out:
  assumes "clients_ok s" and "m_family s \<noteq> AF_OTHER" and "\<not> m_is_stop_accept s"
    and "pool_ok (m_io_pool s) w0" and "0 < m_size (m_io_pool s)"
  shows "\<exists>s' w'. MainAcceptCorFunc addr as s w = Some (s', w')
     \<and> clients_ok s' \<and> m_tcp_counts s' = m_tcp_counts s + length (accepted_fds as)
     \<and> (\<forall>fd\<in>set (accepted_fds as). \<exists>n. map_find (m_clients s') fd = Some (Some n))
     \<and> (\<forall>r. r \<noteq> main_reactor s \<longrightarrow> m_pending_tasks (reactors w' r)
          = m_pending_tasks (reactors w r) @ dealt (m_io_pool s) r (turn (m_io_pool s)) as)"
  using accepts_dealt [OF assms, of addr as w] by blast

definition nat_ptr :: "int \<Rightarrow> fd_ptr" where "nat_ptr fd = word_of_int (16 * fd + 16)"

definition sample_server :: "string tcp_server" where
  "sample_server =
     \<lparr>m_protocal_type = TinyPb_Protocal, m_dispatcher = RpcDispatcher sample_services, s_codec = TinyPb_Protocal,
      m_clients = [], conns = (\<lambda>_. fst (TcpConnection_server TinyPb_Protocal 0 0)), loop_cor = (\<lambda>_. 0),
      next_conn = 0, m_io_pool = sample_io_pool, main_reactor = 9, m_tcp_counts = 0,
      m_is_stop_accept = False, m_family = AF_INET, m_time_wheel = TcpTimeWheel 10,
      main_timer = \<lparr>events = (\<lambda>_. TimerEvent 0 0 False 0), m_pending_events = [], armed = None\<rparr>\<rparr>"

theorem accepts_are_dealt_out_witness:
  "\<exists>s' w'. MainAcceptCorFunc nat_ptr [(8, 1, 0), (-1, 0, 0), (12, 2, 1)] sample_server (sample_net SubReactor)
       = Some (s', w') \<and> m_tcp_counts s' = 2
     \<and> m_pending_tasks (reactors w' 1) = [Some (Resume 2)]"
proof -
  have "clients_ok sample_server" "m_io_pool sample_server = sample_io_pool" "m_family sample_server = AF_INET"
    "\<not> m_is_stop_accept sample_server" "m_tcp_counts sample_server = 0" "main_reactor sample_server = 9"
    by (simp_all add: sample_server_def clients_ok_def)
  moreover have "accepted_fds [(8, 1, 0), (-1, 0, 0), (12, 2, 1)] = [8, 12]"
    by (simp add: accepted_fds_def)
  moreover have "dealt sample_io_pool 1 0 [(8, 1, 0), (-1, 0, 0), (12, 2, 1)] = [Some (Resume 2)]"
    by (simp add: sample_io_pool_def IoThread.getReactor_def)
  ultimately show ?thesis
    using accepts_are_dealt_out [of sample_server "sample_net SubReactor" nat_ptr
        "[(8, 1, 0), (-1, 0, 0), (12, 2, 1)]" "sample_net SubReactor"] pool_ok_sample
    by (auto simp: sample_io_pool_fields) (simp add: sample_net_def sample_reactor_def)
qed

end
