(* ===== verification/Hooks.thy ===== *)
theory Hooks
  imports Timer ReactorLoop
begin

text \<open>
  \<open>src/coroutine/coroutine_hook.{h,cc}\<close>: the blocking system calls as the framework makes them from a
  coroutine. The first answer of the kernel and, after the coroutine has been resumed, the second
  one are arguments. What happens while the coroutine is away is an argument too: \<^term>\<open>None\<close> when it
  is never resumed, and otherwise the thread it continues on and the state it finds.
\<close>

section \<open>The code\<close>

text \<open>\<open>toEpoll\<close>, for the two events it knows.\<close>

definition toEpoll :: "kernel \<Rightarrow> int \<Rightarrow> nat \<Rightarrow> fd_ptr \<Rightarrow> i32 \<Rightarrow> net \<Rightarrow> net option" where
  "toEpoll k caller cur_cor p evs w = do {
     w \<leftarrow> (if evs AND READ \<noteq> 0
           then do { e \<leftarrow> fd_events w p; addListenEvents k caller READ p (put_event p (setCoroutine cur_cor e) w) }
           else Some w);
     (if evs AND WRITE \<noteq> 0
      then do { e \<leftarrow> fd_events w p; addListenEvents k caller WRITE p (put_event p (setCoroutine cur_cor e) w) }
      else Some w) }"

text \<open>The lines before the first system call: the thread's reactor, and the event's if it has none.\<close>

definition hook_reactor :: "kernel \<Rightarrow> int \<Rightarrow> fd_ptr \<Rightarrow> net \<Rightarrow> net option" where
  "hook_reactor k caller p w = do {
     (r, w) \<leftarrow> GetReactor k caller w;
     e \<leftarrow> fd_events w p;
     Some (if FdEvent.getReactor e = None then put_event p (FdEvent.setReactor (Some r) e) w else w) }"

text \<open>The lines after \<open>Yield\<close>.\<close>

definition hook_resumed :: "kernel \<Rightarrow> int \<Rightarrow> fd_ptr \<Rightarrow> io_event \<Rightarrow> net \<Rightarrow> net option" where
  "hook_resumed k caller p event w = do {
     w \<leftarrow> delListenEvents k caller event p w;
     e \<leftarrow> fd_events w p;
     Some (put_event p (clearCoroutine e) w) }"

datatype hook_end = Returned int net | Away net

text \<open>
  \<open>read_hook\<close>, \<open>accept_hook\<close> and \<open>write_hook\<close> differ in the system call and in \<open>event\<close>. \<open>fl\<close> are the
  status flags of the open files.
\<close>

definition io_hook ::
  "io_event \<Rightarrow> kernel \<Rightarrow> int \<Rightarrow> bool \<Rightarrow> nat \<Rightarrow> fd_ptr \<Rightarrow> int \<Rightarrow> (net \<Rightarrow> (int \<times> net) option) \<Rightarrow> int
     \<Rightarrow> (int \<Rightarrow> i32) \<Rightarrow> net \<Rightarrow> (hook_end \<times> (int \<Rightarrow> i32)) option" where
  "io_hook event k caller is_main cur_cor p n1 while_away n2 fl w =
     (if is_main then Some (Returned n1 w, fl)
      else do {
        w \<leftarrow> hook_reactor k caller p w;
        e \<leftarrow> fd_events w p;
        let fl = setNonBlock e fl;
        if n1 > 0 then Some (Returned n1 w, fl)
        else do {
          w \<leftarrow> toEpoll k caller cur_cor p event w;
          case while_away w of
            None \<Rightarrow> Some (Away w, fl)
          | Some (caller, w) \<Rightarrow> do {
              w \<leftarrow> hook_resumed k caller p event w;
              Some (Returned n2 w, fl) } } })"

definition read_hook where "read_hook = io_hook READ"
definition accept_hook where "accept_hook = io_hook READ"
definition write_hook where "write_hook = io_hook WRITE"

text \<open>The functions that replace the system's own: \<open>g_hook\<close> decides.\<close>

definition SetHook :: "bool \<Rightarrow> bool \<Rightarrow> bool" where "SetHook v g_hook = v"

definition hooked :: "bool \<Rightarrow> 'a \<Rightarrow> 'a \<Rightarrow> 'a" where
  "hooked g_hook sys hook = (if \<not> g_hook then sys else hook)"

text \<open>
  \<open>connect_hook\<close>: the answers of the two \<open>connect\<close> calls with their \<open>errno\<close>. While the coroutine is
  away the connect timer may have fired. \<open>tm\<close> is the reactor's timer, \<open>ev\<close> the new event, \<open>now\<close> the
  clock, \<open>limit\<close> the configured timeout. The result carries \<open>errno\<close>.
\<close>

definition EINPROGRESS :: int where "EINPROGRESS = 115"
definition EISCONN :: int where "EISCONN = 106"
definition ETIMEDOUT :: int where "ETIMEDOUT = 110"

datatype connect_end =
    Connect int int net timer_state
  | ConnectAway net timer_state

definition connect_hook ::
  "kernel \<Rightarrow> int \<Rightarrow> bool \<Rightarrow> nat \<Rightarrow> fd_ptr \<Rightarrow> int \<times> int \<Rightarrow> int \<Rightarrow> nat \<Rightarrow> int
     \<Rightarrow> (net \<times> timer_state \<Rightarrow> (int \<times> bool \<times> net \<times> timer_state) option) \<Rightarrow> int \<times> int
     \<Rightarrow> net \<Rightarrow> timer_state \<Rightarrow> connect_end option" where
  "connect_hook k caller is_main cur_cor p first now ev limit while_away second w tm =
     (if is_main then Some (Connect (fst first) (snd first) w tm)
      else do {
        w \<leftarrow> hook_reactor k caller p w;
        let (n, err) = first;
        if n = 0 then Some (Connect 0 err w tm)
        else if err \<noteq> EINPROGRESS then Some (Connect n err w tm)
        else do {
          w \<leftarrow> toEpoll k caller cur_cor p WRITE w;
          let tm = tm\<lparr>events := (events tm)(ev := TimerEvent now limit False ev)\<rparr>;
          let tm = addTimerEvent now ev True tm;
          case while_away (w, tm) of
            None \<Rightarrow> Some (ConnectAway w tm)
          | Some (caller, is_timeout, w, tm) \<Rightarrow> do {
              w \<leftarrow> hook_resumed k caller p WRITE w;
              let tm = delTimerEvent ev tm;
              let (n, err) = second;
              if n < 0 \<and> err = EISCONN \<or> n = 0 then Some (Connect 0 err w tm)
              else Some (Connect (-1) (if is_timeout then ETIMEDOUT else err) w tm) } } })"

text \<open>
  \<open>sleep_hook\<close>: \<open>1000 * seconds\<close> is computed in 32 bits. Each resume of the coroutine says whether the
  timer has fired by then; the result is the number of resumes it took.
\<close>

definition sleep_interval :: "i32 \<Rightarrow> int" where
  "sleep_interval seconds = uint (1000 * seconds)"

fun sleep_wait :: "bool list \<Rightarrow> nat option" where
  "sleep_wait [] = None"
| "sleep_wait (is_timeout # resumes) = (if is_timeout then Some 1 else map_option Suc (sleep_wait resumes))"

definition sleep_hook :: "bool \<Rightarrow> i32 \<Rightarrow> int \<Rightarrow> nat \<Rightarrow> bool list \<Rightarrow> timer_state \<Rightarrow> nat option \<times> timer_state" where
  "sleep_hook is_main seconds now ev resumes tm =
     (if is_main then (Some 0, tm)
      else let tm = tm\<lparr>events := (events tm)(ev := TimerEvent now (sleep_interval seconds) False ev)\<rparr>;
               tm = addTimerEvent now ev True tm
           in (sleep_wait resumes, tm))"

section \<open>A coroutine that waits is resumed\<close>

text \<open>
  A coroutine that waits is the one its event names, and its event is in the mask: as soon as the
  kernel reports it, it is ready in the sense of the reactor's loop.
\<close>

lemma registered_frame:
  "registered caller p r (put_event p (e\<lparr>m_coroutine := c\<rparr>) w) = registered caller p r w"
  if "fd_events w p = Some e"
  using that by (simp add: registered_def put_event_def split: option.split)

lemma READ_WRITE_bits [simp]:
  "READ AND READ = READ" "WRITE AND WRITE = WRITE" "READ AND WRITE = 0" "WRITE AND READ = 0"
  "READ \<noteq> 0" "WRITE \<noteq> 0"
  by (simp_all add: READ_def WRITE_def)

text \<open>What registering leaves alone.\<close>

definition same_schedule :: "net \<Rightarrow> net \<Rightarrow> bool" where
  "same_schedule w w' \<longleftrightarrow> m_task w' = m_task w \<and> ran w' = ran w \<and> t_reactor_ptr w' = t_reactor_ptr w
     \<and> (\<forall>i. m_reactor_type (reactors w' i) = m_reactor_type (reactors w i)
          \<and> m_wake_fd (reactors w' i) = m_wake_fd (reactors w i))"

lemma addEvent_keeps [simp]:
  "m_reactor_type (addEvent fo caller fd ev b r) = m_reactor_type r"
  "m_wake_fd (addEvent fo caller fd ev b r) = m_wake_fd r"
  by (auto simp: addEvent_def addEventInLoopThread_def wakeup_def Let_def split: option.split)

lemma update_schedule:
  assumes "updateToReactor k caller p w = Some w'" and "fd_events w p = Some e" and "FdEvent.m_reactor e = Some r"
  shows "same_schedule w w'"
  using assms by (auto simp: net_defs same_schedule_def)

lemma toEpoll_schedule:
  assumes "toEpoll k caller cor p event w = Some w'" and "fd_events w p = Some e"
    and "FdEvent.m_reactor e = Some r" and "event \<in> {READ, WRITE}"
  shows "same_schedule w w'"
proof -
  let ?w = "put_event p (setCoroutine cor e) w"
  have add: "addListenEvents k caller event p ?w = Some w'"
    using assms(1,2,4) by (auto simp: toEpoll_def)
  have e1: "fd_events ?w p = Some (setCoroutine cor e)" by (simp add: put_event_def)
  show ?thesis
  proof (cases "m_listen_events (setCoroutine cor e) AND event = 0")
    case False
    then show ?thesis using add e1 by (auto simp: addListenEvents_def same_schedule_def put_event_def)
  next
    case True
    let ?e = "(setCoroutine cor e)\<lparr>m_listen_events := m_listen_events (setCoroutine cor e) OR event\<rparr>"
    have "updateToReactor k caller p (put_event p ?e ?w) = Some w'"
      using add e1 True by (simp add: addListenEvents_def)
    from update_schedule [OF this, of ?e r] assms(3) show ?thesis
      by (simp add: same_schedule_def put_event_def setCoroutine_def)
  qed
qed

lemma toEpoll_registered:
  assumes "registered caller p r w" and "event \<in> {READ, WRITE}"
  shows "\<exists>w' e'. toEpoll k caller cor p event w = Some w' \<and> registered caller p r w'
     \<and> fd_events w' p = Some e' \<and> getCoroutine e' = Some cor \<and> getListenEvents e' AND event \<noteq> 0"
proof -
  from assms(1) obtain e where e: "fd_events w p = Some e"
    by (auto simp: registered_def split: option.splits)
  let ?e = "setCoroutine cor e"
  let ?w = "put_event p ?e w"
  have reg: "registered caller p r ?w"
    using assms(1) e registered_frame [OF e] by (simp add: setCoroutine_def)
  have e1: "fd_events ?w p = Some ?e" by (simp add: put_event_def)
  have to: "toEpoll k caller cor p event w = addListenEvents k caller event p ?w"
    using assms(2) e by (auto simp: toEpoll_def)
  show ?thesis
  proof (cases "m_listen_events ?e AND event = 0")
    case False
    then have "addListenEvents k caller event p ?w = Some ?w"
      using e1 by (simp add: addListenEvents_def)
    then show ?thesis using to reg e1 False
      by (auto simp: getCoroutine_def setCoroutine_def getListenEvents_def)
  next
    case True
    from update_registered [OF reg e1 refl, where msk = "m_listen_events ?e OR event" and k = k] obtain w'
      where w': "updateToReactor k caller p (put_event p (?e\<lparr>m_listen_events := m_listen_events ?e OR event\<rparr>) ?w)
          = Some w'" "registered caller p r w'"
        "fd_events w' p = Some (?e\<lparr>m_listen_events := m_listen_events ?e OR event\<rparr>)" by blast
    moreover have "event \<noteq> 0" using assms(2) by auto
    ultimately show ?thesis using to True e1
      by (auto simp: addListenEvents_def getCoroutine_def setCoroutine_def getListenEvents_def or_flag_set)
  qed
qed

text \<open>What the reactor watches then.\<close>

lemma registered_watched:
  assumes "registered caller p r w" and "fd_events w p = Some e" and "getListenEvents e \<noteq> 0"
  shows "interest (reactors w r) (getFd e) = Some \<lparr>ev_events = getListenEvents e, ev_data = p\<rparr>"
    and "getFd e \<in> set (m_fds (reactors w r))"
  using assms by (auto simp: registered_def reactor_ok_def getFd_def getListenEvents_def split: option.splits)

lemma toEpoll_fd:
  assumes "toEpoll k caller cor p event w = Some w'" and "fd_events w p = Some e" and "fd_events w' p = Some e'"
    and "FdEvent.m_reactor e = Some r" and "event \<in> {READ, WRITE}"
  shows "getFd e' = getFd e"
  using assms
  by (auto simp: toEpoll_def addListenEvents_def updateToReactor_def own_reactor_def put_event_def on_reactor_def
      setCoroutine_def getFd_def split: if_splits)

lemma flag_reported: "event \<in> {READ, WRITE} \<Longrightarrow> m AND event \<noteq> 0 \<Longrightarrow> (event AND (READ OR WRITE)) AND NOT m = 0" for m :: i32
proof -
  have one: "(2 ^ n :: i32) AND NOT m = 0" if "m AND 2 ^ n \<noteq> 0" for n
    using that bit_eq_iff [of "m AND 2 ^ n" 0] by (intro bit_eqI) (auto simp: bit_simps)
  assume "event \<in> {READ, WRITE}" "m AND event \<noteq> 0"
  then show ?thesis using one [of 0] one [of 2] by (auto simp: READ_def WRITE_def)
qed

text \<open>What a ready event looks like: a mask with the flag, and the address of the event as data.\<close>

lemma waiting_is_ready:
  assumes "fd_events w p = Some e" and "getCoroutine e = Some cor"
    and "event \<in> {READ, WRITE}" and "evs AND event \<noteq> 0"
    and "p \<noteq> 0" and "data_fd p \<noteq> m_wake_fd (reactors w i)"
  shows "ready i w \<lparr>ev_events = evs, ev_data = p\<rparr> cor"
  using assms by (auto simp: ready_def)

lemma io_hook_immediate:
  assumes "hook_reactor k caller p w = Some w'" and "fd_events w' p = Some e" and "0 < n1"
  shows "io_hook event k caller False cor p n1 away n2 fl w = Some (Returned n1 w', setNonBlock e fl)"
  using assms by (simp add: io_hook_def)

lemma hook_reactor_registered:
  assumes "registered caller p r w" and "t_reactor_ptr w caller = Some r"
  shows "hook_reactor k caller p w = Some w"
proof -
  from assms(1) obtain e where "fd_events w p = Some e" "FdEvent.getReactor e = Some r"
    by (auto simp: registered_def FdEvent.getReactor_def split: option.splits)
  then show ?thesis using assms(2) by (simp add: hook_reactor_def GetReactor_def)
qed

section \<open>After the wait\<close>

lemma hook_resumed_clears:
  assumes "registered caller p r w" and "fd_events w p = Some e"
  shows "\<exists>w' e'. hook_resumed k caller p event w = Some w' \<and> registered caller p r w'
     \<and> fd_events w' p = Some e' \<and> getCoroutine e' = None
     \<and> getListenEvents e' = getListenEvents e AND NOT event"
proof -
  from delListenEvents_registered [OF assms, of k event] obtain w1 e1
    where w1: "delListenEvents k caller event p w = Some w1" "registered caller p r w1"
      "fd_events w1 p = Some e1" "getListenEvents e1 = m_listen_events e AND NOT event"
    by auto
  have "registered caller p r (put_event p (clearCoroutine e1) w1)"
    using registered_frame [OF w1(3)] w1(2) by (simp add: clearCoroutine_def)
  then show ?thesis using w1
    by (simp add: hook_resumed_def put_event_def clearCoroutine_def getCoroutine_def getListenEvents_def)
qed

text \<open>
  Only the last coroutine that waits for a descriptor is known to its event: when one waits to read
  and another to write, the first is not resumed by either event.
\<close>

lemma second_waiter_replaces_first:
  assumes "registered caller p r w" and "cor1 \<noteq> cor2"
  shows "\<exists>w1 w2 e. toEpoll k caller cor1 p READ w = Some w1 \<and> toEpoll k caller cor2 p WRITE w1 = Some w2
     \<and> fd_events w2 p = Some e \<and> getCoroutine e = Some cor2 \<and> getListenEvents e AND WRITE \<noteq> 0"
proof -
  from toEpoll_registered [OF assms(1), of READ k cor1] obtain w1
    where w1: "toEpoll k caller cor1 p READ w = Some w1" "registered caller p r w1" by blast
  from toEpoll_registered [OF w1(2), of WRITE k cor2] w1(1) show ?thesis by blast
qed

section \<open>Coroutines that wait in hooks\<close>

text \<open>
  \<open>waits c\<close> is the event object at which coroutine \<open>c\<close> waits, and for what. When \<open>c\<close> is resumed, it leaves its
  hook, which takes the event out of the mask and the coroutine off the object, and goes on with \<open>rest\<close>: what the
  program does until it yields again. \<open>enter_hook\<close> is such a way to go on: the next call of the same hook.
\<close>

type_synonym waiting = "nat \<Rightarrow> (fd_ptr \<times> io_event) option"

definition leave_hook :: "kernel \<Rightarrow> int \<Rightarrow> waiting \<Rightarrow> effect \<Rightarrow> net \<Rightarrow> net option" where
  "leave_hook k caller waits f w =
     (case f of
        Call _ \<Rightarrow> Some w
      | Resume c \<Rightarrow> (case waits c of None \<Rightarrow> Some w | Some (p, event) \<Rightarrow> hook_resumed k caller p event w))"

definition enter_hook :: "kernel \<Rightarrow> int \<Rightarrow> waiting \<Rightarrow> effect \<Rightarrow> net \<Rightarrow> net option" where
  "enter_hook k caller waits f w =
     (case f of
        Call _ \<Rightarrow> Some w
      | Resume c \<Rightarrow> (case waits c of
          None \<Rightarrow> Some w
        | Some (p, event) \<Rightarrow> do { w \<leftarrow> hook_reactor k caller p w; toEpoll k caller c p event w }))"

definition coroutine_act ::
  "kernel \<Rightarrow> int \<Rightarrow> waiting \<Rightarrow> (effect \<Rightarrow> net \<Rightarrow> net option) \<Rightarrow> effect \<Rightarrow> net \<Rightarrow> net option" where
  "coroutine_act k caller waits rest f w = Option.bind (leave_hook k caller waits f w) (rest f)"

text \<open>
  The thread has its reactor, and the objects at which the coroutines wait are there and name nobody else.
\<close>

definition hooks_need :: "int \<Rightarrow> waiting \<Rightarrow> schedule_inv" where
  "hooks_need caller waits cor thread \<longleftrightarrow>
     thread caller \<noteq> None
     \<and> (\<forall>c p event. waits c = Some (p, event) \<longrightarrow> cor p = Some None \<or> cor p = Some (Some c))"

lemma hook_resumed_schedule:
  assumes "fd_events w p = Some e" and "t_reactor_ptr w caller = Some r"
  shows "\<exists>w'. hook_resumed k caller p event w = Some w' \<and> same_schedule w w' \<and> cor_of w' = (cor_of w)(p := Some None)"
  using assms
  by (cases "FdEvent.m_reactor e")
     (auto simp: hook_resumed_def delListenEvents_def updateToReactor_def own_reactor_def GetReactor_def put_event_def
       on_reactor_def clearCoroutine_def getCoroutine_def same_schedule_def fun_eq_iff Let_def)

lemma enter_hook_schedule:
  assumes "fd_events w p = Some e" and "t_reactor_ptr w caller = Some r" and "event \<in> {READ, WRITE}"
  shows "\<exists>w'. Option.bind (hook_reactor k caller p w) (toEpoll k caller c p event) = Some w' \<and> same_schedule w w'
     \<and> cor_of w' = (cor_of w)(p := Some (Some c))"
  using assms
  by (cases "FdEvent.m_reactor e")
     (auto simp: hook_reactor_def toEpoll_def addListenEvents_def updateToReactor_def own_reactor_def GetReactor_def put_event_def
       on_reactor_def setCoroutine_def getCoroutine_def FdEvent.setReactor_def FdEvent.getReactor_def same_schedule_def fun_eq_iff Let_def)

lemma calm_hook:
  assumes "\<And>c p event e r w. waits c = Some (p, event) \<Longrightarrow> fd_events w p = Some e \<Longrightarrow> t_reactor_ptr w caller = Some r \<Longrightarrow>
      \<exists>w'. act (Resume c) w = Some w' \<and> same_schedule w w' \<and> (\<exists>x\<in>{None, Some c}. cor_of w' = (cor_of w)(p := Some x))"
    and "\<And>c w. waits c = None \<Longrightarrow> act (Resume c) w = Some w" and "\<And>f w. act (Call f) w = Some w"
    and "\<And>c d p ev ev'. waits c = Some (p, ev) \<Longrightarrow> waits d = Some (p, ev') \<Longrightarrow> c = d"
  shows "calm (hooks_need caller waits) act"
proof (rule calmI)
  fix f w
  assume w: "holds_inv (hooks_need caller waits) w"
  show "\<exists>w'. act f w = Some w' \<and> holds_inv (hooks_need caller waits) w' \<and> m_task w' = m_task w \<and> ran w' = ran w
     \<and> (\<forall>p d. cor_of w p = Some (Some d) \<longrightarrow> f \<noteq> Resume d \<longrightarrow> cor_of w' p = Some (Some d))
     \<and> (\<forall>i. m_reactor_type (reactors w' i) = m_reactor_type (reactors w i))"
  proof (cases "\<exists>c p event. f = Resume c \<and> waits c = Some (p, event)")
    case False
    then have "act f w = Some w" using assms(2,3) by (cases f) (auto, metis not_Some_eq prod.exhaust)
    with w show ?thesis by auto
  next
    case True
    then obtain c p event where f: "f = Resume c" "waits c = Some (p, event)" by blast
    have cor: "cor_of w p = Some None \<or> cor_of w p = Some (Some c)"
      using w f(2) unfolding holds_inv_def hooks_need_def by blast
    obtain r where r: "t_reactor_ptr w caller = Some r" using w by (auto simp: holds_inv_def hooks_need_def)
    obtain e where "fd_events w p = Some e" using cor by auto
    from assms(1) [OF f(2) this r] obtain w' x where w': "act f w = Some w'" "same_schedule w w'"
      "x \<in> {None, Some c}" "cor_of w' = (cor_of w)(p := Some x)" unfolding f(1) by blast
    have "holds_inv (hooks_need caller waits) w'"
      using w w'(2,3) assms(4) f(2) unfolding holds_inv_def hooks_need_def w'(4) same_schedule_def fun_upd_def by force
    moreover have "cor_of w' q = Some (Some d)" if "cor_of w q = Some (Some d)" "f \<noteq> Resume d" for q d
    proof (cases "q = p")
      case True
      then show ?thesis using that cor f(1) by auto
    next
      case False
      then show ?thesis using fun_cong [OF w'(4), of q] that(1) by simp
    qed
    ultimately show ?thesis using w'(1,2) by (auto simp: same_schedule_def)
  qed
qed

definition one_each :: "waiting \<Rightarrow> bool" where
  "one_each waits \<longleftrightarrow> (\<forall>c d p ev ev'. waits c = Some (p, ev) \<and> waits d = Some (p, ev') \<longrightarrow> c = d)
     \<and> (\<forall>c p ev. waits c = Some (p, ev) \<longrightarrow> ev \<in> {READ, WRITE})"

lemma one_eachD: "one_each waits \<Longrightarrow> waits c = Some (p, ev) \<Longrightarrow> waits d = Some (p, ev') \<Longrightarrow> c = d"
  unfolding one_each_def by blast

lemma leave_hook_calm:
  assumes "one_each waits"
  shows "calm (hooks_need caller waits) (leave_hook k caller waits)"
proof (rule calm_hook)
  fix c :: nat and p event e r and w :: net
  assume c: "waits c = Some (p, event)" and w: "fd_events w p = Some e" "t_reactor_ptr w caller = Some r"
  from hook_resumed_schedule [OF w, of k event] c
  show "\<exists>w'. leave_hook k caller waits (Resume c) w = Some w' \<and> same_schedule w w'
      \<and> (\<exists>x\<in>{None, Some c}. cor_of w' = (cor_of w)(p := Some x))"
    by (simp add: leave_hook_def) blast
qed (simp add: leave_hook_def, simp add: leave_hook_def, rule one_eachD [OF assms])

lemma enter_hook_calm:
  assumes "one_each waits"
  shows "calm (hooks_need caller waits) (enter_hook k caller waits)"
proof (rule calm_hook)
  fix c :: nat and p event e r and w :: net
  assume c: "waits c = Some (p, event)" and w: "fd_events w p = Some e" "t_reactor_ptr w caller = Some r"
  have "event \<in> {READ, WRITE}" using assms c by (auto simp: one_each_def)
  from enter_hook_schedule [OF w this, of k c] c
  show "\<exists>w'. enter_hook k caller waits (Resume c) w = Some w' \<and> same_schedule w w'
      \<and> (\<exists>x\<in>{None, Some c}. cor_of w' = (cor_of w)(p := Some x))"
    by (simp add: enter_hook_def) blast
qed (simp add: enter_hook_def, simp add: enter_hook_def, rule one_eachD [OF assms])

lemma coroutine_act_calm:
  "one_each waits \<Longrightarrow> calm (hooks_need caller waits) rest \<Longrightarrow> calm (hooks_need caller waits) (coroutine_act k caller waits rest)"
  using calm_seq [OF leave_hook_calm] unfolding coroutine_act_def [abs_def] by blast

text \<open>
  C10: Every ready coroutine is resumed. When \<open>epoll_wait\<close> of an io thread reports events
  for which coroutines wait in hooks, the first of them is resumed in the next turn by this thread itself, the
  others are put on the shared queue in the order of the events, and while no other thread touches that queue,
  the same turn resumes all of them in that order before it waits again. Each resumed coroutine leaves
  its hook, which clears its own event, and then does what it likes, except to the queue and to the events at which
  others wait.
\<close>

theorem sub_reactor_resumes_ready:
  fixes k :: kernel
  assumes "one_each waits" and "calm (hooks_need caller waits) rest" and "holds_inv (hooks_need caller waits) w"
    and "m_reactor_type (reactors w this) = SubReactor" and "m_task w = []"
    and "list_all2 (ready this w) evs cs" and "cs \<noteq> []" and "distinct cs"
  defines "act \<equiv> coroutine_act k caller waits rest"
  shows "\<exists>w1 w2. after_wait act this (Ready evs) w = Some (Some (hd cs), w1)
           \<and> m_task w1 = map ev_data (tl evs) \<and> ran w1 = ran w
           \<and> before_wait act this (Some (hd cs)) w1 = Some w2
           \<and> m_task w2 = [] \<and> prefix (ran w @ map Resume cs) (ran w2)"
  unfolding act_def by (rule sub_reactor_resumes [OF coroutine_act_calm [OF assms(1,2)] assms(3,4,6-8,5)])

text \<open>
  C15: A coroutine that waits in a hooked system call is resumed. When the first call of the kernel
  finds nothing, the coroutine goes away without anything being run, and the kernel watches its descriptor: the
  entry of the interest list has the address of the event object and asks for the awaited event, so that \<open>epoll_wait\<close>
  may report it. Whatever the kernel then reports of this entry with the awaited event, the turn of the io thread's
  reactor that follows resumes this coroutine.
\<close>

theorem waiting_coroutine_is_resumed:
  fixes k :: kernel and cor :: nat
  assumes "registered caller p i w" and "t_reactor_ptr w caller = Some i" and "fd_events w p = Some e"
    and "event \<in> {READ, WRITE}" and "n1 \<le> 0"
    and "m_reactor_type (reactors w i) = SubReactor" and "m_task w = []"
    and "p \<noteq> 0" and "data_fd p \<noteq> m_wake_fd (reactors w i)"
    and "calm (hooks_need caller [cor \<mapsto> (p, event)]) rest"
  defines "act \<equiv> coroutine_act k caller [cor \<mapsto> (p, event)] rest"
  shows "\<exists>parked fl' watched.
     io_hook event k caller False cor p n1 (\<lambda>_. None) n2 fl w = Some (Away parked, fl')
     \<and> ran parked = ran w
     \<and> interest (reactors parked i) (getFd e) = Some watched
     \<and> ev_data watched = p \<and> ev_events watched AND event \<noteq> 0
     \<and> reported (reactors parked i) [\<lparr>ev_events = event, ev_data = p\<rparr>]
     \<and> (\<forall>ev. ev_data ev = ev_data watched \<and> ev_events ev AND event \<noteq> 0 \<longrightarrow>
          (\<exists>w1 w2. after_wait act i (Ready [ev]) parked = Some (Some cor, w1)
             \<and> before_wait act i (Some cor) w1 = Some w2
             \<and> prefix (ran w @ [Resume cor]) (ran w2)))"
proof -
  from assms(1,3) have r: "FdEvent.m_reactor e = Some i"
    by (auto simp: registered_def)
  note hook = hook_reactor_registered [OF assms(1,2), of k]
  from toEpoll_registered [OF assms(1,4), of k cor] obtain w0 e0
    where w0: "toEpoll k caller cor p event w = Some w0" "registered caller p i w0" "fd_events w0 p = Some e0"
      "getCoroutine e0 = Some cor" "getListenEvents e0 AND event \<noteq> 0"
    by blast
  have same: "same_schedule w w0" by (rule toEpoll_schedule [OF w0(1) assms(3) r assms(4)])
  then have sched: "m_reactor_type (reactors w0 i) = SubReactor" "m_task w0 = []" "ran w0 = ran w"
    "data_fd p \<noteq> m_wake_fd (reactors w0 i)" "t_reactor_ptr w0 = t_reactor_ptr w"
    using assms(6,7,9) by (simp_all add: same_schedule_def)
  have fd: "getFd e0 = getFd e" by (rule toEpoll_fd [OF w0(1) assms(3) w0(3) r assms(4)])
  have "getListenEvents e0 \<noteq> 0" using w0(5) by auto
  from registered_watched [OF w0(2,3) this]
  have watch: "interest (reactors w0 i) (getFd e) = Some \<lparr>ev_events = getListenEvents e0, ev_data = p\<rparr>"
    "getFd e \<in> set (m_fds (reactors w0 i))" by (simp_all add: fd)
  have report: "reported (reactors w0 i) [\<lparr>ev_events = event, ev_data = p\<rparr>]"
    using watch flag_reported [OF assms(4) w0(5)] by (auto simp: reported_def intro!: bexI [of _ "getFd e"])
  have "one_each [cor \<mapsto> (p, event)]" using assms(4) by (auto simp: one_each_def split: if_splits)
  note calm = coroutine_act_calm [OF this assms(10), of k]
  have need: "holds_inv (hooks_need caller [cor \<mapsto> (p, event)]) w0"
    using w0(3,4) assms(2) by (simp add: holds_inv_def hooks_need_def sched(5) del: fun_upd_apply) simp
  have "\<exists>w1 w2. after_wait act i (Ready [ev]) w0 = Some (Some cor, w1)
      \<and> before_wait act i (Some cor) w1 = Some w2 \<and> prefix (ran w @ [Resume cor]) (ran w2)"
    if ev: "ev_data ev = p" "ev_events ev AND event \<noteq> 0" for ev
  proof -
    have "ready i w0 \<lparr>ev_events = ev_events ev, ev_data = p\<rparr> cor"
      by (rule waiting_is_ready [OF w0(3,4) assms(4) ev(2) assms(8) sched(4)])
    moreover have "\<lparr>ev_events = ev_events ev, ev_data = p\<rparr> = ev" using ev(1) by simp
    ultimately have "list_all2 (ready i w0) [ev] [cor]" by simp
    from sub_reactor_resumes [OF calm need sched(1) this _ _ sched(2)] sched(3) show ?thesis by (auto simp: act_def)
  qed
  moreover have "io_hook event k caller False cor p n1 (\<lambda>_. None) n2 fl w = Some (Away w0, setNonBlock e fl)"
    using assms(3,5) hook w0(1) by (simp add: io_hook_def)
  ultimately show ?thesis using sched(3) watch(1) w0(5) report by (intro exI conjI) auto
qed

section \<open>Timeouts\<close>

lemma sleep_wraps: "sleep_interval 4294968 = 704"
  by (simp add: sleep_interval_def)

lemma sleep_interval_exact: "unat s \<le> 4294967 \<Longrightarrow> sleep_interval s = 1000 * uint s"
proof -
  assume "unat s \<le> 4294967"
  then have "uint s \<le> 4294967" by (metis of_nat_le_iff of_nat_numeral uint_nat)
  then have "1000 * uint s < 2 ^ LENGTH(32)" by simp
  then show ?thesis by (simp add: sleep_interval_def uint_word_ariths mod_pos_pos_trivial)
qed

lemma sleep_wait_first: "sleep_wait (replicate n False @ True # rest) = Some (Suc n)"
  by (induction n) simp_all

text \<open>
  A connect that times out. Its timer event has run, so it is not pending any more; deleting it
  takes the next later event off the timer instead, whoever it belongs to.
\<close>

text \<open>
  A connect that times out deletes another timer event. The event of the timeout has already left
  the queue when \<open>connect_hook\<close> deletes it, and the deletion takes the first later event
  of that thread with it.
\<close>

theorem connect_timeout_drops_next_timer:
  assumes "registered caller p i w" and "t_reactor_ptr w caller = Some i"
    and "registered caller' p j w1" and "timer_ok tm1" and "ev \<notin> snd ` set (m_pending_events tm1)"
    and "filter (\<lambda>e. m_arrive_time (events tm1 ev) < fst e) (m_pending_events tm1) = e # later"
    and "n < 0" and "err \<noteq> EISCONN"
  shows "\<exists>w2 tm2. connect_hook k caller False cor p (-1, EINPROGRESS) now ev limit
       (\<lambda>_. Some (caller', True, w1, tm1)) (n, err) w tm = Some (Connect (-1) ETIMEDOUT w2 tm2)
     \<and> m_pending_events tm2
         = filter (\<lambda>e. fst e \<le> m_arrive_time (events tm1 ev)) (m_pending_events tm1) @ later"
proof -
  note hook = hook_reactor_registered [OF assms(1,2), of k]
  from toEpoll_registered [OF assms(1), of WRITE k cor] obtain w0
    where w0: "toEpoll k caller cor p WRITE w = Some w0" by blast
  from assms(3) obtain e1 where e1: "fd_events w1 p = Some e1"
    by (auto simp: registered_def split: option.splits)
  from hook_resumed_clears [OF assms(3) e1, of k WRITE] obtain w2
    where w2: "hook_resumed k caller' p WRITE w1 = Some w2" by blast
  have "connect_hook k caller False cor p (-1, EINPROGRESS) now ev limit
       (\<lambda>_. Some (caller', True, w1, tm1)) (n, err) w tm
      = Some (Connect (-1) ETIMEDOUT w2 (delTimerEvent ev tm1))"
    using assms(7,8) hook w0 w2 by (simp add: connect_hook_def Let_def)
  then show ?thesis using delTimerEvent_not_pending [OF assms(4-6)] by blast
qed

section \<open>Concrete calls\<close>

text \<open>The connection on descriptor 8, on which nothing is awaited yet.\<close>

definition sample_kernel :: kernel where
  "sample_kernel = \<lparr>boot_epfd = 3, boot_wake = 4\<rparr>"

definition idle_net :: net where
  "idle_net =
     (sample_net SubReactor)\<lparr>reactors := (\<lambda>_. (sample_reactor SubReactor)\<lparr>m_fds := [5], interest := [5 \<mapsto> \<lparr>ev_events = READ, ev_data = 5\<rparr>]\<rparr>)\<rparr>"

lemma idle_net_fields:
  "registered 7 16 0 idle_net" "t_reactor_ptr idle_net 7 = Some 0"
  "m_reactor_type (reactors idle_net 0) = SubReactor" "m_task idle_net = []" "ran idle_net = []"
  "data_fd 16 \<noteq> m_wake_fd (reactors idle_net 0)"
  by (auto simp: idle_net_def registered_def sample_net_def sample_reactor_def reactor_ok_def
      setCoroutine_def FdEvent_def data_fd_def)

text \<open>Two readers, on the descriptors 8 and 9, that call \<open>read_hook\<close> again as soon as they are resumed.\<close>

definition readers :: waiting where
  "readers = [11 \<mapsto> (16, READ), 12 \<mapsto> (32, READ)]"

lemma one_each_readers: "one_each readers" "one_each [11 \<mapsto> (16, READ)]"
  by (auto simp: one_each_def readers_def split: if_splits)

lemma readers_need: "holds_inv (hooks_need 7 readers) (sample_net t)"
  by (auto simp: holds_inv_def hooks_need_def readers_def sample_net_def setCoroutine_def getCoroutine_def FdEvent_def split: if_splits)

lemma readers_calm:
  "calm (hooks_need 7 readers) (enter_hook sample_kernel 7 readers)"
  "calm (hooks_need 7 [11 \<mapsto> (16, READ)]) (enter_hook sample_kernel 7 [11 \<mapsto> (16, READ)])"
  by (rule enter_hook_calm, rule one_each_readers)+

theorem sub_reactor_resumes_ready_witness:
  "\<exists>w1 w2. after_wait (coroutine_act sample_kernel 7 readers (enter_hook sample_kernel 7 readers)) 0
       (Ready [\<lparr>ev_events = READ, ev_data = 16\<rparr>, \<lparr>ev_events = READ, ev_data = 32\<rparr>]) (sample_net SubReactor) = Some (Some 11, w1)
     \<and> m_task w1 = [32]
     \<and> before_wait (coroutine_act sample_kernel 7 readers (enter_hook sample_kernel 7 readers)) 0 (Some 11) w1 = Some w2
     \<and> prefix [Resume 11, Resume 12] (ran w2)"
  using sub_reactor_resumes_ready [OF one_each_readers(1) readers_calm(1) readers_need, of SubReactor 0
      "[\<lparr>ev_events = READ, ev_data = 16\<rparr>, \<lparr>ev_events = READ, ev_data = 32\<rparr>]" "[11, 12]" sample_kernel]
  by (auto simp: sample_ready)

theorem waiting_coroutine_is_resumed_witness:
  "\<exists>parked fl' w1 w2. read_hook sample_kernel 7 False 11 16 (-1) (\<lambda>_. None) 0 (\<lambda>_. 0) idle_net = Some (Away parked, fl')
     \<and> interest (reactors parked 0) 8 \<noteq> None
     \<and> after_wait (coroutine_act sample_kernel 7 [11 \<mapsto> (16, READ)] (enter_hook sample_kernel 7 [11 \<mapsto> (16, READ)])) 0
         (Ready [\<lparr>ev_events = READ, ev_data = 16\<rparr>]) parked = Some (Some 11, w1)
     \<and> before_wait (coroutine_act sample_kernel 7 [11 \<mapsto> (16, READ)] (enter_hook sample_kernel 7 [11 \<mapsto> (16, READ)])) 0
         (Some 11) w1 = Some w2 \<and> prefix [Resume 11] (ran w2)"
proof -
  have e: "fd_events idle_net 16 = Some (setCoroutine 11 (FdEvent (Some 0) 8))"
    "getFd (setCoroutine 11 (FdEvent (Some 0) 8)) = 8"
    by (simp_all add: idle_net_def sample_net_def getFd_def setCoroutine_def FdEvent_def)
  show ?thesis
    using waiting_coroutine_is_resumed [OF idle_net_fields(1,2) e(1), of READ "-1" 11
        "enter_hook sample_kernel 7 [11 \<mapsto> (16, READ)]" sample_kernel 0 "\<lambda>_. 0",
        OF _ _ idle_net_fields(3,4) _ idle_net_fields(6) readers_calm(2)]
      idle_net_fields(5)
    unfolding read_hook_def e(2) by force
qed

text \<open>The main reactor, with the same two readers, forgets the first of them.\<close>

theorem main_reactor_forgets_first_witness:
  "\<exists>w'. after_wait (coroutine_act sample_kernel 7 readers (enter_hook sample_kernel 7 readers)) 0
       (Ready [\<lparr>ev_events = READ, ev_data = 16\<rparr>, \<lparr>ev_events = READ, ev_data = 32\<rparr>])
       (sample_net MainReactor) = Some (None, w') \<and> ran w' = [Resume 12]"
  using main_reactor_forgets_first [OF coroutine_act_calm [OF one_each_readers(1) readers_calm(1), of sample_kernel]
      readers_need, of MainReactor 0 "\<lparr>ev_events = READ, ev_data = 16\<rparr>" 11 "\<lparr>ev_events = READ, ev_data = 32\<rparr>" 12]
  by (auto simp: sample_ready)

definition sample_timeout :: timer_state where
  "sample_timeout =
     \<lparr>events = (\<lambda>i. TimerEvent (10 * int i) 0 False i), m_pending_events = [(20, 2), (30, 3)], armed = Some 20\<rparr>"

theorem connect_timeout_drops_next_timer_witness:
  "\<exists>w2 tm2. connect_hook sample_kernel 7 False 11 16 (-1, EINPROGRESS) 0 1 10
       (\<lambda>_. Some (7, True, idle_net, sample_timeout)) (-1, 115) idle_net sample_timeout
       = Some (Connect (-1) ETIMEDOUT w2 tm2)
     \<and> m_pending_events tm2 = [(30, 3)]"
  using connect_timeout_drops_next_timer [OF idle_net_fields(1,2) idle_net_fields(1), of sample_timeout 1
      "(20, 2)" "[(30, 3)]" "-1" 115 sample_kernel 11 0 10 sample_timeout]
  by (simp add: sample_timeout_def timer_ok_def mm_ok_def TimerEvent_def EISCONN_def)

end
