(* ===== verification/Scheduling.thy ===== *)
theory Scheduling
  imports Hooks
begin

text \<open>
  Several io threads and the coroutines that they run. Each thread is at a place of \<open>Reactor::loop\<close>
  (\<open>src/net/reactor.cc\<close>) or in a coroutine; a coroutine in a hooked call has two steps, the registration
  (\<open>toEpoll\<close> of \<open>src/coroutine/coroutine_hook.cc\<close>) and the \<open>Yield\<close> behind it, between which other threads
  run. The operations on reactors, event objects and the shared queue are those of the theories \<open>Reactor\<close>,
  \<open>ReactorLoop\<close> and \<open>Hooks\<close>; here they are interleaved.
\<close>

section \<open>The code\<close>

text \<open>
  Where a thread is: at the top of the loop with \<open>first_coroutine\<close>, in the loop over the queue, in that over
  the tasks, in \<open>epoll_wait\<close>, in the loop over \<open>re_events\<close> with those still to come and
  \<open>first_coroutine\<close>, or in a coroutine, with the place to which the \<open>Yield\<close> of the coroutine returns.
\<close>

datatype place =
    AtTop "nat option"
  | InQueue
  | InTasks
  | InWait
  | Handling "epoll_event list" "nat option"
  | Runs nat place

text \<open>
  Where a coroutine is: not run yet; running on a thread; behind the registration for an event on a
  thread, not yet at the \<open>Yield\<close>; parked with that registration; resumed from it on a thread, before the
  lines that take it back; at its end.
\<close>

datatype coroutine_at =
    NotRun
  | On nat
  | Leaving nat fd_ptr io_event
  | Parked fd_ptr io_event
  | Resumed nat fd_ptr io_event
  | Ended

text \<open>\<open>clashed\<close>: \<open>Coroutine::Resume\<close> was called for a coroutine that some thread still ran, or that had ended.\<close>

record sched =
  net_of :: net
  at_place :: "nat \<Rightarrow> place"
  cors :: "nat \<Rightarrow> coroutine_at"
  clashed :: bool

definition go_to :: "nat \<Rightarrow> place \<Rightarrow> sched \<Rightarrow> sched" where
  "go_to i pl s = s\<lparr>at_place := (at_place s)(i := pl)\<rparr>"

definition cor_to :: "nat \<Rightarrow> coroutine_at \<Rightarrow> sched \<Rightarrow> sched" where
  "cor_to c st s = s\<lparr>cors := (cors s)(c := st)\<rparr>"

definition Resume_on :: "nat \<Rightarrow> nat \<Rightarrow> place \<Rightarrow> sched \<Rightarrow> sched" where
  "Resume_on i c back_to s =
     (case cors s c of
        NotRun \<Rightarrow> go_to i (Runs c back_to) (cor_to c (On i) s)
      | Parked p ev \<Rightarrow> go_to i (Runs c back_to) (cor_to c (Resumed i p ev) s)
      | _ \<Rightarrow> s\<lparr>clashed := True\<rparr>)"

text \<open>
  The steps of thread \<open>i\<close>. \<open>Start i c\<close> is a task that \<open>addCoroutine\<close> has posted for a new coroutine.
  Callbacks and tasks of other kinds do nothing to what is described here.
\<close>

datatype sched_op =
    Top nat
  | PopQueue nat
  | Start nat nat
  | TasksDone nat
  | WaitReturns nat "epoll_event list"
  | HandleNext nat
  | TurnEnds nat
  | Registers nat fd_ptr io_event
  | Yields nat
  | GoesOn nat
  | Finishes nat

definition op_thread :: "sched_op \<Rightarrow> nat" where
  "op_thread a = (case a of Top i \<Rightarrow> i | PopQueue i \<Rightarrow> i | Start i _ \<Rightarrow> i | TasksDone i \<Rightarrow> i | WaitReturns i _ \<Rightarrow> i
     | HandleNext i \<Rightarrow> i | TurnEnds i \<Rightarrow> i | Registers i _ _ \<Rightarrow> i | Yields i \<Rightarrow> i | GoesOn i \<Rightarrow> i | Finishes i \<Rightarrow> i)"

definition running_on :: "nat \<Rightarrow> sched \<Rightarrow> (nat \<times> place) option" where
  "running_on i s = (case at_place s i of Runs c pl \<Rightarrow> Some (c, pl) | _ \<Rightarrow> None)"

fun sched_do :: "kernel \<Rightarrow> sched_op \<Rightarrow> sched \<Rightarrow> sched option" where
  "sched_do k (Top i) s =
     (case at_place s i of
        AtTop None \<Rightarrow> Some (go_to i InQueue s)
      | AtTop (Some c) \<Rightarrow> Some (Resume_on i c (AtTop None) s)
      | _ \<Rightarrow> None)"
| "sched_do k (PopQueue i) s =
     (if at_place s i \<noteq> InQueue then None
      else case queue_pop (m_task (net_of s)) of
        (None, _) \<Rightarrow> Some (go_to i InTasks s)
      | (Some p, q) \<Rightarrow> do {
          e \<leftarrow> fd_events (net_of s) p;
          let s = s\<lparr>net_of := put_event p (setReactor (Some i) e) ((net_of s)\<lparr>m_task := q\<rparr>)\<rparr>;
          Some (case getCoroutine e of None \<Rightarrow> s | Some c \<Rightarrow> Resume_on i c InQueue s) })"
| "sched_do k (Start i c) s =
     (if at_place s i = InTasks \<and> cors s c = NotRun then Some (Resume_on i c InTasks s) else None)"
| "sched_do k (TasksDone i) s = (if at_place s i = InTasks then Some (go_to i InWait s) else None)"
| "sched_do k (WaitReturns i evs) s =
     (if at_place s i = InWait \<and> reported (reactors (net_of s) i) evs then Some (go_to i (Handling evs None) s) else None)"
| "sched_do k (HandleNext i) s =
     (case at_place s i of
        Handling (ev # evs) fc \<Rightarrow> do {
          (fc, w) \<leftarrow> handle_event (\<lambda>_. Some) i ev (fc, net_of s);
          Some (go_to i (Handling evs fc) (s\<lparr>net_of := w\<rparr>)) }
      | _ \<Rightarrow> None)"
| "sched_do k (TurnEnds i) s =
     (case at_place s i of
        Handling [] fc \<Rightarrow>
          Some (go_to i (AtTop fc) (s\<lparr>net_of := on_reactor i (apply_pending (opened (net_of s))) (net_of s)\<rparr>))
      | _ \<Rightarrow> None)"
| "sched_do k (Registers i p ev) s = do {
     (c, pl) \<leftarrow> running_on i s;
     if cors s c \<noteq> On i then None
     else do {
       let caller = m_tid (reactors (net_of s) i);
       w \<leftarrow> hook_reactor k caller p (net_of s);
       w \<leftarrow> toEpoll k caller c p ev w;
       Some (cor_to c (Leaving i p ev) (s\<lparr>net_of := w\<rparr>)) } }"
| "sched_do k (Yields i) s = do {
     (c, pl) \<leftarrow> running_on i s;
     case cors s c of Leaving j p ev \<Rightarrow> Some (go_to i pl (cor_to c (Parked p ev) s)) | _ \<Rightarrow> None }"
| "sched_do k (GoesOn i) s = do {
     (c, pl) \<leftarrow> running_on i s;
     case cors s c of
       Resumed j p ev \<Rightarrow> do {
         w \<leftarrow> hook_resumed k (m_tid (reactors (net_of s) i)) p ev (net_of s);
         Some (cor_to c (On i) (s\<lparr>net_of := w\<rparr>)) }
     | _ \<Rightarrow> None }"
| "sched_do k (Finishes i) s = do {
     (c, pl) \<leftarrow> running_on i s;
     if cors s c = On i then Some (go_to i pl (cor_to c Ended s)) else None }"

text \<open>
  The steps of the threads in \<open>ts\<close>, up to a clash. A coroutine waits for an event that no other one waits
  for. With \<open>own\<close>, it waits only for an event that has no reactor yet or that of the thread on which the
  coroutine runs.
\<close>

definition may_register :: "bool \<Rightarrow> sched_op \<Rightarrow> sched \<Rightarrow> bool" where
  "may_register own a s =
     (case a of
        Registers i p ev \<Rightarrow>
          ev \<in> {READ, WRITE}
          \<and> (case fd_events (net_of s) p of
               None \<Rightarrow> False
             | Some e \<Rightarrow> getCoroutine e = None \<and> (own \<longrightarrow> FdEvent.getReactor e \<in> {None, Some i}))
      | _ \<Rightarrow> True)"

inductive sched_step :: "kernel \<Rightarrow> nat set \<Rightarrow> bool \<Rightarrow> sched \<Rightarrow> sched \<Rightarrow> bool" for k ts own where
  sched_stepI: "\<not> clashed s \<Longrightarrow> op_thread a \<in> ts \<Longrightarrow> may_register own a s \<Longrightarrow> sched_do k a s = Some t
    \<Longrightarrow> sched_step k ts own s t"

text \<open>A sequence of steps, computed.\<close>

fun sched_run :: "kernel \<Rightarrow> nat list \<Rightarrow> bool \<Rightarrow> sched_op list \<Rightarrow> sched \<Rightarrow> sched option" where
  "sched_run k ts own [] s = Some s"
| "sched_run k ts own (a # as) s =
     (if \<not> clashed s \<and> op_thread a \<in> set ts \<and> may_register own a s
      then do { t \<leftarrow> sched_do k a s; sched_run k ts own as t } else None)"

lemma sched_run_steps: "sched_run k ts own as s = Some t \<Longrightarrow> (sched_step k (set ts) own)\<^sup>*\<^sup>* s t"
proof (induction as arbitrary: s)
  case (Cons a as)
  then obtain u where "sched_step k (set ts) own s u" "sched_run k ts own as u = Some t"
    by (auto simp: bind_eq_Some_iff split: if_splits intro: sched_stepI)
  with Cons.IH show ?case by (blast intro: converse_rtranclp_into_rtranclp)
qed simp

section \<open>A run that clashes\<close>

text \<open>
  Two threads with their reactors 0 and 1, and the events 16, 32 and 48 of the descriptors 8, 9 and 10,
  new and without a reactor.
\<close>

definition two_reactors :: "nat \<Rightarrow> reactor" where
  "two_reactors i =
     \<lparr>m_wake_fd = 5 + int i, m_timer_fd = -1, m_stop_flag = False, m_is_looping = True, m_tid = 7 + int i,
      m_fds = [5 + int i], m_pending_add_fds = [], m_pending_del_fds = [], m_pending_tasks = [], m_timer = None,
      m_reactor_type = SubReactor,
      interest = [5 + int i \<mapsto> \<lparr>ev_events = READ, ev_data = fd_data (5 + int i)\<rparr>], wake_count = 0\<rparr>"

definition two_threads :: sched where
  "two_threads =
     \<lparr>net_of = \<lparr>reactors = two_reactors, fd_events = [16 \<mapsto> FdEvent None 8, 32 \<mapsto> FdEvent None 9, 48 \<mapsto> FdEvent None 10],
        m_task = [], t_reactor_ptr = [7 \<mapsto> 0, 8 \<mapsto> 1], next_reactor = 2, opened = (\<lambda>_. True), ran = []\<rparr>,
      at_place = (\<lambda>_. AtTop None), cors = (\<lambda>_. NotRun), clashed = False\<rparr>"

definition no_kernel :: kernel where "no_kernel = \<lparr>boot_epfd = 3, boot_wake = 4\<rparr>"

text \<open>
  Coroutine 1 reads the descriptor 8 on thread 0, and then, still there, waits for 9, like coroutine 2 for
  10. Both are ready at once: 2 is the first and 1 goes to the queue, from which thread 1 takes it. There it
  reads 8 again, whose event belongs to the reactor of thread 0. That thread may be told of the
  data before the coroutine has yielded on thread 1.
\<close>

definition clash_run :: "sched_op list" where
  "clash_run =
     [Top 0, PopQueue 0, Start 0 1, Registers 0 16 READ, Yields 0, TasksDone 0,
      WaitReturns 0 [\<lparr>ev_events = READ, ev_data = 16\<rparr>], HandleNext 0, TurnEnds 0, Top 0, GoesOn 0, Registers 0 32 READ,
      Yields 0, Top 0, PopQueue 0, Start 0 2, Registers 0 48 READ, Yields 0, TasksDone 0,
      WaitReturns 0 [\<lparr>ev_events = READ, ev_data = 48\<rparr>, \<lparr>ev_events = READ, ev_data = 32\<rparr>], HandleNext 0, HandleNext 0,
      Top 1, PopQueue 1, GoesOn 1, Registers 1 16 READ,
      TurnEnds 0, Top 0, GoesOn 0, Finishes 0, Top 0, PopQueue 0, TasksDone 0,
      WaitReturns 0 [\<lparr>ev_events = READ, ev_data = 16\<rparr>], HandleNext 0, TurnEnds 0]"

section \<open>What a step does to the reactors\<close>

text \<open>What stays of a reactor while it and other threads work on its descriptors.\<close>

definition same_thread :: "reactor \<Rightarrow> reactor \<Rightarrow> bool" where
  "same_thread r r' \<longleftrightarrow>
     m_tid r' = m_tid r \<and> m_reactor_type r' = m_reactor_type r \<and> m_wake_fd r' = m_wake_fd r
     \<and> m_pending_add_fds r' = m_pending_add_fds r \<and> m_pending_del_fds r' = m_pending_del_fds r"

text \<open>
  \<open>event_moves i p e w w'\<close>: the event at \<open>p\<close> becomes \<open>e\<close>, and on reactor \<open>i\<close> registrations may go, and one of
  this event come.
\<close>

definition event_moves :: "nat \<Rightarrow> fd_ptr \<Rightarrow> fd_event \<Rightarrow> net \<Rightarrow> net \<Rightarrow> bool" where
  "event_moves i p e w w' \<longleftrightarrow>
     fd_events w' = (fd_events w)(p \<mapsto> e) \<and> m_task w' = m_task w \<and> t_reactor_ptr w' = t_reactor_ptr w
     \<and> (\<forall>j. j \<noteq> i \<longrightarrow> reactors w' j = reactors w j) \<and> same_thread (reactors w i) (reactors w' i)
     \<and> (net_ok w \<longrightarrow> net_ok w')
     \<and> (\<forall>fd reg. interest (reactors w' i) fd = Some reg \<longrightarrow>
          interest (reactors w i) fd = Some reg \<or> fd = m_fd e \<and> ev_data reg = p)"

definition quiet :: "nat \<Rightarrow> net \<Rightarrow> net \<Rightarrow> bool" where
  "quiet i w w' \<longleftrightarrow>
     fd_events w' = fd_events w \<and> m_task w' = m_task w \<and> t_reactor_ptr w' = t_reactor_ptr w
     \<and> (\<forall>j. j \<noteq> i \<longrightarrow> reactors w' j = reactors w j) \<and> same_thread (reactors w i) (reactors w' i)
     \<and> (net_ok w \<longrightarrow> net_ok w')
     \<and> (\<forall>fd reg. interest (reactors w' i) fd = Some reg \<longrightarrow> interest (reactors w i) fd = Some reg)"

lemma same_thread_refl [simp]: "same_thread r r"
  by (simp add: same_thread_def)

lemma event_moves_put: "event_moves i p e w (put_event p e w)"
  by (simp add: event_moves_def put_event_def net_ok_def)

lemma event_moves_trans:
  "event_moves i p e1 w w1 \<Longrightarrow> event_moves i p e2 w1 w2 \<Longrightarrow> m_fd e1 = m_fd e2 \<Longrightarrow> event_moves i p e2 w w2"
  unfolding event_moves_def same_thread_def by (simp add: fun_upd_upd) metis

lemma interest_addEvent:
  "interest (addEventInLoopThread fo fd ev r) f = Some reg \<Longrightarrow> interest r f = Some reg \<or> f = fd \<and> reg = ev"
  by (auto simp: addEventInLoopThread_def epoll_ctl_def Let_def split: if_splits option.splits epoll_op.splits)

lemma same_thread_add: "same_thread r (addEventInLoopThread fo fd ev r)"
  by (auto simp: same_thread_def addEventInLoopThread_def Let_def split: option.split)

lemma same_thread_del: "same_thread r (delEventInLoopThread fo fd r)"
  by (auto simp: same_thread_def delEventInLoopThread_def Let_def split: option.split)

lemma update_moves:
  assumes "fd_events w p = Some e" "FdEvent.m_reactor e = Some i" "updateToReactor k (m_tid (reactors w i)) p w = Some w'"
  shows "event_moves i p e w w'"
proof -
  let ?r = "addEvent (opened w) (m_tid (reactors w i)) (m_fd e) \<lparr>ev_events = m_listen_events e, ev_data = p\<rparr> True (reactors w i)"
  have w': "w' = on_reactor i (\<lambda>_. ?r) w" using assms by (simp add: net_defs)
  have "interest ?r f = Some reg \<Longrightarrow> interest (reactors w i) f = Some reg \<or> f = m_fd e \<and> ev_data reg = p" for f reg
    by (auto simp: addEvent_def isLoopThread_def split: if_splits dest: interest_addEvent)
  moreover have "same_thread (reactors w i) ?r"
    by (simp add: addEvent_def isLoopThread_def same_thread_add)
  moreover have "net_ok w \<longrightarrow> net_ok w'"
    using net_ok_on_reactor [of w i "\<lambda>_. ?r"] unfolding w' by (auto intro: reactor_ok_addEvent)
  ultimately show ?thesis
    using assms(1) unfolding w' by (auto simp: event_moves_def on_reactor_def fun_upd_idem)
qed

lemma listen_moves:
  assumes "fd_events w p = Some e" "FdEvent.m_reactor e = Some i"
  shows "addListenEvents k (m_tid (reactors w i)) ev p w = Some w' \<Longrightarrow> \<exists>msk. event_moves i p (e\<lparr>m_listen_events := msk\<rparr>) w w'"
    and "delListenEvents k (m_tid (reactors w i)) ev p w = Some w' \<Longrightarrow> \<exists>msk. event_moves i p (e\<lparr>m_listen_events := msk\<rparr>) w w'"
proof -
  have upd: "event_moves i p (e\<lparr>m_listen_events := msk\<rparr>) w w'"
    if "updateToReactor k (m_tid (reactors w i)) p (put_event p (e\<lparr>m_listen_events := msk\<rparr>) w) = Some w'" for msk
  proof (rule event_moves_trans [OF event_moves_put])
    show "event_moves i p (e\<lparr>m_listen_events := msk\<rparr>) (put_event p (e\<lparr>m_listen_events := msk\<rparr>) w) w'"
      using that assms(2) by (intro update_moves) (simp_all add: put_event_def)
  qed simp
  have same: "\<exists>msk. event_moves i p (e\<lparr>m_listen_events := msk\<rparr>) w w"
    using assms(1) by (intro exI [of _ "m_listen_events e"]) (simp add: event_moves_def fun_upd_idem)
  show "\<exists>msk. event_moves i p (e\<lparr>m_listen_events := msk\<rparr>) w w'"
    if "addListenEvents k (m_tid (reactors w i)) ev p w = Some w'"
    using that assms(1) same upd by (auto simp: addListenEvents_def split: if_splits)
  show "\<exists>msk. event_moves i p (e\<lparr>m_listen_events := msk\<rparr>) w w'"
    if "delListenEvents k (m_tid (reactors w i)) ev p w = Some w'"
    using that assms(1) same upd by (auto simp: delListenEvents_def split: if_splits)
qed

lemma toEpoll_moves:
  assumes "fd_events w p = Some e" "FdEvent.m_reactor e = Some i" "ev \<in> {READ, WRITE}"
    and "toEpoll k (m_tid (reactors w i)) c p ev w = Some w'"
  shows "\<exists>msk. event_moves i p (e\<lparr>m_coroutine := Some c, m_listen_events := msk\<rparr>) w w'"
proof -
  let ?e = "setCoroutine c e"
  have "addListenEvents k (m_tid (reactors (put_event p ?e w) i)) ev p (put_event p ?e w) = Some w'"
    using assms by (auto simp: toEpoll_def put_event_def)
  from listen_moves(1) [OF _ _ this, of ?e] assms(2) obtain msk
    where "event_moves i p (?e\<lparr>m_listen_events := msk\<rparr>) (put_event p ?e w) w'"
    by (auto simp: put_event_def setCoroutine_def)
  from event_moves_trans [OF event_moves_put this] show ?thesis by (auto simp: setCoroutine_def)
qed

lemma hook_resumed_moves:
  assumes "fd_events w p = Some e" "FdEvent.m_reactor e = Some i"
    and "hook_resumed k (m_tid (reactors w i)) p ev w = Some w'"
  shows "\<exists>msk. event_moves i p (e\<lparr>m_listen_events := msk, m_coroutine := None\<rparr>) w w'"
proof -
  from assms(3) obtain w1 e1 where w1: "delListenEvents k (m_tid (reactors w i)) ev p w = Some w1" "fd_events w1 p = Some e1"
    "w' = put_event p (clearCoroutine e1) w1"
    by (auto simp: hook_resumed_def bind_eq_Some_iff)
  from listen_moves(2) [OF assms(1,2) w1(1)] obtain msk where m: "event_moves i p (e\<lparr>m_listen_events := msk\<rparr>) w w1" by blast
  with w1(2) have "e1 = e\<lparr>m_listen_events := msk\<rparr>" by (simp add: event_moves_def)
  with event_moves_trans [OF m event_moves_put, of "clearCoroutine e1"] w1(3) show ?thesis
    by (auto simp: clearCoroutine_def)
qed

text \<open>A whole registration: the first lines of the hook, and \<open>toEpoll\<close>.\<close>

lemma registers_moves:
  assumes "fd_events w p = Some e" "FdEvent.m_reactor e \<in> {None, Some i}" "ev \<in> {READ, WRITE}"
    and "t_reactor_ptr w (m_tid (reactors w i)) = Some i"
    and "hook_reactor k (m_tid (reactors w i)) p w = Some w1" "toEpoll k (m_tid (reactors w i)) c p ev w1 = Some w'"
  shows "\<exists>msk. event_moves i p (e\<lparr>FdEvent.m_reactor := Some i, m_coroutine := Some c, m_listen_events := msk\<rparr>) w w'"
proof -
  let ?e = "e\<lparr>FdEvent.m_reactor := Some i\<rparr>"
  have w1: "w1 = put_event p ?e w"
    using assms(1,2,4,5)
    by (auto simp: hook_reactor_def GetReactor_def FdEvent.getReactor_def FdEvent.setReactor_def put_event_def fun_upd_idem
        split: if_splits)
  from assms(6) have "toEpoll k (m_tid (reactors (put_event p ?e w) i)) c p ev (put_event p ?e w) = Some w'"
    by (simp add: w1 put_event_def)
  from toEpoll_moves [OF _ _ assms(3) this, of ?e] obtain msk
    where "event_moves i p (?e\<lparr>m_coroutine := Some c, m_listen_events := msk\<rparr>) (put_event p ?e w) w'"
    by (auto simp: put_event_def)
  from event_moves_trans [OF event_moves_put this] show ?thesis by auto
qed

lemma interest_del: "interest (delEventInLoopThread fo fd r) f = Some reg \<Longrightarrow> interest r f = Some reg"
  by (auto simp: delEventInLoopThread_def epoll_ctl_def Let_def split: if_splits option.splits)

lemma del_quiet: "quiet i w (on_reactor i (delEventInLoopThread (opened w) fd) w)"
proof -
  have "net_ok w \<longrightarrow> net_ok (on_reactor i (delEventInLoopThread (opened w) fd) w)"
    using net_ok_on_reactor [of w i "delEventInLoopThread (opened w) fd"] by (blast intro: reactor_ok_delLoop)
  then show ?thesis
    unfolding quiet_def by (simp add: on_reactor_def same_thread_del) (blast dest: interest_del)
qed

lemma push_quiet: "quiet i w (on_reactor i (push_tasks e evs) w)" "quiet i w (on_reactor i (\<lambda>r. r\<lparr>wake_count := 0\<rparr>) w)"
  "quiet i w (w\<lparr>ran := xs\<rparr>)" "quiet i w w"
  by (auto simp: quiet_def on_reactor_def same_thread_def push_tasks_def Let_def net_ok_def reactor_ok_def)

text \<open>The event of a parked coroutine is remembered, or goes to the queue; nothing else touches events or queue.\<close>

lemma handle_outcome:
  assumes "handle_event (\<lambda>_. Some) i ev (fc, w) = Some (fc', w')" "m_reactor_type (reactors w i) = SubReactor"
  shows "fc' = fc \<and> quiet i w w'
     \<or> (\<exists>e c. fd_events w (ev_data ev) = Some e \<and> m_coroutine e = Some c \<and> fc = None \<and> fc' = Some c \<and> w' = w)
     \<or> (\<exists>e c. fd_events w (ev_data ev) = Some e \<and> m_coroutine e = Some c \<and> fc' = fc
          \<and> w' = (put_event (ev_data ev) (setReactor None e) (on_reactor i (delEventInLoopThread (opened w) (m_fd e)) w))
                   \<lparr>m_task := m_task w @ [ev_data ev]\<rparr>)"
proof (cases "data_fd (ev_data ev) = m_wake_fd (reactors w i) \<and> ev_events ev AND READ \<noteq> 0 \<or> ev_data ev = 0")
  case True
  then have "fc' = fc" "w' = w \<or> w' = on_reactor i (\<lambda>r. r\<lparr>wake_count := 0\<rparr>) w"
    using assms(1) by (auto simp: handle_event_def Let_def split: if_splits)
  then show ?thesis using push_quiet(2,4) [of i w] by auto
next
  case False
  then have c: "\<not> (data_fd (ev_data ev) = m_wake_fd (reactors w i) \<and> ev_events ev AND READ \<noteq> 0)" "ev_data ev \<noteq> 0"
    by auto
  note h0 = assms(1) [unfolded handle_event_def Let_def prod.case if_not_P [OF c(1)] if_not_P [OF c(2)] getFd_def]
  then obtain e where e: "fd_events w (ev_data ev) = Some e" by (cases "fd_events w (ev_data ev)") simp_all
  let ?evs = "ev_events ev" and ?p = "ev_data ev"
  have h: "(if ?evs AND READ = 0 \<and> ?evs AND WRITE = 0
           then Some (fc, on_reactor i (delEventInLoopThread (opened w) (m_fd e)) w)
           else case m_coroutine e of
             Some c \<Rightarrow> if fc = None then Some (Some c, w)
               else Some (fc, (put_event ?p (setReactor None e) (on_reactor i (delEventInLoopThread (opened w) (m_fd e)) w))
                     \<lparr>m_task := m_task w @ [?p]\<rparr>)
           | None \<Rightarrow>
               if m_fd e = m_timer_fd (reactors w i)
               then do { f \<leftarrow> getCallBack READ e; Some (fc, w\<lparr>ran := ran w @ [Call f]\<rparr>) }
               else Some (fc, on_reactor i (push_tasks e ?evs) w)) = Some (fc', w')"
    using h0 assms(2) unfolding e bind.bind_lunit
    by (simp add: perform_def getCoroutine_def queue_push_def put_event_def on_reactor_def cong: if_cong option.case_cong)
  show ?thesis
  proof (cases "?evs AND READ = 0 \<and> ?evs AND WRITE = 0")
    case True
    then show ?thesis using h del_quiet [of i w "m_fd e"] by auto
  next
    case False
    show ?thesis
    proof (cases "m_coroutine e")
      case None
      with h False show ?thesis using push_quiet [of i w]
        by (auto simp: bind_eq_Some_iff split: if_splits)
    next
      case (Some c)
      with h False e show ?thesis by (auto split: if_splits)
    qed
  qed
qed

section \<open>What holds when coroutines wait on their own thread\<close>

definition waits_at :: "coroutine_at \<Rightarrow> fd_ptr option" where
  "waits_at st = (case st of Leaving _ p _ \<Rightarrow> Some p | Parked p _ \<Rightarrow> Some p | Resumed _ p _ \<Rightarrow> Some p | _ \<Rightarrow> None)"

definition runs_at :: "coroutine_at \<Rightarrow> nat option" where
  "runs_at st = (case st of On i \<Rightarrow> Some i | Leaving i _ _ \<Rightarrow> Some i | Resumed i _ _ \<Rightarrow> Some i | _ \<Rightarrow> None)"

lemma coroutine_at_simps [simp]:
  "waits_at NotRun = None" "waits_at (On i) = None" "waits_at (Leaving i p ev) = Some p" "waits_at (Parked p ev) = Some p"
  "waits_at (Resumed i p ev) = Some p" "waits_at Ended = None"
  "runs_at NotRun = None" "runs_at (On i) = Some i" "runs_at (Leaving i p ev) = Some i" "runs_at (Parked p ev) = None"
  "runs_at (Resumed i p ev) = Some i" "runs_at Ended = None"
  by (simp_all add: waits_at_def runs_at_def)

fun first_of :: "place \<Rightarrow> nat option" where
  "first_of (AtTop fc) = fc"
| "first_of (Handling evs fc) = fc"
| "first_of _ = None"

fun to_come :: "place \<Rightarrow> epoll_event list" where
  "to_come (Handling evs fc) = evs"
| "to_come _ = []"

text \<open>
  The reactors of the threads are set up, their lists agree with the kernel's, no request of another thread
  is pending, and what is registered with a reactor is the address of an event that has this reactor.
\<close>

definition threads_ok :: "nat set \<Rightarrow> net \<Rightarrow> bool" where
  "threads_ok ts w \<longleftrightarrow> net_ok w
     \<and> (\<forall>i\<in>ts. t_reactor_ptr w (m_tid (reactors w i)) = Some i \<and> m_reactor_type (reactors w i) = SubReactor
          \<and> m_pending_add_fds (reactors w i) = [] \<and> m_pending_del_fds (reactors w i) = []
          \<and> fd_events w (fd_data (m_wake_fd (reactors w i))) = None)
     \<and> (\<forall>p p' e e'. fd_events w p = Some e \<longrightarrow> fd_events w p' = Some e' \<longrightarrow> m_fd e = m_fd e' \<longrightarrow> p = p')
     \<and> (\<forall>i\<in>ts. \<forall>fd reg. interest (reactors w i) fd = Some reg \<longrightarrow>
          ev_data reg = fd_data (m_wake_fd (reactors w i))
          \<or> (\<exists>e. fd_events w (ev_data reg) = Some e \<and> m_fd e = fd \<and> FdEvent.m_reactor e = Some i))"

text \<open>The queue holds events of parked coroutines that no reactor watches.\<close>

definition queue_waits :: "sched \<Rightarrow> bool" where
  "queue_waits s \<longleftrightarrow> distinct (m_task (net_of s))
     \<and> (\<forall>p\<in>set (m_task (net_of s)). \<exists>e c ev. fd_events (net_of s) p = Some e \<and> FdEvent.m_reactor e = None
          \<and> cors s c = Parked p ev)"

text \<open>An event names the coroutine that waits for it; a coroutine that runs and is registered has its thread's reactor.\<close>

definition events_named :: "sched \<Rightarrow> bool" where
  "events_named s \<longleftrightarrow>
     (\<forall>c p. waits_at (cors s c) = Some p \<longrightarrow>
        (\<exists>e. fd_events (net_of s) p = Some e \<and> m_coroutine e = Some c
           \<and> (\<forall>i. runs_at (cors s c) = Some i \<longrightarrow> FdEvent.m_reactor e = Some i)))
     \<and> (\<forall>p e c. fd_events (net_of s) p = Some e \<longrightarrow> m_coroutine e = Some c \<longrightarrow> waits_at (cors s c) = Some p)"

definition runs_named :: "nat set \<Rightarrow> sched \<Rightarrow> bool" where
  "runs_named ts s \<longleftrightarrow>
     (\<forall>c i. runs_at (cors s c) = Some i \<longleftrightarrow> i \<in> ts \<and> (\<exists>pl. at_place s i = Runs c pl))
     \<and> (\<forall>i c pl. at_place s i = Runs c pl \<longrightarrow> pl \<in> {AtTop None, InQueue, InTasks})"

text \<open>
  What a thread remembers: \<open>first_coroutine\<close> is parked, on an event of this thread's reactor that is not
  among those still to come; and these are the reactor's own, each once.
\<close>

definition remembers_at :: "net \<Rightarrow> (nat \<Rightarrow> coroutine_at) \<Rightarrow> nat \<Rightarrow> place \<Rightarrow> bool" where
  "remembers_at w cs i pl \<longleftrightarrow>
     (\<forall>c. first_of pl = Some c \<longrightarrow>
        (\<exists>p ev e. cs c = Parked p ev \<and> fd_events w p = Some e \<and> FdEvent.m_reactor e = Some i
           \<and> p \<notin> ev_data ` set (to_come pl)))
     \<and> distinct (map ev_data (to_come pl))
     \<and> (\<forall>x\<in>set (to_come pl). ev_data x = fd_data (m_wake_fd (reactors w i))
          \<or> (\<exists>e. fd_events w (ev_data x) = Some e \<and> FdEvent.m_reactor e = Some i))"

lemma remembers_at_mono:
  assumes "remembers_at w cs i pl"
    and "\<And>t d. fd_events w t = Some d \<Longrightarrow> FdEvent.m_reactor d = Some i \<Longrightarrow>
      t \<in> ev_data ` set (to_come pl) \<or> (\<exists>c ev. first_of pl = Some c \<and> cs c = Parked t ev)
      \<Longrightarrow> \<exists>d'. fd_events w' t = Some d' \<and> FdEvent.m_reactor d' = Some i"
    and "\<And>c p ev. first_of pl = Some c \<Longrightarrow> cs c = Parked p ev \<Longrightarrow> cs' c = Parked p ev"
    and "m_wake_fd (reactors w' i) = m_wake_fd (reactors w i)"
  shows "remembers_at w' cs' i pl"
  unfolding remembers_at_def
proof (intro conjI allI impI ballI)
  fix c assume c: "first_of pl = Some c"
  with assms(1) obtain p ev e where "cs c = Parked p ev" "fd_events w p = Some e" "FdEvent.m_reactor e = Some i"
    "p \<notin> ev_data ` set (to_come pl)"
    unfolding remembers_at_def by blast
  with c assms(2) [of p e] assms(3) [OF c] show "\<exists>p ev e. cs' c = Parked p ev \<and> fd_events w' p = Some e
      \<and> FdEvent.m_reactor e = Some i \<and> p \<notin> ev_data ` set (to_come pl)"
    by blast
next
  show "distinct (map ev_data (to_come pl))" using assms(1) by (simp add: remembers_at_def)
next
  fix x assume x: "x \<in> set (to_come pl)"
  with assms(1) have "ev_data x = fd_data (m_wake_fd (reactors w i))
      \<or> (\<exists>e. fd_events w (ev_data x) = Some e \<and> FdEvent.m_reactor e = Some i)"
    unfolding remembers_at_def by blast
  then show "ev_data x = fd_data (m_wake_fd (reactors w' i))
      \<or> (\<exists>e. fd_events w' (ev_data x) = Some e \<and> FdEvent.m_reactor e = Some i)"
    using assms(2) [of "ev_data x"] assms(4) x by auto
qed

definition remembers :: "nat set \<Rightarrow> sched \<Rightarrow> bool" where
  "remembers ts s \<longleftrightarrow> (\<forall>i\<in>ts. remembers_at (net_of s) (cors s) i (at_place s i))"

definition sched_ok :: "nat set \<Rightarrow> sched \<Rightarrow> bool" where
  "sched_ok ts s \<longleftrightarrow> \<not> clashed s \<and> threads_ok ts (net_of s) \<and> queue_waits s \<and> events_named s \<and> runs_named ts s
     \<and> remembers ts s"

subsection \<open>Changes of the reactors\<close>

lemma threads_ok_change:
  assumes w: "threads_ok ts w" and ok: "net_ok w'" and t: "t_reactor_ptr w' = t_reactor_ptr w"
    and r: "\<And>j. same_thread (reactors w j) (reactors w' j)"
    and e: "\<And>q d. fd_events w' q = Some d \<Longrightarrow> \<exists>d0. fd_events w q = Some d0 \<and> m_fd d0 = m_fd d"
    and ints: "\<And>j fd reg. j \<in> ts \<Longrightarrow> interest (reactors w' j) fd = Some reg \<Longrightarrow>
      ev_data reg = fd_data (m_wake_fd (reactors w j))
      \<or> (\<exists>d. fd_events w' (ev_data reg) = Some d \<and> m_fd d = fd \<and> FdEvent.m_reactor d = Some j)"
  shows "threads_ok ts w'"
  unfolding threads_ok_def
proof (intro conjI ballI)
  show "net_ok w'" by (rule ok)
next
  fix j assume j: "j \<in> ts"
  note rj = r [of j, unfolded same_thread_def]
  from w j have wj: "t_reactor_ptr w (m_tid (reactors w j)) = Some j" "m_reactor_type (reactors w j) = SubReactor"
    "m_pending_add_fds (reactors w j) = []" "m_pending_del_fds (reactors w j) = []"
    "fd_events w (fd_data (m_wake_fd (reactors w j))) = None"
    by (simp_all add: threads_ok_def)
  show "t_reactor_ptr w' (m_tid (reactors w' j)) = Some j" using wj(1) rj t by simp
  show "m_reactor_type (reactors w' j) = SubReactor" using wj(2) rj by simp
  show "m_pending_add_fds (reactors w' j) = []" using wj(3) rj by simp
  show "m_pending_del_fds (reactors w' j) = []" using wj(4) rj by simp
  show "fd_events w' (fd_data (m_wake_fd (reactors w' j))) = None"
    using wj(5) rj e [of "fd_data (m_wake_fd (reactors w j))"]
    by (cases "fd_events w' (fd_data (m_wake_fd (reactors w j)))") auto
  show "\<forall>fd reg. interest (reactors w' j) fd = Some reg \<longrightarrow>
          ev_data reg = fd_data (m_wake_fd (reactors w' j))
          \<or> (\<exists>e. fd_events w' (ev_data reg) = Some e \<and> m_fd e = fd \<and> FdEvent.m_reactor e = Some j)"
    using ints [OF j] rj by simp
next
  have inj: "fd_events w q = Some d \<Longrightarrow> fd_events w q' = Some d' \<Longrightarrow> m_fd d = m_fd d' \<Longrightarrow> q = q'" for q q' d d'
    using w unfolding threads_ok_def by blast
  show "\<forall>q q' d d'. fd_events w' q = Some d \<longrightarrow> fd_events w' q' = Some d' \<longrightarrow> m_fd d = m_fd d' \<longrightarrow> q = q'"
  proof (intro allI impI)
    fix q q' d d' assume d: "fd_events w' q = Some d" "fd_events w' q' = Some d'" "m_fd d = m_fd d'"
    obtain d0 where "fd_events w q = Some d0" "m_fd d0 = m_fd d" using e [OF d(1)] by blast
    moreover obtain d0' where "fd_events w q' = Some d0'" "m_fd d0' = m_fd d'" using e [OF d(2)] by blast
    ultimately show "q = q'" using inj d(3) by simp
  qed
qed

lemma threads_ok_interest:
  "threads_ok ts w \<Longrightarrow> j \<in> ts \<Longrightarrow> interest (reactors w j) fd = Some reg \<Longrightarrow>
     ev_data reg = fd_data (m_wake_fd (reactors w j))
     \<or> (\<exists>d. fd_events w (ev_data reg) = Some d \<and> m_fd d = fd \<and> FdEvent.m_reactor d = Some j)"
  unfolding threads_ok_def by blast

lemma threads_ok_quiet:
  assumes "threads_ok ts w" "quiet i w w'"
  shows "threads_ok ts w'"
proof (rule threads_ok_change [OF assms(1)])
  show "net_ok w'" "t_reactor_ptr w' = t_reactor_ptr w"
    using assms by (simp_all add: threads_ok_def quiet_def)
  show "same_thread (reactors w j) (reactors w' j)" for j
    using assms(2) by (cases "j = i") (simp_all add: quiet_def)
  show "\<exists>d0. fd_events w q = Some d0 \<and> m_fd d0 = m_fd d" if "fd_events w' q = Some d" for q d
    using assms(2) that by (simp add: quiet_def)
  show "ev_data reg = fd_data (m_wake_fd (reactors w j))
      \<or> (\<exists>d. fd_events w' (ev_data reg) = Some d \<and> m_fd d = fd \<and> FdEvent.m_reactor d = Some j)"
    if "j \<in> ts" "interest (reactors w' j) fd = Some reg" for j fd reg
  proof -
    have "interest (reactors w j) fd = Some reg" using assms(2) that(2) by (cases "j = i") (simp_all add: quiet_def)
    then show ?thesis using threads_ok_interest [OF assms(1) that(1)] assms(2) by (simp add: quiet_def)
  qed
qed

lemma threads_ok_moves:
  assumes "threads_ok ts w" "event_moves i p e w w'" "fd_events w p = Some e0" "m_fd e0 = m_fd e"
    and "FdEvent.m_reactor e = Some i" "FdEvent.m_reactor e0 \<in> {None, Some i}"
  shows "threads_ok ts w'"
proof (rule threads_ok_change [OF assms(1)])
  show "net_ok w'" "t_reactor_ptr w' = t_reactor_ptr w"
    using assms(1,2) by (simp_all add: threads_ok_def event_moves_def)
  show "same_thread (reactors w j) (reactors w' j)" for j
    using assms(2) by (cases "j = i") (simp_all add: event_moves_def)
  show "\<exists>d0. fd_events w q = Some d0 \<and> m_fd d0 = m_fd d" if "fd_events w' q = Some d" for q d
    using assms(2-4) that by (auto simp: event_moves_def split: if_splits)
  show "ev_data reg = fd_data (m_wake_fd (reactors w j))
      \<or> (\<exists>d. fd_events w' (ev_data reg) = Some d \<and> m_fd d = fd \<and> FdEvent.m_reactor d = Some j)"
    if "j \<in> ts" "interest (reactors w' j) fd = Some reg" for j fd reg
  proof -
    have "interest (reactors w j) fd = Some reg \<or> j = i \<and> fd = m_fd e \<and> ev_data reg = p"
      using assms(2) that(2) by (cases "j = i") (auto simp: event_moves_def)
    then show ?thesis
    proof
      assume "interest (reactors w j) fd = Some reg"
      from threads_ok_interest [OF assms(1) that(1) this] show ?thesis
        using assms(2-6) by (cases "ev_data reg = p") (auto simp: event_moves_def)
    next
      assume "j = i \<and> fd = m_fd e \<and> ev_data reg = p"
      then show ?thesis using assms(2,5) by (simp add: event_moves_def)
    qed
  qed
qed

lemma threads_ok_task [simp]: "threads_ok ts (w\<lparr>m_task := q\<rparr>) = threads_ok ts w"
  by (simp add: threads_ok_def)

lemma threads_ok_adopted:
  assumes "threads_ok ts w" "fd_events w p = Some e" "FdEvent.m_reactor e = None"
  shows "threads_ok ts (put_event p (setReactor (Some i) e) w)"
  by (rule threads_ok_moves [OF assms(1) event_moves_put assms(2)]) (simp_all add: FdEvent.setReactor_def assms(3))

text \<open>An event that goes to the queue is registered nowhere any more.\<close>

lemma threads_ok_queued:
  assumes "threads_ok ts w" "i \<in> ts" "fd_events w p = Some e" "FdEvent.m_reactor e = Some i"
  shows "threads_ok ts (put_event p (setReactor None e) (on_reactor i (delEventInLoopThread (opened w) (m_fd e)) w))"
    (is "threads_ok ts ?w'")
proof (rule threads_ok_change [OF assms(1)])
  have ok: "net_ok w" using assms(1) by (simp add: threads_ok_def)
  then show "net_ok ?w'" using del_quiet [of i w "m_fd e"] by (simp add: quiet_def)
  show "t_reactor_ptr ?w' = t_reactor_ptr w" by (simp add: put_event_def on_reactor_def)
  show "same_thread (reactors w j) (reactors ?w' j)" for j
    by (simp add: put_event_def on_reactor_def same_thread_del)
  show "\<exists>d0. fd_events w q = Some d0 \<and> m_fd d0 = m_fd d" if "fd_events ?w' q = Some d" for q d
    using that assms(3) by (auto simp: put_event_def on_reactor_def FdEvent.setReactor_def split: if_splits)
  show "ev_data reg = fd_data (m_wake_fd (reactors w j))
      \<or> (\<exists>d. fd_events ?w' (ev_data reg) = Some d \<and> m_fd d = fd \<and> FdEvent.m_reactor d = Some j)"
    if "j \<in> ts" "interest (reactors ?w' j) fd = Some reg" for j fd reg
  proof -
    have "reactor_ok (opened w) (reactors w i)" using ok by (simp add: net_ok_def)
    with that(2) have int: "interest (reactors w j) fd = Some reg" "j = i \<longrightarrow> fd \<noteq> m_fd e"
      by (auto simp: put_event_def on_reactor_def interest_delLoop split: if_splits)
    from threads_ok_interest [OF assms(1) that(1) int(1)] int(2) assms(3,4) show ?thesis
      by (cases "ev_data reg = p") (auto simp: put_event_def on_reactor_def)
  qed
qed

subsection \<open>Steps\<close>

lemma sched_record_simps [simp]:
  "net_of (go_to i pl s) = net_of s" "cors (go_to i pl s) = cors s" "clashed (go_to i pl s) = clashed s"
  "at_place (go_to i pl s) = (at_place s)(i := pl)"
  "net_of (cor_to c st s) = net_of s" "at_place (cor_to c st s) = at_place s" "clashed (cor_to c st s) = clashed s"
  "cors (cor_to c st s) = (cors s)(c := st)"
  by (simp_all add: go_to_def cor_to_def)

lemma parked_event:
  assumes "events_named s" "cors s c = Parked p ev"
  shows "\<exists>e. fd_events (net_of s) p = Some e \<and> m_coroutine e = Some c"
proof -
  have "waits_at (cors s c) = Some p" using assms(2) by simp
  with assms(1) show ?thesis unfolding events_named_def by blast
qed

lemma same_waiter:
  assumes "events_named s" "waits_at (cors s c) = Some p" "waits_at (cors s c') = Some p"
  shows "c = c'"
proof -
  obtain e where "fd_events (net_of s) p = Some e" "m_coroutine e = Some c"
    using assms(1,2) unfolding events_named_def by blast
  moreover obtain e' where "fd_events (net_of s) p = Some e'" "m_coroutine e' = Some c'"
    using assms(1,3) unfolding events_named_def by blast
  ultimately show ?thesis by simp
qed

text \<open>An event of a parked coroutine may change its reactor.\<close>

lemma events_named_reactor:
  assumes s: "events_named s" and e: "fd_events (net_of s) p = Some e" "m_coroutine e = Some c" "cors s c = Parked p ev"
    and s': "fd_events (net_of s') = (fd_events (net_of s))(p \<mapsto> setReactor r e)" "cors s' = cors s"
  shows "events_named s'"
  unfolding events_named_def s'
proof (intro conjI allI impI)
  have co: "m_coroutine (setReactor r e) = m_coroutine e" by (simp add: FdEvent.setReactor_def)
  fix c' t assume t: "waits_at (cors s c') = Some t"
  show "\<exists>d. ((fd_events (net_of s))(p \<mapsto> setReactor r e)) t = Some d \<and> m_coroutine d = Some c'
         \<and> (\<forall>j. runs_at (cors s c') = Some j \<longrightarrow> FdEvent.m_reactor d = Some j)"
  proof (cases "t = p")
    case True
    with t e(3) same_waiter [OF s, of c' p c] have "c' = c" by simp
    with e True show ?thesis by (simp add: co)
  next
    case False
    with t s show ?thesis unfolding events_named_def by simp
  qed
next
  fix t d c' assume "((fd_events (net_of s))(p \<mapsto> setReactor r e)) t = Some d" "m_coroutine d = Some c'"
  then have "\<exists>d0. fd_events (net_of s) t = Some d0 \<and> m_coroutine d0 = Some c'"
    using e(1) by (auto simp: FdEvent.setReactor_def split: if_splits)
  then show "waits_at (cors s c') = Some t" using s unfolding events_named_def by auto
qed

text \<open>A thread moves on, without a coroutine and without a new event to remember.\<close>

lemma sched_ok_go:
  assumes s: "sched_ok ts s" and old: "\<And>c pl'. at_place s i \<noteq> Runs c pl'"
    and new: "\<And>c pl'. pl \<noteq> Runs c pl'" "i \<in> ts \<Longrightarrow> remembers_at (net_of s) (cors s) i pl"
  shows "sched_ok ts (go_to i pl s)"
proof -
  have "runs_named ts (go_to i pl s)"
    using s old new(1) unfolding sched_ok_def runs_named_def by simp
  moreover have "remembers ts (go_to i pl s)"
    using s new(2) unfolding sched_ok_def remembers_def by simp
  moreover have "queue_waits (go_to i pl s)" "events_named (go_to i pl s)"
    using s by (simp_all add: sched_ok_def queue_waits_def events_named_def)
  ultimately show ?thesis using s by (simp add: sched_ok_def)
qed

lemma remembers_nothing [simp]: "first_of pl = None \<Longrightarrow> to_come pl = [] \<Longrightarrow> remembers_at w cs i pl"
  by (simp add: remembers_at_def)

lemma remembers_atI: "sched_ok ts s \<Longrightarrow> i \<in> ts \<Longrightarrow> remembers_at (net_of s) (cors s) i (at_place s i)"
  by (simp add: sched_ok_def remembers_def)

text \<open>
  A thread resumes a parked coroutine whose event has this thread's reactor, or a new one; the queue and the
  other threads know nothing of it.
\<close>

lemma sched_ok_resume:
  assumes s: "sched_ok ts s" and i: "i \<in> ts" and old: "\<And>c pl'. at_place s i \<noteq> Runs c pl'"
    and c: "cors s c = NotRun \<or> (\<exists>p ev e. cors s c = Parked p ev \<and> fd_events (net_of s) p = Some e \<and> FdEvent.m_reactor e = Some i)"
    and pl: "pl \<in> {AtTop None, InQueue, InTasks}"
  shows "sched_ok ts (Resume_on i c pl s)"
proof -
  obtain st where r: "Resume_on i c pl s = go_to i (Runs c pl) (cor_to c st s)"
    and st: "runs_at st = Some i" "waits_at st = waits_at (cors s c)"
    using c by (auto simp: Resume_on_def)
  have idle: "runs_at (cors s c) = None" using c by auto
  then have nowhere: "at_place s j \<noteq> Runs c pl'" if "j \<in> ts" for j pl'
    using s that unfolding sched_ok_def runs_named_def by (metis option.distinct(1))
  have at_i: "\<And>p. waits_at (cors s c) = Some p \<Longrightarrow>
      \<exists>e. fd_events (net_of s) p = Some e \<and> m_coroutine e = Some c \<and> FdEvent.m_reactor e = Some i"
    using c s unfolding sched_ok_def by (auto dest: parked_event)
  let ?s = "Resume_on i c pl s"
  have "events_named ?s"
    using s at_i st unfolding sched_ok_def events_named_def r by auto
  moreover have "queue_waits ?s"
    unfolding queue_waits_def
  proof (intro conjI ballI)
    show "distinct (m_task (net_of ?s))" using s by (simp add: sched_ok_def queue_waits_def r)
    fix p assume "p \<in> set (m_task (net_of ?s))"
    then obtain e c' ev where e: "fd_events (net_of s) p = Some e" "FdEvent.m_reactor e = None" "cors s c' = Parked p ev"
      using s unfolding sched_ok_def queue_waits_def r by auto
    with c have "c' \<noteq> c" by auto
    with e show "\<exists>e c' ev. fd_events (net_of ?s) p = Some e \<and> FdEvent.m_reactor e = None \<and> cors ?s c' = Parked p ev"
      by (auto simp: r)
  qed
  moreover have "runs_named ts ?s"
    using s i st old pl idle nowhere unfolding sched_ok_def runs_named_def r by (auto split: if_splits)
  moreover have "remembers ts ?s"
    unfolding remembers_def
  proof
    fix j assume j: "j \<in> ts"
    show "remembers_at (net_of ?s) (cors ?s) j (at_place ?s j)"
    proof (cases "j = i")
      case True
      then show ?thesis by (simp add: r remembers_at_def)
    next
      case False
      have rj: "remembers_at (net_of s) (cors s) j (at_place s j)" using s j by (simp add: sched_ok_def remembers_def)
      then have "first_of (at_place s j) = Some c' \<Longrightarrow> c' \<noteq> c" for c'
        using c False unfolding remembers_at_def by fastforce
      with False show ?thesis by (simp add: r) (rule remembers_at_mono [OF rj], auto)
    qed
  qed
  ultimately show ?thesis using s by (simp add: sched_ok_def r)
qed

text \<open>A coroutine leaves its thread: it is at its end, or its registration stays.\<close>

lemma sched_ok_leaves:
  assumes s: "sched_ok ts s" and i: "i \<in> ts" and c: "at_place s i = Runs c pl"
    and st: "runs_at st = None" "waits_at st = waits_at (cors s c)"
  shows "sched_ok ts (go_to i pl (cor_to c st s))"
proof -
  have run: "runs_at (cors s c) = Some i" and pl: "pl \<in> {AtTop None, InQueue, InTasks}"
    using s i c unfolding sched_ok_def runs_named_def by blast+
  have only: "j = i" if "j \<in> ts" "at_place s j = Runs c pl'" for j pl'
    using s that run unfolding sched_ok_def runs_named_def by (metis option.inject)
  let ?s = "go_to i pl (cor_to c st s)"
  have rn: "runs_at (cors s c') = Some j \<longleftrightarrow> j \<in> ts \<and> (\<exists>pl. at_place s j = Runs c' pl)" for c' j
    using s unfolding sched_ok_def runs_named_def by blast
  have "runs_named ts ?s"
    unfolding runs_named_def
  proof (intro conjI allI)
    show "runs_at (cors ?s c') = Some j \<longleftrightarrow> j \<in> ts \<and> (\<exists>pl. at_place ?s j = Runs c' pl)" for c' j
    proof (cases "j = i")
      case True
      have "runs_at (cors ?s c') \<noteq> Some i" using rn [of c' i] c st(1) by auto
      with True pl show ?thesis by auto
    next
      case False
      then show ?thesis using rn [of c' j] st(1) only [of j] by (cases "c' = c") auto
    qed
    show "at_place ?s j = Runs c' pl' \<longrightarrow> pl' \<in> {AtTop None, InQueue, InTasks}" for j c' pl'
      using s pl unfolding sched_ok_def runs_named_def by (cases "j = i") auto
  qed
  moreover have "events_named ?s"
    unfolding events_named_def
  proof (intro conjI allI impI)
    fix c' q assume "waits_at (cors ?s c') = Some q"
    then have "waits_at (cors s c') = Some q" using st(2) by (auto split: if_splits)
    then obtain e where "fd_events (net_of s) q = Some e" "m_coroutine e = Some c'"
      "\<forall>j. runs_at (cors s c') = Some j \<longrightarrow> FdEvent.m_reactor e = Some j"
      using s unfolding sched_ok_def events_named_def by blast
    then show "\<exists>e. fd_events (net_of ?s) q = Some e \<and> m_coroutine e = Some c'
        \<and> (\<forall>j. runs_at (cors ?s c') = Some j \<longrightarrow> FdEvent.m_reactor e = Some j)"
      using st(1) by auto
  next
    fix q e c' assume "fd_events (net_of ?s) q = Some e" "m_coroutine e = Some c'"
    then have "waits_at (cors s c') = Some q" using s unfolding sched_ok_def events_named_def by simp
    then show "waits_at (cors ?s c') = Some q" using st(2) by auto
  qed
  moreover have np: "cors s c \<noteq> Parked p ev" for p ev using run by auto
  have "queue_waits ?s"
    unfolding queue_waits_def
  proof (intro conjI ballI)
    show "distinct (m_task (net_of ?s))" using s by (simp add: sched_ok_def queue_waits_def)
    fix p assume "p \<in> set (m_task (net_of ?s))"
    then obtain e c' ev where e: "fd_events (net_of s) p = Some e" "FdEvent.m_reactor e = None" "cors s c' = Parked p ev"
      using s unfolding sched_ok_def queue_waits_def by auto
    then show "\<exists>e c' ev. fd_events (net_of ?s) p = Some e \<and> FdEvent.m_reactor e = None \<and> cors ?s c' = Parked p ev"
      using np by (intro exI [of _ e] exI [of _ c'] exI [of _ ev]) auto
  qed
  moreover have "remembers ts ?s"
    unfolding remembers_def
  proof
    fix j assume j: "j \<in> ts"
    have rj: "remembers_at (net_of s) (cors s) j (at_place s j)" using s j by (simp add: sched_ok_def remembers_def)
    show "remembers_at (net_of ?s) (cors ?s) j (at_place ?s j)"
    proof (cases "j = i")
      case True
      with pl show ?thesis by auto
    next
      case False
      with np show ?thesis by simp (rule remembers_at_mono [OF rj], auto)
    qed
  qed
  ultimately show ?thesis using s by (simp add: sched_ok_def)
qed

text \<open>
  The coroutine of a thread moves an event that is its own, or nobody's, on its thread's reactor.
\<close>

lemma sched_ok_moves:
  assumes s: "sched_ok ts s" and i: "i \<in> ts" and c: "at_place s i = Runs c pl"
    and m: "event_moves i p e (net_of s) w'" "fd_events (net_of s) p = Some e0" "m_fd e0 = m_fd e"
      "FdEvent.m_reactor e = Some i" "FdEvent.m_reactor e0 \<in> {None, Some i}" "m_coroutine e0 \<in> {None, Some c}"
    and st: "runs_at st = Some i"
      "waits_at (cors s c) = None \<and> waits_at st = Some p \<and> m_coroutine e = Some c
       \<or> waits_at (cors s c) = Some p \<and> waits_at st = None \<and> m_coroutine e = None"
  shows "sched_ok ts (cor_to c st (s\<lparr>net_of := w'\<rparr>))" (is "sched_ok ts ?s")
proof -
  have run: "runs_at (cors s c) = Some i"
    using s i c unfolding sched_ok_def runs_named_def by blast
  have E: "fd_events w' = (fd_events (net_of s))(p \<mapsto> e)" "m_task w' = m_task (net_of s)"
    using m(1) by (simp_all add: event_moves_def)
  have wk: "m_wake_fd (reactors w' j) = m_wake_fd (reactors (net_of s) j)" for j
    using m(1) by (cases "j = i"; simp add: event_moves_def same_thread_def)+
  have np: "cors s c \<noteq> Parked q ev" for q ev using run by auto
  have other: "c' = c" if "waits_at (cors s c') = Some p" for c'
  proof -
    have "\<exists>e. fd_events (net_of s) p = Some e \<and> m_coroutine e = Some c'"
      using s that unfolding sched_ok_def events_named_def by blast
    with m(2,6) show ?thesis by auto
  qed
  have "threads_ok ts (net_of s)" using s by (simp add: sched_ok_def)
  then have "threads_ok ts w'" by (rule threads_ok_moves [OF _ m(1-5)])
  moreover have "queue_waits ?s"
    unfolding queue_waits_def
  proof (intro conjI ballI)
    show "distinct (m_task (net_of ?s))" using s by (simp add: sched_ok_def queue_waits_def E)
    fix q assume "q \<in> set (m_task (net_of ?s))"
    then obtain d c' ev where d: "fd_events (net_of s) q = Some d" "FdEvent.m_reactor d = None" "cors s c' = Parked q ev"
      using s unfolding sched_ok_def queue_waits_def by (auto simp: E)
    then have "c' \<noteq> c" "q \<noteq> p" using np other [of c'] by auto
    with d show "\<exists>d c' ev. fd_events (net_of ?s) q = Some d \<and> FdEvent.m_reactor d = None \<and> cors ?s c' = Parked q ev"
      by (auto simp: E)
  qed
  moreover have "events_named ?s"
    unfolding events_named_def
  proof (intro conjI allI impI)
    fix c' q assume q: "waits_at (cors ?s c') = Some q"
    show "\<exists>d. fd_events (net_of ?s) q = Some d \<and> m_coroutine d = Some c'
           \<and> (\<forall>j. runs_at (cors ?s c') = Some j \<longrightarrow> FdEvent.m_reactor d = Some j)"
    proof (cases "c' = c")
      case True
      with q st m(4) show ?thesis by (auto simp: E)
    next
      case False
      with q other [of c'] have "q \<noteq> p" by auto
      with q False s show ?thesis unfolding sched_ok_def events_named_def by (auto simp: E)
    qed
  next
    fix q d c' assume d: "fd_events (net_of ?s) q = Some d" "m_coroutine d = Some c'"
    show "waits_at (cors ?s c') = Some q"
    proof (cases "q = p")
      case True
      with d st show ?thesis by (auto simp: E)
    next
      case False
      with d have w: "waits_at (cors s c') = Some q"
        using s unfolding sched_ok_def events_named_def by (auto simp: E)
      with False st(2) have "c' \<noteq> c" by auto
      with w show ?thesis by simp
    qed
  qed
  moreover have eq: "runs_at (cors ?s c') = runs_at (cors s c')" for c' using run st(1) by simp
  have "runs_named ts ?s"
    using s unfolding sched_ok_def runs_named_def eq by simp
  moreover have "remembers ts ?s"
    unfolding remembers_def
  proof
    fix j assume j: "j \<in> ts"
    have rj: "remembers_at (net_of s) (cors s) j (at_place s j)" using s j by (simp add: sched_ok_def remembers_def)
    show "remembers_at (net_of ?s) (cors ?s) j (at_place ?s j)"
    proof (cases "j = i")
      case True
      with c show ?thesis by (simp add: remembers_at_def)
    next
      case False
      have "\<exists>d'. fd_events w' q = Some d' \<and> FdEvent.m_reactor d' = Some j"
        if "fd_events (net_of s) q = Some d" "FdEvent.m_reactor d = Some j" for q d
        using that m(2,5) False by (cases "q = p") (auto simp: E)
      then show ?thesis using np by simp (rule remembers_at_mono [OF rj], auto simp: wk)
    qed
  qed
  ultimately show ?thesis using s by (simp add: sched_ok_def)
qed

lemma sched_ok_quiet:
  assumes "sched_ok ts s" "quiet i (net_of s) w'"
  shows "sched_ok ts (s\<lparr>net_of := w'\<rparr>)"
proof -
  have E: "fd_events w' = fd_events (net_of s)" "m_task w' = m_task (net_of s)"
    using assms(2) by (simp_all add: quiet_def)
  have wk: "m_wake_fd (reactors w' j) = m_wake_fd (reactors (net_of s) j)" for j
    using assms(2) by (cases "j = i") (simp_all add: quiet_def same_thread_def)
  have "threads_ok ts (net_of s)" using assms(1) by (simp add: sched_ok_def)
  then have "threads_ok ts w'" using assms(2) by (rule threads_ok_quiet)
  moreover have "queue_waits (s\<lparr>net_of := w'\<rparr>)" "runs_named ts (s\<lparr>net_of := w'\<rparr>)"
    using assms(1) by (simp_all add: sched_ok_def queue_waits_def runs_named_def E)
  moreover have "events_named (s\<lparr>net_of := w'\<rparr>)"
    using assms(1) unfolding sched_ok_def events_named_def by (simp add: E)
  moreover have "remembers ts (s\<lparr>net_of := w'\<rparr>)"
    using assms(1) unfolding sched_ok_def remembers_def remembers_at_def by (simp add: E wk)
  ultimately show ?thesis using assms(1) by (simp add: sched_ok_def)
qed

lemma sched_ok_turn_end:
  assumes "sched_ok ts s" "i \<in> ts"
  shows "sched_ok ts (s\<lparr>net_of := on_reactor i (apply_pending (opened (net_of s))) (net_of s)\<rparr>)"
proof -
  have "m_pending_add_fds (reactors (net_of s) i) = []" "m_pending_del_fds (reactors (net_of s) i) = []"
    using assms by (simp_all add: sched_ok_def threads_ok_def)
  then have "apply_pending (opened (net_of s)) (reactors (net_of s) i) = reactors (net_of s) i"
    by (cases "reactors (net_of s) i") (simp add: apply_pending_def)
  then have "on_reactor i (apply_pending (opened (net_of s))) (net_of s) = net_of s"
    by (simp add: on_reactor_def)
  then show ?thesis using assms(1) by simp
qed

text \<open>The first event of the queue gets the reactor of the thread that takes it.\<close>

lemma sched_ok_pop:
  assumes s: "sched_ok ts s" and q: "m_task (net_of s) = p # q" and e: "fd_events (net_of s) p = Some e"
  shows "sched_ok ts (s\<lparr>net_of := put_event p (setReactor (Some i) e) ((net_of s)\<lparr>m_task := q\<rparr>)\<rparr>)" (is "sched_ok ts ?s")
    and "\<exists>c ev. cors s c = Parked p ev \<and> m_coroutine e = Some c"
proof -
  have r: "FdEvent.m_reactor e = None" and parked: "\<exists>c ev. cors s c = Parked p ev"
    using s e unfolding sched_ok_def queue_waits_def q by auto
  then show cor: "\<exists>c ev. cors s c = Parked p ev \<and> m_coroutine e = Some c"
    using s e unfolding sched_ok_def by (auto dest: parked_event)
  have E: "fd_events (net_of ?s) = (fd_events (net_of s))(p \<mapsto> setReactor (Some i) e)" "m_task (net_of ?s) = q"
    "reactors (net_of ?s) = reactors (net_of s)"
    by (simp_all add: put_event_def)
  have "threads_ok ts (net_of s)" using s by (simp add: sched_ok_def)
  then have "threads_ok ts ((net_of s)\<lparr>m_task := q\<rparr>)" by simp
  from threads_ok_adopted [OF this, of p e i] e r have "threads_ok ts (net_of ?s)" by simp
  moreover have "queue_waits ?s"
    using s unfolding sched_ok_def queue_waits_def E q by auto
  moreover have "events_named ?s"
    using s cor e by (auto simp: sched_ok_def put_event_def intro!: events_named_reactor [of s p e])
  moreover have "remembers ts ?s"
    unfolding remembers_def
  proof
    fix j assume "j \<in> ts"
    then have rj: "remembers_at (net_of s) (cors s) j (at_place s j)" by (rule remembers_atI [OF s])
    show "remembers_at (net_of ?s) (cors ?s) j (at_place ?s j)"
      using e r by simp (rule remembers_at_mono [OF rj], auto simp: put_event_def)
  qed
  moreover have "runs_named ts ?s" using s by (simp add: sched_ok_def runs_named_def)
  ultimately show "sched_ok ts ?s" using s by (simp add: sched_ok_def)
qed

text \<open>
  A thread looks at an event with a coroutine: it is one of its own reactor, whose coroutine is parked.
\<close>

lemma handled_is_parked:
  assumes s: "sched_ok ts s" and i: "i \<in> ts" and pl: "at_place s i = Handling (x # evs) fc"
    and e: "fd_events (net_of s) (ev_data x) = Some e" "m_coroutine e = Some c"
  shows "FdEvent.m_reactor e = Some i \<and> (\<exists>ev. cors s c = Parked (ev_data x) ev)"
proof -
  have "fd_events (net_of s) (fd_data (m_wake_fd (reactors (net_of s) i))) = None"
    using s i by (simp add: sched_ok_def threads_ok_def)
  with remembers_atI [OF s i] pl e have r: "FdEvent.m_reactor e = Some i" by (auto simp: remembers_at_def)
  have w: "waits_at (cors s c) = Some (ev_data x)" using s e unfolding sched_ok_def events_named_def by blast
  have "runs_at (cors s c) = None"
  proof (cases "runs_at (cors s c)")
    case (Some j)
    have "FdEvent.m_reactor e = Some j" using s w Some e(1) unfolding sched_ok_def events_named_def by fastforce
    with r have "j = i" by simp
    with Some s pl show ?thesis unfolding sched_ok_def runs_named_def by (metis place.distinct(29))
  qed simp
  with w r show ?thesis by (cases "cors s c") simp_all
qed

text \<open>It becomes the first coroutine, or its event goes to the queue.\<close>

lemma sched_ok_first:
  assumes s: "sched_ok ts s" and i: "i \<in> ts" and pl: "at_place s i = Handling (x # evs) None"
    and e: "fd_events (net_of s) (ev_data x) = Some e" "m_coroutine e = Some c"
  shows "sched_ok ts (go_to i (Handling evs (Some c)) s)"
proof (rule sched_ok_go [OF s])
  from handled_is_parked [OF s i pl e] obtain ev where "cors s c = Parked (ev_data x) ev" "FdEvent.m_reactor e = Some i" by blast
  with remembers_atI [OF s i] pl e(1)
  show "remembers_at (net_of s) (cors s) i (Handling evs (Some c))" by (auto simp: remembers_at_def)
qed (simp_all add: pl)

lemma sched_ok_queued:
  assumes s: "sched_ok ts s" and i: "i \<in> ts" and pl: "at_place s i = Handling (x # evs) fc"
    and e: "fd_events (net_of s) (ev_data x) = Some e" "m_coroutine e = Some c" and fc: "fc \<noteq> Some c"
  shows "sched_ok ts (go_to i (Handling evs fc)
      (s\<lparr>net_of := (put_event (ev_data x) (setReactor None e)
                     (on_reactor i (delEventInLoopThread (opened (net_of s)) (m_fd e)) (net_of s)))
                    \<lparr>m_task := m_task (net_of s) @ [ev_data x]\<rparr>\<rparr>))" (is "sched_ok ts ?s")
proof -
  let ?p = "ev_data x" and ?w = "net_of s"
  obtain ev where r: "FdEvent.m_reactor e = Some i" and parked: "cors s c = Parked ?p ev"
    using handled_is_parked [OF s i pl e] by blast
  have E: "fd_events (net_of ?s) = (fd_events ?w)(?p \<mapsto> setReactor None e)" "m_task (net_of ?s) = m_task ?w @ [?p]"
    by (simp_all add: put_event_def on_reactor_def)
  have wk: "m_wake_fd (reactors (net_of ?s) j) = m_wake_fd (reactors ?w j)" for j
    using same_thread_del [of "reactors ?w i" "opened ?w" "m_fd e"]
    by (simp add: put_event_def on_reactor_def same_thread_def)
  have "threads_ok ts ?w" using s by (simp add: sched_ok_def)
  from threads_ok_queued [OF this i e(1) r] have "threads_ok ts (net_of ?s)" by simp
  moreover have fresh: "?p \<notin> set (m_task ?w)"
    using s e(1) r unfolding sched_ok_def queue_waits_def by auto
  have "queue_waits ?s"
    unfolding queue_waits_def E
  proof (intro conjI ballI)
    show "distinct (m_task ?w @ [?p])" using s fresh by (simp add: sched_ok_def queue_waits_def)
    fix q assume "q \<in> set (m_task ?w @ [?p])"
    then consider "q = ?p" | "q \<in> set (m_task ?w)" "q \<noteq> ?p" using fresh by auto
    then show "\<exists>d c ev. ((fd_events ?w)(?p \<mapsto> setReactor None e)) q = Some d \<and> FdEvent.m_reactor d = None
        \<and> cors ?s c = Parked q ev"
    proof cases
      case 1
      with parked show ?thesis by (auto simp: FdEvent.setReactor_def)
    next
      case 2
      with s show ?thesis unfolding sched_ok_def queue_waits_def by simp
    qed
  qed
  moreover have "events_named ?s"
    using s by (intro events_named_reactor [OF _ e parked E(1)]) (simp_all add: sched_ok_def)
  moreover have "runs_named ts ?s"
    using s pl unfolding sched_ok_def runs_named_def by simp
  moreover have "remembers ts ?s"
    unfolding remembers_def
  proof
    fix j assume j: "j \<in> ts"
    note rj = remembers_atI [OF s j]
    have elsewhere: "\<exists>d'. fd_events (net_of ?s) t = Some d' \<and> FdEvent.m_reactor d' = Some j"
      if "fd_events ?w t = Some d" "FdEvent.m_reactor d = Some j" "t \<noteq> ?p" for t d
      unfolding E using that by simp
    show "remembers_at (net_of ?s) (cors ?s) j (at_place ?s j)"
    proof (cases "j = i")
      case True
      have ri: "remembers_at ?w (cors s) i (Handling evs fc)"
        using rj pl True by (auto simp: remembers_at_def)
      have "?p \<notin> ev_data ` set evs" using rj pl True by (simp add: remembers_at_def)
      moreover have "cors s c' \<noteq> Parked ?p ev'" if "fc = Some c'" for c' ev'
        using that fc parked s same_waiter [of s c' ?p c] by (auto simp: sched_ok_def)
      ultimately have "t \<noteq> ?p" if "t \<in> ev_data ` set (to_come (Handling evs fc))
          \<or> (\<exists>c ev. first_of (Handling evs fc) = Some c \<and> cors s c = Parked t ev)" for t
        using that by auto
      then have "remembers_at (net_of ?s) (cors s) i (Handling evs fc)"
        using elsewhere [unfolded True] wk [of i] by (intro remembers_at_mono [OF ri]; blast)
      then show ?thesis using True by simp
    next
      case False
      have "t \<noteq> ?p" if "fd_events ?w t = Some d" "FdEvent.m_reactor d = Some j" for t d
        using that e(1) r False by auto
      then have "remembers_at (net_of ?s) (cors s) j (at_place s j)"
        using elsewhere by (intro remembers_at_mono [OF rj _ _ wk]) auto
      then show ?thesis using False by simp
    qed
  qed
  ultimately show ?thesis using s by (simp add: sched_ok_def)
qed

lemma sched_ok_handle:
  assumes s: "sched_ok ts s" and i: "i \<in> ts" and pl: "at_place s i = Handling (x # evs) fc"
    and h: "handle_event (\<lambda>_. Some) i x (fc, net_of s) = Some (fc', w')"
  shows "sched_ok ts (go_to i (Handling evs fc') (s\<lparr>net_of := w'\<rparr>))"
proof -
  have "m_reactor_type (reactors (net_of s) i) = SubReactor" using s i by (simp add: sched_ok_def threads_ok_def)
  from handle_outcome [OF h this] consider
      (same) "fc' = fc" "quiet i (net_of s) w'"
    | (first) e c where "fd_events (net_of s) (ev_data x) = Some e" "m_coroutine e = Some c" "fc = None" "fc' = Some c"
        "w' = net_of s"
    | (queued) e c where "fd_events (net_of s) (ev_data x) = Some e" "m_coroutine e = Some c" "fc' = fc"
        "w' = (put_event (ev_data x) (setReactor None e)
                (on_reactor i (delEventInLoopThread (opened (net_of s)) (m_fd e)) (net_of s)))
              \<lparr>m_task := m_task (net_of s) @ [ev_data x]\<rparr>"
    by blast
  then show ?thesis
  proof cases
    case same
    have ok: "sched_ok ts (s\<lparr>net_of := w'\<rparr>)" by (rule sched_ok_quiet [OF s same(2)])
    have "remembers_at w' (cors s) i (Handling (x # evs) fc)" using remembers_atI [OF ok i] pl by simp
    then have "remembers_at w' (cors s) i (Handling evs fc)" by (auto simp: remembers_at_def)
    then show ?thesis using same(1) pl by (intro sched_ok_go [OF ok]) simp_all
  next
    case first
    with sched_ok_first [OF s i pl [unfolded first(3)] first(1,2)] show ?thesis by (simp add: go_to_def)
  next
    case queued
    have "fc \<noteq> Some c"
      using remembers_atI [OF s i] handled_is_parked [OF s i pl queued(1,2)] pl by (auto simp: remembers_at_def)
    from sched_ok_queued [OF s i pl queued(1,2) this] show ?thesis by (simp add: queued(3,4))
  qed
qed

lemma sched_ok_wait:
  assumes s: "sched_ok ts s" and i: "i \<in> ts" and "at_place s i = InWait" and evs: "reported (reactors (net_of s) i) evs"
  shows "sched_ok ts (go_to i (Handling evs None) s)"
proof (rule sched_ok_go [OF s])
  have "threads_ok ts (net_of s)" using s by (simp add: sched_ok_def)
  from threads_ok_interest [OF this i] evs show "remembers_at (net_of s) (cors s) i (Handling evs None)"
    by (fastforce simp: remembers_at_def reported_def split: option.splits)
qed (simp_all add: assms(3))

lemma sched_ok_registers:
  assumes s: "sched_ok ts s" and i: "i \<in> ts" and c: "at_place s i = Runs c pl" "cors s c = On i"
    and may: "may_register True (Registers i p ev) s"
    and w: "hook_reactor k (m_tid (reactors (net_of s) i)) p (net_of s) = Some w1"
      "toEpoll k (m_tid (reactors (net_of s) i)) c p ev w1 = Some w'"
  shows "sched_ok ts (cor_to c (Leaving i p ev) (s\<lparr>net_of := w'\<rparr>))"
proof -
  from may obtain e where e: "ev \<in> {READ, WRITE}" "fd_events (net_of s) p = Some e" "m_coroutine e = None"
    "FdEvent.m_reactor e \<in> {None, Some i}"
    by (auto simp: may_register_def getCoroutine_def FdEvent.getReactor_def split: option.splits)
  have t: "t_reactor_ptr (net_of s) (m_tid (reactors (net_of s) i)) = Some i"
    using s i by (simp add: sched_ok_def threads_ok_def)
  from registers_moves [OF e(2,4,1) t w] obtain msk
    where "event_moves i p (e\<lparr>FdEvent.m_reactor := Some i, m_coroutine := Some c, m_listen_events := msk\<rparr>) (net_of s) w'"
    by blast
  from sched_ok_moves [OF s i c(1) this e(2)] e(3,4) c(2) show ?thesis by simp
qed

lemma sched_ok_goes_on:
  assumes s: "sched_ok ts s" and i: "i \<in> ts" and c: "at_place s i = Runs c pl" "cors s c = Resumed j p ev"
    and w: "hook_resumed k (m_tid (reactors (net_of s) i)) p ev (net_of s) = Some w'"
  shows "sched_ok ts (cor_to c (On i) (s\<lparr>net_of := w'\<rparr>))"
proof -
  have "runs_at (cors s c) = Some i" using s i c(1) unfolding sched_ok_def runs_named_def by blast
  then obtain e where e: "fd_events (net_of s) p = Some e" "m_coroutine e = Some c" "FdEvent.m_reactor e = Some i"
    using s c(2) unfolding sched_ok_def events_named_def by (metis coroutine_at_simps(5))
  from hook_resumed_moves [OF e(1,3) w] obtain msk
    where "event_moves i p (e\<lparr>m_listen_events := msk, m_coroutine := None\<rparr>) (net_of s) w'" by blast
  from sched_ok_moves [OF s i c(1) this e(1)] e c(2) show ?thesis by simp
qed

lemma sched_ok_do:
  assumes s: "sched_ok ts s" and a: "op_thread a \<in> ts" "may_register True a s" "sched_do k a s = Some t"
  shows "sched_ok ts t"
proof (cases a)
  case (Top i)
  then have i: "i \<in> ts" using a(1) by (simp add: op_thread_def)
  from Top a(3) obtain fc where pl: "at_place s i = AtTop fc" by (auto split: place.splits)
  show ?thesis
  proof (cases fc)
    case None
    with Top a(3) pl have "t = go_to i InQueue s" by simp
    then show ?thesis using pl by (auto intro: sched_ok_go [OF s])
  next
    case (Some c)
    with Top a(3) pl have t: "t = Resume_on i c (AtTop None) s" by simp
    from remembers_atI [OF s i] pl Some show ?thesis unfolding t
      by (intro sched_ok_resume [OF s i]) (auto simp: remembers_at_def)
  qed
next
  case (PopQueue i)
  then have i: "i \<in> ts" and pl: "at_place s i = InQueue" using a(1,3) by (auto simp: op_thread_def split: if_splits)
  show ?thesis
  proof (cases "m_task (net_of s)")
    case Nil
    with PopQueue a(3) pl have "t = go_to i InTasks s" by simp
    then show ?thesis using pl by (auto intro: sched_ok_go [OF s])
  next
    case (Cons p q)
    with PopQueue a(3) pl obtain e where e: "fd_events (net_of s) p = Some e" by (auto simp: bind_eq_Some_iff)
    let ?s = "s\<lparr>net_of := put_event p (setReactor (Some i) e) ((net_of s)\<lparr>m_task := q\<rparr>)\<rparr>"
    from sched_ok_pop [OF s Cons e] obtain c ev where c: "sched_ok ts ?s" "cors s c = Parked p ev" "m_coroutine e = Some c"
      by blast
    with PopQueue a(3) pl Cons e have t: "t = Resume_on i c InQueue ?s" by (simp add: getCoroutine_def)
    show ?thesis unfolding t using pl c(2)
      by (intro sched_ok_resume [OF c(1) i]) (auto simp: put_event_def FdEvent.setReactor_def)
  qed
next
  case (Start i c)
  with a(3) have "at_place s i = InTasks" "cors s c = NotRun" "t = Resume_on i c InTasks s" by (auto split: if_splits)
  with Start a(1) show ?thesis by (auto simp: op_thread_def intro: sched_ok_resume [OF s])
next
  case (TasksDone i)
  with a(3) have "at_place s i = InTasks" "t = go_to i InWait s" by (auto split: if_splits)
  then show ?thesis by (auto intro: sched_ok_go [OF s])
next
  case (WaitReturns i evs)
  with a show ?thesis by (auto simp: op_thread_def split: if_splits intro: sched_ok_wait [OF s])
next
  case (HandleNext i)
  with a(3) obtain x evs fc fc' w' where "at_place s i = Handling (x # evs) fc"
    "handle_event (\<lambda>_. Some) i x (fc, net_of s) = Some (fc', w')" "t = go_to i (Handling evs fc') (s\<lparr>net_of := w'\<rparr>)"
    by (auto simp: bind_eq_Some_iff split: place.splits list.splits)
  with HandleNext a(1) show ?thesis by (auto simp: op_thread_def intro: sched_ok_handle [OF s])
next
  case (TurnEnds i)
  let ?s = "s\<lparr>net_of := on_reactor i (apply_pending (opened (net_of s))) (net_of s)\<rparr>"
  from TurnEnds a(3) obtain fc where fc: "at_place s i = Handling [] fc" "t = go_to i (AtTop fc) ?s"
    by (auto split: place.splits list.splits)
  have i: "i \<in> ts" using TurnEnds a(1) by (simp add: op_thread_def)
  have ok: "sched_ok ts ?s" by (rule sched_ok_turn_end [OF s i])
  from remembers_atI [OF ok i] fc(1) have "remembers_at (net_of ?s) (cors ?s) i (AtTop fc)" by (simp add: remembers_at_def)
  then show ?thesis unfolding fc(2) using fc(1) by (intro sched_ok_go [OF ok]) simp_all
next
  case (Registers i p ev)
  with a(3) obtain c pl w1 w' where "at_place s i = Runs c pl" "cors s c = On i"
    "hook_reactor k (m_tid (reactors (net_of s) i)) p (net_of s) = Some w1"
    "toEpoll k (m_tid (reactors (net_of s) i)) c p ev w1 = Some w'" "t = cor_to c (Leaving i p ev) (s\<lparr>net_of := w'\<rparr>)"
    by (auto simp: running_on_def bind_eq_Some_iff Let_def split: place.splits if_splits)
  with Registers a(1,2) show ?thesis by (auto simp: op_thread_def intro: sched_ok_registers [OF s])
next
  case (Yields i)
  with a(3) obtain c pl j p ev where "at_place s i = Runs c pl" "cors s c = Leaving j p ev"
    "t = go_to i pl (cor_to c (Parked p ev) s)"
    by (auto simp: running_on_def bind_eq_Some_iff split: place.splits coroutine_at.splits)
  with Yields a(1) show ?thesis by (auto simp: op_thread_def intro: sched_ok_leaves [OF s])
next
  case (GoesOn i)
  with a(3) obtain c pl j p ev w' where "at_place s i = Runs c pl" "cors s c = Resumed j p ev"
    "hook_resumed k (m_tid (reactors (net_of s) i)) p ev (net_of s) = Some w'" "t = cor_to c (On i) (s\<lparr>net_of := w'\<rparr>)"
    by (auto simp: running_on_def bind_eq_Some_iff split: place.splits coroutine_at.splits)
  with GoesOn a(1) show ?thesis by (auto simp: op_thread_def intro: sched_ok_goes_on [OF s])
next
  case (Finishes i)
  with a(3) obtain c pl where "at_place s i = Runs c pl" "cors s c = On i" "t = go_to i pl (cor_to c Ended s)"
    by (auto simp: running_on_def bind_eq_Some_iff split: place.splits if_splits)
  with Finishes a(1) show ?thesis by (auto simp: op_thread_def intro: sched_ok_leaves [OF s])
qed

interpretation own_sched: step_invariant "sched_step k ts True" "sched_ok ts" for k ts
  by unfold_locales (auto elim!: sched_step.cases intro: sched_ok_do)

section \<open>No coroutine on two threads\<close>

text \<open>The threads at the top of their loops, before any coroutine has run.\<close>

definition start_ok :: "nat set \<Rightarrow> sched \<Rightarrow> bool" where
  "start_ok ts s \<longleftrightarrow> threads_ok ts (net_of s) \<and> m_task (net_of s) = [] \<and> \<not> clashed s
     \<and> (\<forall>p e. fd_events (net_of s) p = Some e \<longrightarrow> getCoroutine e = None)
     \<and> (\<forall>i. at_place s i = AtTop None) \<and> (\<forall>c. cors s c = NotRun)"

lemma start_sched_ok: "start_ok ts s \<Longrightarrow> sched_ok ts s"
  by (auto simp: start_ok_def sched_ok_def queue_waits_def events_named_def runs_named_def remembers_def getCoroutine_def)

text \<open>
  C5: While coroutines wait on their own thread, no coroutine is on two threads. From the start, in any
  interleaving of the io threads: no thread resumes a coroutine that another one runs or that has ended;
  a coroutine that a thread holds as its first is parked, is held by no other thread and is not in
  the queue; and no event is in the queue twice.
\<close>

theorem no_coroutine_on_two_threads:
  assumes "start_ok ts s" and "(sched_step k ts True)\<^sup>*\<^sup>* s t"
  shows "\<not> clashed t \<and> distinct (m_task (net_of t))
     \<and> (\<forall>i\<in>ts. \<forall>j\<in>ts. \<forall>c pl pl'. at_place t i = Runs c pl \<and> at_place t j = Runs c pl' \<longrightarrow> i = j)
     \<and> (\<forall>i\<in>ts. \<forall>c. first_of (at_place t i) = Some c \<longrightarrow>
          (\<exists>p ev. cors t c = Parked p ev \<and> p \<notin> set (m_task (net_of t))
             \<and> (\<forall>j\<in>ts. first_of (at_place t j) = Some c \<longrightarrow> i = j)))"
proof -
  have t: "sched_ok ts t" using own_sched.steps_keep [OF assms(2)] start_sched_ok [OF assms(1)] by blast
  have first: "\<exists>p ev e. cors t c = Parked p ev \<and> fd_events (net_of t) p = Some e \<and> FdEvent.m_reactor e = Some i"
    if "i \<in> ts" "first_of (at_place t i) = Some c" for i c
    using remembers_atI [OF t that(1)] that(2) unfolding remembers_at_def by blast
  have "\<exists>p ev. cors t c = Parked p ev \<and> p \<notin> set (m_task (net_of t)) \<and> (\<forall>j\<in>ts. first_of (at_place t j) = Some c \<longrightarrow> i = j)"
    if i: "i \<in> ts" "first_of (at_place t i) = Some c" for i c
  proof -
    from first [OF i] obtain p ev e where p: "cors t c = Parked p ev" "fd_events (net_of t) p = Some e" "FdEvent.m_reactor e = Some i"
      by blast
    then have "p \<notin> set (m_task (net_of t))" using t unfolding sched_ok_def queue_waits_def by auto
    moreover have "i = j" if "j \<in> ts" "first_of (at_place t j) = Some c" for j
      using first [OF that] p by auto
    ultimately show ?thesis using p(1) by blast
  qed
  moreover have "i = j" if "i \<in> ts" "j \<in> ts" "at_place t i = Runs c pl" "at_place t j = Runs c pl'" for i j c pl pl'
  proof -
    have "runs_at (cors t c) = Some i" "runs_at (cors t c) = Some j"
      using t that unfolding sched_ok_def runs_named_def by blast+
    then show ?thesis by simp
  qed
  ultimately show ?thesis using t by (auto simp: sched_ok_def queue_waits_def)
qed

lemmas run_defs = two_threads_def two_reactors_def no_kernel_def op_thread_def may_register_def go_to_def cor_to_def
  Resume_on_def running_on_def reported_def hook_reactor_def GetReactor_def toEpoll_def addListenEvents_def updateToReactor_def
  own_reactor_def put_event_def on_reactor_def addEvent_def isLoopThread_def addEventInLoopThread_def epoll_ctl_def wakeup_def
  FdEvent.getReactor_def FdEvent.setReactor_def setCoroutine_def getCoroutine_def FdEvent_def getFd_def clearCoroutine_def
  handle_event_def delEventInLoopThread_def apply_pending_def hook_resumed_def delListenEvents_def READ_def WRITE_def
  data_fd_def fd_data_def queue_push_def map_emplace_def map_find_def Let_def

lemma two_threads_start: "start_ok {0, 1} two_threads"
proof -
  have "reactor_ok (\<lambda>_. True) (two_reactors i)" for i
    by (auto simp: reactor_ok_def two_reactors_def)
  then show ?thesis
    by (auto simp: start_ok_def threads_ok_def net_ok_def two_threads_def two_reactors_def FdEvent_def getCoroutine_def fd_data_def
        split: if_splits)
qed

lemma migrating_run:
  "\<exists>t. sched_run no_kernel [0, 1] True (take 25 clash_run) two_threads = Some t
     \<and> at_place t 1 = Runs 1 InQueue \<and> first_of (at_place t 0) = Some 2"
  by (simp add: clash_run_def) (simp add: run_defs)

theorem no_coroutine_on_two_threads_witness:
  "\<exists>t p ev. (sched_step no_kernel {0, 1} True)\<^sup>*\<^sup>* two_threads t \<and> at_place t 1 = Runs 1 InQueue
     \<and> first_of (at_place t 0) = Some 2 \<and> cors t 2 = Parked p ev"
proof -
  obtain t where t: "sched_run no_kernel [0, 1] True (take 25 clash_run) two_threads = Some t"
    "at_place t 1 = Runs 1 InQueue" "first_of (at_place t 0) = Some 2" using migrating_run by blast
  from sched_run_steps [OF t(1)] have r: "(sched_step no_kernel {0, 1} True)\<^sup>*\<^sup>* two_threads t" by simp
  from no_coroutine_on_two_threads [OF two_threads_start r] t(2,3) have "\<exists>p ev. cors t 2 = Parked p ev" by blast
  with r t(2,3) show ?thesis by blast
qed

lemma clashing_run:
  "\<exists>t. sched_run no_kernel [0, 1] False clash_run two_threads = Some t \<and> at_place t 0 = AtTop (Some 1)
     \<and> at_place t 1 = Runs 1 InQueue \<and> cors t 1 = Leaving 1 16 READ \<and> \<not> clashed t"
  by (simp add: clash_run_def) (simp add: run_defs)

text \<open>
  C38: Without that restriction a coroutine gets onto two threads, and the code brings it there. A coroutine that
  migrates through the queue, as one of a servlet does that waits for a remote call, waits for its
  connection again on the other thread; the event of the connection keeps the reactor of the first thread.
  That thread can see the data between the registration and the \<open>Yield\<close>, and resumes the coroutine that is
  still running.
\<close>

theorem migrated_coroutine_clashes:
  "\<exists>t u. (sched_step no_kernel {0, 1} False)\<^sup>*\<^sup>* two_threads t \<and> at_place t 1 = Runs 1 InQueue
     \<and> sched_do no_kernel (Top 0) t = Some u \<and> \<not> clashed t \<and> clashed u"
proof -
  obtain t where t: "sched_run no_kernel [0, 1] False clash_run two_threads = Some t" "at_place t 0 = AtTop (Some 1)"
    "at_place t 1 = Runs 1 InQueue" "cors t 1 = Leaving 1 16 READ" "\<not> clashed t"
    using clashing_run by blast
  from sched_run_steps [OF t(1)] have "(sched_step no_kernel {0, 1} False)\<^sup>*\<^sup>* two_threads t" by simp
  with t(2-5) show ?thesis by (intro exI [of _ t] exI [of _ "t\<lparr>clashed := True\<rparr>"]) (simp add: Resume_on_def)
qed

end
