(* ===== verification/TcpClient.thy ===== *)
theory TcpClient
  imports ConnectionLoop
begin

text \<open>
  \<open>src/net/tcp/tcp_client.{h,cc}\<close>: a call over one connection. The answers of \<open>connect_hook\<close> are a
  list, one for each turn of the connect loop, with \<open>errno\<close>, whether the call's timer fired
  meanwhile, and the descriptor that \<open>socket\<close> hands out if the old one is given up. The scripts of
  the read and write hooks are those of theory \<open>TcpConnection\<close>. A call that waits when a script ends
  has not been resumed. \<open>event_pending\<close> says whether the call's timer event is still in the timer,
  with its callback that refers to the call's stack frame.
\<close>

section \<open>The code\<close>

record tcp_client =
  c_fd :: int
  m_try_counts :: int
  m_max_timeout :: int
  m_is_stop :: bool
  m_err_info :: string
  m_peer_addr :: string
  m_connection :: tcp_connection
  event_pending :: bool

definition TcpClient :: "string \<Rightarrow> int \<Rightarrow> tcp_client" where
  "TcpClient addr sock =
     \<lparr>c_fd = sock, m_try_counts = 3, m_max_timeout = 10000, m_is_stop = False, m_err_info = [],
      m_peer_addr = addr, m_connection = fst (TcpConnection_client TinyPb_Protocal sock 128),
      event_pending = False\<rparr>"

definition TcpClient_destroy :: "tcp_client \<Rightarrow> effect list" where
  "TcpClient_destroy c = (if c_fd c > 0 then [GetFdEvent (c_fd c), Unregister (c_fd c), CloseFd (c_fd c)] else [])"

definition setTimeout :: "int \<Rightarrow> tcp_client \<Rightarrow> tcp_client" where "setTimeout v c = c\<lparr>m_max_timeout := v\<rparr>"
definition setTryCounts :: "int \<Rightarrow> tcp_client \<Rightarrow> tcp_client" where "setTryCounts v c = c\<lparr>m_try_counts := v\<rparr>"
definition getErrInfo :: "tcp_client \<Rightarrow> string" where "getErrInfo c = m_err_info c"

text \<open>The constructor always makes the connection and nothing drops it, so that it is there to be returned.\<close>

definition getConnection :: "tcp_client \<Rightarrow> tcp_connection" where "getConnection c = m_connection c"

definition resetFd :: "int \<Rightarrow> tcp_client \<Rightarrow> tcp_client \<times> effect list" where
  "resetFd sock c = (c\<lparr>c_fd := sock\<rparr>, [GetFdEvent (c_fd c), Unregister (c_fd c), CloseFd (c_fd c)])"

definition ECONNREFUSED :: int where "ECONNREFUSED = 111"
definition EAFNOSUPPORT :: int where "EAFNOSUPPORT = 97"

record connect_answer =
  ca_rt :: int
  ca_errno :: int
  ca_timer :: bool
  ca_socket :: int

text \<open>The callback of the call's timer, without the resume.\<close>

definition timer_cb :: "tcp_client \<Rightarrow> tcp_client" where
  "timer_cb c = c\<lparr>m_connection := setOverTimeFlag True (m_connection c), event_pending := False\<rparr>"

definition delTimerEvent :: "tcp_client \<Rightarrow> tcp_client" where
  "delTimerEvent c = c\<lparr>event_pending := False\<rparr>"

datatype connect_end = LeftLoop bool | ReturnCode int | ErrDeal | ConnectWaits

fun connect_loop ::
  "(int \<Rightarrow> string) \<Rightarrow> connect_answer list \<Rightarrow> bool \<Rightarrow> tcp_client \<Rightarrow> tcp_client \<times> effect list \<times> connect_end" where
  "connect_loop strerror [] is_timeout c =
     (if is_timeout then (c, [], LeftLoop is_timeout)
      else if getState (m_connection c) \<noteq> Connected then (c, [], ConnectWaits)
      else (c, [], LeftLoop is_timeout))"
| "connect_loop strerror (a # as) is_timeout c =
     (if is_timeout then (c, [], LeftLoop is_timeout)
      else if getState (m_connection c) \<noteq> Connected
      then let c = (if ca_timer a then timer_cb c else c); is_timeout = ca_timer a
           in if ca_rt a = 0
              then (c\<lparr>m_connection := setUpClient (m_connection c)\<rparr>, [], LeftLoop is_timeout)
              else let (c, e) = resetFd (ca_socket a) c
                   in if is_timeout then (c, e, ErrDeal)
                      else if ca_errno a = ECONNREFUSED
                      then (delTimerEvent (c\<lparr>m_err_info := ''connect error, peer[ '' @ m_peer_addr c @ '' ] closed.''\<rparr>),
                            e, ReturnCode ERROR_PEER_CLOSED)
                      else if ca_errno a = EAFNOSUPPORT
                      then (delTimerEvent (c\<lparr>m_err_info := ''connect cur sys ror, errinfo is '' @ strerror (ca_errno a)
                                                @ '' ] closed.''\<rparr>), e, ReturnCode ERROR_CONNECT_SYS_ERR)
                      else let (c, e', fin) = connect_loop strerror as is_timeout c in (c, e @ e', fin)
      else (c, [], LeftLoop is_timeout))"

datatype recv_end = Found rpc_struct | RecvOverTime | RecvClosed | RecvWaits

text \<open>
  The loop that waits for the reply; \<open>is_main\<close> says whether the call is made in the main coroutine
  of its thread. Each turn that goes on consumes an entry of the script, so that
  one unit of fuel more than the script has entries is enough.
\<close>

fun recv_loop ::
  "bool \<Rightarrow> nat \<Rightarrow> string \<Rightarrow> read_script \<Rightarrow> run_time \<Rightarrow> tcp_client \<Rightarrow> (tcp_client \<times> effect list \<times> recv_end) option" where
  "recv_loop is_main fuel no rs rt c =
     (case getResPackageData no (m_connection c) of
        ((Some d, _), conn) \<Rightarrow> Some (c\<lparr>m_connection := conn\<rparr>, [], Found d)
      | ((None, _), _) \<Rightarrow>
          (case fuel of
             0 \<Rightarrow> Some (c, [], RecvWaits)
           | Suc fuel \<Rightarrow> do {
               (conn, rs, e, fin) \<leftarrow> conn_input is_main rs (m_connection c);
               let c = c\<lparr>m_connection := conn\<rparr>;
               if fin \<noteq> Done then Some (c, e, RecvWaits)
               else if getOverTimerFlag conn then Some (c, e, RecvOverTime)
               else if getState conn = Closed then Some (c, e, RecvClosed)
               else do {
                 (conn, rt) \<leftarrow> conn_execute ([] :: unit service_map) [] [] (conn, rt);
                 (c, e', fin) \<leftarrow> recv_loop is_main fuel no rs rt (c\<lparr>m_connection := conn\<rparr>);
                 Some (c, e @ e', fin) } }))"

datatype call_end = CallReturned int "rpc_struct option" | CallWaits

definition err_deal :: "bool \<Rightarrow> int \<Rightarrow> tcp_client \<Rightarrow> tcp_client \<times> effect list \<times> call_end" where
  "err_deal is_timeout sock c =
     (let (c, e) = resetFd sock c
      in if is_timeout
         then (c\<lparr>m_err_info := ''call rpc falied, over '' @ int_str (m_max_timeout c) @ '' ms'',
                 m_connection := setOverTimeFlag False (m_connection c)\<rparr>,
               e, CallReturned ERROR_RPC_CALL_TIMEOUT None)
         else (c\<lparr>m_err_info := ''call rpc falied, peer closed ['' @ m_peer_addr c @ '']''\<rparr>,
               e, CallReturned ERROR_PEER_CLOSED None))"

text \<open>\<open>errno\<close> and \<open>sock\<close> are what the code reads and opens at its end.\<close>

definition sendAndRecv ::
  "bool \<Rightarrow> (int \<Rightarrow> string) \<Rightarrow> connect_answer list \<Rightarrow> write_script \<Rightarrow> read_script \<Rightarrow> int \<Rightarrow> int \<Rightarrow> string \<Rightarrow> run_time
     \<Rightarrow> tcp_client \<Rightarrow> (tcp_client \<times> effect list \<times> call_end) option" where
  "sendAndRecv is_main strerror as ws rs errno sock no rt c =
     (let c = c\<lparr>event_pending := True\<rparr>;
          (c, e1, fin) = connect_loop strerror as False c
      in case fin of
           ConnectWaits \<Rightarrow> Some (c, e1, CallWaits)
         | ReturnCode code \<Rightarrow> Some (c, e1, CallReturned code None)
         | ErrDeal \<Rightarrow> (let (c, e2, r) = err_deal True sock c in Some (c, e1 @ e2, r))
         | LeftLoop is_timeout \<Rightarrow>
             if getState (m_connection c) \<noteq> Connected
             then Some (delTimerEvent (c\<lparr>m_err_info := ''connect peer addr['' @ m_peer_addr c
                          @ ''] error. sys error='' @ strerror errno\<rparr>), e1, CallReturned ERROR_FAILED_CONNECT None)
             else do {
               (conn, ws, e2, fin) \<leftarrow> conn_output ws (setUpClient (m_connection c));
               let c = c\<lparr>m_connection := conn\<rparr>;
               if fin \<noteq> Done then Some (c, e1 @ e2, CallWaits)
               else if getOverTimerFlag conn
               then (let (c, e3, r) = err_deal True sock c in Some (c, e1 @ e2 @ e3, r))
               else do {
                 (c, e3, fin) \<leftarrow> recv_loop is_main (length rs + 1) no rs rt c;
                 case fin of
                   Found d \<Rightarrow> Some ((delTimerEvent c)\<lparr>m_err_info := []\<rparr>, e1 @ e2 @ e3, CallReturned 0 (Some d))
                 | RecvWaits \<Rightarrow> Some (c, e1 @ e2 @ e3, CallWaits)
                 | RecvOverTime \<Rightarrow> (let (c, e4, r) = err_deal True sock c in Some (c, e1 @ e2 @ e3 @ e4, r))
                 | RecvClosed \<Rightarrow> (let (c, e4, r) = err_deal is_timeout sock c in Some (c, e1 @ e2 @ e3 @ e4, r)) } })"

definition TcpClient_stop :: "tcp_client \<Rightarrow> tcp_client \<times> bool" where
  "TcpClient_stop c = (if \<not> m_is_stop c then (c\<lparr>m_is_stop := True\<rparr>, True) else (c, False))"

section \<open>Connecting\<close>

declare recv_loop.simps [simp del]

text \<open>
  An error that is neither of the two the loop knows makes it try again at once, as often as it
  occurs: a connect that fails without waiting never gives the call's timer a chance.
\<close>

definition unknown_failure :: "connect_answer \<Rightarrow> bool" where
  "unknown_failure a \<longleftrightarrow>
     ca_rt a \<noteq> 0 \<and> ca_errno a \<noteq> ECONNREFUSED \<and> ca_errno a \<noteq> EAFNOSUPPORT \<and> \<not> ca_timer a"

lemma connect_loop_retries:
  assumes "\<forall>a\<in>set as. unknown_failure a" and "getState (m_connection c) \<noteq> Connected"
  shows "\<exists>c' e. connect_loop strerror as False c = (c', e, ConnectWaits)
     \<and> m_connection c' = m_connection c \<and> event_pending c' = event_pending c
     \<and> length e = 3 * length as"
  using assms
proof (induction as arbitrary: c)
  case (Cons a as)
  let ?c = "c\<lparr>c_fd := ca_socket a\<rparr>"
  have "getState (m_connection ?c) \<noteq> Connected" using Cons.prems(2) by simp
  with Cons.IH [of ?c] Cons.prems(1) obtain c' e where
    "connect_loop strerror as False ?c = (c', e, ConnectWaits)" "m_connection c' = m_connection c"
    "event_pending c' = event_pending c" "length e = 3 * length as" by auto
  then show ?case using Cons.prems by (simp add: unknown_failure_def resetFd_def)
qed simp

text \<open>
  A client whose \<open>connect\<close> keeps failing with an error other than refusal or unknown
  family keeps trying. However many such failures come, \<open>sendAndRecv\<close> has only made a new
  socket after each of them and tries again at once; the configured number of tries is not looked at.
\<close>

theorem client_retries_without_end:
  assumes "\<forall>a\<in>set as. unknown_failure a" and "m_state (m_connection c) = NotConnected"
  shows "\<exists>c' e. sendAndRecv is_main strerror as ws rs errno sock no rt c = Some (c', e, CallWaits)
     \<and> m_state (m_connection c') = NotConnected \<and> event_pending c' \<and> length e = 3 * length as"
  using connect_loop_retries [OF assms(1), of "c\<lparr>event_pending := True\<rparr>" strerror] assms(2)
  by (auto simp: sendAndRecv_def getState_def)

text \<open>After a failure that is retried, the connection goes on with the descriptor that was closed.\<close>

lemma reconnected_uses_old_fd:
  assumes "unknown_failure a" and "ca_rt b = 0" and "\<not> ca_timer b" and "getState (m_connection c) \<noteq> Connected"
  shows "\<exists>c'. connect_loop strerror [a, b] False c = (c', [GetFdEvent (c_fd c), Unregister (c_fd c), CloseFd (c_fd c)], LeftLoop False)
     \<and> c_fd c' = ca_socket a \<and> TcpConnection.m_fd (m_connection c') = TcpConnection.m_fd (m_connection c)"
  using assms by (auto simp: unknown_failure_def resetFd_def setUpClient_def setState_def)

section \<open>A call that is answered\<close>

lemma find_filed:
  assumes "map_ok m"
  shows "map_find (file_all ds m) k =
     (case map_find m k of Some d \<Rightarrow> Some d | None \<Rightarrow> find (\<lambda>d. msg_no d = k) ds)"
  using assms
proof (induction ds arbitrary: m)
  case Nil
  then show ?case by (simp add: file_all_def split: option.split)
next
  case (Cons d ds)
  let ?m = "fst (map_emplace (msg_no d) d m)"
  have "file_all (d # ds) m = file_all ds ?m" by (simp add: file_all_def)
  moreover have "map_ok ?m" using Cons.prems by simp
  moreover have "map_find ?m k = (case map_find m k of Some w \<Rightarrow> Some w | None \<Rightarrow> if msg_no d = k then Some d else None)"
    by (rule std.look_try_add [OF Cons.prems])
  ultimately show ?case using Cons.IH [of ?m] by (simp split: option.split)
qed

lemma msg_no_deliver [simp]: "msg_no (deliver d (Some p)) = pk_no p"
  by (simp add: deliver_def)

lemma find_deliver:
  "find (\<lambda>d. msg_no d = k) (map (\<lambda>p. deliver RpcStruct (Some p)) ps)
     = map_option (\<lambda>p. deliver RpcStruct (Some p)) (find (\<lambda>p. pk_no p = k) ps)"
  by (induction ps) auto

lemma recv_loop_found:
  assumes "buf_ok (m_read_buffer (m_connection c))" "buf_ok (m_write_buffer (m_connection c))"
    and "m_codec (m_connection c) = TinyPb_Protocal" "m_connection_type (m_connection c) = ClientConnection"
    and "m_state (m_connection c) = Connected" "\<not> m_is_over_time (m_connection c)"
    and "contents (m_read_buffer (m_connection c)) = []"
    and "map_ok (m_reply_datas (m_connection c))" "map_find (m_reply_datas (m_connection c)) no = None"
    and "\<forall>p\<in>set ps. packet_ok p" "find (\<lambda>p. pk_no p = no) ps = Some r"
    and "delivers (m_read_buffer (m_connection c)) (concat (map frame_of ps)) rs"
  shows "\<exists>c' e. recv_loop is_main (Suc n) no rs rt c
      = Some (c', e, Found (deliver RpcStruct (Some r))) \<and> sent_bytes e = []"
proof -
  let ?bs = "concat (map frame_of ps)" and ?conn = "m_connection c"
  obtain rb e1 where i: "conn_input is_main rs ?conn = Some (?conn\<lparr>m_read_buffer := rb\<rparr>, [], e1, Done)"
    "buf_ok rb" "contents rb = ?bs" "sent_bytes e1 = []"
    using input_delivers [OF assms(12,1,5,6), of is_main] assms(7) by auto
  have its: "items rpc_parse decode_succ RpcStruct ?bs = (map (\<lambda>p. deliver RpcStruct (Some p)) ps, [])"
    using items_frames [OF assms(10), of "[]"] by (simp add: items.simps [of _ _ _ "[]"] split: prod.split)
  let ?all = "file_all (map (\<lambda>p. deliver RpcStruct (Some p)) ps) (m_reply_datas ?conn)"
  obtain rb1 where x: "conn_execute ([] :: unit service_map) [] [] (?conn\<lparr>m_read_buffer := rb\<rparr>, rt)
      = Some (?conn\<lparr>m_read_buffer := rb1, m_reply_datas := ?all\<rparr>, rt)"
    using execute_rpc_client [of "?conn\<lparr>m_read_buffer := rb\<rparr>" "[] :: unit service_map" "[]" "[]" rt] i(2,3) assms(2-4)
    by (auto simp: its)
  have found: "map_find ?all no = Some (deliver RpcStruct (Some r))"
    by (simp add: find_filed [OF assms(8)] assms(9) find_deliver assms(11))
  have none: "getResPackageData no ?conn = ((None, False), ?conn)" by (simp add: getResPackageData_def assms(9))
  have y: "getResPackageData no (?conn\<lparr>m_read_buffer := rb1, m_reply_datas := ?all\<rparr>)
      = ((Some (deliver RpcStruct (Some r)), True),
         ?conn\<lparr>m_read_buffer := rb1, m_reply_datas := map_erase no ?all\<rparr>)"
    by (simp add: getResPackageData_def found)
  have "recv_loop is_main (Suc n) no rs rt c
      = Some (c\<lparr>m_connection := ?conn\<lparr>m_read_buffer := rb1, m_reply_datas := map_erase no ?all\<rparr>\<rparr>, e1,
              Found (deliver RpcStruct (Some r)))"
    using assms(5,6)
    by (simp add: recv_loop.simps [of _ "Suc _"] recv_loop.simps [of _ n] none y i(1) x getState_def getOverTimerFlag_def)
  then show ?thesis using i(4) by auto
qed

lemma client_reply:
  assumes "buf_ok (m_read_buffer (m_connection c))" "buf_ok (m_write_buffer (m_connection c))"
    and "m_codec (m_connection c) = TinyPb_Protocal" "m_connection_type (m_connection c) = ClientConnection"
    and "m_state (m_connection c) = NotConnected" "\<not> m_is_over_time (m_connection c)"
    and "contents (m_read_buffer (m_connection c)) = []"
    and "map_ok (m_reply_datas (m_connection c))" "map_find (m_reply_datas (m_connection c)) no = None"
    and "\<forall>p\<in>set ps. packet_ok p" "find (\<lambda>p. pk_no p = no) ps = Some r"
    and "delivers (m_read_buffer (m_connection c)) (concat (map frame_of ps)) rs"
    and "ca_rt a = 0" "\<not> ca_timer a"
  defines "out \<equiv> contents (m_write_buffer (m_connection c))"
  assumes "sum_list ns = length out" "0 \<notin> set ns"
  shows "\<exists>c' e. sendAndRecv is_main strerror [a] (writes ns) rs errno sock no rt c
             = Some (c', e, CallReturned 0 (Some (deliver RpcStruct (Some r))))
           \<and> sent_bytes e = out \<and> \<not> event_pending c' \<and> getErrInfo c' = []"
proof -
  let ?conn = "m_connection c" and ?up = "setState Connected (m_connection c)"
  let ?c = "c\<lparr>event_pending := True, m_connection := ?up\<rparr>"
  have up: "m_read_buffer ?up = m_read_buffer ?conn" "m_write_buffer ?up = m_write_buffer ?conn" "m_codec ?up = m_codec ?conn"
    "m_connection_type ?up = m_connection_type ?conn" "m_state ?up = Connected" "m_is_over_time ?up = m_is_over_time ?conn"
    "m_reply_datas ?up = m_reply_datas ?conn" "setUpClient ?up = ?up"
    by (simp_all add: setState_def setUpClient_def)
  have con: "connect_loop strerror [a] False (c\<lparr>event_pending := True\<rparr>) = (?c, [], LeftLoop False)"
    using assms(5,13,14) by (simp add: getState_def setUpClient_def)
  obtain wb e1 where o: "conn_output (writes ns) ?up = Some (?up\<lparr>m_write_buffer := wb\<rparr>, [], e1, Done)"
    "buf_ok wb" "sent_bytes e1 = out"
    using output_all [of ?up ns] assms(2,6,16,17) up by (auto simp: out_def)
  let ?c1 = "?c\<lparr>m_connection := ?up\<lparr>m_write_buffer := wb\<rparr>\<rparr>"
  obtain c' e2 where r: "recv_loop is_main (length rs + 1) no rs rt ?c1
      = Some (c', e2, Found (deliver RpcStruct (Some r)))" "sent_bytes e2 = []"
    using recv_loop_found [of ?c1 no ps r rs is_main "length rs" rt] assms(1,3,4,6-12) o(2) up by auto
  have "sendAndRecv is_main strerror [a] (writes ns) rs errno sock no rt c
      = Some ((delTimerEvent c')\<lparr>m_err_info := []\<rparr>, e1 @ e2, CallReturned 0 (Some (deliver RpcStruct (Some r))))"
    unfolding sendAndRecv_def
    using up assms(6) o(1) r(1) by (simp add: con getState_def getOverTimerFlag_def Let_def del: connect_loop.simps)
  then show ?thesis using o(3) r(2) by (auto simp: delTimerEvent_def getErrInfo_def)
qed

text \<open>
  C20: A client call gets its reply. When the connection is made at once, the request is taken in any
  number of writes, and then a series of complete replies arrives together, the call returns 0 with the
  first reply that carries its number, and it has sent exactly its request.
\<close>

theorem client_gets_reply:
  assumes "buf_ok (m_read_buffer (m_connection c))" "buf_ok (m_write_buffer (m_connection c))"
    and "m_codec (m_connection c) = TinyPb_Protocal" "m_connection_type (m_connection c) = ClientConnection"
    and "m_state (m_connection c) = NotConnected" "\<not> m_is_over_time (m_connection c)"
    and "contents (m_read_buffer (m_connection c)) = []"
    and "map_ok (m_reply_datas (m_connection c))" "map_find (m_reply_datas (m_connection c)) no = None"
    and "\<forall>p\<in>set ps. packet_ok p" "find (\<lambda>p. pk_no p = no) ps = Some r"
    and "delivers (m_read_buffer (m_connection c)) (concat (map frame_of ps)) rs"
    and "ca_rt a = 0" "\<not> ca_timer a"
  defines "out \<equiv> contents (m_write_buffer (m_connection c))"
  assumes "sum_list ns = length out" "0 \<notin> set ns"
  shows "\<exists>c' e. sendAndRecv is_main strerror [a] (writes ns) rs errno sock no rt c
             = Some (c', e, CallReturned 0 (Some (deliver RpcStruct (Some r))))
           \<and> sent_bytes e = out \<and> \<not> event_pending c' \<and> getErrInfo c' = []"
  using client_reply [OF assms(1-14) assms(16,17) [unfolded out_def]] unfolding out_def .

section \<open>A call that is not answered\<close>

text \<open>
  When the peer closes before the reply, or a read fails, \<open>input\<close> closes the connection, clears
  \<open>m_can_resume\<close> of the coroutine and yields. A coroutine that is not the main one never continues, not
  even when the call's timer fires. In the main coroutine \<open>Yield\<close> returns, and the loop finds the
  connection closed.
\<close>

lemma input_peer_close:
  assumes "buf_ok (m_read_buffer c)" "m_state c = Connected" "\<not> m_is_over_time c" "m_connection_type c = ClientConnection"
    and "r = Got [] \<or> r = ReadError"
  shows "\<exists>rb. conn_input is_main ((r, []) # rs) c
      = Some (c\<lparr>m_read_buffer := rb, m_stop := True, m_state := Closed\<rparr>, rs,
              [Unregister (TcpConnection.m_fd c), CloseFd (TcpConnection.m_fd c), ForbidResume],
              if is_main then Done else Parked)"
proof -
  obtain b where "make_room (m_read_buffer c) = Some b" using make_room_ok [OF assms(1)] by blast
  with assms(2-5) show ?thesis
    by (intro exI [of _ b]) (auto simp: conn_input_def getState_def clearClient_def setState_def)
qed

text \<open>
  C40: A client whose peer closes before the reply. The call has sent its request; the read of 0
  bytes, or the read that fails, closes the connection and forbids further resumes. In a coroutine other
  than the main one the call never returns: \<open>input\<close> has yielded, and the coroutine is refused by every
  \<open>Resume\<close>, that of the call's own timer included. In the main coroutine the call
  returns with the code of a closed peer and no reply; it has then closed the client's descriptor once more
  and opened another. In both cases the event of the call's timer is left pending.
\<close>

theorem client_on_peer_close:
  assumes "buf_ok (m_write_buffer (m_connection c))" "buf_ok (m_read_buffer (m_connection c))"
    and "m_state (m_connection c) = Connected" "\<not> m_is_over_time (m_connection c)"
    and "m_connection_type (m_connection c) = ClientConnection"
    and "map_find (m_reply_datas (m_connection c)) no = None"
    and "r = Got [] \<or> r = ReadError"
  defines "out \<equiv> contents (m_write_buffer (m_connection c))" and "fd \<equiv> TcpConnection.m_fd (m_connection c)"
  assumes "sum_list ns = length out" "0 \<notin> set ns"
  shows "\<exists>c' e. sendAndRecv is_main strerror as (writes ns) ((r, []) # rs) errno sock no rt c =
      (if is_main
       then Some (c', e @ [Unregister fd, CloseFd fd, ForbidResume,
                           GetFdEvent (c_fd c), Unregister (c_fd c), CloseFd (c_fd c)],
                  CallReturned ERROR_PEER_CLOSED None)
       else Some (c', e @ [Unregister fd, CloseFd fd, ForbidResume], CallWaits))
     \<and> sent_bytes e = out \<and> m_state (m_connection c') = Closed \<and> event_pending c'
     \<and> c_fd c' = (if is_main then sock else c_fd c)"
proof -
  let ?conn = "m_connection c"
  let ?c = "c\<lparr>event_pending := True\<rparr>"
  have up: "setUpClient ?conn = ?conn" using assms(3) by (simp add: setUpClient_def setState_def)
  have con: "connect_loop strerror as False ?c = (?c, [], LeftLoop False)"
    using assms(3) by (cases as) (simp_all add: getState_def)
  obtain wb e1 where o: "conn_output (writes ns) ?conn = Some (?conn\<lparr>m_write_buffer := wb\<rparr>, [], e1, Done)"
    "sent_bytes e1 = out"
    using output_all [of ?conn ns] assms(1,3,4,10,11) by (auto simp: out_def)
  let ?conn1 = "?conn\<lparr>m_write_buffer := wb\<rparr>"
  let ?closing = "[Unregister fd, CloseFd fd, ForbidResume]"
  obtain conn2 where i: "conn_input is_main ((r, []) # rs) ?conn1
      = Some (conn2, rs, ?closing, if is_main then Done else Parked)"
    "m_state conn2 = Closed" "\<not> m_is_over_time conn2"
    using input_peer_close [of ?conn1 r is_main rs] assms(2-5,7) by (auto simp: fd_def)
  have "getResPackageData no ?conn1 = ((None, False), ?conn1)" by (simp add: getResPackageData_def assms(6))
  then have loop: "recv_loop is_main (length ((r, [] :: meanwhile list) # rs) + 1) no ((r, []) # rs) rt (?c\<lparr>m_connection := ?conn1\<rparr>)
      = Some (?c\<lparr>m_connection := conn2\<rparr>, ?closing, if is_main then RecvClosed else RecvWaits)"
    using i by (simp add: recv_loop.simps [of _ "Suc _"] getState_def getOverTimerFlag_def)
  show ?thesis
  proof (cases is_main)
    case True
    let ?closed = "fst (err_deal False sock (?c\<lparr>m_connection := conn2\<rparr>))"
    have "sendAndRecv is_main strerror as (writes ns) ((r, []) # rs) errno sock no rt c
        = Some (?closed, e1 @ ?closing @ [GetFdEvent (c_fd c), Unregister (c_fd c), CloseFd (c_fd c)],
                CallReturned ERROR_PEER_CLOSED None)"
      unfolding sendAndRecv_def
      using assms(3,4) o(1) loop True
      by (simp add: con up getState_def getOverTimerFlag_def err_deal_def resetFd_def Let_def del: connect_loop.simps)
    with True i(2) o(2) show ?thesis
      by (intro exI [of _ ?closed] exI [of _ e1]) (simp add: err_deal_def resetFd_def)
  next
    case False
    then have "sendAndRecv is_main strerror as (writes ns) ((r, []) # rs) errno sock no rt c
        = Some (?c\<lparr>m_connection := conn2\<rparr>, e1 @ ?closing, CallWaits)"
      unfolding sendAndRecv_def
      using assms(3,4) o(1) loop by (simp add: con up getState_def getOverTimerFlag_def Let_def del: connect_loop.simps)
    with False i(2) o(2) show ?thesis
      by (intro exI [of _ "?c\<lparr>m_connection := conn2\<rparr>"] exI [of _ e1]) simp
  qed
qed

section \<open>The fuel is enough\<close>

lemma input_loop_consumes:
  "input_loop rs c = Some (c', rs', e, fin) \<Longrightarrow> fin \<noteq> Waiting
     \<Longrightarrow> length rs' < length rs \<and> state_rank (m_state c) \<le> state_rank (m_state c')"
proof (induction rs c arbitrary: c' rs' e rule: input_loop.induct)
  case (1 c)
  then show ?case by (auto simp: bind_eq_Some_iff)
next
  case (2 r ms rs c)
  let ?bs = "case r of Got bs \<Rightarrow> bs | ReadError \<Rightarrow> []"
  from "2.prems"(1) obtain b b1 where b: "make_room (m_read_buffer c) = Some b"
    and b1: "(if ?bs \<noteq> [] then store_read ?bs b else Some b) = Some b1"
    by (auto simp: bind_eq_Some_iff Let_def)
  obtain c1 e1 where c1: "apply_meanwhile ms (c\<lparr>m_read_buffer := b1\<rparr>) = (c1, e1)" by fastforce
  have rank: "state_rank (m_state c) \<le> state_rank (m_state c1)"
    using meanwhile_rank [of "c\<lparr>m_read_buffer := b1\<rparr>" ms] by (simp add: c1)
  show ?case
  proof (cases "m_is_over_time c1 \<or> ?bs = [] \<or> length ?bs \<noteq> nat (writeAble b)")
    case True
    with "2.prems" b b1 c1 rank show ?thesis by (auto simp: Let_def split: if_splits)
  next
    case False
    with "2.prems" b b1 c1 obtain e2 where rest: "input_loop rs c1 = Some (c', rs', e2, fin)"
      by (auto simp: Let_def bind_eq_Some_iff)
    have "length rs' < length rs \<and> state_rank (m_state c1) \<le> state_rank (m_state c')"
      by (rule "2.IH" [OF b refl refl b1 refl c1 [symmetric] _ _ _ rest "2.prems"(2)]) (use False in auto)
    then show ?thesis using rank by simp
  qed
qed

lemma clear_closed: "clearClient c = (c', e) \<Longrightarrow> m_state c' = Closed"
  using clearClient_frame(4) [of c] by simp

lemma conn_input_consumes:
  assumes "conn_input is_main rs c = Some (c', rs', e, Done)" and "m_state c \<noteq> NotConnected"
  shows "m_state c' \<noteq> NotConnected \<and> (length rs' < length rs \<or> m_is_over_time c' \<or> m_state c' = Closed)"
proof (cases "m_is_over_time c \<or> getState c = Closed")
  case True
  then show ?thesis using assms by (auto simp: conn_input_def getState_def)
next
  case False
  with assms obtain c1 e1 fin where loop: "input_loop rs c = Some (c1, rs', e1, fin)" and fin: "fin \<noteq> Waiting"
    and c': "c' = c1 \<or> m_state c' = Closed"
    by (auto simp: conn_input_def getState_def bind_eq_Some_iff Let_def dest: clear_closed split: if_splits prod.splits)
  from input_loop_consumes [OF loop fin] assms(2) show ?thesis
    using c' by (cases "m_state c"; cases "m_state c1") (auto simp: state_rank_def)
qed

lemma drain_keeps_state_imp:
  "drain dec succ d0 hand s = Some s' \<Longrightarrow>
     (\<forall>d s s'. hand d s = Some s' \<longrightarrow> m_state (fst s') = m_state (fst s)) \<longrightarrow> m_state (fst s') = m_state (fst s)"
proof (rule drain.raw_induct [of "\<lambda>dec succ d0 hand s s'.
     (\<forall>d s s'. hand d s = Some s' \<longrightarrow> m_state (fst s') = m_state (fst s)) \<longrightarrow> m_state (fst s') = m_state (fst s)"],
    goal_cases)
  case (1 loop dec succ d0 hand s s')
  show ?case
  proof
    assume hand: "\<forall>d s s'. hand d s = Some s' \<longrightarrow> m_state (fst s') = m_state (fst s)"
    show "m_state (fst s') = m_state (fst s)"
    proof (cases "0 < readAble (m_read_buffer (fst s))")
      case False
      then show ?thesis using 1(3) by simp
    next
      case True
      with 1(3) obtain b d where step: "(if \<not> succ d then Some ((fst s)\<lparr>m_read_buffer := b\<rparr>, snd s)
          else do { s \<leftarrow> hand d ((fst s)\<lparr>m_read_buffer := b\<rparr>, snd s); loop dec succ d0 hand s }) = Some s'"
        by (auto simp: bind_eq_Some_iff Let_def)
      show ?thesis
      proof (cases "succ d")
        case False
        then show ?thesis using step by auto
      next
        case True
        with step obtain s1 where s1: "hand d ((fst s)\<lparr>m_read_buffer := b\<rparr>, snd s) = Some s1"
          and rest: "loop dec succ d0 hand s1 = Some s'"
          by (auto simp: bind_eq_Some_iff)
        from hand s1 have "m_state (fst s1) = m_state (fst ((fst s)\<lparr>m_read_buffer := b\<rparr>, snd s))" by blast
        with 1(2) [OF rest] hand show ?thesis by simp
      qed
    qed
  qed
qed

lemmas drain_keeps_state = drain_keeps_state_imp [THEN mp, rule_format]

lemma codec_encode_state: "codec_encode fresh d c = Some c' \<Longrightarrow> m_state c' = m_state c"
  by (auto simp: codec_encode_def bind_eq_Some_iff)

lemma execute_keeps_state:
  assumes "conn_execute services servlets fresh s = Some s'"
  shows "m_state (fst s') = m_state (fst s)"
proof (cases "m_codec (fst s)")
  case TinyPb_Protocal
  with assms show ?thesis
    by (auto simp: conn_execute_def RpcDispatcher_dispatch_def file_reply_def Let_def
        elim!: drain_keeps_state dest!: codec_encode_state split: if_splits)
next
  case Http_Protocal
  with assms show ?thesis
    by (auto simp: conn_execute_def HttpDispatcher_dispatch_def Let_def
        elim!: drain_keeps_state dest!: codec_encode_state split: if_splits)
qed

lemma recv_loop_fuel:
  assumes "m_state (m_connection c) \<noteq> NotConnected" and "length rs < fuel" and "length rs < fuel'"
  shows "recv_loop is_main fuel no rs rt c = recv_loop is_main fuel' no rs rt c"
  using assms
proof (induction fuel arbitrary: fuel' rs rt c)
  case (Suc fuel)
  then obtain fuel1 where fuel': "fuel' = Suc fuel1" by (cases fuel') auto
  have same: "recv_loop is_main fuel no rs' rt1 (c\<lparr>m_connection := conn1\<rparr>) = recv_loop is_main fuel1 no rs' rt1 (c\<lparr>m_connection := conn1\<rparr>)"
    if i: "conn_input is_main rs (m_connection c) = Some (conn, rs', e, Done)" and "\<not> getOverTimerFlag conn"
      and "getState conn \<noteq> Closed"
      and x: "conn_execute ([] :: unit service_map) [] [] (conn, rt) = Some (conn1, rt1)" for conn rs' e conn1 rt1
  proof (rule Suc.IH)
    from conn_input_consumes [OF i Suc.prems(1)] that(2,3)
    have less: "m_state conn \<noteq> NotConnected" "length rs' < length rs"
      by (auto simp: getOverTimerFlag_def getState_def)
    then show "length rs' < fuel" "length rs' < fuel1" using Suc.prems(2,3) fuel' by simp_all
    show "m_state (m_connection (c\<lparr>m_connection := conn1\<rparr>)) \<noteq> NotConnected"
      using execute_keeps_state [OF x] less(1) by simp
  qed
  show ?case
    unfolding fuel' recv_loop.simps [of _ "Suc _"]
    by (auto simp: Let_def same split: option.split prod.split Option.bind_split intro!: Option.bind_cong)
qed simp

section \<open>Concrete calls\<close>

definition sample_client :: tcp_client where
  "sample_client = (TcpClient ''127.0.0.1:8000'' 7)\<lparr>m_connection := sample_connection\<lparr>m_connection_type := ClientConnection,
       m_state := NotConnected, m_read_buffer := TcpBuffer 100\<rparr>\<rparr>"

definition refused_net :: "nat \<Rightarrow> connect_answer" where
  "refused_net n = \<lparr>ca_rt = -1, ca_errno = 101, ca_timer = False, ca_socket = int n\<rparr>"

lemma sample_client_fields:
  "m_state (m_connection sample_client) = NotConnected" "m_connection_type (m_connection sample_client) = ClientConnection"
  "m_read_buffer (m_connection sample_client) = TcpBuffer 100" "m_write_buffer (m_connection sample_client) = TcpBuffer 4"
  "m_codec (m_connection sample_client) = TinyPb_Protocal" "\<not> m_is_over_time (m_connection sample_client)"
  "m_reply_datas (m_connection sample_client) = []"
  by (simp_all add: sample_client_def)
     (simp add: sample_connection_def TcpConnection_server_def initBuffer_def)

theorem client_retries_without_end_witness:
  "\<exists>c' e. sendAndRecv False (\<lambda>_. []) (map refused_net [8, 9, 10]) [] [] 0 0 ''1'' no_run_time sample_client
     = Some (c', e, CallWaits) \<and> length e = 9"
proof -
  have "\<forall>a\<in>set (map refused_net [8, 9, 10]). unknown_failure a"
    by (simp add: refused_net_def unknown_failure_def ECONNREFUSED_def EAFNOSUPPORT_def)
  from client_retries_without_end [OF this sample_client_fields(1), of False "\<lambda>_. []" "[]" "[]" 0 0 "''1''" no_run_time]
  show ?thesis by auto
qed

definition connected :: connect_answer where
  "connected = \<lparr>ca_rt = 0, ca_errno = 0, ca_timer = False, ca_socket = 0\<rparr>"

theorem client_gets_reply_witness:
  "\<exists>c' e. sendAndRecv False (\<lambda>_. []) [connected] [] [(Got (concat (map frame_of [packet_of sample_rpc])), [])] 0 0
       (pk_no (packet_of sample_rpc)) no_run_time sample_client
     = Some (c', e, CallReturned 0 (Some (deliver RpcStruct (Some (packet_of sample_rpc)))))"
proof -
  let ?ps = "[packet_of sample_rpc]"
  have "frame_len (packet_of sample_rpc) < 100"
    by (simp add: frame_len_def packet_of_def sample_rpc_def full_name_of_def RpcStruct_def kMinPacketLen_def)
  moreover have "concat (map frame_of ?ps) \<noteq> []" by (simp add: frame_of_def)
  ultimately have "delivers (TcpBuffer 100) (concat (map frame_of ?ps)) [(Got (concat (map frame_of ?ps)), [])]"
    by (intro delivers.last_read [of _ _ "TcpBuffer 100"]) (auto simp: make_room_def)
  moreover have "\<forall>p\<in>set ?ps. packet_ok p" using packet_ok_sample by simp
  moreover have "find (\<lambda>p. pk_no p = pk_no (packet_of sample_rpc)) ?ps = Some (packet_of sample_rpc)"
    by simp
  moreover have "contents (m_write_buffer (m_connection sample_client)) = []" by (simp add: sample_client_fields)
  ultimately show ?thesis
    using client_gets_reply [where is_main = False and c = sample_client and no = "pk_no (packet_of sample_rpc)" and ps = ?ps and a = connected
        and r = "packet_of sample_rpc" and rs = "[(Got (concat (map frame_of ?ps)), [])]" and ns = "[]" and strerror = "\<lambda>_. []" and errno = 0 and sock = 0 and rt = no_run_time]
    by (auto simp: sample_client_fields connected_def simp del: concat.simps list.map(2) find.simps)
qed

theorem client_on_peer_close_witness:
  "(\<exists>c' e. sendAndRecv False (\<lambda>_. []) [] [] [(Got [], [])] 0 9 ''1'' no_run_time
       (sample_client\<lparr>m_connection := setUpClient (m_connection sample_client)\<rparr>) = Some (c', e, CallWaits) \<and> event_pending c')
   \<and> (\<exists>c' e. sendAndRecv True (\<lambda>_. []) [] [] [(Got [], [])] 0 9 ''1'' no_run_time
       (sample_client\<lparr>m_connection := setUpClient (m_connection sample_client)\<rparr>)
       = Some (c', e, CallReturned ERROR_PEER_CLOSED None) \<and> event_pending c')"
proof -
  let ?c = "sample_client\<lparr>m_connection := setUpClient (m_connection sample_client)\<rparr>"
  have "map_find (m_reply_datas (m_connection ?c)) ''1'' = None" "m_connection_type (m_connection ?c) = ClientConnection"
    "m_state (m_connection ?c) = Connected" "\<not> m_is_over_time (m_connection ?c)"
    "buf_ok (m_write_buffer (m_connection ?c))" "buf_ok (m_read_buffer (m_connection ?c))"
    "sum_list [] = length (contents (m_write_buffer (m_connection ?c)))"
    by (simp_all add: sample_client_fields setUpClient_def setState_def)
  note fields = this
  show ?thesis
    using client_on_peer_close [OF fields(5,6,3,4,2,1) _ fields(7), of "Got []" False "\<lambda>_. []" "[]" "[]" 0 9 no_run_time]
      client_on_peer_close [OF fields(5,6,3,4,2,1) _ fields(7), of "Got []" True "\<lambda>_. []" "[]" "[]" 0 9 no_run_time]
    by auto
qed

end
