(* ===== verification/Discovery.thy ===== *)
theory Discovery
  imports Config NetAddress TcpServer
begin

text \<open>
  \<open>src/registry/zookeeperutil.{h,cc}\<close> and \<open>src/rpc/rpcprovider.{h,cc}\<close>: how a provider publishes its
  services and a caller finds them. ZooKeeper is a map from paths to the data of a node (\<^term>\<open>None\<close> for
  a node without data); \<open>zoo_get\<close> copies as much of the data as fits and writes nothing behind it,
  so that the rest of the caller's buffer is what the stack held, the argument \<open>junk\<close>.
\<close>

section \<open>The code\<close>

type_synonym zk = "string \<Rightarrow> bytes option option"

definition zk_connstr :: "config \<Rightarrow> string" where
  "zk_connstr cfg = m_zookeeper_ip cfg @ '':'' @ int_str (m_zookeeper_port cfg)"

text \<open>\<open>ZkClient::Create\<close>: a node that exists is left as it is. \<open>created\<close> is whether ZooKeeper allows it;
  otherwise the process exits.\<close>

definition zk_Create :: "(string \<Rightarrow> bool) \<Rightarrow> string \<Rightarrow> bytes option \<Rightarrow> zk \<Rightarrow> zk option" where
  "zk_Create created path data z =
     (if z path \<noteq> None then Some z
      else if created path then Some (z(path \<mapsto> data)) else None)"

text \<open>\<open>ZkClient::GetData\<close>; \<^term>\<open>None\<close> is reading behind the buffer for want of a terminator.\<close>

definition zk_GetData :: "bytes \<Rightarrow> zk \<Rightarrow> string \<Rightarrow> string option" where
  "zk_GetData junk z path =
     (case z path of
        None \<Rightarrow> Some []
      | Some data \<Rightarrow>
          let data = (case data of None \<Rightarrow> [] | Some bs \<Rightarrow> take 64 bs);
              buffer = data @ drop (length data) (take 64 junk)
          in if CHR 0x00 \<in> set buffer then Some (c_str buffer) else None)"

text \<open>The provider's table: the service by number, and the names of its methods.\<close>

type_synonym service_table = "(string, nat \<times> string list) std_map"

definition NotifyService :: "nat \<Rightarrow> string \<Rightarrow> string list \<Rightarrow> service_table \<Rightarrow> service_table" where
  "NotifyService sv name methods m = fst (map_emplace name (sv, methods) m)"

text \<open>\<open>sprintf(method_path_data, "%s:%d", ip, port)\<close> into 128 bytes.\<close>

definition method_path_data :: "string \<Rightarrow> 16 word \<Rightarrow> bytes option" where
  "method_path_data ip port =
     (let s = c_str ip @ '':'' @ nat_str (unat port)
      in if length s < 128 then Some s else None)"

fun publish_methods :: "(string \<Rightarrow> bool) \<Rightarrow> string \<Rightarrow> 16 word \<Rightarrow> string \<Rightarrow> string list \<Rightarrow> zk \<Rightarrow> zk option" where
  "publish_methods created ip port service_path [] z = Some z"
| "publish_methods created ip port service_path (mn # mns) z = do {
     data \<leftarrow> method_path_data ip port;
     z \<leftarrow> zk_Create created (service_path @ ''/'' @ mn) (Some data) z;
     publish_methods created ip port service_path mns z }"

fun publish_services :: "(string \<Rightarrow> bool) \<Rightarrow> string \<Rightarrow> 16 word \<Rightarrow> service_table \<Rightarrow> zk \<Rightarrow> zk option" where
  "publish_services created ip port [] z = Some z"
| "publish_services created ip port ((name, sv, methods) # sps) z = do {
     z \<leftarrow> zk_Create created (''/'' @ name) None z;
     z \<leftarrow> publish_methods created ip port (''/'' @ name) methods z;
     publish_services created ip port sps z }"

text \<open>
  \<open>Run\<close> up to the start of the server: the services go to the dispatcher of a new server \<open>s\<close>, and to
  ZooKeeper. \<open>object n\<close> is the service object of number \<open>n\<close>.
\<close>

definition provider_Run ::
  "inet_addr_fun \<Rightarrow> (string \<Rightarrow> bool) \<Rightarrow> config \<Rightarrow> (nat \<Rightarrow> 'm pb_service) \<Rightarrow> service_table \<Rightarrow> 'm tcp_server \<Rightarrow> zk
     \<Rightarrow> (ip_address \<times> 'm tcp_server \<times> zk) option" where
  "provider_Run inet created cfg object m s z =
     (let ip = m_rpc_server_ip cfg; port = word_of_int (m_rpc_server_port cfg);
          addr = IPAddress_ip_port inet ip port;
          s = fold (\<lambda>sp s. snd (server_registerService (Some (object (fst (snd sp)))) s)) m s
      in map_option (\<lambda>z. (addr, s, z)) (publish_services created ip port m z))"

section \<open>What is published is found\<close>

lemma zk_Create_grows: "zk_Create created path data z = Some z' \<Longrightarrow> z p = Some d \<Longrightarrow> z' p = Some d"
  by (auto simp: zk_Create_def split: if_splits)

lemma zk_Create_new: "zk_Create created path data z = Some z' \<Longrightarrow> z path = None \<Longrightarrow> z' path = Some data"
  by (auto simp: zk_Create_def split: if_splits)

lemma zk_Create_path: "zk_Create created path data z = Some z' \<Longrightarrow> p \<noteq> path \<Longrightarrow> z' p = z p"
  by (auto simp: zk_Create_def split: if_splits)

lemma publish_methods_grows:
  "publish_methods created ip port sp mns z = Some z' \<Longrightarrow> z p = Some d \<Longrightarrow> z' p = Some d"
  by (induction created ip port sp mns z rule: publish_methods.induct)
     (auto simp: bind_eq_Some_iff dest: zk_Create_grows)

lemma publish_services_grows:
  "publish_services created ip port sps z = Some z' \<Longrightarrow> z p = Some d \<Longrightarrow> z' p = Some d"
  by (induction created ip port sps z rule: publish_services.induct)
     (auto simp: bind_eq_Some_iff dest: zk_Create_grows publish_methods_grows)

lemma publish_methods_path:
  "publish_methods created ip port sp mns z = Some z' \<Longrightarrow> \<forall>mn\<in>set mns. p \<noteq> sp @ ''/'' @ mn \<Longrightarrow> z' p = z p"
  by (induction created ip port sp mns z rule: publish_methods.induct)
     (auto simp: bind_eq_Some_iff dest: zk_Create_path)

lemma publish_methods_new:
  assumes "publish_methods created ip port sp mns z = Some z'" and "mn \<in> set mns"
    and "z (sp @ ''/'' @ mn) = None"
  shows "z' (sp @ ''/'' @ mn) = Some (method_path_data ip port)"
  using assms
proof (induction mns arbitrary: z)
  case (Cons m mns)
  from Cons.prems(1) obtain data z1 where data: "method_path_data ip port = Some data"
    and z1: "zk_Create created (sp @ ''/'' @ m) (Some data) z = Some z1"
    and rest: "publish_methods created ip port sp mns z1 = Some z'"
    by (auto simp: bind_eq_Some_iff)
  show ?case
  proof (cases "m = mn")
    case True
    with zk_Create_new [OF z1] Cons.prems(3) have "z1 (sp @ ''/'' @ mn) = Some (Some data)" by simp
    with publish_methods_grows [OF rest] data show ?thesis by simp
  next
    case False
    with zk_Create_path [OF z1, of "sp @ ''/'' @ mn"] Cons.prems(3) have "z1 (sp @ ''/'' @ mn) = None" by simp
    then show ?thesis using Cons.IH [OF rest] Cons.prems(2) False by simp
  qed
qed simp

text \<open>No name of a service or method has a slash, as the names of protobuf have none.\<close>

definition plain_table :: "service_table \<Rightarrow> bool" where
  "plain_table m \<longleftrightarrow> (\<forall>(name, sv, methods)\<in>set m. CHR ''/'' \<notin> set name \<and> (\<forall>mn\<in>set methods. CHR ''/'' \<notin> set mn))"

lemma slash_split:
  assumes "CHR ''/'' \<notin> set a" "CHR ''/'' \<notin> set c"
  shows "a @ CHR ''/'' # b = c @ CHR ''/'' # d \<longleftrightarrow> a = c \<and> b = d"
  using assms
proof (induction a arbitrary: c)
  case Nil
  then show ?case by (cases c) auto
next
  case (Cons x a)
  then show ?case by (cases c) auto
qed

lemma publish_services_new:
  assumes "publish_services created ip port m z = Some z'" and "plain_table m" and "map_ok m"
    and "(name, sv, methods) \<in> set m" and "mn \<in> set methods"
    and "z (''/'' @ name @ ''/'' @ mn) = None"
  shows "z' (''/'' @ name @ ''/'' @ mn) = Some (method_path_data ip port)"
  using assms
proof (induction m arbitrary: z)
  case (Cons sp m)
  obtain n s ms where sp: "sp = (n, s, ms)" by (metis prod_cases3)
  let ?p = "''/'' @ name @ ''/'' @ mn"
  from Cons.prems(1) obtain z1 z2 where z1: "zk_Create created (''/'' @ n) None z = Some z1"
    and z2: "publish_methods created ip port (''/'' @ n) ms z1 = Some z2"
    and rest: "publish_services created ip port m z2 = Some z'"
    by (auto simp: sp bind_eq_Some_iff)
  have n: "CHR ''/'' \<notin> set n" using Cons.prems(2) by (auto simp: plain_table_def sp)
  have nm: "CHR ''/'' \<notin> set name" using Cons.prems(2,4) by (auto simp: plain_table_def)
  have "?p \<noteq> ''/'' @ n" using n by auto
  then have z1p: "z1 ?p = None" using zk_Create_path [OF z1, of ?p] Cons.prems(6) by simp
  show ?case
  proof (cases "n = name")
    case True
    have "(name, sv, methods) = sp"
    proof (rule ccontr)
      assume "(name, sv, methods) \<noteq> sp"
      then have "(name, sv, methods) \<in> set m" using Cons.prems(4) by simp
      then have "n < name" using Cons.prems(3) by (auto simp: map_ok_Cons sp)
      then show False using True by simp
    qed
    then have "z2 ?p = Some (method_path_data ip port)"
      using publish_methods_new [OF z2, of mn] Cons.prems(5) z1p True by (simp add: sp)
    then show ?thesis by (rule publish_services_grows [OF rest])
  next
    case False
    have "\<forall>mn'\<in>set ms. ?p \<noteq> (''/'' @ n) @ ''/'' @ mn'"
      using slash_split [OF nm n] False by auto
    then have "z2 ?p = None" using publish_methods_path [OF z2] z1p by simp
    moreover have "(name, sv, methods) \<in> set m" using Cons.prems(4) False by (auto simp: sp)
    moreover have "plain_table m" "map_ok m" using Cons.prems(2,3) by (simp_all add: plain_table_def map_ok_Cons)
    ultimately show ?thesis using Cons.IH [OF rest] Cons.prems(5) by blast
  qed
qed simp

lemma published_address:
  assumes "provider_Run inet created cfg object m s z = Some (addr, s', z')"
    and "plain_table m" "map_ok m" "(name, sv, methods) \<in> set m" "mn \<in> set methods"
    and "z (''/'' @ name @ ''/'' @ mn) = None"
    and "CHR 0x00 \<notin> set (m_rpc_server_ip cfg)"
    and "length (IPAddress_toString addr) < 64" "length junk = 64"
    and "junk ! length (IPAddress_toString addr) = CHR 0x00"
  shows "zk_GetData junk z' (''/'' @ name @ ''/'' @ mn) = Some (IPAddress_toString addr)"
    and "addr = IPAddress_ip_port inet (m_rpc_server_ip cfg) (word_of_int (m_rpc_server_port cfg))"
proof -
  let ?ip = "m_rpc_server_ip cfg" and ?port = "word_of_int (m_rpc_server_port cfg) :: 16 word"
  let ?bs = "?ip @ '':'' @ nat_str (unat ?port)"
  from assms(1) show addr: "addr = IPAddress_ip_port inet ?ip ?port"
    by (auto simp: provider_Run_def Let_def)
  from assms(1) have pub: "publish_services created ?ip ?port m z = Some z'"
    by (auto simp: provider_Run_def Let_def)
  have shown: "IPAddress_toString addr = ?bs" by (simp add: addr IPAddress_toString_def IPAddress_ip_port_def)
  have nul: "CHR 0x00 \<notin> set ?bs"
    using assms(7) nat_str_digits [of "unat ?port"] by (auto simp: is_digit_def)
  then have "c_str ?ip = ?ip" by (auto simp: c_str_def takeWhile_eq_all_conv)
  then have data: "method_path_data ?ip ?port = Some ?bs"
    using assms(8) shown by (simp add: method_path_data_def Let_def)
  have node: "z' (''/'' @ name @ ''/'' @ mn) = Some (Some ?bs)"
    using publish_services_new [OF pub assms(2-6)] data by simp
  let ?n = "length ?bs"
  have n: "?n < length junk" using assms(8,9) shown by simp
  then have drop: "drop ?n junk = CHR 0x00 # drop (Suc ?n) junk"
    using assms(10) shown by (metis Cons_nth_drop_Suc)
  have "c_str (?bs @ CHR 0x00 # drop (Suc ?n) junk) = ?bs"
    unfolding c_str_def by (rule takeWhile_neq_append [OF nul])
  then show "zk_GetData junk z' (''/'' @ name @ ''/'' @ mn) = Some (IPAddress_toString addr)"
    using node drop assms(8,9) by (simp add: zk_GetData_def Let_def shown)
qed

text \<open>
  A client finds the provider. After \<open>RpcProvider::Run\<close> has published its services,
  looking up any method of any of them gives the address at which the provider's server listens,
  provided the address is short enough for the buffer and the buffer happens to hold a zero behind it.
\<close>

theorem discovery_roundtrip:
  assumes "provider_Run inet created cfg object m s z = Some (addr, s', z')"
    and "plain_table m" "map_ok m" "(name, sv, methods) \<in> set m" "mn \<in> set methods"
    and "z (''/'' @ name @ ''/'' @ mn) = None"
    and "CHR '':'' \<notin> set (m_rpc_server_ip cfg)" "CHR 0x00 \<notin> set (m_rpc_server_ip cfg)"
    and "length (IPAddress_toString addr) < 64" "length junk = 64"
    and "junk ! length (IPAddress_toString addr) = CHR 0x00"
  shows "\<exists>shown. zk_GetData junk z' (''/'' @ name @ ''/'' @ mn) = Some shown
     \<and> IPAddress_string inet shown = Some addr"
  using published_address [OF assms(1-6,8-11)] IPAddress_roundtrip [OF assms(7)] by simp

text \<open>
  The terminator is luck: nothing in the code writes it. If the stack holds a digit behind the
  address, the caller connects to another port, and if it holds no zero byte at all the caller
  reads behind the buffer.
\<close>

lemma junk_changes_port:
  "zk_GetData (''.............7'' @ replicate 50 CHR 0x00) [''/S/m'' \<mapsto> Some ''10.0.0.1:8000''] ''/S/m''
     = Some ''10.0.0.1:80007''"
  by (simp add: zk_GetData_def c_str_def)

lemma no_terminator_overruns:
  "zk_GetData (replicate 64 CHR ''x'') [''/S/m'' \<mapsto> Some ''10.0.0.1:8000''] ''/S/m'' = None"
  by (simp add: zk_GetData_def)

section \<open>What is published is served\<close>

lemma registered_services:
  assumes "m_protocal_type s = TinyPb_Protocal" and "m_dispatcher s = RpcDispatcher disp"
  shows "m_dispatcher (fold (\<lambda>sp s. snd (server_registerService (Some (object (fst (snd sp)))) s)) m s)
     = RpcDispatcher (fold (\<lambda>sp. registerService (object (fst (snd sp)))) m disp)"
  using assms
proof (induction m arbitrary: s disp)
  case (Cons sp m)
  then show ?case by (simp add: server_registerService_def)
qed simp

section \<open>A concrete provider\<close>

definition sample_object :: "nat \<Rightarrow> string pb_service" where
  "sample_object n =
     \<lparr>sd_name = ''User'', sd_methods = [''Login''], sd_request_type = (\<lambda>_. ''LoginRequest''),
      sd_parse = (\<lambda>m bs. Some bs), sd_call = (\<lambda>m q. q), sd_serialize = Some\<rparr>"

lemma shown_sample:
  "IPAddress_toString (IPAddress_ip_port inet ''127.0.0.1'' (word_of_int 8000)) = ''127.0.0.1:8000''"
  by (simp add: IPAddress_toString_def IPAddress_ip_port_def nat_str.simps [of 8000] nat_str.simps [of 800]
      nat_str.simps [of 80] nat_str.simps [of 8] digit_char_def) (simp add: char_of_def bit_0)

theorem discovery_roundtrip_witness:
  "\<exists>addr s' z' shown. provider_Run (\<lambda>_. Some 1) (\<lambda>_. True) default_config sample_object [(''User'', 0, [''Login''])] sample_server Map.empty
       = Some (addr, s', z')
     \<and> zk_GetData (replicate 64 CHR 0x00) z' ''/User/Login'' = Some shown \<and> IPAddress_string (\<lambda>_. Some 1) shown = Some addr"
proof -
  let ?m = "[(''User'', 0, [''Login''])] :: service_table"
  let ?addr = "IPAddress_ip_port (\<lambda>_. Some 1) ''127.0.0.1'' (word_of_int 8000)"
  have data: "method_path_data ''127.0.0.1'' (word_of_int 8000) \<noteq> None"
    using shown_sample by (simp add: method_path_data_def Let_def IPAddress_toString_def IPAddress_ip_port_def c_str_def)
  then obtain s' z' where run: "provider_Run (\<lambda>_. Some 1) (\<lambda>_. True) default_config sample_object ?m sample_server Map.empty
      = Some (?addr, s', z')"
    by (auto simp: provider_Run_def default_config_def Let_def zk_Create_def)
  have "length (IPAddress_toString ?addr) < 64" "replicate 64 (CHR 0x00) ! length (IPAddress_toString ?addr) = CHR 0x00"
    unfolding shown_sample by simp_all
  from discovery_roundtrip [OF run _ _ _ _ _ _ _ this(1) _ this(2), of "''User''" 0 "[''Login'']" "''Login''"]
  show ?thesis using run by (auto simp: plain_table_def map_ok_def default_config_def)
qed

end
