(* ===== verification/ZkSession.thy ===== *)
theory ZkSession
  imports Prelude
begin

text \<open>
  \<open>ZkClient::Start\<close>, its watcher and the destructor (\<open>src/registry/zookeeperutil.cc\<close>): the thread that
  starts the client waits on a semaphore of its own stack for the first connection event, which a
  thread of the ZooKeeper library delivers. The library is known by what its documentation says:
  \<open>zookeeper_init\<close> returns at once, from then to \<open>zookeeper_close\<close> the watcher is called on the library's
  own thread with every session event, and \<open>zoo_get_context\<close> answers what \<open>zoo_set_context\<close> stored, at first
  null.
\<close>

section \<open>The code\<close>

datatype starter_at = BeforeInit | BeforeContext | InSemWait | StartReturned | ClientDestroyed | ProcessExited

text \<open>
  The semaphore on the stack of \<open>Start\<close> lives until \<open>Start\<close> returns; the context keeps its address.
  \<open>session_broken\<close>: \<open>sem_post\<close> was called on null or on a semaphore that is gone.
\<close>

record zk_session =
  starter :: starter_at
  context_set :: bool
  sem_alive :: bool
  sem_value :: nat
  session_broken :: bool

definition ZkClient :: zk_session where
  "ZkClient = \<lparr>starter = BeforeInit, context_set = False, sem_alive = False, sem_value = 0, session_broken = False\<rparr>"

definition global_watcher :: "bool \<Rightarrow> bool \<Rightarrow> zk_session \<Rightarrow> zk_session" where
  "global_watcher session_event connected z =
     (if session_event \<and> connected
      then if context_set z \<and> sem_alive z then z\<lparr>sem_value := sem_value z + 1\<rparr> else z\<lparr>session_broken := True\<rparr>
      else z)"

text \<open>The steps of \<open>Start\<close> and of the destructor; \<open>init_ok\<close> is whether \<open>zookeeper_init\<close> gave a handle.\<close>

definition zk_init :: "bool \<Rightarrow> zk_session \<Rightarrow> zk_session" where
  "zk_init init_ok z = z\<lparr>starter := (if init_ok then BeforeContext else ProcessExited)\<rparr>"

definition zk_set_context :: "zk_session \<Rightarrow> zk_session" where
  "zk_set_context z = z\<lparr>starter := InSemWait, sem_alive := True, sem_value := 0, context_set := True\<rparr>"

definition zk_wait_over :: "zk_session \<Rightarrow> zk_session" where
  "zk_wait_over z = z\<lparr>starter := StartReturned, sem_value := sem_value z - 1, sem_alive := False\<rparr>"

inductive zk_step :: "zk_session \<Rightarrow> zk_session \<Rightarrow> bool" where
  inits: "starter z = BeforeInit \<Longrightarrow> zk_step z (zk_init ok z)"
| sets_context: "starter z = BeforeContext \<Longrightarrow> zk_step z (zk_set_context z)"
| wait_returns: "starter z = InSemWait \<Longrightarrow> 0 < sem_value z \<Longrightarrow> zk_step z (zk_wait_over z)"
| destroys: "starter z \<in> {BeforeInit, StartReturned} \<Longrightarrow> zk_step z (z\<lparr>starter := ClientDestroyed\<rparr>)"
| event: "starter z \<in> {BeforeContext, InSemWait, StartReturned} \<Longrightarrow> zk_step z (global_watcher session_event connected z)"

section \<open>When it works, and when not\<close>

text \<open>
  One connection event, delivered while \<open>Start\<close> waits, is what \<open>Start\<close> is made for. The runs in which
  connection events come only then keep \<open>zk_ok\<close>.
\<close>

definition zk_ok :: "zk_session \<Rightarrow> bool" where
  "zk_ok z \<longleftrightarrow>
     \<not> session_broken z
     \<and> (sem_alive z \<longleftrightarrow> starter z = InSemWait)
     \<and> (starter z \<in> {BeforeInit, BeforeContext} \<longrightarrow> \<not> context_set z)
     \<and> (starter z = InSemWait \<longrightarrow> context_set z)"

inductive calm_step :: "zk_session \<Rightarrow> zk_session \<Rightarrow> bool" where
  calm_inits: "starter z = BeforeInit \<Longrightarrow> calm_step z (zk_init ok z)"
| calm_sets_context: "starter z = BeforeContext \<Longrightarrow> calm_step z (zk_set_context z)"
| calm_wait_returns: "starter z = InSemWait \<Longrightarrow> 0 < sem_value z \<Longrightarrow> calm_step z (zk_wait_over z)"
| calm_destroys: "starter z \<in> {BeforeInit, StartReturned} \<Longrightarrow> calm_step z (z\<lparr>starter := ClientDestroyed\<rparr>)"
| calm_event: "starter z \<in> {BeforeContext, InSemWait, StartReturned}
    \<Longrightarrow> session_event \<and> connected \<longrightarrow> starter z = InSemWait
    \<Longrightarrow> calm_step z (global_watcher session_event connected z)"

lemma zk_ok_step: "calm_step z z' \<Longrightarrow> zk_ok z \<Longrightarrow> zk_ok z'"
  by (induction rule: calm_step.induct)
     (auto simp: zk_ok_def zk_init_def zk_set_context_def zk_wait_over_def global_watcher_def)

interpretation calm: step_invariant calm_step zk_ok
  by unfold_locales (rule zk_ok_step)

lemma in_time_session_holds: "calm_step\<^sup>*\<^sup>* ZkClient z \<Longrightarrow> \<not> session_broken z"
  using calm.steps_keep [of ZkClient z] by (auto simp: zk_ok_def ZkClient_def)

text \<open>
  C39: \<open>Start\<close> races with the watcher. The connection event can come before \<open>zoo_set_context\<close>, when
  \<open>sem_post\<close> gets a null pointer, and \<open>Start\<close> then waits for an event that has passed; and it comes again
  when the session is connected anew after \<open>Start\<close> has returned, when \<open>sem_post\<close> gets the address of a
  semaphore whose stack frame is gone. A run in which the event comes while \<open>Start\<close> waits lets it return.
\<close>

theorem zk_start_races:
  "(\<exists>z. zk_step\<^sup>*\<^sup>* ZkClient z \<and> session_broken z \<and> starter z = InSemWait \<and> sem_value z = 0)
   \<and> (\<exists>z z'. calm_step\<^sup>*\<^sup>* ZkClient z \<and> starter z = StartReturned \<and> zk_step z z' \<and> session_broken z')"
proof
  let ?i = "zk_init True ZkClient"
  let ?b = "global_watcher True True ?i"
  have "zk_step ZkClient ?i" by (rule zk_step.inits) (simp add: ZkClient_def)
  moreover have "zk_step ?i ?b" by (rule zk_step.event) (simp add: zk_init_def)
  moreover have "zk_step ?b (zk_set_context ?b)"
    by (rule zk_step.sets_context) (simp add: ZkClient_def zk_init_def global_watcher_def)
  ultimately have "zk_step\<^sup>*\<^sup>* ZkClient (zk_set_context ?b)"
    by (meson rtranclp.rtrancl_refl converse_rtranclp_into_rtranclp)
  then show "\<exists>z. zk_step\<^sup>*\<^sup>* ZkClient z \<and> session_broken z \<and> starter z = InSemWait \<and> sem_value z = 0"
    by (intro exI [where x = "zk_set_context ?b"])
      (simp add: ZkClient_def zk_init_def zk_set_context_def global_watcher_def)
next
  let ?i = "zk_init True ZkClient"
  let ?w = "zk_set_context ?i"
  let ?e = "global_watcher True True ?w"
  let ?r = "zk_wait_over ?e"
  have "calm_step ZkClient ?i" by (rule calm_step.calm_inits) (simp add: ZkClient_def)
  moreover have "calm_step ?i ?w" by (rule calm_step.calm_sets_context) (simp add: zk_init_def)
  moreover have "calm_step ?w ?e" by (rule calm_step.calm_event) (simp_all add: zk_set_context_def)
  moreover have "calm_step ?e ?r"
    by (rule calm_step.calm_wait_returns) (simp_all add: zk_set_context_def global_watcher_def)
  ultimately have "calm_step\<^sup>*\<^sup>* ZkClient ?r"
    by (meson rtranclp.rtrancl_refl converse_rtranclp_into_rtranclp)
  moreover have "starter ?r = StartReturned" by (simp add: zk_wait_over_def)
  moreover have "zk_step ?r (global_watcher True True ?r)" by (rule zk_step.event) (simp add: zk_wait_over_def)
  moreover have "session_broken (global_watcher True True ?r)" by (simp add: global_watcher_def zk_wait_over_def)
  ultimately show "\<exists>z z'. calm_step\<^sup>*\<^sup>* ZkClient z \<and> starter z = StartReturned \<and> zk_step z z' \<and> session_broken z'"
    by blast
qed

end
