(* ===== verification/RpcChannel.thy ===== *)
theory RpcChannel
  imports Discovery TcpClient
begin

text \<open>
  \<open>src/rpc/rpccontroller.{h,cc}\<close> and \<open>src/rpc/rpcchannel.{h,cc}\<close>: a call as a stub makes it. The request
  and the response are known by their bytes: \<open>args\<close> is what \<open>SerializeToString\<close> of the request
  answers, \<open>parse\<close> is \<open>ParseFromString\<close> of the response. The connection is the one of theory
  \<open>TcpClient\<close>, with its scripts.
\<close>

section \<open>The code\<close>

record rpc_controller =
  m_failed :: bool
  m_errText :: string
  m_error_code :: int
  m_msg_req :: string
  m_timeout :: int

definition RpcController :: rpc_controller where
  "RpcController = \<lparr>m_failed = False, m_errText = [], m_error_code = 0, m_msg_req = [], m_timeout = 5000\<rparr>"

definition controller_Reset :: "rpc_controller \<Rightarrow> rpc_controller" where
  "controller_Reset c = c\<lparr>m_failed := False, m_errText := [], m_error_code := 0, m_msg_req := []\<rparr>"
definition Failed :: "rpc_controller \<Rightarrow> bool" where "Failed c = m_failed c"
definition ErrorText :: "rpc_controller \<Rightarrow> string" where "ErrorText c = m_errText c"
definition SetFailed :: "string \<Rightarrow> rpc_controller \<Rightarrow> rpc_controller" where
  "SetFailed reason c = c\<lparr>m_failed := True, m_errText := reason\<rparr>"
definition ErrorCode :: "rpc_controller \<Rightarrow> int" where "ErrorCode c = m_error_code c"
definition SetErrorCode :: "int \<Rightarrow> rpc_controller \<Rightarrow> rpc_controller" where
  "SetErrorCode code c = c\<lparr>m_error_code := code\<rparr>"
definition SetError :: "int \<Rightarrow> string \<Rightarrow> rpc_controller \<Rightarrow> rpc_controller" where
  "SetError code info c = SetErrorCode code (SetFailed info c)"
definition MsgSeq :: "rpc_controller \<Rightarrow> string" where "MsgSeq c = m_msg_req c"
definition SetMsgReq :: "string \<Rightarrow> rpc_controller \<Rightarrow> rpc_controller" where
  "SetMsgReq no c = c\<lparr>m_msg_req := no\<rparr>"
definition SetTimeout :: "int \<Rightarrow> rpc_controller \<Rightarrow> rpc_controller" where
  "SetTimeout t c = c\<lparr>m_timeout := t\<rparr>"
definition Timeout :: "rpc_controller \<Rightarrow> int" where "Timeout c = m_timeout c"

text \<open>A call cannot be cancelled: \<open>StartCancel\<close> and \<open>NotifyOnCancel\<close> do nothing.\<close>

definition StartCancel :: "rpc_controller \<Rightarrow> rpc_controller" where "StartCancel c = c"
definition IsCanceled :: "rpc_controller \<Rightarrow> bool" where "IsCanceled c = False"
definition NotifyOnCancel :: "nat option \<Rightarrow> rpc_controller \<Rightarrow> rpc_controller" where "NotifyOnCancel callback c = c"

text \<open>
  The controller that the stub passes: this class (the \<open>dynamic_cast\<close> succeeds), or another one, of
  which only the text of \<open>SetFailed\<close> is known.
\<close>

datatype controller = Own rpc_controller | Other "string option"

definition call_failed :: "string \<Rightarrow> controller \<Rightarrow> controller" where
  "call_failed reason ctl = (case ctl of Own c \<Rightarrow> Own (SetFailed reason c) | Other _ \<Rightarrow> Other (Some reason))"

definition call_error :: "int \<Rightarrow> string \<Rightarrow> controller \<Rightarrow> controller" where
  "call_error code reason ctl =
     (case ctl of Own c \<Rightarrow> Own (SetError code reason c) | Other _ \<Rightarrow> Other (Some reason))"

text \<open>The address in the data of a node: \<^term>\<open>None\<close> when it has no colon.\<close>

definition host_and_port :: "string \<Rightarrow> (string \<times> 16 word) option" where
  "host_and_port host_data =
     (case find_sub '':'' host_data of
        None \<Rightarrow> None
      | Some idx \<Rightarrow> Some (take idx host_data,
                        word_of_int (atoi (substr host_data (idx + 1) (length host_data - idx)))))"

text \<open>
  The answers of the surroundings to one call, and whether it is made in the main coroutine of its
  thread.
\<close>

record call_env =
  env_main :: bool
  env_inet :: inet_addr_fun
  env_strerror :: "int \<Rightarrow> string"
  env_zk :: zk
  env_junk :: bytes
  env_socket :: int
  env_connects :: "connect_answer list"
  env_writes :: write_script
  env_reads :: read_script
  env_errno :: int
  env_socket2 :: int
  env_number :: string
  env_run_time :: run_time

datatype 'r call_outcome = Called controller "'r option" "TcpConnection.effect list" | Calling "TcpConnection.effect list"

definition CallMethod ::
  "call_env \<Rightarrow> string \<Rightarrow> string \<Rightarrow> bytes option \<Rightarrow> (bytes \<Rightarrow> 'r option) \<Rightarrow> controller
     \<Rightarrow> 'r call_outcome option" where
  "CallMethod env sv_name method args parse ctl =
     (case args of
        None \<Rightarrow> Some (Called (call_failed ''serialize request error'' ctl) None [])
      | Some args_str \<Rightarrow> do {
          let method_path = ''/'' @ sv_name @ ''/'' @ method;
          host_data \<leftarrow> zk_GetData (env_junk env) (env_zk env) method_path;
          if host_data = [] then Some (Called (call_failed (method_path @ '' is not exist!'') ctl) None [])
          else case host_and_port host_data of
            None \<Rightarrow> Some (Called (call_failed (method_path @ '' address is invalid!'') ctl) None [])
          | Some (ip, port) \<Rightarrow> do {
              let no = (case ctl of Own c \<Rightarrow> if MsgSeq c \<noteq> [] then MsgSeq c else env_number env
                                  | Other _ \<Rightarrow> env_number env);
              let pb_struct = RpcStruct\<lparr>service_name := sv_name, method_name := method, pb_data := args_str,
                                        msg_no := no\<rparr>;
              let addr = IPAddress_ip_port (env_inet env) ip port;
              let client = TcpClient (IPAddress_toString addr) (env_socket env);
              let client = setTimeout (case ctl of Own c \<Rightarrow> Timeout c | Other _ \<Rightarrow> 5000) client;
              (b, pb_struct) \<leftarrow> rpc_encode (env_number env) (m_write_buffer (m_connection client)) pb_struct;
              let client = client\<lparr>m_connection := (m_connection client)\<lparr>m_write_buffer := b\<rparr>\<rparr>;
              if \<not> encode_succ pb_struct
              then Some (Called (call_failed ''encode request error'' ctl) None (TcpClient_destroy client))
              else do {
                (client, e, fin) \<leftarrow> sendAndRecv (env_main env) (env_strerror env) (env_connects env) (env_writes env) (env_reads env)
                   (env_errno env) (env_socket2 env) (msg_no pb_struct) (env_run_time env) client;
                case fin of
                  CallWaits \<Rightarrow> Some (Calling e)
                | CallReturned code res_data \<Rightarrow>
                    let e = e @ TcpClient_destroy client
                    in if code \<noteq> 0 then Some (Called (call_error code (getErrInfo client) ctl) None e)
                       else (case res_data of
                         None \<Rightarrow> None
                       | Some d \<Rightarrow>
                           if err_code d \<noteq> 0
                           then Some (Called (call_error (sint (err_code d)) (err_info d) ctl) None e)
                           else (case parse (pb_data d) of
                             None \<Rightarrow> Some (Called (call_error ERROR_FAILED_DESERIALIZE ''deserialize response error'' ctl) None e)
                           | Some r \<Rightarrow> Some (Called ctl (Some r) e))) } } })"

section \<open>The controller\<close>

text \<open>\<open>Reset\<close> gives a controller back as it was constructed, except for the timeout.\<close>

lemma Reset_keeps_timeout:
  "controller_Reset c = RpcController\<lparr>m_timeout := m_timeout c\<rparr>"
  by (simp add: controller_Reset_def RpcController_def)

lemma SetError_result:
  "Failed (SetError code info c)" "ErrorText (SetError code info c) = info" "ErrorCode (SetError code info c) = code"
  "MsgSeq (SetError code info c) = MsgSeq c" "Timeout (SetError code info c) = Timeout c"
  by (simp_all add: SetError_def SetErrorCode_def SetFailed_def Failed_def ErrorText_def ErrorCode_def
      MsgSeq_def Timeout_def)

text \<open>
  A plain failure does not touch the error code: after a call that failed with a code, one that
  fails without leaves the old code.
\<close>

lemma SetFailed_keeps_code: "ErrorCode (SetFailed reason c) = ErrorCode c"
  by (simp add: ErrorCode_def SetFailed_def)

section \<open>A call over the network\<close>

text \<open>
  What comes of a reply packet: its error, or its data as the response's parser reads them.
\<close>

definition reply_outcome :: "(bytes \<Rightarrow> 'r option) \<Rightarrow> controller \<Rightarrow> packet \<Rightarrow> controller \<times> 'r option" where
  "reply_outcome parse ctl r =
     (if pk_code r \<noteq> 0 then (call_error (sint (pk_code r)) (pk_info r) ctl, None)
      else case parse (pk_data r) of
             None \<Rightarrow> (call_error ERROR_FAILED_DESERIALIZE ''deserialize response error'' ctl, None)
           | Some v \<Rightarrow> (ctl, Some v))"

text \<open>The request packet of a call.\<close>

definition call_number :: "call_env \<Rightarrow> controller \<Rightarrow> string" where
  "call_number env ctl =
     (case ctl of Own c \<Rightarrow> if MsgSeq c \<noteq> [] then MsgSeq c else env_number env | Other _ \<Rightarrow> env_number env)"

definition call_packet :: "call_env \<Rightarrow> string \<Rightarrow> string \<Rightarrow> bytes \<Rightarrow> controller \<Rightarrow> packet" where
  "call_packet env sv_name method args ctl =
     \<lparr>pk_no = call_number env ctl, pk_service = sv_name, pk_method = method, pk_code = 0, pk_info = [], pk_data = args\<rparr>"

lemma TcpClient_connection:
  "m_read_buffer (m_connection (TcpClient addr sock)) = TcpBuffer 128"
  "m_write_buffer (m_connection (TcpClient addr sock)) = TcpBuffer 128"
  "m_codec (m_connection (TcpClient addr sock)) = TinyPb_Protocal"
  "m_connection_type (m_connection (TcpClient addr sock)) = ClientConnection"
  "m_state (m_connection (TcpClient addr sock)) = NotConnected"
  "\<not> m_is_over_time (m_connection (TcpClient addr sock))"
  "m_reply_datas (m_connection (TcpClient addr sock)) = []"
  by (simp_all add: TcpClient_def TcpConnection_client_def initBuffer_def)

lemma sent_bytes_destroy [simp]: "sent_bytes (TcpClient_destroy c) = []"
  by (simp add: TcpClient_destroy_def)


lemma CallMethod_reply:
  assumes zk: "zk_GetData (env_junk env) (env_zk env) (''/'' @ sv_name @ ''/'' @ method) = Some host" "host \<noteq> []"
      "host_and_port host = Some (ip, port)"
    and ok: "packet_ok (call_packet env sv_name method args ctl)"
    and answers: "env_connects env = [a]" "ca_rt a = 0" "\<not> ca_timer a"
      "env_writes env = writes ns" "sum_list ns = frame_len (call_packet env sv_name method args ctl)" "0 \<notin> set ns"
    and r: "packet_ok r" "pk_no r = call_number env ctl" "delivers (TcpBuffer 128) (frame_of r) (env_reads env)"
  shows "\<exists>e. CallMethod env sv_name method (Some args) parse ctl
             = Some (Called (fst (reply_outcome parse ctl r)) (snd (reply_outcome parse ctl r)) e)
           \<and> sent_bytes e = frame_of (call_packet env sv_name method args ctl)"
proof -
  let ?p = "call_packet env sv_name method args ctl" and ?no = "call_number env ctl"
  let ?d = "RpcStruct\<lparr>service_name := sv_name, method_name := method, pb_data := args, msg_no := ?no\<rparr>"
  let ?addr = "IPAddress_toString (IPAddress_ip_port (env_inet env) ip port)"
  define c0 where "c0 = setTimeout (case ctl of Own c \<Rightarrow> Timeout c | Other _ \<Rightarrow> 5000) (TcpClient ?addr (env_socket env))"
  have c0: "m_connection c0 = m_connection (TcpClient ?addr (env_socket env))" by (simp add: c0_def setTimeout_def)
  have ne: "?no \<noteq> []" "sv_name \<noteq> []" "method \<noteq> []" and len: "frame_len ?p \<le> kMaxPacketLen"
    using ok by (simp_all add: packet_ok_def call_packet_def)
  have p: "packet_of (numbered (env_number env) ?d) = ?p"
    using ne by (simp add: numbered_def packet_of_def call_packet_def RpcStruct_def)
  obtain b where b: "rpc_encode (env_number env) (TcpBuffer 128) ?d
      = Some (b, (numbered (env_number env) ?d)\<lparr>encode_succ := True\<rparr>)" "buf_ok b" "contents b = frame_of ?p"
    using writeToBuffer_ok [OF buf_ok_TcpBuffer, of "frame_of ?p" 128] ne len
    by (auto simp: rpc_encode_def encodePbData_result p)
  let ?s = "(numbered (env_number env) ?d)\<lparr>encode_succ := True\<rparr>"
  have no: "msg_no ?s = ?no" using ne(1) by (simp add: numbered_def)
  define c1 where "c1 = c0\<lparr>m_connection := (m_connection c0)\<lparr>m_write_buffer := b\<rparr>\<rparr>"
  have reads: "delivers (TcpBuffer 128) (concat (map frame_of [r])) (env_reads env)" using r(3) by simp
  obtain c2 e where call: "sendAndRecv (env_main env) (env_strerror env) [a] (writes ns)
        (env_reads env) (env_errno env) (env_socket2 env) ?no (env_run_time env) c1
      = Some (c2, e, CallReturned 0 (Some (deliver RpcStruct (Some r))))" "sent_bytes e = contents b"
    using client_reply [of c1 ?no "[r]" r "env_reads env" a ns "env_main env" "env_strerror env" "env_errno env" "env_socket2 env" "env_run_time env"]
      TcpClient_connection [of ?addr "env_socket env"] b(2,3) r(1,2) reads answers(2,3,5,6)
    by (auto simp: c1_def c0)
  have d: "err_code (deliver RpcStruct (Some r)) = pk_code r" "err_info (deliver RpcStruct (Some r)) = pk_info r"
    "pb_data (deliver RpcStruct (Some r)) = pk_data r"
    by (simp_all add: deliver_def)
  have enc: "rpc_encode (env_number env) (m_write_buffer (m_connection c0)) ?d = Some (b, ?s)"
    using b(1) by (simp add: c0 TcpClient_connection)
  have "CallMethod env sv_name method (Some args) parse ctl
      = (case reply_outcome parse ctl r of (ctl, v) \<Rightarrow> Some (Called ctl v (e @ TcpClient_destroy c2)))"
    using call(1) answers(1,4) zk
    by (simp add: CallMethod_def Let_def call_number_def [symmetric] c0_def [symmetric] enc
        c1_def [symmetric] no d reply_outcome_def split: option.split)
  then show ?thesis using call(2) b(3) by (auto split: prod.split)
qed

end
