(* ===== verification/RpcCall.thy ===== *)
theory RpcCall
  imports RpcChannel
begin

text \<open>
  A call from the stub of the client to the service of the server and back: \<open>RpcChannel::CallMethod\<close>,
  \<open>TcpClient::sendAndRecv\<close> and the connection of the client on one side,
  \<open>TcpConnection::MainServerLoopCorFunc\<close> and \<open>RpcDispatcher::dispatch\<close> on the other, with the bytes
  that one side sends given to the other side to read.
\<close>

section \<open>The two sides\<close>

text \<open>A server connection between two requests; a new one is such a connection.\<close>

definition idle_server :: "tcp_connection \<Rightarrow> bool" where
  "idle_server c \<longleftrightarrow>
     buf_ok (m_read_buffer c) \<and> buf_ok (m_write_buffer c) \<and> m_codec c = TinyPb_Protocal
     \<and> m_connection_type c = ServerConnection \<and> m_state c = Connected \<and> \<not> m_is_over_time c \<and> \<not> m_stop c
     \<and> contents (m_read_buffer c) = [] \<and> contents (m_write_buffer c) = []"

lemma idle_server_accepted: "idle_server (fst (TcpConnection_server TinyPb_Protocal sock room))"
  by (simp add: idle_server_def TcpConnection_server_def initBuffer_def)

lemma accepted_buffer: "m_read_buffer (fst (TcpConnection_server ty sock room)) = TcpBuffer room"
  by (simp add: TcpConnection_server_def initBuffer_def)

text \<open>The packet that the server sends for a call, and what the caller gets for the service's answer.\<close>

definition answer_packet :: "'m service_map \<Rightarrow> packet \<Rightarrow> packet" where
  "answer_packet services p = packet_of (rpc_reply services (deliver RpcStruct (Some p)))"

definition call_answer :: "(bytes \<Rightarrow> 'r option) \<Rightarrow> controller \<Rightarrow> string \<Rightarrow> call_result \<Rightarrow> controller \<times> 'r option" where
  "call_answer parse ctl info res =
     (case res of
        Reply pb \<Rightarrow> (case parse pb of
                       Some r \<Rightarrow> (ctl, Some r)
                     | None \<Rightarrow> (call_error ERROR_FAILED_DESERIALIZE ''deserialize response error'' ctl, None))
      | _ \<Rightarrow> (call_error (result_code res) info ctl, None))"

lemma sint_result_code: "sint (word_of_int (result_code res) :: i32) = result_code res"
  by (cases res) (simp_all add: result_code_def error_code_defs)

lemma answer_packet_names:
  "pk_no (answer_packet services p) = pk_no p" "pk_service (answer_packet services p) = pk_service p"
  "pk_method (answer_packet services p) = pk_method p"
  by (simp_all add: answer_packet_def packet_of_def rpc_reply_names deliver_def)

lemma answer_packet_result:
  "pk_code (answer_packet services p)
     = word_of_int (result_code (call_service services (pk_service p) (pk_method p) (pk_data p)))"
  "pk_data (answer_packet services p) = result_data (call_service services (pk_service p) (pk_method p) (pk_data p))"
  by (simp_all add: answer_packet_def packet_of_def rpc_reply_result deliver_def)

lemma answer_packet_ok:
  "packet_ok p \<Longrightarrow> frame_len (answer_packet services p) \<le> kMaxPacketLen \<Longrightarrow> packet_ok (answer_packet services p)"
  by (simp add: packet_ok_def answer_packet_names)

lemma reply_outcome_answer:
  "reply_outcome parse ctl (answer_packet services p)
     = call_answer parse ctl (pk_info (answer_packet services p))
         (call_service services (pk_service p) (pk_method p) (pk_data p))" (is "_ = call_answer _ _ _ ?res")
proof (cases ?res)
  case (Reply pb)
  then show ?thesis
    by (simp add: reply_outcome_def call_answer_def answer_packet_result result_code_def result_data_def split: option.split)
qed (simp_all add: reply_outcome_def call_answer_def answer_packet_result sint_result_code result_code_def error_code_defs)

section \<open>The round trip\<close>

text \<open>The server's side: an idle connection answers the request and is idle again.\<close>

lemma serve_request:
  fixes services :: "'m service_map"
  assumes idle: "idle_server s" and p: "packet_ok p" "frame_len (answer_packet services p) \<le> kMaxPacketLen"
    and net: "delivers (m_read_buffer s) (frame_of p) rs" "sum_list ms = frame_len (answer_packet services p)" "0 \<notin> set ms"
  shows "\<exists>s' rt' e. MainServerLoopCorFunc services servlets fresh (rs, writes ms) (s, rt) = Some ((s', rt'), e, Suspended)
           \<and> idle_server s' \<and> sent_bytes e = frame_of (answer_packet services p)"
proof -
  have reply: "reply_frame services (deliver RpcStruct (Some p)) = frame_of (answer_packet services p)"
    using p(2) by (simp add: reply_frame_def answer_packet_def)
  from idle have c: "buf_ok (m_read_buffer s)" "buf_ok (m_write_buffer s)" "m_codec s = TinyPb_Protocal"
    "m_connection_type s = ServerConnection" "m_state s = Connected" "\<not> m_is_over_time s" "\<not> m_stop s"
    "contents (m_read_buffer s) = []" "contents (m_write_buffer s) = []" by (simp_all add: idle_server_def)
  have "\<exists>rb wb rt' e. MainServerLoopCorFunc services servlets fresh (rs, writes ms) (s, rt)
      = Some ((s\<lparr>m_read_buffer := rb, m_write_buffer := wb\<rparr>, rt'), e, Suspended)
      \<and> sent_bytes e = frame_of (answer_packet services p) \<and> buf_ok rb \<and> contents rb = [] \<and> buf_ok wb \<and> contents wb = []"
    using server_turn_once [OF c, where ps = "[p]" and rs = rs and ns = ms and services = services and servlets = servlets
        and fresh = fresh and rt = rt] p(1) net by (simp add: reply) blast
  then obtain rb wb rt' e where turn: "MainServerLoopCorFunc services servlets fresh (rs, writes ms) (s, rt)
      = Some ((s\<lparr>m_read_buffer := rb, m_write_buffer := wb\<rparr>, rt'), e, Suspended)"
      "sent_bytes e = frame_of (answer_packet services p)" "buf_ok rb" "contents rb = []" "buf_ok wb" "contents wb = []"
    by blast
  have "idle_server (s\<lparr>m_read_buffer := rb, m_write_buffer := wb\<rparr>)"
    using turn(3-6) idle by (simp add: idle_server_def)
  with turn(1,2) show ?thesis by blast
qed

text \<open>The client's side: the call returns what the answer of the server says.\<close>

lemma call_gets_answer:
  fixes services :: "'m service_map"
  assumes zk: "zk_GetData (env_junk env) (env_zk env) (''/'' @ sv_name @ ''/'' @ meth) = Some host" "host \<noteq> []"
      "host_and_port host = Some (ip, port)"
    and p: "call_packet env sv_name meth args ctl = p" "packet_ok p" "frame_len (answer_packet services p) \<le> kMaxPacketLen"
    and net: "env_connects env = [a]" "ca_rt a = 0" "\<not> ca_timer a"
      "env_writes env = writes ns" "sum_list ns = frame_len p" "0 \<notin> set ns"
      "delivers (TcpBuffer 128) (frame_of (answer_packet services p)) (env_reads env)"
  shows "\<exists>e. CallMethod env sv_name meth (Some args) parse ctl
       = (case call_answer parse ctl (pk_info (answer_packet services p)) (call_service services sv_name meth args) of
            (ctl', response) \<Rightarrow> Some (Called ctl' response e))
   \<and> sent_bytes e = frame_of p"
proof -
  let ?q = "answer_packet services p"
  have p_fields: "pk_service p = sv_name" "pk_method p = meth" "pk_data p = args" "pk_no p = call_number env ctl"
    unfolding p(1) [symmetric] by (simp_all add: call_packet_def)
  have "\<exists>e. CallMethod env sv_name meth (Some args) parse ctl
       = Some (Called (fst (reply_outcome parse ctl ?q)) (snd (reply_outcome parse ctl ?q)) e) \<and> sent_bytes e = frame_of p"
    using CallMethod_reply [of env sv_name meth host ip port args ctl a ns ?q parse, unfolded p(1), OF zk p(2) net(1-6)
        answer_packet_ok [OF p(2,3)] _ net(7)] by (simp add: answer_packet_names p_fields)
  then show ?thesis unfolding reply_outcome_answer p_fields by (simp add: split_beta)
qed

text \<open>
  C1: A call goes through. The client's stub calls a method of a service at an address that the registry
  knows, and the connection is made at the first attempt; each side takes the other's bytes in any
  number of writes and reads. Then the server's connection, idle before, has sent exactly the answer to
  the request that the client sent and is idle again; and the call returns with the response that the
  service computed from the request, or, where the service or the method is missing or the request or
  the response cannot be parsed or serialized, with the error code of that failure in the controller and
  no response.
\<close>

theorem rpc_call_answered:
  fixes services :: "'m service_map" and parse :: "bytes \<Rightarrow> 'r option"
    and args :: bytes and ctl :: controller
  assumes zk: "zk_GetData (env_junk env) (env_zk env) (''/'' @ sv_name @ ''/'' @ meth) = Some host" "host \<noteq> []"
      "host_and_port host = Some (ip, port)"
  defines "request \<equiv> call_packet env sv_name meth args ctl"
  defines "answer \<equiv> answer_packet services request"
  assumes fits: "packet_ok request" "frame_len answer \<le> kMaxPacketLen" "idle_server s"
    and net: "env_connects env = [a]" "ca_rt a = 0" "\<not> ca_timer a"
      "env_writes env = writes ns" "sum_list ns = frame_len request" "0 \<notin> set ns"
      "delivers (m_read_buffer s) (frame_of request) rs" "sum_list ms = frame_len answer" "0 \<notin> set ms"
      "delivers (TcpBuffer 128) (frame_of answer) (env_reads env)"
  shows "\<exists>s' rt' e1 e2.
     MainServerLoopCorFunc services servlets fresh (rs, writes ms) (s, rt) = Some ((s', rt'), e1, Suspended)
   \<and> idle_server s' \<and> sent_bytes e1 = frame_of answer
   \<and> CallMethod env sv_name meth (Some args) parse ctl
       = (case call_answer parse ctl (pk_info answer) (call_service services sv_name meth args) of
            (ctl', response) \<Rightarrow> Some (Called ctl' response e2))
   \<and> sent_bytes e2 = frame_of request"
  using serve_request [OF fits(3,1,2) [unfolded answer_def] net(7,8) [unfolded answer_def] net(9), of servlets fresh rt]
    call_gets_answer [where parse = parse, OF zk refl fits(1,2) [unfolded request_def answer_def] net(1-6,10) [unfolded request_def answer_def]]
  unfolding request_def answer_def by (elim exE conjE) (intro exI conjI)

section \<open>A concrete call\<close>

definition sample_request :: packet where
  "sample_request = \<lparr>pk_no = ''7'', pk_service = ''User'', pk_method = ''Login'', pk_code = 0, pk_info = [], pk_data = ''ab''\<rparr>"

definition sample_env :: call_env where
  "sample_env =
     \<lparr>env_main = False, env_inet = (\<lambda>_. Some 1), env_strerror = (\<lambda>_. []), env_zk = [''/User/Login'' \<mapsto> Some ''127.0.0.1:8000''],
      env_junk = replicate 64 CHR 0x00, env_socket = 5, env_connects = [connected],
      env_writes = writes [frame_len sample_request], env_reads = [], env_errno = 0, env_socket2 = 0,
      env_number = ''7'', env_run_time = no_run_time\<rparr>"

definition numbered_controller :: controller where
  "numbered_controller = Own (SetMsgReq ''7'' RpcController)"

lemma sample_request_packet:
  "call_packet (sample_env\<lparr>env_reads := rs\<rparr>) ''User'' ''Login'' ''ab'' (Own RpcController) = sample_request"
  "call_packet (sample_env\<lparr>env_reads := rs\<rparr>) ''User'' ''Login'' ''ab'' numbered_controller = sample_request"
  "call_packet sample_env ''User'' ''Login'' ''ab'' (Own RpcController) = sample_request"
  by (simp_all add: call_packet_def sample_request_def call_number_def MsgSeq_def RpcController_def sample_env_def
      numbered_controller_def SetMsgReq_def)

lemma sample_lookup:
  "zk_GetData (env_junk sample_env) (env_zk sample_env) (''/'' @ ''User'' @ ''/'' @ ''Login'') = Some ''127.0.0.1:8000''"
  "\<exists>port. host_and_port ''127.0.0.1:8000'' = Some (''127.0.0.1'', port)"
proof -
  show "zk_GetData (env_junk sample_env) (env_zk sample_env) (''/'' @ ''User'' @ ''/'' @ ''Login'') = Some ''127.0.0.1:8000''"
    by (simp add: sample_env_def zk_GetData_def c_str_def numeral_eq_Suc)
  show "\<exists>port. host_and_port ''127.0.0.1:8000'' = Some (''127.0.0.1'', port)"
    by (simp add: host_and_port_def)
qed

lemma sample_call_result: "call_service sample_services ''User'' ''Login'' ''ab'' = Reply ''ba''"
  by (simp add: call_service_def sample_services_def registerService_def map_find_def)

lemma sample_answer:
  "frame_len (answer_packet sample_services sample_request) < 128"
  by (simp add: answer_packet_def packet_of_def deliver_def rpc_reply_def sample_services_def registerService_def
      map_find_def sample_request_def RpcStruct_def frame_len_def full_name_of_def kMinPacketLen_def)

lemma sample_delivered:
  assumes "0 < length bs" "length bs < n"
  shows "delivers (TcpBuffer n) bs [(Got bs, [])]"
  using assms by (intro delivers.last_read) (auto simp: make_room_def TcpBuffer_def writeAble_def)

lemma frame_len_pos: "0 < frame_len p"
  using frame_len_ge [of p] by (simp add: kMinPacketLen_def)

lemma frame_of_fits:
  "frame_len p < n \<Longrightarrow> delivers (TcpBuffer n) (frame_of p) [(Got (frame_of p), [])]"
  by (rule sample_delivered) (simp_all add: frame_len_pos)

definition answered_env :: call_env where
  "answered_env = sample_env\<lparr>env_reads := [(Got (frame_of (answer_packet sample_services sample_request)), [])]\<rparr>"

lemma sample_packet_ok: "packet_ok sample_request" "frame_len sample_request < 128"
  by (simp_all add: packet_ok_def sample_request_def frame_len_def full_name_of_def kMinPacketLen_def kMaxPacketLen_def)

lemma answered_env_fields:
  "env_connects answered_env = [connected]" "env_writes answered_env = writes [frame_len sample_request]"
  "env_reads answered_env = [(Got (frame_of (answer_packet sample_services sample_request)), [])]"
  "env_junk answered_env = env_junk sample_env" "env_zk answered_env = env_zk sample_env"
  "call_packet answered_env ''User'' ''Login'' ''ab'' numbered_controller = sample_request"
  "call_packet answered_env ''User'' ''Login'' ''ab'' (Own RpcController) = sample_request"
  by (simp_all add: answered_env_def sample_request_packet) (simp_all add: sample_env_def)

lemma sample_call:
  "\<exists>e. CallMethod answered_env ''User'' ''Login'' (Some ''ab'') Some numbered_controller
         = Some (Called numbered_controller (Some ''ba'') e)"
proof -
  let ?q = "answer_packet sample_services sample_request"
  obtain port where port: "host_and_port ''127.0.0.1:8000'' = Some (''127.0.0.1'', port)" using sample_lookup(2) by blast
  have q: "packet_ok ?q" using sample_packet_ok sample_answer by (intro answer_packet_ok) (auto simp: kMaxPacketLen_def)
  have outcome: "reply_outcome Some numbered_controller ?q = (numbered_controller, Some ''ba'')"
    by (simp add: reply_outcome_answer) (simp add: sample_request_def sample_call_result call_answer_def)
  have no: "pk_no ?q = call_number answered_env numbered_controller"
    by (simp add: answer_packet_names)
       (simp add: sample_request_def call_number_def numbered_controller_def MsgSeq_def SetMsgReq_def)
  have "\<exists>e. CallMethod answered_env ''User'' ''Login'' (Some ''ab'') Some numbered_controller
      = Some (Called (fst (reply_outcome Some numbered_controller ?q)) (snd (reply_outcome Some numbered_controller ?q)) e)
      \<and> sent_bytes e = frame_of sample_request"
    using CallMethod_reply [of answered_env "''User''" "''Login''" "''127.0.0.1:8000''" "''127.0.0.1''" port "''ab''" numbered_controller
        connected "[frame_len sample_request]" ?q Some,
        unfolded answered_env_fields, OF sample_lookup(1) _ port sample_packet_ok(1) refl _ _ refl _ _ q no
          frame_of_fits [OF sample_answer]]
    by (simp add: connected_def frame_len_pos)
  then show ?thesis unfolding outcome by auto
qed

theorem rpc_call_answered_witness:
  "\<exists>e1 e2 s' rt'.
     MainServerLoopCorFunc sample_services [] []
       ([(Got (frame_of sample_request), [])], writes [frame_len (answer_packet sample_services sample_request)])
       (fst (TcpConnection_server TinyPb_Protocal 7 128), no_run_time) = Some ((s', rt'), e1, Suspended)
   \<and> sent_bytes e1 = frame_of (answer_packet sample_services sample_request)
   \<and> CallMethod answered_env ''User'' ''Login'' (Some ''ab'') Some (Own RpcController)
       = Some (Called (Own RpcController) (Some ''ba'') e2)"
proof -
  let ?q = "answer_packet sample_services sample_request" and ?s = "fst (TcpConnection_server TinyPb_Protocal 7 128)"
  obtain port where port: "host_and_port ''127.0.0.1:8000'' = Some (''127.0.0.1'', port)" using sample_lookup(2) by blast
  have len: "frame_len ?q \<le> kMaxPacketLen" using sample_answer by (simp add: kMaxPacketLen_def)
  have "\<exists>s' rt' e1 e2.
     MainServerLoopCorFunc sample_services [] []
       ([(Got (frame_of sample_request), [])], writes [frame_len ?q]) (?s, no_run_time) = Some ((s', rt'), e1, Suspended)
   \<and> idle_server s' \<and> sent_bytes e1 = frame_of ?q
   \<and> CallMethod answered_env ''User'' ''Login'' (Some ''ab'') Some (Own RpcController)
       = (case call_answer Some (Own RpcController) (pk_info ?q) (call_service sample_services ''User'' ''Login'' ''ab'') of
            (ctl', response) \<Rightarrow> Some (Called ctl' response e2))
   \<and> sent_bytes e2 = frame_of sample_request"
    using rpc_call_answered [where env = answered_env and sv_name = "''User''" and meth = "''Login''" and host = "''127.0.0.1:8000''"
        and ip = "''127.0.0.1''" and port = port and args = "''ab''" and ctl = "Own RpcController" and a = connected
        and ns = "[frame_len sample_request]" and services = sample_services and s = ?s and ms = "[frame_len ?q]"
        and rs = "[(Got (frame_of sample_request), [])]" and parse = Some and servlets = "[]" and fresh = "[]" and rt = no_run_time,
        unfolded answered_env_fields accepted_buffer, OF sample_lookup(1) _ port sample_packet_ok(1) len
          idle_server_accepted refl _ _ refl _ _ frame_of_fits [OF sample_packet_ok(2)] _ _ frame_of_fits [OF sample_answer]]
    by (simp add: connected_def frame_len_pos)
  then show ?thesis by (auto simp: sample_call_result call_answer_def)
qed

end
