(* ===== verification/RpcAsync.thy ===== *)
theory RpcAsync
  imports RpcCall CoroutinePool
begin

text \<open>
  \<open>src/rpc/rpcasyncchannel.{h,cc}\<close>, \<open>src/rpc/rpc_closure.h\<close> and \<open>src/application/rpcruntime.{h,cc}\<close>: a call
  that a coroutine of an io thread hands to another io thread, and its completion. The work of the
  call is \<open>RpcChannel::CallMethod\<close> of theory \<open>RpcChannel\<close>. What the two threads do in turn is a step
  relation: the worker thread runs the call's coroutine and its posted tasks, the thread of origin runs
  its coroutine or, while that is away, its posted tasks.
\<close>

section \<open>The code\<close>

subsection \<open>\<open>RpcClosure\<close> and the running server\<close>

text \<open>A closure holds a function or none. \<open>Run\<close> is recorded.\<close>

definition closure_Run :: "nat option \<Rightarrow> nat list \<Rightarrow> nat list" where
  "closure_Run m_cb called = (case m_cb of None \<Rightarrow> called | Some f \<Rightarrow> called @ [f])"

definition SetRpcServer :: "'m tcp_server option \<Rightarrow> 'm tcp_server option \<Rightarrow> 'm tcp_server option" where
  "SetRpcServer server g_rpc_server = server"

definition GetRpcServer :: "'m tcp_server option \<Rightarrow> 'm tcp_server option" where
  "GetRpcServer g_rpc_server = g_rpc_server"

subsection \<open>The channel\<close>

text \<open>
  Of the request the channel keeps what \<open>SerializeToString\<close> answers, of the response its value; \<^term>\<open>None\<close>
  is a null pointer. The thread of origin is the number of its thread.
\<close>

record 'r async_channel =
  ac_controller :: "controller option"
  ac_request :: "bytes option option"
  ac_response :: "'r option"
  ac_closure :: "nat option option"
  ac_prepared :: bool
  ac_finished :: bool
  ac_need_resume :: bool
  ac_pending :: "pooled option"
  ac_origin_coroutine :: nat
  ac_origin_io_thread :: "io_thread option"

definition RpcAsyncChannel :: "nat \<Rightarrow> io_thread option \<Rightarrow> 'r async_channel" where
  "RpcAsyncChannel cor thread =
     \<lparr>ac_controller = None, ac_request = None, ac_response = None, ac_closure = None, ac_prepared = False,
      ac_finished = False, ac_need_resume = False, ac_pending = None, ac_origin_coroutine = cor,
      ac_origin_io_thread = thread\<rparr>"

definition RpcAsyncChannel_destroy :: "'r async_channel \<Rightarrow> pool \<Rightarrow> pool" where
  "RpcAsyncChannel_destroy ch p = (case ac_pending ch of None \<Rightarrow> p | Some cor \<Rightarrow> returnCoroutine cor p)"

definition saveCallee ::
  "controller option \<Rightarrow> bytes option option \<Rightarrow> 'r option \<Rightarrow> nat option option \<Rightarrow> 'r async_channel \<Rightarrow> 'r async_channel" where
  "saveCallee ctl request response closure ch =
     ch\<lparr>ac_controller := ctl, ac_request := request, ac_response := response, ac_closure := closure,
        ac_prepared := (ctl \<noteq> None \<and> request \<noteq> None \<and> response \<noteq> None)\<rparr>"

text \<open>The controller that the stub passes: none, the one that was saved, or another.\<close>

datatype call_controller = NoController | SavedController | GivenController controller

definition setCallError ::
  "string \<Rightarrow> call_controller \<times> 'r async_channel \<Rightarrow> call_controller \<times> 'r async_channel" where
  "setCallError info s =
     (let (ctl, ch) = s;
          fail = call_error ERROR_NOT_SET_ASYNC_PRE_CALL info;
          (ctl, ch) = (case ctl of
             NoController \<Rightarrow> (ctl, ch)
           | SavedController \<Rightarrow> (ctl, ch\<lparr>ac_controller := map_option fail (ac_controller ch)\<rparr>)
           | GivenController c \<Rightarrow> (GivenController (fail c), ch))
      in (ctl, ch\<lparr>ac_finished := True\<rparr>))"

text \<open>
  What a call finds: the running server, whether the current coroutine is the main one, its run time, a
  fresh number, whether a \<open>shared_ptr\<close> owns the channel, the coroutine that the pool hands out, and the
  random number and the current thread of \<open>addCoroutineToRandomThread\<close>.
\<close>

record 'm async_env =
  as_server :: "'m tcp_server option"
  as_main :: bool
  as_run_time :: "run_time option"
  as_number :: string
  as_shared :: bool
  as_cor :: pooled
  as_rnd :: nat
  as_cur :: "io_thread option"

definition number_call :: "run_time option \<Rightarrow> string \<Rightarrow> controller \<Rightarrow> controller" where
  "number_call rt fresh ctl =
     (case ctl of
        Own c \<Rightarrow>
          if MsgSeq c = []
          then Own (SetMsgReq (case rt of Some rt \<Rightarrow> if m_msg_no rt \<noteq> [] then m_msg_no rt else fresh | None \<Rightarrow> fresh) c)
          else ctl
      | Other _ \<Rightarrow> ctl)"

definition async_CallMethod ::
  "'m async_env \<Rightarrow> bool \<Rightarrow> call_controller \<times> 'r async_channel \<times> net
     \<Rightarrow> (call_controller \<times> 'r async_channel \<times> net) option" where
  "async_CallMethod env has_method s =
     (let (ctl, ch, w) = s;
          refuse = (\<lambda>info ch. Some (let (ctl, ch) = setCallError info (ctl, ch) in (ctl, ch, w)))
      in if \<not> ac_prepared ch then refuse ''saveCallee must be called before RpcAsyncChannel::CallMethod'' ch
         else if \<not> has_method then refuse ''async rpc method is null'' ch
         else case GetRpcServer (as_server env) of
           None \<Rightarrow> refuse ''async rpc requires a running RpcProvider IO thread pool'' ch
         | Some server \<Rightarrow>
             if ac_origin_io_thread ch = None \<or> as_main env
             then refuse ''RpcAsyncChannel must be called inside an RPC IO coroutine'' ch
             else let ch = ch\<lparr>ac_controller := map_option (number_call (as_run_time env) (as_number env)) (ac_controller ch)\<rparr>
                  in if \<not> as_shared env then refuse ''RpcAsyncChannel must be created with std::make_shared'' ch
                     else do {
                       w \<leftarrow> addCoroutineToRandomThread (as_rnd env) (as_cur env) (p_obj (as_cor env)) False (m_io_pool server) w;
                       Some (ctl, ch\<lparr>ac_pending := Some (as_cor env)\<rparr>, w) })"

text \<open>\<open>wait\<close>: whether it yields, and the channel.\<close>

definition async_wait :: "bool \<Rightarrow> 'r async_channel \<Rightarrow> bool \<times> 'r async_channel" where
  "async_wait is_main ch =
     (let ch = ch\<lparr>ac_need_resume := True\<rparr>
      in if ac_finished ch then (False, ch)
         else if ac_origin_io_thread ch = None \<or> is_main
         then (False, snd (setCallError ''RpcAsyncChannel::wait cannot run in the main coroutine'' (SavedController, ch)))
         else (True, ch))"

text \<open>What a caller does: the call through the stub, with the saved controller, and \<open>wait\<close>; whether it yields there.\<close>

definition call_and_wait ::
  "'m async_env \<Rightarrow> 'r async_channel \<times> net \<Rightarrow> (bool \<times> 'r async_channel \<times> net) option" where
  "call_and_wait env s = do {
     (ctl, ch, w) \<leftarrow> async_CallMethod env True (SavedController, s);
     let (waits, ch) = async_wait (as_main env) ch;
     Some (waits, ch, w) }"

definition async_finished :: "'r async_channel \<Rightarrow> bool" where "async_finished ch = ac_finished ch"

text \<open>The task that ends a call, on the thread of origin: whether it resumes the coroutine there.\<close>

definition completion :: "'r async_channel \<times> nat list \<Rightarrow> bool \<times> 'r async_channel \<times> nat list" where
  "completion s =
     (let (ch, called) = s;
          ch = ch\<lparr>ac_finished := True\<rparr>;
          called = (case ac_closure ch of None \<Rightarrow> called | Some c \<Rightarrow> closure_Run c called)
      in (ac_need_resume ch, ch, called))"

subsection \<open>The two threads\<close>

text \<open>The coroutine of the call: in the worker's tasks, in its function on the worker, away, or at its end.\<close>

datatype job_at = JobQueued | JobRuns | JobAway | JobPosted | JobEnded

text \<open>The coroutine that called: at work, away in a hook, in \<open>wait\<close>, or at its end.\<close>

datatype origin_at = AtWork | InHook | InWait | Gone

record 'r async_world =
  chan :: "'r async_channel"
  job :: job_at
  worker_tasks :: nat
  origin_tasks :: nat
  origin :: origin_at
  wait_over :: bool
  ran_closures :: "nat list"

inductive async_step ::
  "call_env \<Rightarrow> string \<Rightarrow> string \<Rightarrow> (bytes \<Rightarrow> 'r option) \<Rightarrow> 'r async_world \<Rightarrow> 'r async_world \<Rightarrow> bool"
  for env sv_name meth parse where
  job_starts: "job w = JobQueued \<Longrightarrow> async_step env sv_name meth parse w (w\<lparr>job := JobRuns\<rparr>)"
| job_yields: "job w = JobRuns \<Longrightarrow> async_step env sv_name meth parse w (w\<lparr>job := JobAway\<rparr>)"
| job_resumes: "job w = JobAway \<Longrightarrow> async_step env sv_name meth parse w (w\<lparr>job := JobRuns\<rparr>)"
| job_posts:
    "job w = JobRuns \<Longrightarrow> ac_controller (chan w) = Some ctl \<Longrightarrow> ac_request (chan w) = Some args
      \<Longrightarrow> CallMethod env sv_name meth args parse ctl = Some (Called ctl' v e)
      \<Longrightarrow> async_step env sv_name meth parse w
            (w\<lparr>job := JobPosted, worker_tasks := worker_tasks w + 1,
               chan := (chan w)\<lparr>ac_controller := Some ctl',
                                ac_response := (case v of None \<Rightarrow> ac_response (chan w) | Some r \<Rightarrow> Some r)\<rparr>\<rparr>)"
| job_ends: "job w = JobPosted \<Longrightarrow> async_step env sv_name meth parse w (w\<lparr>job := JobEnded\<rparr>)"
| worker_runs_task:
    "worker_tasks w = Suc n \<Longrightarrow> job w \<noteq> JobRuns \<Longrightarrow> job w \<noteq> JobPosted
      \<Longrightarrow> async_step env sv_name meth parse w (w\<lparr>worker_tasks := n, origin_tasks := origin_tasks w + 1\<rparr>)"
| origin_runs_task:
    "origin_tasks w = Suc n \<Longrightarrow> origin w \<noteq> AtWork \<Longrightarrow> completion (chan w, ran_closures w) = (resumes, ch, called)
      \<Longrightarrow> async_step env sv_name meth parse w
            (w\<lparr>origin_tasks := n, chan := ch, ran_closures := called,
               origin := (if resumes \<and> origin w \<noteq> Gone then AtWork else origin w),
               wait_over := (wait_over w \<or> resumes \<and> origin w = InWait)\<rparr>)"
| origin_yields: "origin w = AtWork \<Longrightarrow> async_step env sv_name meth parse w (w\<lparr>origin := InHook\<rparr>)"
| origin_resumes: "origin w = InHook \<Longrightarrow> async_step env sv_name meth parse w (w\<lparr>origin := AtWork\<rparr>)"
| origin_ends: "origin w = AtWork \<Longrightarrow> async_step env sv_name meth parse w (w\<lparr>origin := Gone\<rparr>)"
| origin_waits:
    "origin w = AtWork \<Longrightarrow> async_wait False (chan w) = (yields, ch)
      \<Longrightarrow> async_step env sv_name meth parse w
            (w\<lparr>chan := ch, origin := (if yields then InWait else AtWork), wait_over := (wait_over w \<or> \<not> yields)\<rparr>)"

text \<open>The state after a call has been handed over.\<close>

definition handed_over :: "'r async_channel \<Rightarrow> 'r async_world" where
  "handed_over ch =
     \<lparr>chan = ch, job = JobQueued, worker_tasks = 0, origin_tasks = 0, origin = AtWork, wait_over = False, ran_closures = []\<rparr>"

section \<open>One call\<close>

text \<open>
  The invariant of one call: one token goes from the call's coroutine through the worker's task to the
  thread of origin; the coroutine waits only while the token is on its way; and when it has arrived,
  the channel has the call's result and the closure has run.
\<close>

abbreviation "closure_calls ch \<equiv> (case ac_closure ch of Some (Some f) \<Rightarrow> [f] | _ \<Rightarrow> [])"

definition holds_answer ::
  "call_env \<Rightarrow> string \<Rightarrow> string \<Rightarrow> (bytes \<Rightarrow> 'r option) \<Rightarrow> 'r async_channel \<Rightarrow> 'r async_channel \<Rightarrow> bool" where
  "holds_answer env sv_name meth parse ch0 ch \<longleftrightarrow>
     (\<exists>ctl args ctl' v e. ac_controller ch0 = Some ctl \<and> ac_request ch0 = Some args
        \<and> CallMethod env sv_name meth args parse ctl = Some (Called ctl' v e)
        \<and> ac_controller ch = Some ctl'
        \<and> ac_response ch = (case v of None \<Rightarrow> ac_response ch0 | Some r \<Rightarrow> Some r))"

lemma holds_answerI:
  assumes "ac_controller ch0 = Some ctl" "ac_request ch0 = Some args"
    and "CallMethod env sv_name meth args parse ctl = Some (Called ctl' v e)"
    and "ac_controller ch = Some ctl'" "ac_response ch = (case v of None \<Rightarrow> ac_response ch0 | Some r \<Rightarrow> Some r)"
  shows "holds_answer env sv_name meth parse ch0 ch"
  using assms unfolding holds_answer_def by blast

lemma holds_answer_cong:
  assumes "ac_controller ch = ac_controller ch'" "ac_response ch = ac_response ch'"
  shows "holds_answer env sv_name meth parse ch0 ch \<longleftrightarrow> holds_answer env sv_name meth parse ch0 ch'"
  using assms by (simp add: holds_answer_def)

definition one_call ::
  "call_env \<Rightarrow> string \<Rightarrow> string \<Rightarrow> (bytes \<Rightarrow> 'r option) \<Rightarrow> 'r async_channel \<Rightarrow> 'r async_world \<Rightarrow> bool" where
  "one_call env sv_name meth parse ch0 w \<longleftrightarrow>
     ac_request (chan w) = ac_request ch0 \<and> ac_closure (chan w) = ac_closure ch0
     \<and> ac_origin_io_thread (chan w) = ac_origin_io_thread ch0 \<and> ac_pending (chan w) = ac_pending ch0
     \<and> (if job w \<in> {JobQueued, JobRuns, JobAway}
        then ac_controller (chan w) = ac_controller ch0 \<and> ac_response (chan w) = ac_response ch0
           \<and> worker_tasks w = 0 \<and> origin_tasks w = 0 \<and> \<not> ac_finished (chan w)
        else holds_answer env sv_name meth parse ch0 (chan w)
           \<and> worker_tasks w + origin_tasks w = (if ac_finished (chan w) then 0 else 1)
           \<and> (job w = JobPosted \<longrightarrow> worker_tasks w = 1))
     \<and> ran_closures w = (if ac_finished (chan w) then closure_calls ch0 else [])
     \<and> (wait_over w \<longrightarrow> ac_finished (chan w))
     \<and> (if ac_finished (chan w) then origin w \<noteq> InWait else ac_need_resume (chan w) \<longleftrightarrow> origin w = InWait)"

lemma async_wait_result:
  assumes "async_wait False ch = (yields, ch')" and "ac_origin_io_thread ch \<noteq> None"
  shows "ch' = ch\<lparr>ac_need_resume := True\<rparr>" "yields \<longleftrightarrow> \<not> ac_finished ch"
  using assms by (auto simp: async_wait_def Let_def split: if_splits)

lemma completion_result:
  assumes "completion (ch, called) = (resumes, ch', called')"
  shows "resumes = ac_need_resume ch" "ch' = ch\<lparr>ac_finished := True\<rparr>" "called' = called @ closure_calls ch"
  using assms by (auto simp: completion_def closure_Run_def Let_def split: option.splits)

lemma one_call_handed_over:
  assumes "\<not> ac_finished ch" "\<not> ac_need_resume ch"
  shows "one_call env sv_name meth parse ch (handed_over ch)"
  using assms by (simp add: one_call_def handed_over_def)

lemma one_call_step:
  assumes "async_step env sv_name meth parse w w'" and "one_call env sv_name meth parse ch0 w"
    and "ac_origin_io_thread ch0 \<noteq> None"
  shows "one_call env sv_name meth parse ch0 w'"
  using assms
proof cases
  case (job_posts ctl args ctl' v e)
  with assms(2) have "holds_answer env sv_name meth parse ch0 (chan w')"
    by (intro holds_answerI [of ch0 ctl args env sv_name meth parse ctl' v e])
       (auto simp: one_call_def split: option.split)
  with job_posts assms(2) show ?thesis by (auto simp add: one_call_def)
next
  case (origin_runs_task n resumes ch called)
  note completion_result [OF origin_runs_task(4)]
  moreover from this have "holds_answer env sv_name meth parse ch0 ch = holds_answer env sv_name meth parse ch0 (chan w)"
    by (intro holds_answer_cong) simp_all
  ultimately show ?thesis using origin_runs_task assms(2) by (auto simp: one_call_def split: if_splits)
next
  case (origin_waits yields ch)
  have "ac_origin_io_thread (chan w) \<noteq> None" using assms(2,3) by (simp add: one_call_def)
  note async_wait_result [OF origin_waits(3) this]
  moreover from this have "holds_answer env sv_name meth parse ch0 ch = holds_answer env sv_name meth parse ch0 (chan w)"
    by (intro holds_answer_cong) simp_all
  ultimately show ?thesis using origin_waits assms(2) by (auto simp: one_call_def split: if_splits)
qed (auto simp: one_call_def split: if_splits)

interpretation async: step_invariant "async_step env sv_name meth parse"
  "\<lambda>w. ac_origin_io_thread ch0 \<noteq> None \<and> one_call env sv_name meth parse ch0 w" for env sv_name meth parse ch0
  by unfold_locales (blast intro: one_call_step)

lemmas one_call_steps = async.steps_keep [THEN conjunct2, OF _ conjI]

section \<open>Refused and accepted calls\<close>

lemma setCallError_finished: "setCallError info (ctl, ch) = (ctl', ch') \<Longrightarrow> ac_finished ch' \<and> ac_pending ch' = ac_pending ch"
  by (auto simp: setCallError_def Let_def split: call_controller.splits)

text \<open>A call is accepted or it is over at once: a coroutine that waits for a refused call goes on.\<close>

lemma async_CallMethod_cases:
  assumes "async_CallMethod aenv has_method (ctl, ch, nw) = Some (ctl1, ch1, nw1)"
  shows "ac_finished ch1 \<and> ac_pending ch1 = ac_pending ch
       \<or> ac_pending ch1 = Some (as_cor aenv) \<and> ac_prepared ch \<and> ac_origin_io_thread ch \<noteq> None
         \<and> ctl1 = ctl \<and> ac_finished ch1 = ac_finished ch \<and> ac_need_resume ch1 = ac_need_resume ch
         \<and> ac_origin_io_thread ch1 = ac_origin_io_thread ch"
  using assms
  by (auto simp: async_CallMethod_def Let_def bind_eq_Some_iff dest: setCallError_finished
      split: if_splits option.splits prod.splits)

lemma refused_call_does_not_wait:
  assumes "async_CallMethod aenv has_method (ctl, ch, nw) = Some (ctl1, ch1, nw1)"
    and "ac_pending ch = None" "ac_pending ch1 = None"
  shows "fst (async_wait is_main ch1) = False"
  using async_CallMethod_cases [OF assms(1)] assms(2,3) by (auto simp: async_wait_def Let_def)

text \<open>
  The errors of a refused call go to the controller that the stub passed. When that is not the saved one,
  the saved controller shows no failure although the call is over.
\<close>

lemma refused_call_error:
  assumes "ac_prepared ch" "as_server aenv = None" "ac_controller ch = Some (Own c)"
  shows "\<exists>ch1. async_CallMethod aenv True (SavedController, ch, nw) = Some (SavedController, ch1, nw)
           \<and> ac_finished ch1 \<and> (\<exists>c1. ac_controller ch1 = Some (Own c1) \<and> Failed c1
                \<and> ErrorCode c1 = ERROR_NOT_SET_ASYNC_PRE_CALL)"
  using assms
  by (auto simp: async_CallMethod_def GetRpcServer_def setCallError_def Let_def call_error_def SetError_result)

lemma async_CallMethod_no_server:
  assumes "ac_prepared ch" "as_server aenv = None" "ac_controller ch = Some (Own c)"
  shows "async_CallMethod aenv True (SavedController, ch, nw)
    = Some (SavedController, ch\<lparr>ac_controller := Some (call_error ERROR_NOT_SET_ASYNC_PRE_CALL
               ''async rpc requires a running RpcProvider IO thread pool'' (Own c)), ac_finished := True\<rparr>, nw)"
  using assms by (simp add: async_CallMethod_def GetRpcServer_def setCallError_def Let_def)

lemma call_and_wait_no_server:
  assumes "ac_prepared ch" "as_server aenv = None" "ac_controller ch = Some (Own c)"
  shows "\<exists>ch'. call_and_wait aenv (ch, nw) = Some (False, ch', nw) \<and> ac_response ch' = ac_response ch
    \<and> ac_controller ch' = Some (call_error ERROR_NOT_SET_ASYNC_PRE_CALL
                                   ''async rpc requires a running RpcProvider IO thread pool'' (Own c))"
  using async_CallMethod_no_server [OF assms, of nw] by (simp add: call_and_wait_def async_wait_def)

text \<open>An accepted call that waits is the beginning of a run of the two threads.\<close>

lemma call_and_wait_steps:
  assumes "call_and_wait aenv (ch, nw) = Some (True, ch', nw')" "ac_pending ch = None"
  shows "\<exists>ch1. async_CallMethod aenv True (SavedController, ch, nw) = Some (SavedController, ch1, nw') \<and> ac_pending ch1 \<noteq> None
     \<and> async_step env sv_name meth parse (handed_over ch1) ((handed_over ch1)\<lparr>chan := ch', origin := InWait\<rparr>)"
proof -
  obtain ctl1 ch1 nw1 where call1: "async_CallMethod aenv True (SavedController, ch, nw) = Some (ctl1, ch1, nw1)"
    using assms(1) by (auto simp: call_and_wait_def bind_eq_Some_iff)
  obtain waits ch2 where w1: "async_wait (as_main aenv) ch1 = (waits, ch2)" by fastforce
  from assms(1) call1 w1 have call: "async_CallMethod aenv True (SavedController, ch, nw) = Some (ctl1, ch1, nw')"
    and w: "async_wait (as_main aenv) ch1 = (True, ch')" by (simp_all add: call_and_wait_def)
  have pend: "ac_pending ch1 \<noteq> None" using refused_call_does_not_wait [OF call assms(2)] w by (metis fst_conv)
  then have "ctl1 = SavedController" using async_CallMethod_cases [OF call] assms(2) by auto
  moreover have "\<not> as_main aenv" using w by (auto simp: async_wait_def Let_def split: if_splits)
  then have "async_step env sv_name meth parse (handed_over ch1)
     ((handed_over ch1)\<lparr>chan := ch', origin := (if True then InWait else AtWork), wait_over := (wait_over (handed_over ch1) \<or> \<not> True)\<rparr>)"
    using w by (intro async_step.origin_waits) (simp_all add: handed_over_def)
  ultimately show ?thesis using call pend by (auto simp: handed_over_def)
qed

section \<open>The end of a call\<close>

lemma accepted_one_call:
  assumes "async_CallMethod aenv has_method (ctl, ch, nw) = Some (ctl1, ch1, nw1)"
    and "ac_pending ch = None" "ac_pending ch1 \<noteq> None" "\<not> ac_finished ch" "\<not> ac_need_resume ch"
    and "(async_step env sv_name meth parse)\<^sup>*\<^sup>* (handed_over ch1) w"
  shows "one_call env sv_name meth parse ch1 w" "ac_origin_io_thread ch1 \<noteq> None"
proof -
  have ch1: "\<not> ac_finished ch1" "\<not> ac_need_resume ch1" and t: "ac_origin_io_thread ch1 \<noteq> None"
    using async_CallMethod_cases [OF assms(1)] assms(2-5) by auto
  show "one_call env sv_name meth parse ch1 w"
    by (rule one_call_steps [OF assms(6) t one_call_handed_over [OF ch1]])
  show "ac_origin_io_thread ch1 \<noteq> None" by (rule t)
qed

lemma one_call_finished:
  assumes "one_call env sv_name meth parse ch0 w"
  shows "ac_finished (chan w) \<Longrightarrow> job w = JobEnded"
    and "ac_finished (chan w) \<Longrightarrow> holds_answer env sv_name meth parse ch0 (chan w)"
    and "wait_over w \<Longrightarrow> ac_finished (chan w)"
    and "ran_closures w = (if ac_finished (chan w) then closure_calls ch0 else [])"
proof -
  show "job w = JobEnded" if "ac_finished (chan w)"
    using assms that by (cases "job w") (auto simp: one_call_def)
  then show "holds_answer env sv_name meth parse ch0 (chan w)" if "ac_finished (chan w)"
    using assms that by (simp add: one_call_def)
  show "ac_finished (chan w)" if "wait_over w" using assms that unfolding one_call_def by blast
  show "ran_closures w = (if ac_finished (chan w) then closure_calls ch0 else [])"
    using assms unfolding one_call_def by blast
qed

text \<open>
  C7: An asynchronous call ends properly, however the two threads take turns. After \<open>CallMethod\<close> of the
  channel has accepted a call, \<open>wait\<close> returns only once the call is finished; when it is finished, the
  saved controller and response hold what \<open>RpcChannel::CallMethod\<close> gave, the closure has run exactly
  once (and not before), and the coroutine that did the work has left its function, so that the channel
  can give it back to the pool.
\<close>

theorem async_result_before_resume:
  assumes "async_CallMethod aenv has_method (ctl, ch, nw) = Some (ctl1, ch1, nw1)"
    and "ac_pending ch = None" "ac_pending ch1 \<noteq> None" "\<not> ac_finished ch" "\<not> ac_need_resume ch"
    and "(async_step env sv_name meth parse)\<^sup>*\<^sup>* (handed_over ch1) w"
  shows "(wait_over w \<longrightarrow> ac_finished (chan w))
    \<and> (ac_finished (chan w) \<longrightarrow> holds_answer env sv_name meth parse ch1 (chan w) \<and> job w = JobEnded)
    \<and> ran_closures w = (if ac_finished (chan w) then closure_calls ch1 else [])"
  using one_call_finished [OF accepted_one_call(1) [OF assms]] by blast

text \<open>The rest of a call, from wherever it is, when the coroutine of origin waits.\<close>

lemma one_call_runs_on:
  assumes "one_call env sv_name meth parse ch0 w" and "origin w = InWait"
    and call: "ac_controller ch0 = Some ctl" "ac_request ch0 = Some args"
      "CallMethod env sv_name meth args parse ctl = Some (Called ctl' v e)"
  shows "\<exists>w'. (async_step env sv_name meth parse)\<^sup>*\<^sup>* w w' \<and> wait_over w' \<and> origin w' = AtWork"
proof -
  let ?step = "async_step env sv_name meth parse"
  have last: "\<exists>w'. ?step\<^sup>*\<^sup>* w w' \<and> wait_over w' \<and> origin w' = AtWork"
    if "origin_tasks w = Suc n" "origin w = InWait" "ac_need_resume (chan w)" for w n
  proof -
    obtain resumes ch called where c: "completion (chan w, ran_closures w) = (resumes, ch, called)"
      by (cases "completion (chan w, ran_closures w)")
    with completion_result [OF c] that show ?thesis
      using async_step.origin_runs_task [OF that(1) _ c, of env sv_name meth parse]
      by (intro exI [of _ "w\<lparr>origin_tasks := n, chan := ch, ran_closures := called, origin := AtWork, wait_over := True\<rparr>"])
         (auto intro!: r_into_rtranclp)
  qed
  have ended: "\<exists>w'. ?step\<^sup>*\<^sup>* w w' \<and> wait_over w' \<and> origin w' = AtWork"
    if "worker_tasks w + origin_tasks w = 1" "job w = JobEnded" "origin w = InWait" "ac_need_resume (chan w)" for w
  proof (cases "worker_tasks w")
    case 0
    with that show ?thesis by (intro last) auto
  next
    case (Suc n)
    have "?step w (w\<lparr>worker_tasks := n, origin_tasks := origin_tasks w + 1\<rparr>)"
      using that Suc by (intro async_step.worker_runs_task) auto
    moreover have "\<exists>w'. ?step\<^sup>*\<^sup>* (w\<lparr>worker_tasks := n, origin_tasks := origin_tasks w + 1\<rparr>) w'
        \<and> wait_over w' \<and> origin w' = AtWork"
      using that by (intro last) auto
    ultimately show ?thesis by (blast intro: converse_rtranclp_into_rtranclp)
  qed
  have posted: "\<exists>w'. ?step\<^sup>*\<^sup>* w w' \<and> wait_over w' \<and> origin w' = AtWork"
    if "worker_tasks w + origin_tasks w = 1" "job w = JobPosted" "origin w = InWait" "ac_need_resume (chan w)" for w
  proof -
    have "\<exists>w'. ?step\<^sup>*\<^sup>* (w\<lparr>job := JobEnded\<rparr>) w' \<and> wait_over w' \<and> origin w' = AtWork"
      using that by (intro ended) auto
    with async_step.job_ends [OF that(2)] show ?thesis by (blast intro: converse_rtranclp_into_rtranclp)
  qed
  have runs: "\<exists>w'. ?step\<^sup>*\<^sup>* w w' \<and> wait_over w' \<and> origin w' = AtWork"
    if "one_call env sv_name meth parse ch0 w" "job w = JobRuns" "origin w = InWait" for w
  proof -
    let ?w1 = "w\<lparr>job := JobPosted, worker_tasks := worker_tasks w + 1,
        chan := (chan w)\<lparr>ac_controller := Some ctl', ac_response := (case v of None \<Rightarrow> ac_response (chan w) | Some r \<Rightarrow> Some r)\<rparr>\<rparr>"
    have "?step w ?w1"
      using that call by (intro async_step.job_posts) (auto simp: one_call_def)
    moreover have "\<exists>w'. ?step\<^sup>*\<^sup>* ?w1 w' \<and> wait_over w' \<and> origin w' = AtWork"
      using that by (intro posted) (auto simp: one_call_def)
    ultimately show ?thesis by (blast intro: converse_rtranclp_into_rtranclp)
  qed
  have starts: "\<exists>w'. ?step\<^sup>*\<^sup>* w w' \<and> wait_over w' \<and> origin w' = AtWork" if "?step w (w\<lparr>job := JobRuns\<rparr>)"
      "job w \<in> {JobQueued, JobAway}"
  proof -
    have "one_call env sv_name meth parse ch0 (w\<lparr>job := JobRuns\<rparr>)"
      using that(2) assms(1) by (auto simp: one_call_def)
    then have "\<exists>w'. ?step\<^sup>*\<^sup>* (w\<lparr>job := JobRuns\<rparr>) w' \<and> wait_over w' \<and> origin w' = AtWork"
      using assms(2) by (intro runs) auto
    with that(1) show ?thesis by (blast intro: converse_rtranclp_into_rtranclp)
  qed
  show ?thesis
  proof (cases "job w")
    case JobQueued
    then show ?thesis by (intro starts async_step.job_starts) auto
  next
    case JobAway
    then show ?thesis by (intro starts async_step.job_resumes) auto
  next
    case JobRuns
    then show ?thesis using runs assms(1,2) by blast
  next
    case JobPosted
    then show ?thesis using assms(1,2) by (intro posted) (auto simp: one_call_def split: if_splits)
  next
    case JobEnded
    then show ?thesis using assms(1,2) by (intro ended) (auto simp: one_call_def split: if_splits)
  qed
qed

text \<open>
  C16: A coroutine that waits is not left waiting. Whatever has happened since the call was accepted, if the
  coroutine is in \<open>wait\<close> and \<open>RpcChannel::CallMethod\<close> returns on the worker, then the two threads have
  steps left that end the call and resume the coroutine.
\<close>

theorem async_wait_returns:
  assumes "async_CallMethod aenv has_method (ctl, ch, nw) = Some (ctl1, ch1, nw1)"
    and "ac_pending ch = None" "ac_pending ch1 \<noteq> None" "\<not> ac_finished ch" "\<not> ac_need_resume ch"
    and "(async_step env sv_name meth parse)\<^sup>*\<^sup>* (handed_over ch1) w" "origin w = InWait"
    and "ac_controller ch1 = Some c" "ac_request ch1 = Some args"
      "CallMethod env sv_name meth args parse c = Some (Called c' v e)"
  shows "\<exists>w'. (async_step env sv_name meth parse)\<^sup>*\<^sup>* w w' \<and> wait_over w' \<and> origin w' = AtWork
           \<and> ac_finished (chan w') \<and> holds_answer env sv_name meth parse ch1 (chan w')"
proof -
  note one = accepted_one_call [OF assms(1-6)]
  from one_call_runs_on [OF one(1) assms(7-10)] obtain w'
    where w': "(async_step env sv_name meth parse)\<^sup>*\<^sup>* w w'" "wait_over w'" "origin w' = AtWork" by blast
  with one_call_finished [OF one_call_steps [OF w'(1) one(2,1)]] show ?thesis by blast
qed

section \<open>A channel that is used again\<close>

text \<open>
  Nothing resets \<open>finished_\<close>: on a channel that has finished a call, \<open>saveCallee\<close> and a second accepted
  \<open>CallMethod\<close> leave it set, and \<open>wait\<close> returns while the second call has not even started.
\<close>

lemma second_call_not_awaited:
  assumes "async_CallMethod aenv has_method (c0, saveCallee ctl request response closure ch, nw) = Some (c1, ch1, nw1)"
    and "ac_finished ch"
  shows "fst (async_wait is_main ch1) = False"
  using async_CallMethod_cases [OF assms(1)] assms(2) by (auto simp: async_wait_def saveCallee_def Let_def)

section \<open>A concrete call\<close>

definition sample_async_env :: "string async_env" where
  "sample_async_env =
     \<lparr>as_server = Some sample_server, as_main = False, as_run_time = None, as_number = ''7'', as_shared = True,
      as_cor = \<lparr>p_obj = 30, p_stack = 0, p_index = 1\<rparr>, as_rnd = 8, as_cur = Some (m_io_threads sample_io_pool ! 2)\<rparr>"

definition sample_channel :: "string async_channel" where
  "sample_channel = saveCallee (Some (Own RpcController)) (Some (Some ''ab'')) (Some []) (Some (Some 5))
     (RpcAsyncChannel 4 (Some (m_io_threads sample_io_pool ! 2)))"

definition called_channel :: "string async_channel" where
  "called_channel = sample_channel\<lparr>ac_controller := Some numbered_controller, ac_pending := Some (as_cor sample_async_env)\<rparr>"

lemma sample_async_call:
  "\<exists>nw. async_CallMethod sample_async_env True (SavedController, sample_channel, sample_net SubReactor)
          = Some (SavedController, called_channel, nw)"
  by (simp add: async_CallMethod_def sample_channel_def called_channel_def saveCallee_def RpcAsyncChannel_def
      GetRpcServer_def sample_async_env_def sample_server_def addCoroutineToRandomThread_def random_index_def
      sample_io_pool_def number_call_def numbered_controller_def RpcController_def MsgSeq_def SetMsgReq_def
      getPthreadId_def Let_def)

abbreviation "sample_async_step \<equiv> async_step answered_env ''User'' ''Login'' Some"

lemma called_channel_fields:
  "ac_pending sample_channel = None" "ac_pending called_channel \<noteq> None" "\<not> ac_finished sample_channel"
  "\<not> ac_need_resume sample_channel" "ac_controller called_channel = Some numbered_controller"
  "ac_request called_channel = Some (Some ''ab'')" "ac_closure called_channel = Some (Some 5)"
  "ac_origin_io_thread called_channel \<noteq> None" "\<not> ac_finished called_channel" "\<not> ac_need_resume called_channel"
  by (simp_all add: sample_channel_def called_channel_def saveCallee_def RpcAsyncChannel_def)

lemma handed_over_waits:
  assumes "\<not> ac_finished ch" "ac_origin_io_thread ch \<noteq> None"
  shows "\<exists>w. (async_step env sv_name meth parse)\<^sup>*\<^sup>* (handed_over ch) w \<and> origin w = InWait"
proof -
  let ?w = "(handed_over ch)\<lparr>chan := ch\<lparr>ac_need_resume := True\<rparr>, origin := InWait, wait_over := False\<rparr>"
  have "async_wait False ch = (True, ch\<lparr>ac_need_resume := True\<rparr>)"
    using assms by (simp add: async_wait_def Let_def)
  then have "async_step env sv_name meth parse (handed_over ch) ?w"
    using async_step.origin_waits [of "handed_over ch" True "ch\<lparr>ac_need_resume := True\<rparr>"] by (simp add: handed_over_def)
  then show ?thesis by (intro exI [of _ ?w]) auto
qed

lemma sample_waits:
  "\<exists>w. sample_async_step\<^sup>*\<^sup>* (handed_over called_channel) w \<and> origin w = InWait"
  by (rule handed_over_waits) (simp_all add: called_channel_fields)

theorem async_wait_returns_witness:
  "\<exists>w. sample_async_step\<^sup>*\<^sup>* (handed_over called_channel) w \<and> wait_over w \<and> origin w = AtWork"
proof -
  obtain nw where call: "async_CallMethod sample_async_env True (SavedController, sample_channel, sample_net SubReactor)
      = Some (SavedController, called_channel, nw)" using sample_async_call by blast
  obtain w where w: "sample_async_step\<^sup>*\<^sup>* (handed_over called_channel) w" "origin w = InWait" using sample_waits by blast
  obtain e where "CallMethod answered_env ''User'' ''Login'' (Some ''ab'') Some numbered_controller
      = Some (Called numbered_controller (Some ''ba'') e)" using sample_call by blast
  from async_wait_returns [OF call called_channel_fields(1-4) w called_channel_fields(5,6) this] w(1)
  show ?thesis by (blast intro: rtranclp_trans)
qed

theorem async_result_before_resume_witness:
  "\<exists>w. sample_async_step\<^sup>*\<^sup>* (handed_over called_channel) w \<and> wait_over w
     \<and> ac_response (chan w) = Some ''ba'' \<and> ran_closures w = [5] \<and> job w = JobEnded"
proof -
  obtain nw where call: "async_CallMethod sample_async_env True (SavedController, sample_channel, sample_net SubReactor)
      = Some (SavedController, called_channel, nw)" using sample_async_call by blast
  obtain w where w: "sample_async_step\<^sup>*\<^sup>* (handed_over called_channel) w" "origin w = InWait" using sample_waits by blast
  obtain e where e: "CallMethod answered_env ''User'' ''Login'' (Some ''ab'') Some numbered_controller
      = Some (Called numbered_controller (Some ''ba'') e)" using sample_call by blast
  have "one_call answered_env ''User'' ''Login'' Some called_channel w"
    by (rule accepted_one_call [OF call called_channel_fields(1-4) w(1)])
  from one_call_runs_on [OF this w(2) called_channel_fields(5,6) e] w(1) obtain w'
    where w': "sample_async_step\<^sup>*\<^sup>* (handed_over called_channel) w'" "wait_over w'"
    by (blast intro: rtranclp_trans)
  with async_result_before_resume [OF call called_channel_fields(1-4) w'(1)]
  have "ac_finished (chan w')" "holds_answer answered_env ''User'' ''Login'' Some called_channel (chan w')"
    "job w' = JobEnded" "ran_closures w' = [5]"
    by (auto simp: called_channel_fields)
  with w' e show ?thesis by (auto simp: holds_answer_def called_channel_fields)
qed

end
