(* ===== verification/LogFile.thy ===== *)
theory LogFile
  imports Config
begin

text \<open>
  The file side of \<open>AsyncLogger\<close> in \<open>src/comm/log.{h,cc}\<close>: which file a message goes to, rotation by
  size and by date. The files are a map from names to contents; a \<open>FILE*\<close> is the name it was opened
  with. What the C library answers is the argument \<open>log_disk\<close>: whether a name can be opened and
  positioned, and how many bytes of a message are taken. The date of each message is an argument.
  The search for a file with room loops until it finds one, so it is a partial function.
\<close>

section \<open>The code\<close>

datatype LogType = RPC_LOG | APP_LOG

fun LogTypeToString :: "LogType \<Rightarrow> string" where
  "LogTypeToString APP_LOG = ''app''"
| "LogTypeToString RPC_LOG = ''rpc''"

definition BaseName :: "string option \<Rightarrow> string" where
  "BaseName path =
     (case path of
        None \<Rightarrow> []
      | Some p \<Rightarrow> (case rfind_char CHR ''/'' p of None \<Rightarrow> p | Some slash \<Rightarrow> drop (slash + 1) p))"

definition NormalizeLogPath :: "string \<Rightarrow> string" where
  "NormalizeLogPath path =
     (let path = (if path = [] then ''./'' else path)
      in if last path \<noteq> CHR ''/'' then path @ ''/'' else path)"

text \<open>
  \<open>mkdir p\<close> answers whether the directory is there afterwards (made, or \<open>EEXIST\<close>). The result carries
  the paths it was called with.
\<close>

fun strip_slashes :: "string \<Rightarrow> nat \<Rightarrow> string" where
  "strip_slashes path 0 = path"
| "strip_slashes path (Suc n) =
     (if length path > 1 \<and> last path = CHR ''/'' then strip_slashes (butlast path) n else path)"

fun make_parts :: "(string \<Rightarrow> bool) \<Rightarrow> string \<Rightarrow> nat list \<Rightarrow> bool \<times> string list" where
  "make_parts mkdir path [] = (True, [])"
| "make_parts mkdir path (i # is) =
     (if i \<noteq> length path \<and> path ! i \<noteq> CHR ''/'' then make_parts mkdir path is
      else let part = take i path
           in if part = [] \<or> part = ''.'' then make_parts mkdir path is
              else if \<not> mkdir part then (False, [part])
              else let (ok, made) = make_parts mkdir path is in (ok, part # made))"

definition CreateDirectory :: "(string \<Rightarrow> bool) \<Rightarrow> string \<Rightarrow> bool \<times> string list" where
  "CreateDirectory mkdir raw_path =
     (let path = NormalizeLogPath raw_path;
          path = strip_slashes path (length path)
      in if path = [] \<or> path = ''.'' \<or> path = ''/'' then (True, [])
         else make_parts mkdir path [1..<length path + 1])"

text \<open>
  \<open>CurrentThreadId\<close> asks the system once and keeps the answer in a variable of the thread. \<open>CurrentDate\<close> formats
  the local time, of which only the date matters, by \<open>"%Y%m%d"\<close>; its 16 bytes are always enough.
\<close>

definition CurrentThreadId :: "int \<Rightarrow> int \<Rightarrow> int \<times> int" where
  "CurrentThreadId gettid thread_id =
     (let thread_id = (if thread_id = 0 then gettid else thread_id) in (thread_id, thread_id))"

record tm =
  tm_year :: int
  tm_mon :: nat
  tm_mday :: nat

definition two_digits :: "nat \<Rightarrow> string" where
  "two_digits n = [digit_char (n div 10), digit_char (n mod 10)]"

definition CurrentDate :: "tm \<Rightarrow> string" where
  "CurrentDate t = int_str (1900 + tm_year t) @ two_digits (tm_mon t + 1) @ two_digits (tm_mday t)"

lemma digits_val_two_digits: "n < 100 \<Longrightarrow> digits_val (two_digits n) = n"
  by (simp add: two_digits_def digits_val_def of_digit_char)

lemma length_two_digits [simp]: "length (two_digits n) = 2"
  by (simp add: two_digits_def)

text \<open>Different days have different texts, so their files have different names; and the text has eight characters.\<close>

lemma CurrentDate_inj:
  assumes "CurrentDate t = CurrentDate t'" "0 \<le> 1900 + tm_year t" "0 \<le> 1900 + tm_year t'"
    and "tm_mon t < 12" "tm_mon t' < 12" "tm_mday t < 32" "tm_mday t' < 32"
  shows "t = t'"
proof -
  have "int_str (1900 + tm_year t) = int_str (1900 + tm_year t')"
    "two_digits (tm_mon t + 1) = two_digits (tm_mon t' + 1)" "two_digits (tm_mday t) = two_digits (tm_mday t')"
    using assms(1) by (simp_all add: CurrentDate_def append_eq_append_conv flip: append_assoc)
  then have "digits_val (int_str (1900 + tm_year t)) = digits_val (int_str (1900 + tm_year t'))"
    "digits_val (two_digits (tm_mon t + 1)) = digits_val (two_digits (tm_mon t' + 1))"
    "digits_val (two_digits (tm_mday t)) = digits_val (two_digits (tm_mday t'))" by simp_all
  then show ?thesis using assms(2-7) by (simp add: int_str_def digits_val_two_digits)
qed

lemma CurrentDate_length:
  assumes "1000 \<le> 1900 + tm_year t" "1900 + tm_year t < 10000"
  shows "length (CurrentDate t) = 8"
proof -
  define n where "n = nat (1900 + tm_year t)"
  have n: "1000 \<le> n" "n < 10000" using assms unfolding n_def by linarith+
  then have "\<not> n < 10" "\<not> n div 10 < 10" "\<not> n div 10 div 10 < 10" "n div 10 div 10 div 10 < 10" by linarith+
  then have "length (nat_str n) = 4" by (simp only: nat_str.simps [of n] nat_str.simps [of "n div 10"]
      nat_str.simps [of "n div 10 div 10"] nat_str.simps [of "n div 10 div 10 div 10"]) simp
  then show ?thesis using assms by (simp add: CurrentDate_def int_str_def n_def)
qed

record async_logger =
  m_file_name :: string
  m_file_path :: string
  m_max_size :: nat
  m_log_type :: LogType
  m_file_no :: nat
  m_file_handle :: "string option"
  m_file_size :: nat
  m_date :: string
  files :: "string \<Rightarrow> string option"

definition AsyncLogger :: "string \<Rightarrow> string \<Rightarrow> nat \<Rightarrow> LogType \<Rightarrow> (string \<Rightarrow> string option) \<Rightarrow> async_logger" where
  "AsyncLogger file_name file_path max_size log_type fs =
     \<lparr>m_file_name = file_name, m_file_path = NormalizeLogPath file_path, m_max_size = max_size,
      m_log_type = log_type, m_file_no = 0, m_file_handle = None, m_file_size = 0, m_date = [],
      files = fs\<rparr>"

record log_disk =
  opens :: "string \<Rightarrow> bool"
  seeks :: "string \<Rightarrow> bool"
  takes :: "string \<Rightarrow> nat"

definition makeFileName :: "async_logger \<Rightarrow> string" where
  "makeFileName st =
     m_file_path st @ m_file_name st @ ''_'' @ m_date st @ ''_''
     @ LogTypeToString (m_log_type st) @ ''_'' @ nat_str (m_file_no st) @ ''.log''"

definition closeFile :: "async_logger \<Rightarrow> async_logger" where
  "closeFile st = st\<lparr>m_file_handle := None, m_file_size := 0\<rparr>"

definition contents :: "async_logger \<Rightarrow> string \<Rightarrow> string" where
  "contents st name = (case files st name of None \<Rightarrow> [] | Some b \<Rightarrow> b)"

definition fopen_append :: "string \<Rightarrow> async_logger \<Rightarrow> async_logger" where
  "fopen_append name st =
     st\<lparr>files := (files st)(name \<mapsto> contents st name), m_file_handle := Some name\<rparr>"

partial_function (option) open_loop :: "log_disk \<Rightarrow> async_logger \<Rightarrow> (bool \<times> async_logger) option" where
  [code]: "open_loop d st =
     (if \<not> opens d (makeFileName st) then Some (False, st\<lparr>m_file_handle := None\<rparr>)
      else if \<not> seeks d (makeFileName st) then Some (False, closeFile (fopen_append (makeFileName st) st))
      else if m_max_size st = 0 \<or> length (contents st (makeFileName st)) < m_max_size st
      then Some (True, (fopen_append (makeFileName st) st)\<lparr>m_file_size := length (contents st (makeFileName st))\<rparr>)
      else open_loop d ((closeFile (fopen_append (makeFileName st) st))\<lparr>m_file_no := m_file_no st + 1\<rparr>))"

definition openLogFile :: "log_disk \<Rightarrow> string \<Rightarrow> async_logger \<Rightarrow> (bool \<times> async_logger) option" where
  "openLogFile d date st =
     (let st = (if date \<noteq> m_date st then (closeFile st)\<lparr>m_date := date, m_file_no := 0\<rparr> else st)
      in if m_file_handle st \<noteq> None then Some (True, st) else open_loop d st)"

definition rotateIfNeeded :: "log_disk \<Rightarrow> nat \<Rightarrow> async_logger \<Rightarrow> (bool \<times> async_logger) option" where
  "rotateIfNeeded d incoming_size st =
     (if m_file_handle st = None then Some (False, st)
      else if m_max_size st = 0 \<or> m_file_size st = 0 \<or> m_file_size st + incoming_size \<le> m_max_size st
      then Some (True, st)
      else openLogFile d (m_date st) ((closeFile st)\<lparr>m_file_no := m_file_no st + 1\<rparr>))"

definition fwrite_message :: "log_disk \<Rightarrow> string \<Rightarrow> async_logger \<Rightarrow> async_logger" where
  "fwrite_message d message st =
     (case m_file_handle st of
        None \<Rightarrow> st
      | Some name \<Rightarrow>
          let text = take (takes d message) message
          in st\<lparr>files := (files st)(name \<mapsto> contents st name @ text),
                m_file_size := m_file_size st + length text\<rparr>)"

text \<open>One message of a task, with the date read for it; then a whole task.\<close>

definition log_message :: "log_disk \<Rightarrow> string \<Rightarrow> string \<Rightarrow> async_logger \<Rightarrow> async_logger option" where
  "log_message d date message st =
     (if message = [] then Some st
      else do {
        (opened, st) \<leftarrow> openLogFile d date st;
        if \<not> opened then Some st
        else do {
          (fits, st) \<leftarrow> rotateIfNeeded d (length message) st;
          if \<not> fits then Some st else Some (fwrite_message d message st) } })"

fun log_task :: "log_disk \<Rightarrow> (string \<times> string) list \<Rightarrow> async_logger \<Rightarrow> async_logger option" where
  "log_task d [] st = Some st"
| "log_task d ((date, message) # task) st = do { st \<leftarrow> log_message d date message st; log_task d task st }"

section \<open>File names\<close>

text \<open>The name of the \<open>n\<close>-th file of the day.\<close>

definition file_at :: "async_logger \<Rightarrow> nat \<Rightarrow> string" where
  "file_at st n = makeFileName (st\<lparr>m_file_no := n\<rparr>)"

lemma file_at_inj: "inj (file_at st)"
proof (rule injI)
  fix m n
  assume "file_at st m = file_at st n"
  then have "nat_str m = nat_str n" by (simp add: file_at_def makeFileName_def)
  then show "m = n" by (metis digits_val_nat_str)
qed

lemma makeFileName_at: "makeFileName st = file_at st (m_file_no st)"
  by (simp add: file_at_def)

lemma file_at_cong:
  "m_file_path st' = m_file_path st \<Longrightarrow> m_file_name st' = m_file_name st \<Longrightarrow> m_date st' = m_date st
     \<Longrightarrow> m_log_type st' = m_log_type st \<Longrightarrow> file_at st' = file_at st"
  by (simp add: fun_eq_iff file_at_def makeFileName_def)

lemma file_at_frame [simp]:
  "file_at (st\<lparr>m_file_no := n\<rparr>) = file_at st" "file_at (st\<lparr>m_file_handle := h\<rparr>) = file_at st"
  "file_at (st\<lparr>m_file_size := s\<rparr>) = file_at st" "file_at (closeFile st) = file_at st"
  "file_at (fopen_append name st) = file_at st"
  by (rule file_at_cong; simp add: closeFile_def fopen_append_def)+

lemma contents_frame [simp]:
  "contents (st\<lparr>m_file_no := n\<rparr>) = contents st" "contents (st\<lparr>m_file_handle := h\<rparr>) = contents st"
  "contents (st\<lparr>m_file_size := s\<rparr>) = contents st" "contents (closeFile st) = contents st"
  "contents (st\<lparr>m_date := dt\<rparr>) = contents st"
  "contents (st\<lparr>m_date := dt, m_file_no := n\<rparr>) = contents st"
  by (simp_all add: fun_eq_iff contents_def closeFile_def)

lemma contents_fopen [simp]: "contents (fopen_append name st) = contents st"
  by (auto simp: fun_eq_iff contents_def fopen_append_def)

lemma m_max_size_frame [simp]:
  "m_max_size (closeFile st) = m_max_size st" "m_max_size (fopen_append name st) = m_max_size st"
  by (simp_all add: closeFile_def fopen_append_def)

lemma m_file_no_frame [simp]:
  "m_file_no (closeFile st) = m_file_no st" "m_file_no (fopen_append name st) = m_file_no st"
  by (simp_all add: closeFile_def fopen_append_def)

section \<open>The search ends\<close>

lemma open_loop_returns:
  assumes "m_file_no st \<le> n" and "length (contents st (file_at st n)) < m_max_size st \<or> m_max_size st = 0"
  shows "\<exists>r. open_loop d st = Some r"
  using assms
proof (induction "n - m_file_no st" arbitrary: st)
  case 0
  then have "m_file_no st = n" by simp
  with 0 show ?case by (auto simp: open_loop.simps [of d st] makeFileName_at)
next
  case (Suc k)
  let ?st = "(closeFile (fopen_append (makeFileName st) st))\<lparr>m_file_no := m_file_no st + 1\<rparr>"
  have "k = n - m_file_no ?st" "m_file_no ?st \<le> n" using Suc.hyps(2) by simp_all
  moreover have "length (contents ?st (file_at ?st n)) < m_max_size ?st \<or> m_max_size ?st = 0"
    using Suc.prems(2) by simp
  ultimately have "\<exists>r. open_loop d ?st = Some r" by (rule Suc.hyps(1))
  then show ?case by (auto simp: open_loop.simps [of d st])
qed

lemma free_file:
  assumes "finite (dom (files st))"
  shows "\<exists>n\<ge>k. contents st (file_at st n) = []"
proof -
  have "infinite (file_at st ` {k..})"
    by (simp add: finite_image_iff inj_on_subset [OF file_at_inj] infinite_Ici)
  then obtain n where "n \<ge> k" "file_at st n \<notin> dom (files st)"
    using assms by (metis atLeast_iff finite_subset image_iff subsetI)
  then show ?thesis by (auto simp: contents_def domIff)
qed

section \<open>What the search finds\<close>

text \<open>
  \<open>log_ok\<close>: the open file is the one of the current date and number, and its size is known.
  \<open>same_log st st'\<close>: no byte of any file has changed, nor what the names are made of.
\<close>

definition log_ok :: "async_logger \<Rightarrow> bool" where
  "log_ok st \<longleftrightarrow>
     (case m_file_handle st of
        None \<Rightarrow> True
      | Some name \<Rightarrow> name = makeFileName st \<and> m_file_size st = length (contents st name))"

definition same_log :: "async_logger \<Rightarrow> async_logger \<Rightarrow> bool" where
  "same_log st st' \<longleftrightarrow> contents st' = contents st \<and> file_at st' = file_at st \<and> m_max_size st' = m_max_size st
     \<and> m_date st' = m_date st"

definition search_found :: "async_logger \<Rightarrow> bool \<Rightarrow> async_logger \<Rightarrow> bool" where
  "search_found st opened st' \<longleftrightarrow>
     same_log st st' \<and> m_file_no st \<le> m_file_no st'
     \<and> (\<forall>k\<in>{m_file_no st..<m_file_no st'}. m_max_size st \<le> length (contents st (file_at st k)))
     \<and> (m_max_size st = 0 \<longrightarrow> m_file_no st' = m_file_no st)
     \<and> log_ok st'
     \<and> (if opened then m_file_handle st' = Some (makeFileName st')
          \<and> (m_max_size st = 0 \<or> m_file_size st' < m_max_size st)
        else m_file_handle st' = None)"

lemma m_date_frame [simp]: "m_date (closeFile st) = m_date st" "m_date (fopen_append name st) = m_date st"
  by (simp_all add: closeFile_def fopen_append_def)

lemma handle_frame [simp]:
  "m_file_handle (closeFile st) = None" "m_file_handle (fopen_append name st) = Some name"
  by (simp_all add: closeFile_def fopen_append_def)

lemma makeFileName_frame [simp]:
  "makeFileName (st\<lparr>m_file_handle := h\<rparr>) = makeFileName st"
  "makeFileName (st\<lparr>m_file_size := n\<rparr>) = makeFileName st"
  "makeFileName (closeFile st) = makeFileName st"
  "makeFileName (fopen_append name st) = makeFileName st"
  by (simp_all add: makeFileName_at)

lemma open_loop_found_iff:
  "open_loop d st = Some r \<Longrightarrow> search_found st (fst r) (snd r)"
proof (rule open_loop.raw_induct [of "\<lambda>d st r. search_found st (fst r) (snd r)"], goal_cases)
  case (1 loop d st r)
  let ?next = "(closeFile (fopen_append (makeFileName st) st))\<lparr>m_file_no := m_file_no st + 1\<rparr>"
  consider "\<not> opens d (makeFileName st) \<or> \<not> seeks d (makeFileName st)
      \<or> m_max_size st = 0 \<or> length (contents st (makeFileName st)) < m_max_size st"
    | "loop d ?next = Some r" "m_max_size st \<noteq> 0" "m_max_size st \<le> length (contents st (makeFileName st))"
    using 1(3) by (fastforce split: if_splits)
  then show ?case
  proof cases
    case 1
    with \<open>_ = Some r\<close> show ?thesis
      by (auto simp: search_found_def same_log_def log_ok_def split: if_splits)
  next
    case 2
    from 1(2) [OF 2(1)] 2(2,3) show ?thesis
      by (auto simp: search_found_def same_log_def makeFileName_at Suc_le_eq order.order_iff_strict)
  qed
qed simp

lemma open_loop_found: "open_loop d st = Some (opened, st') \<Longrightarrow> search_found st opened st'"
  using open_loop_found_iff [of d st "(opened, st')"] by simp

text \<open>The state in which \<open>openLogFile\<close> searches: a new date starts again at number 0.\<close>

definition on_date :: "string \<Rightarrow> async_logger \<Rightarrow> async_logger" where
  "on_date date st = (if date \<noteq> m_date st then (closeFile st)\<lparr>m_date := date, m_file_no := 0\<rparr> else st)"

lemma on_date_frame [simp]:
  "contents (on_date date st) = contents st" "m_max_size (on_date date st) = m_max_size st"
  "m_date (on_date date st) = date" "on_date (m_date st) st = st"
  by (simp_all add: on_date_def)

lemma log_ok_on_date: "log_ok st \<Longrightarrow> log_ok (on_date date st)"
  by (simp add: on_date_def log_ok_def closeFile_def)

lemma openLogFile_alt:
  "openLogFile d date st =
     (if m_file_handle (on_date date st) \<noteq> None then Some (True, on_date date st)
      else open_loop d (on_date date st))"
  by (simp add: openLogFile_def on_date_def Let_def)

lemma openLogFile_found:
  assumes "openLogFile d date st = Some (opened, st')" and "log_ok st"
  shows "same_log (on_date date st) st' \<and> log_ok st' \<and> (opened \<longleftrightarrow> m_file_handle st' \<noteq> None)"
proof (cases "m_file_handle (on_date date st)")
  case None
  with assms(1) have "search_found (on_date date st) opened st'"
    by (auto simp: openLogFile_alt intro: open_loop_found)
  then show ?thesis by (auto simp: search_found_def split: if_splits)
next
  case (Some name)
  then show ?thesis using assms log_ok_on_date by (auto simp: openLogFile_alt same_log_def)
qed

lemma rotateIfNeeded_found:
  assumes "rotateIfNeeded d n st = Some (fits, st')" and "log_ok st" and "0 < n"
  shows "same_log st st' \<and> log_ok st' \<and>
    (fits \<longrightarrow> m_file_handle st' = Some (makeFileName st')
       \<and> (m_max_size st = 0 \<or> length (contents st' (makeFileName st')) < m_max_size st))"
proof (cases "m_file_handle st = None \<or> m_max_size st = 0 \<or> m_file_size st = 0 \<or> m_file_size st + n \<le> m_max_size st")
  case True
  with assms have st': "st' = st" "fits \<longleftrightarrow> m_file_handle st \<noteq> None"
    by (auto simp: rotateIfNeeded_def split: if_splits)
  then show ?thesis using True assms(2,3)
    by (auto simp: same_log_def log_ok_def split: option.splits)
next
  case False
  let ?st = "(closeFile st)\<lparr>m_file_no := m_file_no st + 1\<rparr>"
  have "on_date (m_date st) ?st = ?st" by (simp add: on_date_def)
  with False assms(1) have "open_loop d ?st = Some (fits, st')"
    by (auto simp: rotateIfNeeded_def openLogFile_alt)
  then have "search_found ?st fits st'" by (rule open_loop_found)
  then show ?thesis by (auto simp: search_found_def same_log_def log_ok_def)
qed

lemma fwrite_message_open:
  assumes "m_file_handle st = Some (makeFileName st)" and "log_ok st"
  shows "log_ok (fwrite_message d m st)"
    and "contents (fwrite_message d m st)
           = (contents st)(makeFileName st := contents st (makeFileName st) @ take (takes d m) m)"
  using assms
  by (auto simp: fwrite_message_def log_ok_def contents_def Let_def fun_eq_iff makeFileName_def)

section \<open>No file much longer than the limit\<close>

text \<open>
  A message goes whole, or as far as the disk takes it, to one file that was below the limit.
\<close>

definition appended :: "nat \<Rightarrow> string \<Rightarrow> async_logger \<Rightarrow> async_logger \<Rightarrow> bool" where
  "appended limit m st st' \<longleftrightarrow>
     contents st' = contents st
     \<or> (\<exists>name text. prefix text m \<and> contents st' = (contents st)(name := contents st name @ text)
          \<and> (limit = 0 \<or> length (contents st name) < limit))"

lemma m_max_size_fwrite [simp]: "m_max_size (fwrite_message d m st) = m_max_size st"
  by (simp add: fwrite_message_def Let_def split: option.split)

lemma log_message_appended:
  assumes "log_message d date m st = Some st'" and "log_ok st"
  shows "log_ok st' \<and> appended (m_max_size st) m st st' \<and> m_max_size st' = m_max_size st"
proof (cases "m = []")
  case True
  then show ?thesis using assms by (simp add: log_message_def appended_def)
next
  case False
  with assms(1) obtain opened st1 where opened: "openLogFile d date st = Some (opened, st1)"
    and rest: "(if \<not> opened then Some st1
       else do { (fits, st) \<leftarrow> rotateIfNeeded d (length m) st1;
                 if \<not> fits then Some st else Some (fwrite_message d m st) }) = Some st'"
    by (auto simp: log_message_def bind_eq_Some_iff)
  from openLogFile_found [OF opened assms(2)]
  have st1: "contents st1 = contents st" "m_max_size st1 = m_max_size st" "log_ok st1"
    by (simp_all add: same_log_def)
  show ?thesis
  proof (cases opened)
    case True
    with rest obtain fits st2 where rot: "rotateIfNeeded d (length m) st1 = Some (fits, st2)"
      and st': "(if \<not> fits then Some st2 else Some (fwrite_message d m st2)) = Some st'"
      by (auto simp: bind_eq_Some_iff)
    from rotateIfNeeded_found [OF rot st1(3)] False st1
    have st2: "contents st2 = contents st" "m_max_size st2 = m_max_size st" "log_ok st2"
      "fits \<Longrightarrow> m_file_handle st2 = Some (makeFileName st2)"
      "fits \<Longrightarrow> m_max_size st = 0 \<or> length (contents st (makeFileName st2)) < m_max_size st"
      by (auto simp: same_log_def)
    show ?thesis
    proof (cases fits)
      case True
      let ?n = "makeFileName st2" and ?t = "take (takes d m) m"
      have "prefix ?t m \<and> contents st' = (contents st)(?n := contents st ?n @ ?t)
          \<and> (m_max_size st = 0 \<or> length (contents st ?n) < m_max_size st)"
        using True st' fwrite_message_open [OF st2(4) [OF True] st2(3), of d m] st2
        by (auto simp: take_is_prefix)
      then have "appended (m_max_size st) m st st'" unfolding appended_def by blast
      then show ?thesis using True st' fwrite_message_open [OF st2(4) [OF True] st2(3), of d m] st2 by auto
    qed (use st' st2 in \<open>auto simp: appended_def\<close>)
  qed (use rest st1 in \<open>auto simp: appended_def\<close>)
qed

text \<open>
  Log files are bounded. Writing a task changes a file only if the result is shorter than the
  limit plus one longest message.
\<close>

theorem log_file_bounded:
  assumes "log_task d task st = Some st'" and "log_ok st" and "0 < m_max_size st"
    and "\<forall>(date, m)\<in>set task. length m \<le> longest"
  shows "contents st' name = contents st name \<or> length (contents st' name) < m_max_size st + longest"
  using assms
proof (induction task arbitrary: st)
  case (Cons dm task)
  then obtain date m st1 where dm: "dm = (date, m)" and st1: "log_message d date m st = Some st1"
    and rest: "log_task d task st1 = Some st'"
    by (cases dm) (auto simp: bind_eq_Some_iff)
  from log_message_appended [OF st1 Cons.prems(2)]
  have ok: "log_ok st1" "appended (m_max_size st) m st st1" "m_max_size st1 = m_max_size st" by simp_all
  have len: "length m \<le> longest" using Cons.prems(4) dm by simp
  from Cons.IH [OF rest ok(1)] ok(3) Cons.prems(3,4)
  consider "contents st' name = contents st1 name" | "length (contents st' name) < m_max_size st + longest"
    by auto
  then show ?case
  proof cases
    case 1
    with ok(2) len Cons.prems(3) show ?thesis
      by (auto simp: appended_def fun_upd_def dest!: prefix_length_le split: if_splits)
  qed simp
qed simp

text \<open>
  The search for a log file ends. With finitely many files on the disk \<open>openLogFile\<close>
  returns; it changes no file, and when it succeeds, the file that it opened is the current one, with
  its size.
\<close>

theorem log_file_found:
  assumes "finite (dom (files st))" and "log_ok st"
  shows "\<exists>opened st'. openLogFile d date st = Some (opened, st') \<and> contents st' = contents st
           \<and> m_date st' = date
           \<and> (opened \<longrightarrow> m_file_handle st' = Some (makeFileName st')
                \<and> m_file_size st' = length (contents st (makeFileName st')))"
proof -
  have "\<exists>r. open_loop d (on_date date st) = Some r"
  proof -
    from assms(1) have "finite (dom (files (on_date date st)))" by (simp add: on_date_def closeFile_def)
    from free_file [OF this] obtain n where "n \<ge> m_file_no (on_date date st)"
      "contents (on_date date st) (file_at (on_date date st) n) = []" by blast
    then show ?thesis by (intro open_loop_returns [of _ n]) auto
  qed
  then obtain opened st' where st': "openLogFile d date st = Some (opened, st')"
    by (cases "m_file_handle (on_date date st)") (auto simp: openLogFile_alt)
  from openLogFile_found [OF st' assms(2)] show ?thesis
    using st' by (auto simp: same_log_def log_ok_def)
qed

section \<open>The log of a day\<close>

text \<open>
  \<open>day_text\<close> is the text of the day's files up to the current number, in the order of their numbers;
  \<open>fresh_day\<close> says that no file with a higher number has any text, as when the day's log was begun by
  this process. A reliable disk refuses nothing.
\<close>

definition day_text :: "async_logger \<Rightarrow> string" where
  "day_text st = concat (map (\<lambda>n. contents st (file_at st n)) [0..<Suc (m_file_no st)])"

definition fresh_day :: "async_logger \<Rightarrow> bool" where
  "fresh_day st \<longleftrightarrow> (\<forall>n > m_file_no st. contents st (file_at st n) = [])"

definition reliable :: "log_disk \<Rightarrow> bool" where
  "reliable d \<longleftrightarrow> (\<forall>name. opens d name \<and> seeks d name) \<and> (\<forall>m. length m \<le> takes d m)"

lemma day_text_later:
  assumes "fresh_day st" and "m_file_no st \<le> n"
  shows "concat (map (\<lambda>n. contents st (file_at st n)) [0..<Suc n]) = day_text st"
proof -
  have "[0..<Suc (m_file_no st) + (n - m_file_no st)]
      = [0..<Suc (m_file_no st)] @ [Suc (m_file_no st)..<Suc (m_file_no st) + (n - m_file_no st)]"
    by (rule upt_add_eq_append) simp
  then have upt: "[0..<Suc n] = [0..<Suc (m_file_no st)] @ [Suc (m_file_no st)..<Suc n]"
    using assms(2) by simp
  have "concat (map (\<lambda>n. contents st (file_at st n)) [Suc (m_file_no st)..<Suc n]) = []"
    using assms(1) by (auto simp: fresh_day_def)
  then show ?thesis unfolding upt day_text_def by simp
qed

lemma search_returns_fresh:
  assumes "fresh_day st"
  shows "\<exists>r. open_loop d st = Some r"
proof (cases "m_max_size st = 0")
  case True
  then show ?thesis by (intro open_loop_returns [of st "m_file_no st"]) auto
next
  case False
  then show ?thesis using assms
    by (intro open_loop_returns [of st "Suc (m_file_no st)"]) (auto simp: fresh_day_def)
qed

lemma open_loop_reliable:
  "open_loop d st = Some r \<Longrightarrow> reliable d \<longrightarrow> fst r"
proof (rule open_loop.raw_induct [of "\<lambda>d st r. reliable d \<longrightarrow> fst r"], goal_cases)
  case (1 loop d st r)
  show ?case
  proof
    assume "reliable d"
    then have "opens d name" "seeks d name" for name by (simp_all add: reliable_def)
    with 1(3) 1(2) \<open>reliable d\<close> show "fst r" by (auto split: if_splits)
  qed
qed simp

text \<open>The state after a successful search, on a fresh day.\<close>

definition continues :: "async_logger \<Rightarrow> async_logger \<Rightarrow> bool" where
  "continues st st' \<longleftrightarrow>
     same_log st st' \<and> m_file_no st \<le> m_file_no st' \<and> log_ok st' \<and> m_file_handle st' = Some (makeFileName st')"

lemma continues_fresh: "continues st st' \<Longrightarrow> fresh_day st \<Longrightarrow> fresh_day st' \<and> day_text st' = day_text st"
  using day_text_later [of st "m_file_no st'"]
  by (auto simp: continues_def same_log_def fresh_day_def day_text_def)

lemma open_loop_continues:
  assumes "reliable d" and "fresh_day st"
  shows "\<exists>st'. open_loop d st = Some (True, st') \<and> continues st st'"
proof -
  from search_returns_fresh [OF assms(2), of d] obtain b st' where r: "open_loop d st = Some (b, st')" by auto
  with open_loop_reliable [OF r] assms(1) have b by simp
  with open_loop_found [OF r] r show ?thesis by (auto simp: search_found_def continues_def)
qed

lemma openLogFile_continues:
  assumes "reliable d" and "fresh_day st" and "log_ok st"
  shows "\<exists>st'. openLogFile d (m_date st) st = Some (True, st') \<and> continues st st'"
proof (cases "m_file_handle st")
  case None
  with open_loop_continues [OF assms(1,2)] show ?thesis by (simp add: openLogFile_alt)
next
  case (Some name)
  then show ?thesis using assms(3)
    by (auto simp: openLogFile_alt continues_def same_log_def log_ok_def)
qed

lemma rotateIfNeeded_continues:
  assumes "reliable d" and "fresh_day st" and "log_ok st" and "m_file_handle st = Some (makeFileName st)"
  shows "\<exists>st'. rotateIfNeeded d n st = Some (True, st') \<and> continues st st'
     \<and> (m_max_size st = 0 \<or> contents st (makeFileName st') = []
        \<or> length (contents st (makeFileName st')) + n \<le> m_max_size st)"
proof (cases "m_max_size st = 0 \<or> m_file_size st = 0 \<or> m_file_size st + n \<le> m_max_size st")
  case True
  then show ?thesis using assms
    by (auto simp: rotateIfNeeded_def continues_def same_log_def log_ok_def)
next
  case False
  let ?st = "(closeFile st)\<lparr>m_file_no := m_file_no st + 1\<rparr>"
  have fresh: "fresh_day ?st" using assms(2) by (simp add: fresh_day_def)
  from open_loop_continues [OF assms(1) fresh] obtain st'
    where st': "open_loop d ?st = Some (True, st')" "continues ?st st'" by blast
  have "m_file_no st < m_file_no st'" using st'(2) by (simp add: continues_def)
  then have "contents st (file_at st (m_file_no st')) = []" using assms(2) by (simp add: fresh_day_def)
  moreover have "file_at st' = file_at st" using st'(2) by (simp add: continues_def same_log_def)
  ultimately have "contents st (makeFileName st') = []" by (simp add: makeFileName_at)
  moreover have "on_date (m_date st) ?st = ?st" by (simp add: on_date_def)
  ultimately show ?thesis using False assms(4) st'
    by (auto simp: rotateIfNeeded_def openLogFile_alt continues_def same_log_def)
qed

lemma fwrite_message_frame [simp]:
  "file_at (fwrite_message d m st) = file_at st" "m_file_no (fwrite_message d m st) = m_file_no st"
  "m_date (fwrite_message d m st) = m_date st"
  by (auto simp: fwrite_message_def Let_def file_at_def makeFileName_def fun_eq_iff split: option.split)

text \<open>One message on a fresh day.\<close>

lemma log_message_fresh:
  assumes "reliable d" and "fresh_day st" and "log_ok st"
  shows "\<exists>st'. log_message d (m_date st) m st = Some st' \<and> fresh_day st' \<and> log_ok st'
     \<and> m_date st' = m_date st \<and> m_max_size st' = m_max_size st \<and> day_text st' = day_text st @ m
     \<and> (\<exists>name. contents st' = (contents st)(name := contents st name @ m)
          \<and> (m_max_size st = 0 \<or> contents st name = [] \<or> length (contents st name) + length m \<le> m_max_size st))"
proof (cases "m = []")
  case True
  have "contents st = (contents st)(makeFileName st := contents st (makeFileName st) @ [])
      \<and> (contents st (file_at st (Suc (m_file_no st))) = [])"
    using assms(2) by (simp add: fresh_day_def)
  then have "\<exists>name. contents st = (contents st)(name := contents st name @ []) \<and> contents st name = []"
    by auto
  then show ?thesis using assms True by (auto simp: log_message_def)
next
  case False
  from openLogFile_continues [OF assms] obtain st1
    where st1: "openLogFile d (m_date st) st = Some (True, st1)" "continues st st1" by blast
  then have ok1: "log_ok st1" "m_file_handle st1 = Some (makeFileName st1)" by (simp_all add: continues_def)
  note fresh1 = continues_fresh [OF st1(2) assms(2)]
  from rotateIfNeeded_continues [OF assms(1) _ ok1, of "length m"] fresh1 obtain st2
    where st2: "rotateIfNeeded d (length m) st1 = Some (True, st2)" "continues st1 st2"
      "m_max_size st1 = 0 \<or> contents st1 (makeFileName st2) = []
        \<or> length (contents st1 (makeFileName st2)) + length m \<le> m_max_size st1"
    by blast
  note fresh2 = continues_fresh [OF st2(2)]
  from st2(2) have ok2: "log_ok st2" "m_file_handle st2 = Some (makeFileName st2)" by (simp_all add: continues_def)
  let ?st' = "fwrite_message d m st2"
  have "take (takes d m) m = m" using assms(1) by (simp add: reliable_def)
  with fwrite_message_open [OF ok2(2,1), of d m]
  have st': "log_ok ?st'" "contents ?st' = (contents st2)(makeFileName st2 := contents st2 (makeFileName st2) @ m)"
    by simp_all
  have "file_at st2 n \<noteq> makeFileName st2" if "n \<noteq> m_file_no st2" for n
    using that injD [OF file_at_inj, of st2] by (auto simp: makeFileName_at)
  then have other: "n \<noteq> m_file_no st2 \<Longrightarrow> contents ?st' (file_at st2 n) = contents st2 (file_at st2 n)" for n
    by (simp add: st'(2))
  then have same_map: "map (\<lambda>n. contents ?st' (file_at st2 n)) [0..<m_file_no st2]
      = map (\<lambda>n. contents st2 (file_at st2 n)) [0..<m_file_no st2]"
    by (intro map_cong) auto
  have "day_text ?st' = concat (map (\<lambda>n. contents ?st' (file_at st2 n)) [0..<m_file_no st2])
      @ contents ?st' (file_at st2 (m_file_no st2))"
    by (simp add: day_text_def)
  also have "\<dots> = day_text st2 @ m"
    unfolding same_map by (simp add: day_text_def st'(2) makeFileName_at)
  finally have "day_text ?st' = day_text st2 @ m" .
  with fresh1 fresh2 other have "fresh_day ?st'" "day_text ?st' = day_text st @ m"
    by (simp_all add: fresh_day_def)
  moreover have "log_message d (m_date st) m st = Some ?st'"
    using False st1(1) st2(1) by (simp add: log_message_def)
  moreover have same: "contents st2 = contents st" "m_max_size st2 = m_max_size st" "m_date st2 = m_date st"
    "m_max_size st1 = m_max_size st" "contents st1 = contents st"
    using st1(2) st2(2) by (simp_all add: continues_def same_log_def)
  moreover have "\<exists>name. contents ?st' = (contents st)(name := contents st name @ m)
      \<and> (m_max_size st = 0 \<or> contents st name = [] \<or> length (contents st name) + length m \<le> m_max_size st)"
    using st'(2) st2(3) same by (intro exI [of _ "makeFileName st2"]) simp
  ultimately show ?thesis using st'(1) by simp
qed

lemma log_task_complete:
  assumes "reliable d" and "fresh_day st" and "log_ok st"
  shows "\<exists>st'. log_task d (map (Pair (m_date st)) ms) st = Some st'
     \<and> day_text st' = day_text st @ concat ms
     \<and> (\<forall>name. m_max_size st = 0 \<or> contents st' name = contents st name
          \<or> length (contents st' name) \<le> m_max_size st \<or> contents st' name \<in> set ms)"
  using assms(2,3)
proof (induction ms arbitrary: st)
  case (Cons m ms)
  from log_message_fresh [OF assms(1) Cons.prems, of m] obtain st1 n
    where st1: "log_message d (m_date st) m st = Some st1" "fresh_day st1" "log_ok st1"
      "m_date st1 = m_date st" "m_max_size st1 = m_max_size st" "day_text st1 = day_text st @ m"
      "contents st1 = (contents st)(n := contents st n @ m)"
      "m_max_size st = 0 \<or> contents st n = [] \<or> length (contents st n) + length m \<le> m_max_size st"
    by blast
  from Cons.IH [OF st1(2,3)] st1 obtain st'
    where st': "log_task d (map (Pair (m_date st)) ms) st1 = Some st'"
      "day_text st' = day_text st @ m @ concat ms"
      "\<forall>name. m_max_size st = 0 \<or> contents st' name = contents st1 name
          \<or> length (contents st' name) \<le> m_max_size st \<or> contents st' name \<in> set ms"
    by auto
  have "m_max_size st = 0 \<or> contents st' name = contents st name
          \<or> length (contents st' name) \<le> m_max_size st \<or> contents st' name \<in> set (m # ms)" for name
    using st'(3) [rule_format, of name] st1(7,8) by (auto split: if_splits)
  then have "\<forall>name. m_max_size st = 0 \<or> contents st' name = contents st name
          \<or> length (contents st' name) \<le> m_max_size st \<or> contents st' name \<in> set (m # ms)" by blast
  moreover have "log_task d (map (Pair (m_date st)) (m # ms)) st = Some st'"
    "day_text st' = day_text st @ concat (m # ms)"
    using st1(1) st'(1,2) by simp_all
  ultimately show ?case by blast
qed simp

text \<open>
  The same from any state of the logger, that of its constructor included, whose date is not set yet:
  \<open>openLogFile\<close> turns to the day first. \<open>day_log date\<close> is the text of the files of that day, \<open>fresh_on date\<close>
  says that files with higher numbers than the one in use are empty, which for a new logger are all but number 0.
\<close>

definition day_log :: "string \<Rightarrow> async_logger \<Rightarrow> string" where
  "day_log date st = day_text (on_date date st)"

definition fresh_on :: "string \<Rightarrow> async_logger \<Rightarrow> bool" where
  "fresh_on date st \<longleftrightarrow> fresh_day (on_date date st)"

lemma on_date_same [simp]: "m_date st = date \<Longrightarrow> on_date date st = st"
  by (simp add: on_date_def)

lemma log_message_on_date: "m \<noteq> [] \<Longrightarrow> log_message d date m st = log_message d date m (on_date date st)"
  by (simp add: log_message_def openLogFile_alt)

lemma log_message_day:
  assumes "reliable d" and "fresh_on date st" and "log_ok st"
  shows "\<exists>st'. log_message d date m st = Some st' \<and> fresh_on date st' \<and> log_ok st' \<and> day_log date st' = day_log date st @ m"
proof (cases "m = []")
  case True
  then show ?thesis using assms by (simp add: log_message_def)
next
  case False
  from log_message_fresh [OF assms(1) assms(2) [unfolded fresh_on_def] log_ok_on_date [OF assms(3)], of m] obtain st'
    where "log_message d date m (on_date date st) = Some st'" "fresh_day st'" "log_ok st'" "m_date st' = date"
      "day_text st' = day_text (on_date date st) @ m" by auto
  then show ?thesis unfolding log_message_on_date [OF False, of d date st] by (auto simp: fresh_on_def day_log_def)
qed

lemma log_task_day:
  assumes "reliable d" and "fresh_on date st" and "log_ok st"
  shows "\<exists>st'. log_task d (map (Pair date) ms) st = Some st' \<and> fresh_on date st' \<and> log_ok st'
     \<and> day_log date st' = day_log date st @ concat ms"
  using assms(2,3)
proof (induction ms arbitrary: st)
  case (Cons m ms)
  from log_message_day [OF assms(1) Cons.prems, of m] obtain st1
    where "log_message d date m st = Some st1" "fresh_on date st1" "log_ok st1" "day_log date st1 = day_log date st @ m"
    by blast
  with Cons.IH [of st1] show ?case by auto
qed simp

lemma day_log_close [simp]: "day_log date (closeFile st) = day_log date st"
  by (simp add: day_log_def on_date_def day_text_def) (simp add: closeFile_def)

lemma new_logger_ok:
  "log_ok (AsyncLogger file_name path limit ty fs)"
  "fresh_on date (AsyncLogger file_name path limit ty Map.empty)"
  "day_log date (AsyncLogger file_name path limit ty Map.empty) = []"
  by (simp_all add: log_ok_def AsyncLogger_def fresh_on_def fresh_day_def contents_def on_date_def closeFile_def
      day_log_def day_text_def)

text \<open>
  C30: A day's log is complete and bounded. On a disk that takes what is written, the messages of one
  day end up, in order, behind what the day's files held, across all rotations; and a file that was
  written is no longer than the limit, unless it consists of a single message.
\<close>

theorem log_day_complete:
  assumes "reliable d" and "fresh_day st" and "log_ok st"
  shows "\<exists>st'. log_task d (map (Pair (m_date st)) ms) st = Some st'
     \<and> day_text st' = day_text st @ concat ms
     \<and> (\<forall>name. m_max_size st = 0 \<or> contents st' name = contents st name
          \<or> length (contents st' name) \<le> m_max_size st \<or> contents st' name \<in> set ms)"
  by (rule log_task_complete [OF assms])

section \<open>A concrete log\<close>

definition full_disk :: log_disk where
  "full_disk = \<lparr>opens = (\<lambda>_. True), seeks = (\<lambda>_. True), takes = length\<rparr>"

definition sample_log :: async_logger where
  "sample_log = (AsyncLogger ''crpc'' ''./log'' 10 RPC_LOG Map.empty)\<lparr>m_date := ''20240101''\<rparr>"

lemma reliable_full: "reliable full_disk"
  by (simp add: reliable_def full_disk_def)

lemma sample_log_ok: "log_ok sample_log" "fresh_day sample_log" "m_max_size sample_log = 10"
  "m_date sample_log = ''20240101''" "day_text sample_log = []" "contents sample_log name = []"
  "files sample_log = Map.empty"
  by (simp_all add: log_ok_def fresh_day_def day_text_def sample_log_def AsyncLogger_def contents_def)

theorem log_day_complete_witness:
  "\<exists>st'. log_task full_disk (map (Pair ''20240101'') [''first'', ''second'', ''much too long'']) sample_log = Some st'
     \<and> day_text st' = ''firstsecondmuch too long''"
  using log_day_complete [OF reliable_full sample_log_ok(2,1), of "[''first'', ''second'', ''much too long'']"]
  by (auto simp: sample_log_ok)

theorem log_file_found_witness:
  "\<exists>opened st'. openLogFile full_disk ''20240102'' sample_log = Some (opened, st')
     \<and> contents st' = contents sample_log"
  using log_file_found [of sample_log full_disk "''20240102''"] by (auto simp: sample_log_ok)

theorem log_file_bounded_witness:
  "\<exists>st'. log_task full_disk [(''20240101'', ''first''), (''20240101'', ''second'')] sample_log = Some st'
     \<and> (contents st' ''x'' = [] \<or> length (contents st' ''x'') < 16)"
proof -
  obtain st' where st': "log_task full_disk (map (Pair (m_date sample_log)) [''first'', ''second'']) sample_log = Some st'"
    using log_task_complete [OF reliable_full sample_log_ok(2,1), of "[''first'', ''second'']"] by blast
  then have st'': "log_task full_disk [(''20240101'', ''first''), (''20240101'', ''second'')] sample_log = Some st'"
    by (simp add: sample_log_ok)
  have "contents st' ''x'' = contents sample_log ''x''
      \<or> length (contents st' ''x'') < m_max_size sample_log + 6"
    by (rule log_file_bounded [OF st'' sample_log_ok(1)]) (simp_all add: sample_log_ok)
  then show ?thesis using st'' by (auto simp: sample_log_ok)
qed

text \<open>
  After a restart on the same day the search begins at number 0 again: what is logged then can come
  before what the last process logged, and the file that a rotation finds is not checked again.
\<close>

definition restarted_log :: async_logger where
  "restarted_log =
     sample_log\<lparr>files := [file_at sample_log 0 \<mapsto> ''12345'', file_at sample_log 1 \<mapsto> ''123456789'']\<rparr>"

lemma file_at_restarted [simp]: "file_at restarted_log = file_at sample_log"
  by (rule file_at_cong) (simp_all add: restarted_log_def)

lemma makeFileName_restarted: "makeFileName restarted_log = file_at sample_log 0"
  by (simp add: makeFileName_at) (simp add: restarted_log_def sample_log_def AsyncLogger_def)

lemma contents_restarted:
  "contents restarted_log (file_at sample_log 0) = ''12345''"
  "contents restarted_log (file_at sample_log 1) = ''123456789''"
  using injD [OF file_at_inj, of sample_log 0 1]
  by (auto simp: contents_def restarted_log_def)

lemma restarted_log_fields [simp]:
  "m_file_handle restarted_log = None" "m_date restarted_log = ''20240101''" "m_max_size restarted_log = 10"
  "m_file_no restarted_log = 0"
  by (simp_all add: restarted_log_def sample_log_def AsyncLogger_def)

lemma restarted_open:
  "openLogFile full_disk ''20240101'' restarted_log =
     Some (True, (fopen_append (file_at sample_log 0) restarted_log)\<lparr>m_file_size := 5\<rparr>)"
  by (simp add: openLogFile_def open_loop.simps [of _ restarted_log] makeFileName_restarted
      contents_restarted) (simp add: full_disk_def)

lemma restart_logs_earlier:
  "\<exists>st'. log_task full_disk [(''20240101'', ''new'')] restarted_log = Some st'
     \<and> contents st' (file_at sample_log 0) = ''12345new''
     \<and> contents st' (file_at sample_log 1) = ''123456789''"
proof -
  let ?st = "(fopen_append (file_at sample_log 0) restarted_log)\<lparr>m_file_size := 5\<rparr>"
  have "rotateIfNeeded full_disk (length ''new'') ?st = Some (True, ?st)"
    by (simp add: rotateIfNeeded_def)
  then have "log_task full_disk [(''20240101'', ''new'')] restarted_log
      = Some (fwrite_message full_disk ''new'' ?st)"
    by (simp add: log_message_def restarted_open)
  moreover have "contents (fwrite_message full_disk ''new'' ?st)
      = (contents restarted_log)(file_at sample_log 0 := ''12345'' @ ''new'')"
    by (auto simp: fwrite_message_def full_disk_def Let_def contents_def fopen_append_def
        contents_restarted [unfolded contents_def])
  ultimately show ?thesis
    using injD [OF file_at_inj, of sample_log 0 1] by (auto simp: contents_restarted [simplified])
qed

end
