(* ===== verification/LogQueue.thy ===== *)
theory LogQueue
  imports LogFile
begin

text \<open>
  The thread side of \<open>src/comm/log.{h,cc}\<close>: the queue between \<open>AsyncLogger::push\<close> and the thread
  that runs \<open>execute\<close>, and the \<open>Logger\<close> with its two buffers. Each section that a mutex guards is one
  step. The queue's steps are a relation, because pushing threads and the writing thread interleave;
  the files are the ones of theory \<open>LogFile\<close>, with the disk and the date as parameters. \<open>accepted\<close>
  and \<open>finished\<close> are no state of the code: they record what was pushed and what \<open>execute\<close> is done
  with.
\<close>

section \<open>The code\<close>

record log_queue =
  m_tasks :: "string list list"
  m_stopping :: bool
  m_writing :: bool
  in_hand :: "string list option"
  exited :: bool
  log_file :: async_logger
  accepted :: "string list list"
  finished :: "string list list"

definition new_queue :: "async_logger \<Rightarrow> log_queue" where
  "new_queue f =
     \<lparr>m_tasks = [], m_stopping = False, m_writing = False, in_hand = None, exited = False, log_file = f,
      accepted = [], finished = []\<rparr>"

text \<open>\<open>push\<close> takes the caller's buffer and leaves an empty one.\<close>

definition push :: "string list \<Rightarrow> log_queue \<Rightarrow> string list \<times> log_queue" where
  "push buffer q =
     (if buffer = [] then (buffer, q)
      else if m_stopping q then ([], q)
      else ([], q\<lparr>m_tasks := m_tasks q @ [buffer], accepted := accepted q @ [buffer]\<rparr>))"

definition set_stopping :: "log_queue \<Rightarrow> log_queue" where
  "set_stopping q = q\<lparr>m_stopping := True\<rparr>"

text \<open>The condition on which \<open>flush\<close> waits.\<close>

definition drained :: "log_queue \<Rightarrow> bool" where
  "drained q \<longleftrightarrow> m_tasks q = [] \<and> \<not> m_writing q"

text \<open>The steps of \<open>execute\<close>: take a task, write it out, leave the loop.\<close>

inductive execute :: "log_disk \<Rightarrow> string \<Rightarrow> log_queue \<Rightarrow> log_queue \<Rightarrow> bool"
  for d :: log_disk and date :: string where
  take_task:
    "\<not> exited q \<Longrightarrow> in_hand q = None \<Longrightarrow> m_tasks q = task # tasks \<Longrightarrow>
     execute d date q (q\<lparr>m_tasks := tasks, in_hand := Some task, m_writing := True\<rparr>)"
| finish_task:
    "in_hand q = Some task \<Longrightarrow> log_task d (map (Pair date) task) (log_file q) = Some f \<Longrightarrow>
     execute d date q (q\<lparr>in_hand := None, m_writing := False, log_file := f, finished := finished q @ [task]\<rparr>)"
| leave:
    "\<not> exited q \<Longrightarrow> in_hand q = None \<Longrightarrow> m_tasks q = [] \<Longrightarrow> m_stopping q \<Longrightarrow>
     execute d date q (q\<lparr>exited := True, m_writing := False\<rparr>)"

inductive queue_step :: "log_disk \<Rightarrow> string \<Rightarrow> log_queue \<Rightarrow> log_queue \<Rightarrow> bool"
  for d :: log_disk and date :: string where
  pushing: "queue_step d date q (snd (push buffer q))"
| stopping: "queue_step d date q (set_stopping q)"
| executing: "execute d date q q' \<Longrightarrow> queue_step d date q q'"

inductive_cases execute_elim: "execute d date q q'"

section \<open>Nothing accepted is lost\<close>

definition queue_ok :: "log_queue \<Rightarrow> bool" where
  "queue_ok q \<longleftrightarrow>
     accepted q = finished q @ (case in_hand q of None \<Rightarrow> [] | Some task \<Rightarrow> [task]) @ m_tasks q
     \<and> (m_writing q \<longleftrightarrow> in_hand q \<noteq> None)
     \<and> (exited q \<longrightarrow> m_stopping q \<and> m_tasks q = [] \<and> in_hand q = None)"

text \<open>
  The files of the day hold what is finished, in order, behind what they held when the queue began with \<open>f\<close>.
\<close>

definition files_ok :: "async_logger \<Rightarrow> string \<Rightarrow> log_queue \<Rightarrow> bool" where
  "files_ok f date q \<longleftrightarrow>
     day_log date (log_file q) = day_log date f @ concat (concat (finished q))
     \<and> fresh_on date (log_file q) \<and> log_ok (log_file q)"

lemma files_ok_new: "fresh_on date f \<Longrightarrow> log_ok f \<Longrightarrow> files_ok f date (new_queue f)"
  by (simp add: files_ok_def new_queue_def)

lemma queue_ok_new: "queue_ok (new_queue f)"
  by (simp add: queue_ok_def new_queue_def)

lemma queue_ok_push: "queue_ok q \<Longrightarrow> queue_ok (snd (push buffer q))"
  by (auto simp: queue_ok_def push_def split: option.splits)

lemma queue_ok_stop: "queue_ok q \<Longrightarrow> queue_ok (set_stopping q)"
  by (simp add: queue_ok_def set_stopping_def)

lemma queue_ok_execute: "execute d date q q' \<Longrightarrow> queue_ok q \<Longrightarrow> queue_ok q'"
  by (induction rule: execute.induct) (auto simp: queue_ok_def)

lemma queue_ok_step: "queue_step d date q q' \<Longrightarrow> queue_ok q \<Longrightarrow> queue_ok q'"
  by (induction rule: queue_step.induct) (auto intro: queue_ok_push queue_ok_stop queue_ok_execute)

interpretation queue: step_invariant "queue_step d date" queue_ok for d date
  by unfold_locales (rule queue_ok_step)

lemma files_ok_execute:
  "execute d date q q' \<Longrightarrow> reliable d \<Longrightarrow> files_ok f date q \<Longrightarrow> files_ok f date q'"
proof (induction rule: execute.induct)
  case (finish_task q task fl)
  then show ?case using log_task_day [of d date "log_file q" task] by (auto simp: files_ok_def)
qed (auto simp: files_ok_def)

lemma files_ok_step:
  "queue_step d date q q' \<Longrightarrow> reliable d \<Longrightarrow> files_ok f date q \<Longrightarrow> files_ok f date q'"
  by (induction rule: queue_step.induct)
     (auto simp: files_ok_def push_def set_stopping_def dest: files_ok_execute [unfolded files_ok_def])

interpretation logged: step_invariant "queue_step d date" "\<lambda>q. reliable d \<and> files_ok f date q" for d date f
  by unfold_locales (blast intro: files_ok_step)

text \<open>
  No accepted line is lost or reordered. After any interleaving of \<open>push\<close>,
  \<open>stop\<close> and the steps of the writing thread, when \<open>flush\<close> returns or the
  thread has left its loop, every accepted task has been written, in the order of acceptance, behind
  what the files held.
\<close>

theorem log_accepted_is_written:
  assumes "reliable d" and "fresh_on date f" and "log_ok f"
    and "(queue_step d date)\<^sup>*\<^sup>* (new_queue f) q" and "drained q \<or> exited q"
  shows "finished q = accepted q \<and> day_log date (log_file q) = day_log date f @ concat (concat (accepted q))"
proof -
  have "queue_ok q" by (rule queue.steps_keep [OF assms(4) queue_ok_new])
  then have "finished q = accepted q"
    using assms(5) by (auto simp: queue_ok_def drained_def split: option.splits)
  moreover have "files_ok f date q"
    using logged.steps_keep [OF assms(4), of f] assms(1-3) by (simp add: files_ok_new)
  ultimately show ?thesis by (simp add: files_ok_def)
qed

section \<open>A stopped queue ends\<close>

definition work_left :: "log_queue \<Rightarrow> nat" where
  "work_left q = 2 * length (m_tasks q) + (case in_hand q of None \<Rightarrow> 0 | Some _ \<Rightarrow> 1) + (if exited q then 0 else 1)"

lemma execute_decreases: "execute d date q q' \<Longrightarrow> work_left q' < work_left q"
  by (induction rule: execute.induct) (auto simp: work_left_def)

lemma execute_keeps:
  "execute d date q q' \<Longrightarrow> m_stopping q' = m_stopping q \<and> accepted q' = accepted q"
  by (induction rule: execute.induct) auto

lemma execute_enabled:
  assumes "reliable d" and "files_ok f date q" and "queue_ok q" and "m_stopping q" and "\<not> exited q"
  shows "\<exists>q'. execute d date q q'"
proof (cases "in_hand q")
  case None
  then show ?thesis
    using assms take_task leave by (cases "m_tasks q") blast+
next
  case (Some task)
  from assms(2) have "fresh_on date (log_file q)" "log_ok (log_file q)" by (simp_all add: files_ok_def)
  with log_task_day [OF assms(1), of date "log_file q" task] obtain fl
    where "log_task d (map (Pair date) task) (log_file q) = Some fl" by auto
  with Some show ?thesis by (blast intro: finish_task)
qed

lemma log_stop_reaches_end:
  assumes "reliable d" and "files_ok f date q" and "queue_ok q" and "m_stopping q"
  shows "\<exists>q'. (execute d date)\<^sup>*\<^sup>* q q' \<and> exited q' \<and> finished q' = accepted q
           \<and> day_log date (log_file q') = day_log date f @ concat (concat (accepted q))"
  using assms(2-4)
proof (induction "work_left q" arbitrary: q rule: less_induct)
  case less
  show ?case
  proof (cases "exited q")
    case True
    with less.prems have "finished q = accepted q" by (simp add: queue_ok_def)
    with True less.prems(1) show ?thesis by (auto simp: files_ok_def)
  next
    case False
    from execute_enabled [OF assms(1) less.prems False] obtain q1 where q1: "execute d date q q1" by blast
    from less.hyps [OF execute_decreases [OF q1]] less.prems obtain q'
      where "(execute d date)\<^sup>*\<^sup>* q1 q'" "exited q'" "finished q' = accepted q1"
        "day_log date (log_file q') = day_log date f @ concat (concat (accepted q1))"
      using files_ok_execute [OF q1 assms(1)] queue_ok_execute [OF q1] execute_keeps [OF q1] by auto
    then show ?thesis using q1 execute_keeps [OF q1]
      by (metis converse_rtranclp_into_rtranclp)
  qed
qed

text \<open>
  \<open>stop\<close> ends. Once the flag is set, the steps of the writing thread lead to its
  exit, and by then it has written all that was accepted.
\<close>

theorem log_stop_ends:
  assumes "reliable d" and "files_ok f date q" and "queue_ok q" and "m_stopping q"
  shows "\<exists>q'. (execute d date)\<^sup>*\<^sup>* q q' \<and> exited q' \<and> finished q' = accepted q
           \<and> day_log date (log_file q') = day_log date f @ concat (concat (accepted q))"
  by (rule log_stop_reaches_end [OF assms])

section \<open>A concrete queue\<close>

definition new_log :: async_logger where
  "new_log = AsyncLogger ''crpc'' ''./log'' 10 RPC_LOG Map.empty"

lemma new_log_ok: "fresh_on date new_log" "log_ok new_log" "day_log date new_log = []"
  by (simp_all add: new_log_def new_logger_ok)

lemma sample_queue_ok:
  "queue_ok (set_stopping (snd (push [''a'', ''b''] (new_queue new_log))))"
  "files_ok new_log date (set_stopping (snd (push [''a'', ''b''] (new_queue new_log))))"
  by (simp_all add: queue_ok_stop queue_ok_push queue_ok_new)
     (simp add: files_ok_def set_stopping_def push_def new_queue_def new_log_ok)

theorem log_stop_ends_witness:
  "\<exists>q'. (execute full_disk ''20240101'')\<^sup>*\<^sup>* (set_stopping (snd (push [''a'', ''b''] (new_queue new_log)))) q'
     \<and> exited q' \<and> day_log ''20240101'' (log_file q') = ''ab''"
  using log_stop_ends [OF reliable_full sample_queue_ok(2,1)]
  by (auto simp: set_stopping_def push_def new_queue_def new_log_ok)

theorem log_accepted_is_written_witness:
  "\<exists>q. (queue_step full_disk ''20240101'')\<^sup>*\<^sup>* (new_queue new_log) q \<and> exited q
     \<and> day_log ''20240101'' (log_file q) = ''ab''"
proof -
  let ?q = "set_stopping (snd (push [''a'', ''b''] (new_queue new_log)))"
  from log_stop_reaches_end [OF reliable_full sample_queue_ok(2,1)] obtain q
    where q: "(execute full_disk ''20240101'')\<^sup>*\<^sup>* ?q q" "exited q" "finished q = accepted ?q"
    by (auto simp: set_stopping_def)
  have "(queue_step full_disk ''20240101'')\<^sup>*\<^sup>* (new_queue new_log) ?q"
    by (meson pushing stopping converse_rtranclp_into_rtranclp rtranclp.rtrancl_refl)
  moreover from q(1) have "(queue_step full_disk ''20240101'')\<^sup>*\<^sup>* ?q q"
    by (rule rtranclp_mono [THEN predicate2D, rotated]) (auto intro: executing)
  ultimately have run: "(queue_step full_disk ''20240101'')\<^sup>*\<^sup>* (new_queue new_log) q" by simp
  from log_accepted_is_written [OF reliable_full new_log_ok(1,2) run] q
  have "day_log ''20240101'' (log_file q) = concat (concat (accepted ?q))" by (simp add: new_log_ok)
  then show ?thesis using run q(2)
    by (auto simp: set_stopping_def push_def new_queue_def new_log_ok)
qed

end
