(* ===== verification/Logger.thy ===== *)
theory Logger
  imports LogQueue
begin

text \<open>
  \<open>Logger\<close> and \<open>LogEvent\<close> of \<open>src/comm/log.{h,cc}\<close>: the two buffers that log statements fill, their
  hand-over to the two queues, thresholds, shutdown, and the text of a line. The clock, the
  identifiers of process and thread, and what the disk answers are arguments.
\<close>

section \<open>The code\<close>

record logger =
  m_initialized :: bool
  l_stopping :: bool
  m_rpc_buffer :: "string list"
  m_app_buffer :: "string list"
  m_async_rpc_logger :: "log_queue option"
  m_async_app_logger :: "log_queue option"
  m_sync_interval :: int
  m_rpc_level :: LogLevel
  m_app_level :: LogLevel

definition new_logger :: logger where
  "new_logger =
     \<lparr>m_initialized = False, l_stopping = False, m_rpc_buffer = [], m_app_buffer = [],
      m_async_rpc_logger = None, m_async_app_logger = None, m_sync_interval = 500,
      m_rpc_level = DEBUG, m_app_level = DEBUG\<rparr>"

definition Logger_init :: "(string \<Rightarrow> string option) \<Rightarrow> config \<Rightarrow> logger \<Rightarrow> logger" where
  "Logger_init fs cfg l =
     (if m_initialized l then l
      else let async_logger = (\<lambda>ty. new_queue (AsyncLogger (Config.m_log_prefix cfg) (Config.m_log_path cfg)
                                          (nat (Config.m_log_max_file_size cfg)) ty fs))
           in l\<lparr>m_sync_interval := Config.m_log_sync_interval cfg, m_rpc_level := Config.m_log_level cfg,
                m_app_level := Config.m_app_log_level cfg, l_stopping := False,
                m_async_rpc_logger := Some (async_logger RPC_LOG),
                m_async_app_logger := Some (async_logger APP_LOG), m_initialized := True\<rparr>)"

definition pushRpcLog :: "string \<Rightarrow> logger \<Rightarrow> logger" where
  "pushRpcLog log_msg l =
     (if \<not> m_initialized l \<or> l_stopping l then l else l\<lparr>m_rpc_buffer := m_rpc_buffer l @ [log_msg]\<rparr>)"

definition pushAppLog :: "string \<Rightarrow> logger \<Rightarrow> logger" where
  "pushAppLog log_msg l =
     (if \<not> m_initialized l \<or> l_stopping l then l else l\<lparr>m_app_buffer := m_app_buffer l @ [log_msg]\<rparr>)"

text \<open>\<open>dispatchBuffers\<close> in its two halves: the buffers are taken, and then given to the queues.\<close>

definition take_buffers :: "logger \<Rightarrow> (string list \<times> string list) \<times> logger" where
  "take_buffers l = ((m_rpc_buffer l, m_app_buffer l), l\<lparr>m_rpc_buffer := [], m_app_buffer := []\<rparr>)"

definition give_buffers :: "string list \<times> string list \<Rightarrow> logger \<Rightarrow> logger" where
  "give_buffers bs l =
     l\<lparr>m_async_rpc_logger := map_option (\<lambda>q. snd (push (fst bs) q)) (m_async_rpc_logger l),
       m_async_app_logger := map_option (\<lambda>q. snd (push (snd bs) q)) (m_async_app_logger l)\<rparr>"

definition dispatchBuffers :: "logger \<Rightarrow> logger" where
  "dispatchBuffers l = (let (bs, l) = take_buffers l in give_buffers bs l)"

text \<open>
  \<open>AsyncLogger::stop\<close>: the thread finishes what is queued, is joined, and the file is closed. \<open>flush\<close>
  of the logger hands over the buffers; it returns when both queues are \<open>drained\<close>.
\<close>

definition queue_stop :: "log_disk \<Rightarrow> string \<Rightarrow> log_queue \<Rightarrow> log_queue option" where
  "queue_stop d date q =
     (if m_stopping q \<and> exited q then Some q
      else let left = (case in_hand q of None \<Rightarrow> [] | Some task \<Rightarrow> [task]) @ m_tasks q
           in do { f \<leftarrow> log_task d (map (Pair date) (concat left)) (log_file q);
                   Some (q\<lparr>m_stopping := True, m_tasks := [], in_hand := None, m_writing := False, exited := True,
                           log_file := closeFile f, finished := finished q @ left\<rparr>) })"

definition Logger_flush :: "logger \<Rightarrow> logger" where
  "Logger_flush l = (if \<not> m_initialized l then l else dispatchBuffers l)"

text \<open>The result of \<open>shutdown\<close> holds the two queues that it lets go of.\<close>

definition Logger_shutdown ::
  "log_disk \<Rightarrow> string \<Rightarrow> logger \<Rightarrow> (logger \<times> log_queue option \<times> log_queue option) option" where
  "Logger_shutdown d date l =
     (if \<not> m_initialized l \<or> l_stopping l then Some (l, None, None)
      else do {
        let l = dispatchBuffers (l\<lparr>l_stopping := True\<rparr>);
        rpc \<leftarrow> (case m_async_rpc_logger l of None \<Rightarrow> Some None | Some q \<Rightarrow> map_option Some (queue_stop d date q));
        app \<leftarrow> (case m_async_app_logger l of None \<Rightarrow> Some None | Some q \<Rightarrow> map_option Some (queue_stop d date q));
        Some (l\<lparr>m_async_rpc_logger := None, m_async_app_logger := None, m_initialized := False\<rparr>, rpc, app) })"

definition isInitialized :: "logger \<Rightarrow> bool" where
  "isInitialized l \<longleftrightarrow> m_initialized l \<and> \<not> l_stopping l"

fun level_int :: "LogLevel \<Rightarrow> int" where
  "level_int DEBUG = 1" | "level_int INFO = 2" | "level_int WARN = 3" | "level_int ERROR = 4" | "level_int NONE = 5"

text \<open>The levels in the order of \<open>enum class LogLevel\<close>.\<close>

instantiation LogLevel :: linorder
begin

definition less_eq_LogLevel :: "LogLevel \<Rightarrow> LogLevel \<Rightarrow> bool" where "less_eq_LogLevel a b \<longleftrightarrow> level_int a \<le> level_int b"
definition less_LogLevel :: "LogLevel \<Rightarrow> LogLevel \<Rightarrow> bool" where "less_LogLevel a b \<longleftrightarrow> level_int a < level_int b"

instance
proof
  fix a b :: LogLevel
  show "a = b" if "a \<le> b" "b \<le> a"
    using that by (cases a; cases b) (simp_all add: less_eq_LogLevel_def)
qed (auto simp: less_eq_LogLevel_def less_LogLevel_def)

end

definition shouldLog :: "LogLevel \<Rightarrow> LogType \<Rightarrow> logger \<Rightarrow> bool" where
  "shouldLog level ty l \<longleftrightarrow>
     isInitialized l
     \<and> (let threshold = (if ty = APP_LOG then m_app_level l else m_rpc_level l)
        in level_int level \<ge> level_int threshold \<and> threshold \<noteq> NONE)"

subsection \<open>A line\<close>

record log_env =
  time_buffer :: string
  tv_usec :: nat
  env_pid :: nat
  env_tid :: nat
  env_cor_id :: int

record log_event =
  le_level :: LogLevel
  le_file_name :: "string option"
  le_line :: int
  le_func_name :: "string option"
  le_type :: LogType
  m_enabled :: bool
  m_prefix_appended :: bool
  m_stream :: string

definition LogEvent :: "LogLevel \<Rightarrow> string option \<Rightarrow> int \<Rightarrow> string option \<Rightarrow> LogType \<Rightarrow> logger \<Rightarrow> log_event" where
  "LogEvent level fname line func ty l =
     \<lparr>le_level = level, le_file_name = fname, le_line = line, le_func_name = func, le_type = ty,
      m_enabled = shouldLog level ty l, m_prefix_appended = False, m_stream = []\<rparr>"

definition setw6 :: "nat \<Rightarrow> string" where
  "setw6 n = replicate (6 - length (nat_str n)) CHR ''0'' @ nat_str n"

definition log_prefix :: "log_env \<Rightarrow> run_time option \<Rightarrow> log_event \<Rightarrow> string" where
  "log_prefix env rt e =
     ''['' @ time_buffer env @ ''.'' @ setw6 (tv_usec env) @ ''][''
     @ LogLevelToString (le_level e) @ '']['' @ nat_str (env_pid env) @ '']['' @ nat_str (env_tid env) @ ''][''
     @ int_str (env_cor_id env) @ '']['' @ BaseName (le_file_name e) @ '':'' @ int_str (le_line e) @ '':''
     @ (case le_func_name e of None \<Rightarrow> [] | Some f \<Rightarrow> f) @ '']''
     @ (case rt of
          None \<Rightarrow> []
        | Some r \<Rightarrow> (if m_msg_no r \<noteq> [] then ''['' @ m_msg_no r @ '']'' else [])
                  @ (if m_interface_name r \<noteq> [] then ''['' @ m_interface_name r @ '']'' else []))"

definition appendPrefix :: "log_env \<Rightarrow> run_time option \<Rightarrow> log_event \<Rightarrow> log_event" where
  "appendPrefix env rt e =
     (if m_prefix_appended e then e
      else e\<lparr>m_prefix_appended := True, m_stream := m_stream e @ log_prefix env rt e\<rparr>)"

definition getStringStream :: "log_env \<Rightarrow> run_time option \<Rightarrow> log_event \<Rightarrow> log_event" where
  "getStringStream env rt e = (if m_enabled e then appendPrefix env rt e else e)"

text \<open>The destructor.\<close>

definition end_LogEvent :: "log_env \<Rightarrow> run_time option \<Rightarrow> log_event \<Rightarrow> logger \<Rightarrow> logger" where
  "end_LogEvent env rt e l =
     (if \<not> m_enabled e then l
      else let line = m_stream (appendPrefix env rt e) @ [CHR 0x0A]
           in if le_type e = APP_LOG then pushAppLog line l else pushRpcLog line l)"

text \<open>
  A whole statement \<open>DebugLog << text\<close> (and its variants), and \<open>AppLog\<close> with the text that
  \<open>FormatString\<close> made.
\<close>

definition log_statement ::
  "log_env \<Rightarrow> run_time option \<Rightarrow> LogLevel \<Rightarrow> string option \<Rightarrow> int \<Rightarrow> string option \<Rightarrow> LogType \<Rightarrow> string
     \<Rightarrow> logger \<Rightarrow> logger" where
  "log_statement env rt level fname line func ty txt l =
     (if \<not> shouldLog level ty l then l
      else let e = getStringStream env rt (LogEvent level fname line func ty l);
               e = e\<lparr>m_stream := m_stream e @ txt\<rparr>
           in end_LogEvent env rt e l)"

section \<open>Names\<close>

lemma BaseName_path: "CHR ''/'' \<notin> set f \<Longrightarrow> BaseName (Some (dir @ CHR ''/'' # f)) = f"
  by (simp add: BaseName_def)

lemma BaseName_plain: "CHR ''/'' \<notin> set f \<Longrightarrow> BaseName (Some f) = f"
  by (simp add: BaseName_def)

lemma NormalizeLogPath_slash: "last (NormalizeLogPath path) = CHR ''/''"
  by (simp add: NormalizeLogPath_def Let_def)

lemma NormalizeLogPath_idem: "NormalizeLogPath (NormalizeLogPath path) = NormalizeLogPath path"
  by (simp add: NormalizeLogPath_def Let_def)

section \<open>Statements\<close>

text \<open>A statement adds one line to the buffer of its type exactly when its level passes.\<close>

lemma log_statement_rpc:
  "m_rpc_buffer (log_statement env rt level fname line func RPC_LOG txt l) =
     m_rpc_buffer l @ (if shouldLog level RPC_LOG l
       then [log_prefix env rt (LogEvent level fname line func RPC_LOG l) @ txt @ [CHR 0x0A]] else [])"
  by (simp add: log_statement_def getStringStream_def end_LogEvent_def LogEvent_def appendPrefix_def
      pushRpcLog_def shouldLog_def isInitialized_def log_prefix_def Let_def)

lemma log_statement_silent:
  "\<not> shouldLog level ty l \<Longrightarrow> log_statement env rt level fname line func ty txt l = l"
  by (simp add: log_statement_def)

lemma shouldLog_threshold:
  "shouldLog level ty l \<longleftrightarrow>
     isInitialized l \<and> (case ty of APP_LOG \<Rightarrow> m_app_level l | RPC_LOG \<Rightarrow> m_rpc_level l) \<in> {..level} - {NONE}"
  by (cases ty) (auto simp: shouldLog_def less_eq_LogLevel_def Let_def)

lemma shouldLog_mono: "shouldLog level ty l \<Longrightarrow> level \<le> level' \<Longrightarrow> shouldLog level' ty l"
  by (auto simp: shouldLog_threshold)

section \<open>From statement to file\<close>

text \<open>
  What can happen between \<open>init\<close> and \<open>shutdown\<close>: lines are pushed, a thread hands the buffers over (the
  sync loop, or \<open>flush\<close>), the two writing threads make steps. \<open>rs\<close> are the rpc lines pushed, \<open>as\<close> those
  of the application.
\<close>

inductive log_session :: "log_disk \<Rightarrow> string \<Rightarrow> logger \<Rightarrow> string list \<Rightarrow> string list \<Rightarrow> logger \<Rightarrow> bool"
  for d :: log_disk and date :: string and l0 :: logger where
  session_start: "log_session d date l0 [] [] l0"
| push_rpc: "log_session d date l0 rs as l \<Longrightarrow> log_session d date l0 (rs @ [m]) as (pushRpcLog m l)"
| push_app: "log_session d date l0 rs as l \<Longrightarrow> log_session d date l0 rs (as @ [m]) (pushAppLog m l)"
| dispatch: "log_session d date l0 rs as l \<Longrightarrow> log_session d date l0 rs as (dispatchBuffers l)"
| rpc_thread:
    "log_session d date l0 rs as l \<Longrightarrow> m_async_rpc_logger l = Some q \<Longrightarrow> execute d date q q' \<Longrightarrow>
     log_session d date l0 rs as (l\<lparr>m_async_rpc_logger := Some q'\<rparr>)"
| app_thread:
    "log_session d date l0 rs as l \<Longrightarrow> m_async_app_logger l = Some q \<Longrightarrow> execute d date q q' \<Longrightarrow>
     log_session d date l0 rs as (l\<lparr>m_async_app_logger := Some q'\<rparr>)"

text \<open>
  One of the two kinds of lines: \<open>ls\<close> are given to the queue or wait in the buffer, and the queue has written what
  it is done with behind what the day's files of \<open>f\<close> held.
\<close>

definition side_ok :: "async_logger \<Rightarrow> string \<Rightarrow> string list \<Rightarrow> string list \<Rightarrow> log_queue option \<Rightarrow> bool" where
  "side_ok f date ls buffer queue \<longleftrightarrow>
     (case queue of
        None \<Rightarrow> False
      | Some q \<Rightarrow> queue_ok q \<and> files_ok f date q \<and> \<not> m_stopping q \<and> concat (accepted q) @ buffer = ls)"

definition session_ok ::
  "async_logger \<Rightarrow> async_logger \<Rightarrow> string \<Rightarrow> string list \<Rightarrow> string list \<Rightarrow> logger \<Rightarrow> bool" where
  "session_ok f g date rs as l \<longleftrightarrow>
     m_initialized l \<and> \<not> l_stopping l
     \<and> side_ok f date rs (m_rpc_buffer l) (m_async_rpc_logger l)
     \<and> side_ok g date as (m_app_buffer l) (m_async_app_logger l)"

lemma files_ok_push: "files_ok f date (snd (push b q)) = files_ok f date q"
  by (simp add: files_ok_def push_def)

lemma push_open [simp]:
  "m_stopping (snd (push b q)) = m_stopping q"
  "\<not> m_stopping q \<Longrightarrow> concat (accepted (snd (push b q))) = concat (accepted q) @ b"
  by (auto simp: push_def)

lemmas dispatch_defs = dispatchBuffers_def take_buffers_def give_buffers_def Let_def

lemma side_ok_new: "fresh_on date f \<Longrightarrow> log_ok f \<Longrightarrow> side_ok f date [] [] (Some (new_queue f))"
  by (simp add: side_ok_def queue_ok_new files_ok_new) (simp add: new_queue_def)

lemma side_ok_line: "side_ok f date ls buffer queue \<Longrightarrow> side_ok f date (ls @ [m]) (buffer @ [m]) queue"
  by (auto simp: side_ok_def split: option.splits)

lemma side_ok_give:
  "side_ok f date ls buffer queue \<Longrightarrow> side_ok f date ls [] (map_option (\<lambda>q. snd (push buffer q)) queue)"
  by (auto simp: side_ok_def files_ok_push queue_ok_push split: option.splits)

lemma side_ok_execute:
  "side_ok f date ls buffer (Some q) \<Longrightarrow> execute d date q q' \<Longrightarrow> reliable d \<Longrightarrow> side_ok f date ls buffer (Some q')"
  using queue_ok_execute [of d date q q'] files_ok_execute [of d date q q' f] execute_keeps [of d date q q']
  by (simp add: side_ok_def)

lemma session_keeps:
  assumes "log_session d date l0 rs as l" and "reliable d" and "session_ok f g date [] [] l0"
  shows "session_ok f g date rs as l"
  using assms(1)
proof (induction rule: log_session.induct)
  case session_start
  then show ?case by (rule assms(3))
next
  case (push_rpc rs as l m)
  then show ?case by (simp add: session_ok_def pushRpcLog_def side_ok_line)
next
  case (push_app rs as l m)
  then show ?case by (simp add: session_ok_def pushAppLog_def side_ok_line)
next
  case (dispatch rs as l)
  then show ?case by (simp add: session_ok_def dispatch_defs side_ok_give)
next
  case (rpc_thread rs as l q q')
  then show ?case using side_ok_execute [OF _ rpc_thread.hyps(3) assms(2)] by (simp add: session_ok_def)
next
  case (app_thread rs as l q q')
  then show ?case using side_ok_execute [OF _ app_thread.hyps(3) assms(2)] by (simp add: session_ok_def)
qed

lemma queue_stop_complete:
  assumes "reliable d" and "side_ok f date ls [] (Some q)"
  shows "\<exists>q'. queue_stop d date q = Some q' \<and> exited q' \<and> finished q' = accepted q
           \<and> day_log date (log_file q') = day_log date f @ concat ls"
proof -
  from assms(2) have q: "queue_ok q" "files_ok f date q" "\<not> m_stopping q" "concat (accepted q) = ls"
    by (simp_all add: side_ok_def)
  let ?left = "(case in_hand q of None \<Rightarrow> [] | Some task \<Rightarrow> [task]) @ m_tasks q"
  have acc: "accepted q = finished q @ ?left" using q(1) by (simp add: queue_ok_def)
  from q(2) have fl: "fresh_on date (log_file q)" "log_ok (log_file q)"
    "day_log date (log_file q) = day_log date f @ concat (concat (finished q))"
    by (simp_all add: files_ok_def)
  from log_task_day [OF assms(1) fl(1,2), of "concat ?left"] obtain f'
    where "log_task d (map (Pair date) (concat ?left)) (log_file q) = Some f'"
      "day_log date f' = day_log date (log_file q) @ concat (concat ?left)" by blast
  then show ?thesis
    using q(3) fl(3) acc by (simp add: queue_stop_def Let_def flip: q(4))
qed

lemma log_shutdown_complete:
  assumes "reliable d" and "log_session d date l0 rs as l" and "session_ok f g date [] [] l0"
  shows "\<exists>l' rpc app. Logger_shutdown d date l = Some (l', Some rpc, Some app)
           \<and> \<not> m_initialized l' \<and> day_log date (log_file rpc) = day_log date f @ concat rs
           \<and> day_log date (log_file app) = day_log date g @ concat as"
proof -
  have inv: "session_ok f g date rs as l" by (rule session_keeps [OF assms(2,1,3)])
  then obtain q p where q: "m_async_rpc_logger l = Some q" and p: "m_async_app_logger l = Some p"
    by (auto simp: session_ok_def side_ok_def split: option.splits)
  let ?q = "snd (push (m_rpc_buffer l) q)" and ?p = "snd (push (m_app_buffer l) p)"
  have "side_ok f date rs [] (Some ?q)" "side_ok g date as [] (Some ?p)"
    using inv side_ok_give [of f date rs "m_rpc_buffer l" "Some q"] side_ok_give [of g date as "m_app_buffer l" "Some p"]
    by (simp_all add: session_ok_def q p)
  from this [THEN queue_stop_complete [OF assms(1)]] obtain q' p'
    where "queue_stop d date ?q = Some q'" "day_log date (log_file q') = day_log date f @ concat rs"
      "queue_stop d date ?p = Some p'" "day_log date (log_file p') = day_log date g @ concat as" by blast
  then show ?thesis using inv q p by (simp add: Logger_shutdown_def dispatch_defs session_ok_def)
qed

text \<open>A logger that was just initialised, on a day without files of higher numbers, begins such a session.\<close>

definition first_log :: "config \<Rightarrow> (string \<Rightarrow> string option) \<Rightarrow> LogType \<Rightarrow> async_logger" where
  "first_log cfg fs ty =
     AsyncLogger (Config.m_log_prefix cfg) (Config.m_log_path cfg) (nat (Config.m_log_max_file_size cfg)) ty fs"

lemma session_ok_init:
  assumes "fresh_on date (first_log cfg fs RPC_LOG)" "fresh_on date (first_log cfg fs APP_LOG)"
  shows "session_ok (first_log cfg fs RPC_LOG) (first_log cfg fs APP_LOG) date [] [] (Logger_init fs cfg new_logger)"
  using side_ok_new [OF assms(1)] side_ok_new [OF assms(2)]
  by (simp add: session_ok_def Logger_init_def new_logger_def first_log_def new_logger_ok)

section \<open>Two threads that hand over\<close>

text \<open>
  The sync loop and a caller of \<open>flush\<close> can both be between the two halves of \<open>dispatchBuffers\<close>. The
  one that took the buffers last may give them first, and the lines come out in the wrong order.
\<close>

lemma dispatch_reorders:
  assumes "m_initialized l" and "\<not> l_stopping l" and "m_async_rpc_logger l = Some q" and "\<not> m_stopping q"
    and "m_rpc_buffer l = [m1]"
  shows "let (first, l1) = take_buffers l;
             l2 = dispatchBuffers (pushRpcLog m2 l1);
             l3 = give_buffers first l2
         in map_option accepted (m_async_rpc_logger l3) = Some (accepted q @ [[m2], [m1]])"
  using assms by (simp add: dispatch_defs pushRpcLog_def push_def)

end
