(* ===== verification/LogLoop.thy ===== *)
theory LogLoop
  imports Logger
begin

text \<open>
  The sync loop of \<open>Logger\<close>, and the statements of applications (\<open>src/comm/log.{h,cc}\<close>).
\<close>

section \<open>The sync loop\<close>

text \<open>
  Each element of \<open>others\<close> is what the other threads do to the logger while the loop is in one
  \<open>wait_for\<close>, whose result is then the stop flag. \<^term>\<open>None\<close>: the loop is still waiting.
\<close>

fun syncLoop :: "(logger \<Rightarrow> logger) list \<Rightarrow> logger \<Rightarrow> logger option" where
  "syncLoop [] l = (if l_stopping l then Some l else None)"
| "syncLoop (others # rest) l =
     (if l_stopping l then Some l
      else let l = others l
           in if l_stopping l then Some l else syncLoop rest (dispatchBuffers l))"

text \<open>The beginning of \<open>shutdown\<close>, which the loop sees.\<close>

definition raise_stopping :: "logger \<Rightarrow> logger" where
  "raise_stopping l = (if \<not> m_initialized l \<or> l_stopping l then l else l\<lparr>l_stopping := True\<rparr>)"

lemma push_lines:
  "m_initialized l \<Longrightarrow> \<not> l_stopping l \<Longrightarrow> fold pushRpcLog ms l = l\<lparr>m_rpc_buffer := m_rpc_buffer l @ ms\<rparr>"
  by (induction ms arbitrary: l) (auto simp: pushRpcLog_def)

text \<open>What the queue of the rpc log was given, and what is still in the buffer.\<close>

definition rpc_lines :: "logger \<Rightarrow> string list" where
  "rpc_lines l = (case m_async_rpc_logger l of None \<Rightarrow> [] | Some q \<Rightarrow> concat (accepted q))"

definition rpc_open :: "logger \<Rightarrow> bool" where
  "rpc_open l \<longleftrightarrow> m_initialized l \<and> \<not> l_stopping l
     \<and> (case m_async_rpc_logger l of None \<Rightarrow> False | Some q \<Rightarrow> \<not> m_stopping q)"

lemma sync_turn:
  assumes "rpc_open l"
  shows "rpc_open (dispatchBuffers (fold pushRpcLog ms l))"
    and "rpc_lines (dispatchBuffers (fold pushRpcLog ms l)) = rpc_lines l @ m_rpc_buffer l @ ms"
    and "m_rpc_buffer (dispatchBuffers (fold pushRpcLog ms l)) = []"
  using assms by (auto simp: rpc_open_def rpc_lines_def push_lines dispatch_defs split: option.splits)

text \<open>
  C29: The sync loop gives every line to the writing thread in the order of the statements, whatever
  turn of the loop they fall into, and ends with the first wait after the stop flag has gone up; lines
  of that last wait stay in the buffer, for \<open>shutdown\<close> to hand over. While nobody stops the logger the
  loop goes on.
\<close>

theorem sync_loop_hands_over:
  assumes "rpc_open l"
  shows "(\<exists>l'. syncLoop (map (fold pushRpcLog) mss @ [raise_stopping \<circ> fold pushRpcLog ms] @ later) l = Some l'
           \<and> l_stopping l' \<and> rpc_lines l' @ m_rpc_buffer l' = rpc_lines l @ m_rpc_buffer l @ concat mss @ ms
           \<and> m_rpc_buffer l' = (if mss = [] then m_rpc_buffer l else []) @ ms)
       \<and> syncLoop (map (fold pushRpcLog) mss) l = None"
  using assms
proof (induction mss arbitrary: l)
  case Nil
  then show ?case
    by (auto simp: rpc_open_def rpc_lines_def push_lines raise_stopping_def Let_def)
next
  case (Cons batch mss)
  let ?l = "dispatchBuffers (fold pushRpcLog batch l)"
  have turn: "syncLoop (fold pushRpcLog batch # fs) l = syncLoop fs ?l" for fs
    using Cons.prems by (simp add: rpc_open_def push_lines)
  show ?case
    using Cons.IH [OF sync_turn(1) [OF Cons.prems, of batch]] sync_turn(2,3) [OF Cons.prems, of batch]
    by (auto simp: turn simp del: syncLoop.simps)
qed

theorem sync_loop_hands_over_witness:
  "\<exists>l'. syncLoop ([fold pushRpcLog [''a'', ''b''], fold pushRpcLog []] @ [raise_stopping \<circ> fold pushRpcLog [''c'']])
          (Logger_init (\<lambda>_. None) default_config new_logger) = Some l'
     \<and> rpc_lines l' @ m_rpc_buffer l' = [''a'', ''b'', ''c''] \<and> m_rpc_buffer l' = [''c'']"
proof -
  have "rpc_open (Logger_init (\<lambda>_. None) default_config new_logger)"
    by (simp add: rpc_open_def Logger_init_def new_logger_def new_queue_def)
  from sync_loop_hands_over [OF this, of "[[''a'', ''b''], []]" "[''c'']" "[]"] show ?thesis
    by (auto simp: rpc_lines_def Logger_init_def new_logger_def new_queue_def)
qed

section \<open>Statements of applications\<close>

text \<open>
  \<open>FormatString\<close> of a text alone, and of a format with arguments, where \<open>snprintf\<close> is the text that it
  makes of the format and these arguments, \<^term>\<open>None\<close> for its error.
\<close>

definition FormatString_text :: "string option \<Rightarrow> string" where
  "FormatString_text t = (case t of None \<Rightarrow> [] | Some t \<Rightarrow> t)"

definition FormatString :: "(string \<Rightarrow> string option) \<Rightarrow> string option \<Rightarrow> string" where
  "FormatString snprintf format =
     (case format of
        None \<Rightarrow> []
      | Some f \<Rightarrow> (case snprintf f of None \<Rightarrow> [] | Some made \<Rightarrow> made))"

definition AppLog ::
  "log_env \<Rightarrow> run_time option \<Rightarrow> LogLevel \<Rightarrow> string option \<Rightarrow> int \<Rightarrow> string option
     \<Rightarrow> (string \<Rightarrow> string option) \<Rightarrow> string option \<Rightarrow> logger \<Rightarrow> logger" where
  "AppLog env rt level fname line func snprintf format l =
     (if \<not> shouldLog level APP_LOG l then l
      else let e = getStringStream env rt (LogEvent level fname line func APP_LOG l);
               e = e\<lparr>m_stream := m_stream e @ FormatString snprintf format\<rparr>
           in end_LogEvent env rt e l)"

text \<open>A statement of an application changes only the application's buffer, by one line with its text.\<close>

lemma AppLog_line:
  "AppLog env rt level fname line func snprintf format l =
     (if shouldLog level APP_LOG l
      then l\<lparr>m_app_buffer := m_app_buffer l
               @ [log_prefix env rt (LogEvent level fname line func APP_LOG l) @ FormatString snprintf format @ [CHR 0x0A]]\<rparr>
      else l)"
  by (simp add: AppLog_def Let_def getStringStream_def appendPrefix_def LogEvent_def end_LogEvent_def pushAppLog_def
      shouldLog_def isInitialized_def log_prefix_def)

end
