(* ===== verification/Application.thy ===== *)
theory Application
  imports Logger
begin

text \<open>
  \<open>src/application/rpcapplication.{h,cc}\<close> and \<open>src/comm/process_signal.{h,cc}\<close>: what a process does
  first, and how it ends. The answers of \<open>getopt\<close> and of the signal calls are arguments.
\<close>

section \<open>Signals\<close>

definition SIGINT :: int where "SIGINT = 2"
definition SIGABRT :: int where "SIGABRT = 6"
definition SIGSEGV :: int where "SIGSEGV = 11"
definition SIGPIPE :: int where "SIGPIPE = 13"
definition SIGTERM :: int where "SIGTERM = 15"
definition EXIT_FAILURE :: int where "EXIT_FAILURE = 1"

text \<open>
  What happens to a process on a signal; \<open>FatalHandler\<close> is \<open>FatalSignalHandler\<close>, which is replaced by the
  default again when it is entered.
\<close>

datatype disposition = DefaultAction | IgnoreSignal | FatalHandler

record signal_state =
  dispositions :: "int \<Rightarrow> disposition"
  shutdown_signals :: "int list"
  blocked_signals :: "int list"
  prepare_called :: bool
  prepare_succeeded :: bool
  start_called :: bool
  start_succeeded :: bool

definition no_signals :: signal_state where
  "no_signals =
     \<lparr>dispositions = (\<lambda>_. DefaultAction), shutdown_signals = [], blocked_signals = [], prepare_called = False,
      prepare_succeeded = False, start_called = False, start_succeeded = False\<rparr>"

record signal_answers =
  sa_emptyset :: bool
  sa_action :: "int \<Rightarrow> bool"
  sa_addset :: "int \<Rightarrow> bool"
  sa_mask :: bool
  sa_thread :: bool

definition InstallSignalAction :: "signal_answers \<Rightarrow> int \<Rightarrow> disposition \<Rightarrow> signal_state \<Rightarrow> bool \<times> signal_state" where
  "InstallSignalAction a sig handler st =
     (if \<not> sa_emptyset a then (False, st)
      else if sa_action a sig then (True, st\<lparr>dispositions := (dispositions st)(sig := handler)\<rparr>)
      else (False, st))"

definition prepare_once :: "signal_answers \<Rightarrow> signal_state \<Rightarrow> signal_state" where
  "prepare_once a st =
     (let (ok, st) = InstallSignalAction a SIGPIPE IgnoreSignal st
      in if \<not> ok then st else
      let (ok, st) = InstallSignalAction a SIGSEGV FatalHandler st
      in if \<not> ok then st else
      let (ok, st) = InstallSignalAction a SIGABRT FatalHandler st
      in if \<not> ok then st else
      if \<not> sa_emptyset a then st else
      let st = st\<lparr>shutdown_signals := []\<rparr> in
      if \<not> sa_addset a SIGINT then st else
      let st = st\<lparr>shutdown_signals := [SIGINT]\<rparr> in
      if \<not> sa_addset a SIGTERM then st else
      let st = st\<lparr>shutdown_signals := [SIGINT, SIGTERM]\<rparr> in
      if \<not> sa_mask a then st
      else st\<lparr>blocked_signals := shutdown_signals st, prepare_succeeded := True\<rparr>)"

definition PrepareProcessSignals :: "signal_answers \<Rightarrow> signal_state \<Rightarrow> bool \<times> signal_state" where
  "PrepareProcessSignals a st =
     (let st = (if prepare_called st then st else prepare_once a (st\<lparr>prepare_called := True\<rparr>))
      in (prepare_succeeded st, st))"

definition StartSignalWaiter :: "signal_answers \<Rightarrow> signal_state \<Rightarrow> bool \<times> signal_state" where
  "StartSignalWaiter a st =
     (if \<not> prepare_succeeded st then (False, st)
      else let st = (if start_called st then st else st\<lparr>start_called := True, start_succeeded := sa_thread a\<rparr>)
           in (start_succeeded st, st))"

text \<open>
  The end of the process: the code of \<open>_exit\<close>, or the signal that is raised again. \<open>SignalWaitLoop\<close> is
  given the answer of \<open>sigwait\<close>, and what \<open>line\<close> makes of the signal number for the log.
\<close>

datatype process_end = ExitCode int | KilledBy int

definition FatalSignalHandler :: "bool \<Rightarrow> int \<Rightarrow> process_end" where
  "FatalSignalHandler raise_fails signal_no =
     (if raise_fails then ExitCode (128 + signal_no) else KilledBy signal_no)"

definition SignalWaitLoop ::
  "log_disk \<Rightarrow> string \<Rightarrow> (int \<Rightarrow> string) \<Rightarrow> int \<times> int \<Rightarrow> logger
     \<Rightarrow> (process_end \<times> logger \<times> log_queue option \<times> log_queue option) option" where
  "SignalWaitLoop d date line answer l =
     (let (result, signal_no) = answer
      in if result \<noteq> 0 then Some (ExitCode EXIT_FAILURE, l, None, None)
         else do {
           let l = (if shouldLog WARN APP_LOG l then pushAppLog (line signal_no) l else l);
           (l, rpc, app) \<leftarrow> Logger_shutdown d date l;
           Some (ExitCode (128 + signal_no), l, rpc, app) })"

section \<open>\<open>RpcApplication::Init\<close>\<close>

text \<open>The options as \<open>getopt\<close> returns them, until it answers -1; \<^term>\<open>None\<close> is the help text and the exit.\<close>

fun read_options :: "(char \<times> string) list \<Rightarrow> string \<Rightarrow> string option" where
  "read_options [] config_file = Some config_file"
| "read_options ((c, optarg) # opts) config_file =
     (if c = CHR ''i'' then read_options opts optarg
      else if c = CHR ''?'' \<or> c = CHR '':'' then None
      else read_options opts config_file)"

record process =
  p_config :: config
  p_signals :: signal_state
  p_logger :: logger

text \<open>\<open>disk\<close> are the configuration files, \<open>fs\<close> the log files that exist.\<close>

definition RpcApplication_Init ::
  "int \<Rightarrow> (char \<times> string) list \<Rightarrow> (string \<Rightarrow> string option) \<Rightarrow> signal_answers \<Rightarrow> (string \<Rightarrow> string option)
     \<Rightarrow> log_disk \<Rightarrow> string \<Rightarrow> process \<Rightarrow> (int option \<times> process) option" where
  "RpcApplication_Init argc opts disk a fs d date p =
     (if argc < 2 then Some (Some EXIT_FAILURE, p)
      else case read_options opts [] of
        None \<Rightarrow> Some (Some EXIT_FAILURE, p)
      | Some config_file \<Rightarrow>
          if config_file = [] then Some (Some EXIT_FAILURE, p)
          else let (cfg, ok) = loadFromFile (disk config_file) (p_config p); p = p\<lparr>p_config := cfg\<rparr>
               in if \<not> ok then Some (Some EXIT_FAILURE, p)
                  else let (ok, sigs) = PrepareProcessSignals a (p_signals p); p = p\<lparr>p_signals := sigs\<rparr>
                       in if \<not> ok then Some (Some EXIT_FAILURE, p)
                          else do {
                            let p = (if m_log_enable cfg then p\<lparr>p_logger := Logger_init fs cfg (p_logger p)\<rparr> else p);
                            let (ok, sigs) = StartSignalWaiter a (p_signals p);
                            let p = p\<lparr>p_signals := sigs\<rparr>;
                            if \<not> ok
                            then do {
                              (l, rpc, app) \<leftarrow> Logger_shutdown d date (p_logger p);
                              Some (Some EXIT_FAILURE, p\<lparr>p_logger := l\<rparr>) }
                            else Some (None, p) })"

section \<open>The logger of the process\<close>

text \<open>
  The functions of \<open>comm/log.cc\<close> that use the one logger of the process, and the destructors of the logger and
  of its queues, which stop what is still running.
\<close>

definition InitLogger :: "(string \<Rightarrow> string option) \<Rightarrow> process \<Rightarrow> process" where
  "InitLogger fs p = p\<lparr>p_logger := Logger_init fs (p_config p) (p_logger p)\<rparr>"

definition FlushLogger :: "process \<Rightarrow> process" where
  "FlushLogger p = p\<lparr>p_logger := Logger_flush (p_logger p)\<rparr>"

definition ShutdownLogger :: "log_disk \<Rightarrow> string \<Rightarrow> process \<Rightarrow> process option" where
  "ShutdownLogger d date p = map_option (\<lambda>(l, _). p\<lparr>p_logger := l\<rparr>) (Logger_shutdown d date (p_logger p))"

definition OpenLog :: "process \<Rightarrow> bool" where "OpenLog p = isInitialized (p_logger p)"

definition ShouldLog :: "LogLevel \<Rightarrow> LogType \<Rightarrow> process \<Rightarrow> bool" where
  "ShouldLog level ty p = shouldLog level ty (p_logger p)"

definition Logger_destroy ::
  "log_disk \<Rightarrow> string \<Rightarrow> logger \<Rightarrow> (logger \<times> log_queue option \<times> log_queue option) option" where
  "Logger_destroy d date l = Logger_shutdown d date l"

definition AsyncLogger_destroy :: "log_disk \<Rightarrow> string \<Rightarrow> log_queue \<Rightarrow> log_queue option" where
  "AsyncLogger_destroy d date q = queue_stop d date q"

text \<open>After a shutdown nothing is logged, and the destructor at the end of the process has nothing to do.\<close>

lemma shutdown_closes:
  assumes "ShutdownLogger d date p = Some p'"
  shows "\<not> OpenLog p'" "\<not> ShouldLog level ty p'" "Logger_destroy d date (p_logger p') = Some (p_logger p', None, None)"
  using assms
  by (auto simp: ShutdownLogger_def Logger_shutdown_def OpenLog_def ShouldLog_def shouldLog_def isInitialized_def
      Logger_destroy_def bind_eq_Some_iff Let_def split: if_splits)

section \<open>What holds\<close>

text \<open>
  Whatever the answers, the signals of shutdown are waited for only when they are blocked, broken
  connections do not end the process, and crashes go through the fatal handler.
\<close>

definition signals_ok :: "signal_state \<Rightarrow> bool" where
  "signals_ok st \<longleftrightarrow>
     (prepare_succeeded st \<longrightarrow> prepare_called st \<and> dispositions st SIGPIPE = IgnoreSignal
        \<and> dispositions st SIGSEGV = FatalHandler \<and> dispositions st SIGABRT = FatalHandler
        \<and> set (shutdown_signals st) = {SIGINT, SIGTERM} \<and> blocked_signals st = shutdown_signals st)
     \<and> (start_succeeded st \<longrightarrow> prepare_succeeded st \<and> start_called st)"

lemmas signal_number_defs = SIGINT_def SIGABRT_def SIGSEGV_def SIGPIPE_def SIGTERM_def

lemma signals_ok_none: "signals_ok no_signals"
  by (simp add: signals_ok_def no_signals_def)

lemma signals_ok_Prepare:
  "signals_ok st \<Longrightarrow> signals_ok (snd (PrepareProcessSignals a st))"
  by (auto simp: signals_ok_def PrepareProcessSignals_def prepare_once_def InstallSignalAction_def Let_def
      signal_number_defs)

lemma signals_ok_Start: "signals_ok st \<Longrightarrow> signals_ok (snd (StartSignalWaiter a st))"
  by (auto simp: signals_ok_def StartSignalWaiter_def Let_def)

text \<open>The second call of either function answers what the first one did.\<close>

lemma Prepare_once:
  "fst (PrepareProcessSignals b (snd (PrepareProcessSignals a st))) = fst (PrepareProcessSignals a st)"
  by (auto simp: PrepareProcessSignals_def prepare_once_def InstallSignalAction_def Let_def)

lemma Init_started:
  assumes "RpcApplication_Init argc opts disk a fs d date p = Some (None, p')" and "signals_ok (p_signals p)"
  shows "signals_ok (p_signals p') \<and> start_succeeded (p_signals p') \<and> m_loaded (p_config p')
    \<and> (m_log_enable (p_config p') \<longrightarrow> m_initialized (p_logger p'))"
proof -
  have "signals_ok (snd (StartSignalWaiter a (snd (PrepareProcessSignals a (p_signals p)))))"
    by (intro signals_ok_Start signals_ok_Prepare assms(2))
  then show ?thesis
    using assms(1)
    by (auto simp: RpcApplication_Init_def Let_def bind_eq_Some_iff loadFromFile_def Logger_init_def StartSignalWaiter_def
        split: if_splits option.splits prod.splits)
qed

text \<open>
  What \<open>Init\<close> leaves of the logger: initialised from the loaded configuration.
\<close>

lemma Init_logger:
  assumes "RpcApplication_Init argc opts disk a fs d date p = Some (None, p')" "m_log_enable (p_config p')"
  shows "p_logger p' = Logger_init fs (p_config p') (p_logger p)"
  using assms by (auto simp: RpcApplication_Init_def Let_def bind_eq_Some_iff split: if_splits option.splits prod.splits)

text \<open>
  C28: A signal of shutdown loses no line. \<open>Init\<close> has started the process with logging on, on a day whose log files
  with numbers above 0 are empty. After any sequence of log statements, hand-overs and steps of the writing threads,
  the thread that waits for \<open>SIGINT\<close> and \<open>SIGTERM\<close> logs the signal, stops the logger and ends the process
  with 128 plus the signal's number; by then the files of the day hold, behind what they held before and in order,
  every rpc line, and every line of the application with that of the signal last when it passes the level; and
  the logger takes no more.
\<close>

theorem signal_shutdown_complete:
  assumes "reliable d"
    and "RpcApplication_Init argc opts disk a fs d date p = Some (None, p')"
    and "p_logger p = new_logger" and "m_log_enable (p_config p')"
    and "fresh_on date (first_log (p_config p') fs RPC_LOG)" and "fresh_on date (first_log (p_config p') fs APP_LOG)"
    and "log_session d date (p_logger p') rs as l"
  shows "\<exists>l' rpc app. SignalWaitLoop d date line (0, sig) l = Some (ExitCode (128 + sig), l', Some rpc, Some app)
     \<and> \<not> isInitialized l'
     \<and> day_log date (log_file rpc) = day_log date (first_log (p_config p') fs RPC_LOG) @ concat rs
     \<and> day_log date (log_file app) = day_log date (first_log (p_config p') fs APP_LOG) @ concat as
         @ (if shouldLog WARN APP_LOG l then line sig else [])"
proof -
  let ?l = "if shouldLog WARN APP_LOG l then pushAppLog (line sig) l else l"
  let ?as = "if shouldLog WARN APP_LOG l then as @ [line sig] else as"
  have start: "session_ok (first_log (p_config p') fs RPC_LOG) (first_log (p_config p') fs APP_LOG) date [] [] (p_logger p')"
    using session_ok_init [OF assms(5,6)] Init_logger [OF assms(2,4)] assms(3) by simp
  have "log_session d date (p_logger p') rs ?as ?l"
    using log_session.push_app [OF assms(7)] assms(7) by simp
  from log_shutdown_complete [OF assms(1) this start] show ?thesis
    by (auto simp: SignalWaitLoop_def isInitialized_def)
qed

definition willing_system :: signal_answers where
  "willing_system = \<lparr>sa_emptyset = True, sa_action = (\<lambda>_. True), sa_addset = (\<lambda>_. True), sa_mask = True, sa_thread = True\<rparr>"

definition fresh_process :: process where
  "fresh_process = \<lparr>p_config = default_config, p_signals = no_signals, p_logger = new_logger\<rparr>"

lemma sample_Init:
  "\<exists>p'. RpcApplication_Init 3 [(CHR ''i'', ''crpc.conf'')] (\<lambda>_. Some ''x=1'') willing_system Map.empty d date fresh_process
          = Some (None, p')
     \<and> m_log_enable (p_config p') \<and> p_logger p' = Logger_init Map.empty (p_config p') new_logger
     \<and> m_app_log_level (p_config p') = DEBUG"
proof -
  have vals: "read_values ''x=1'' = [(''x'', ''1'')]" by code_simp
  have "read_settings [(''x'', ''1'')] default_config = Some default_config" by code_simp
  then have "\<exists>cfg. loadFromFile (Some ''x=1'') default_config = (cfg, True) \<and> m_log_enable cfg \<and> m_app_log_level cfg = DEBUG"
    by (auto simp: loadFromFile_def vals default_config_def split: option.split)
  then show ?thesis
    by (auto simp: RpcApplication_Init_def fresh_process_def willing_system_def no_signals_def PrepareProcessSignals_def
        prepare_once_def InstallSignalAction_def StartSignalWaiter_def Let_def)
qed

theorem signal_shutdown_complete_witness:
  "\<exists>p' l' rpc app.
     RpcApplication_Init 3 [(CHR ''i'', ''crpc.conf'')] (\<lambda>_. Some ''x=1'') willing_system Map.empty full_disk ''20240101''
       fresh_process = Some (None, p')
     \<and> SignalWaitLoop full_disk ''20240101'' (\<lambda>_. ''signal'') (0, SIGTERM)
         (pushAppLog ''c'' (pushRpcLog ''b'' (dispatchBuffers (pushRpcLog ''a'' (p_logger p'))))) = Some (ExitCode 143, l', Some rpc, Some app)
     \<and> day_log ''20240101'' (log_file rpc) = ''ab'' \<and> day_log ''20240101'' (log_file app) = ''csignal''"
proof -
  obtain p' where p': "RpcApplication_Init 3 [(CHR ''i'', ''crpc.conf'')] (\<lambda>_. Some ''x=1'') willing_system Map.empty full_disk
      ''20240101'' fresh_process = Some (None, p')" "m_log_enable (p_config p')"
    "p_logger p' = Logger_init Map.empty (p_config p') new_logger" "m_app_log_level (p_config p') = DEBUG"
    using sample_Init by blast
  let ?l = "pushAppLog ''c'' (pushRpcLog ''b'' (dispatchBuffers (pushRpcLog ''a'' (p_logger p'))))"
  have run: "log_session full_disk ''20240101'' (p_logger p') (([] @ [''a'']) @ [''b'']) ([] @ [''c'']) ?l"
    by (intro log_session.intros)
  have "shouldLog WARN APP_LOG ?l"
    using p'(4) by (simp add: p'(3) Logger_init_def new_logger_def pushAppLog_def pushRpcLog_def dispatch_defs shouldLog_def
        isInitialized_def)
  with signal_shutdown_complete [OF reliable_full p'(1) _ p'(2) _ _ run, of "\<lambda>_. ''signal''" SIGTERM] p'(1) show ?thesis
    by (auto simp: first_log_def new_logger_ok SIGTERM_def fresh_process_def)
qed

end
