(* ===== verification/ServerSession.thy ===== *)
theory ServerSession
  imports ConnectionLoop TcpServer
begin

text \<open>
  A server with its connections: \<open>TcpServer\<close> makes the dispatcher, and each connection takes the codec
  of its server. \<open>TcpConnection::execute\<close> is stated here as the code has it, with the virtual \<open>decode\<close>
  and \<open>dispatch\<close> and their \<open>dynamic_cast\<close>s; what theory \<open>ConnectionLoop\<close> says of the loop without casts
  holds of it because the types fit, which is an invariant of all that happens to a server.
\<close>

section \<open>The virtual calls\<close>

text \<open>\<open>std::make_shared<HttpRequest>()\<close> or \<open>std::make_shared<RpcStruct>()\<close>, and the field \<open>decode_succ\<close>.\<close>

definition fresh_object :: "protocal_type \<Rightarrow> any_data" where
  "fresh_object ty = (if ty = Http_Protocal then HttpRequestData HttpRequest else RpcData RpcStruct)"

definition object_decoded :: "any_data \<Rightarrow> bool" where
  "object_decoded d =
     (case d of RpcData r \<Rightarrow> decode_succ r | HttpRequestData r \<Rightarrow> decode_succ r | HttpResponseData r \<Rightarrow> decode_succ r)"

definition virtual_decode :: "protocal_type \<Rightarrow> tcp_buffer \<Rightarrow> any_data \<Rightarrow> (tcp_buffer \<times> any_data) option" where
  "virtual_decode ty b d = do {
     (bp, dp) \<leftarrow> (case ty of
                    TinyPb_Protocal \<Rightarrow> RpcCodeC_decode (Some b) (Some d)
                  | Http_Protocal \<Rightarrow> HttpCodec_decode (Some b) (Some d));
     b \<leftarrow> bp;
     d \<leftarrow> dp;
     Some (b, d) }"

definition virtual_dispatch ::
  "'m dispatcher \<Rightarrow> string \<Rightarrow> any_data \<Rightarrow> loop_state \<Rightarrow> loop_state option" where
  "virtual_dispatch disp fresh d s =
     (case disp of
        RpcDispatcher services \<Rightarrow> RpcDispatcher_dispatch services fresh d s
      | HttpDispatcher servlets \<Rightarrow> HttpDispatcher_dispatch servlets fresh d s)"

definition execute :: "'m dispatcher \<Rightarrow> string \<Rightarrow> loop_state \<Rightarrow> loop_state option" where
  "execute disp fresh s =
     drain (virtual_decode (m_codec (fst s))) object_decoded (fresh_object (m_codec (fst s)))
       (\<lambda>d s. if m_connection_type (fst s) = ServerConnection then virtual_dispatch disp fresh d s
              else case d of RpcData tmp \<Rightarrow> file_reply tmp s | _ \<Rightarrow> Some s) s"

text \<open>The tables of a dispatcher.\<close>

definition rpc_table :: "'m dispatcher \<Rightarrow> 'm service_map" where
  "rpc_table disp = (case disp of RpcDispatcher m \<Rightarrow> m | HttpDispatcher _ \<Rightarrow> [])"

definition http_table :: "'m dispatcher \<Rightarrow> servlet_map" where
  "http_table disp = (case disp of RpcDispatcher _ \<Rightarrow> [] | HttpDispatcher m \<Rightarrow> m)"

definition dispatcher_type :: "'m dispatcher \<Rightarrow> protocal_type" where
  "dispatcher_type disp = (case disp of RpcDispatcher _ \<Rightarrow> TinyPb_Protocal | HttpDispatcher _ \<Rightarrow> Http_Protocal)"

section \<open>The loop with casts and the loop without\<close>

text \<open>
  Two loops that differ only in how the object is wrapped do the same. \<open>wrap\<close> is the conversion from
  the object to its base class.
\<close>

lemma drain_wrap_imp:
  "drain dec succ d0 hand s = Some s' \<Longrightarrow>
     (\<forall>b. dec' b (wrap d0) = map_option (\<lambda>(b, d). (b, wrap d)) (dec b d0)) \<and> (\<forall>d. succ' (wrap d) = succ d)
       \<and> (\<forall>d s. hand' (wrap d) s = hand d s)
     \<longrightarrow> drain dec' succ' (wrap d0) hand' s = Some s'"
proof (rule drain.raw_induct [of "\<lambda>dec succ d0 hand s s'.
     (\<forall>b. dec' b (wrap d0) = map_option (\<lambda>(b, d). (b, wrap d)) (dec b d0)) \<and> (\<forall>d. succ' (wrap d) = succ d)
       \<and> (\<forall>d s. hand' (wrap d) s = hand d s)
     \<longrightarrow> drain dec' succ' (wrap d0) hand' s = Some s'"], goal_cases)
  case (1 loop dec succ d0 hand s s')
  show ?case
  proof
    assume sim: "(\<forall>b. dec' b (wrap d0) = map_option (\<lambda>(b, d). (b, wrap d)) (dec b d0)) \<and> (\<forall>d. succ' (wrap d) = succ d)
       \<and> (\<forall>d s. hand' (wrap d) s = hand d s)"
    have rest: "drain dec' succ' (wrap d0) hand' t = Some s'" if "loop dec succ d0 hand t = Some s'" for t
      using 1(2) [OF that] sim by blast
    show "drain dec' succ' (wrap d0) hand' s = Some s'"
      using 1(3) sim by (subst drain.simps) (auto simp: Let_def rest split: if_splits bind_splits)
  qed
qed

lemma drain_unwrap_imp:
  "drain dec' succ' d0' hand' s = Some s' \<Longrightarrow>
     (\<forall>b. dec' b d0' = map_option (\<lambda>(b, d). (b, wrap d)) (dec b d0)) \<and> (\<forall>d. succ' (wrap d) = succ d)
       \<and> (\<forall>d s. hand' (wrap d) s = hand d s)
     \<longrightarrow> drain dec succ d0 hand s = Some s'"
proof (rule drain.raw_induct [of "\<lambda>dec' succ' d0' hand' s s'.
     (\<forall>b. dec' b d0' = map_option (\<lambda>(b, d). (b, wrap d)) (dec b d0)) \<and> (\<forall>d. succ' (wrap d) = succ d)
       \<and> (\<forall>d s. hand' (wrap d) s = hand d s)
     \<longrightarrow> drain dec succ d0 hand s = Some s'"], goal_cases)
  case (1 loop dec' succ' d0' hand' s s')
  show ?case
  proof
    assume sim: "(\<forall>b. dec' b d0' = map_option (\<lambda>(b, d). (b, wrap d)) (dec b d0)) \<and> (\<forall>d. succ' (wrap d) = succ d)
       \<and> (\<forall>d s. hand' (wrap d) s = hand d s)"
    have rest: "drain dec succ d0 hand t = Some s'" if "loop dec' succ' d0' hand' t = Some s'" for t
      using 1(2) [OF that] sim by blast
    show "drain dec succ d0 hand s = Some s'"
      using 1(3) sim by (subst drain.simps) (auto simp: Let_def rest split: if_splits bind_splits)
  qed
qed

lemma drain_wrap:
  assumes "\<And>b. dec' b (wrap d0) = map_option (\<lambda>(b, d). (b, wrap d)) (dec b d0)"
    and "\<And>d. succ' (wrap d) = succ d" "\<And>d s. hand' (wrap d) s = hand d s"
  shows "drain dec' succ' (wrap d0) hand' s = drain dec succ d0 hand s"
proof (cases "drain dec succ d0 hand s")
  case None
  then show ?thesis using drain_unwrap_imp [of dec' succ' "wrap d0" hand' s _ wrap dec d0 succ hand] assms
    by (cases "drain dec' succ' (wrap d0) hand' s") auto
next
  case (Some s')
  then show ?thesis using drain_wrap_imp [of dec succ d0 hand s s' dec' wrap succ' hand'] assms by simp
qed

text \<open>With a dispatcher of the codec's protocol every cast succeeds.\<close>

lemma execute_casts_succeed:
  assumes "dispatcher_type disp = m_codec (fst s)"
  shows "execute disp fresh s = conn_execute (rpc_table disp) (http_table disp) fresh s"
proof (cases disp)
  case (RpcDispatcher m)
  then have "m_codec (fst s) = TinyPb_Protocal" using assms by (simp add: dispatcher_type_def)
  then show ?thesis
    unfolding execute_def conn_execute_def RpcDispatcher
    by (simp add: fresh_object_def rpc_table_def)
       (rule drain_wrap, auto simp: virtual_decode_def RpcCodeC_decode_def object_decoded_def virtual_dispatch_def rpc_table_def
          bind_eq_Some_iff split: bind_splits option.splits)
next
  case (HttpDispatcher m)
  then have "m_codec (fst s) = Http_Protocal" using assms by (simp add: dispatcher_type_def)
  then show ?thesis
    unfolding execute_def conn_execute_def HttpDispatcher
    by (simp add: fresh_object_def http_table_def)
       (rule drain_wrap, auto simp: virtual_decode_def HttpCodec_decode_def object_decoded_def virtual_dispatch_def http_table_def
          bind_eq_Some_iff split: bind_splits option.splits)
qed

section \<open>What happens to a server\<close>

text \<open>
  What happens to a connection: a read of what the kernel has, the loop over the buffer, a write, and the calls of
  others. The runs in which the kernel answers within what it was asked for.
\<close>

inductive conn_step :: "'m dispatcher \<Rightarrow> tcp_connection \<Rightarrow> tcp_connection \<Rightarrow> bool" for disp where
  conn_reads: "kernel_reads rs (m_read_buffer c) \<Longrightarrow> conn_input False rs c = Some (c', rs', e, fin) \<Longrightarrow> conn_step disp c c'"
| conn_executes: "execute disp fresh (c, rt) = Some (c', rt') \<Longrightarrow> conn_step disp c c'"
| conn_writes: "kernel_writes ws (length (contents (m_write_buffer c))) \<Longrightarrow> conn_output ws c = Some (c', ws', e, fin)
    \<Longrightarrow> conn_step disp c c'"
| conn_others: "conn_step disp c (fst (apply_meanwhile ms c))"

text \<open>
  What happens to a server after its construction, in any order: registrations, turns of the accept
  loop, the removal of closed clients, and steps of its connections.
\<close>

inductive server_step :: "(int \<Rightarrow> fd_ptr) \<Rightarrow> 'm tcp_server \<times> net \<Rightarrow> 'm tcp_server \<times> net \<Rightarrow> bool" for addr where
  registers_service: "server_step addr (s, w) (snd (server_registerService sv s), w)"
| registers_servlet: "server_step addr (s, w) (snd (server_registerHttpServlet path h s), w)"
| accepts: "accept_turn addr a s w = Some (s', w') \<Longrightarrow> server_step addr (s, w) (s', w')"
| clears: "server_step addr (s, w) (fst (ClearClientTimerFunc s), w)"
| connection_moves: "n < next_conn s \<Longrightarrow> conn_step (m_dispatcher s) (conns s n) c
    \<Longrightarrow> server_step addr (s, w) (s\<lparr>conns := (conns s)(n := c)\<rparr>, w)"

section \<open>The types fit\<close>

text \<open>
  A connection of a server of a protocol has its codec, is a server connection, and its two buffers are
  well formed.
\<close>

definition conn_typed :: "protocal_type \<Rightarrow> tcp_connection \<Rightarrow> bool" where
  "conn_typed ty c \<longleftrightarrow>
     m_codec c = ty \<and> m_connection_type c = ServerConnection \<and> buf_ok (m_read_buffer c) \<and> buf_ok (m_write_buffer c)"

definition server_typed :: "'m tcp_server \<Rightarrow> bool" where
  "server_typed s \<longleftrightarrow> protocol_ok s \<and> (\<forall>n<next_conn s. conn_typed (m_protocal_type s) (conns s n))"

lemma protocol_ok_type: "protocol_ok s \<Longrightarrow> dispatcher_type (m_dispatcher s) = m_protocal_type s"
  by (auto simp: protocol_ok_def dispatcher_type_def split: dispatcher.splits)

lemma execute_typed:
  assumes "conn_typed (dispatcher_type disp) c"
  shows "\<exists>c' rt'. execute disp fresh (c, rt) = Some (c', rt') \<and> conn_typed (dispatcher_type disp) c'"
proof -
  have c: "m_codec c = dispatcher_type disp" "m_connection_type c = ServerConnection"
    "buf_ok (m_read_buffer c)" "buf_ok (m_write_buffer c)"
    using assms by (simp_all add: conn_typed_def)
  have casts: "execute disp fresh (c, rt) = conn_execute (rpc_table disp) (http_table disp) fresh (c, rt)"
    using c(1) by (intro execute_casts_succeed) simp
  show ?thesis
  proof (cases "dispatcher_type disp")
    case TinyPb_Protocal
    with execute_rpc_server [OF c(3,4) _ c(2), of "rpc_table disp" "http_table disp" fresh rt] c
    show ?thesis unfolding casts by (auto simp: conn_typed_def)
  next
    case Http_Protocal
    with execute_http_server [OF c(3,4) _ c(2), of "rpc_table disp" "http_table disp" fresh rt] c
    show ?thesis unfolding casts by (auto simp: conn_typed_def)
  qed
qed

lemma clearClient_typed: "conn_typed ty c \<Longrightarrow> conn_typed ty (fst (clearClient c))"
  by (simp add: conn_typed_def clearClient_def setState_def)

lemma conn_input_typed:
  assumes "conn_typed ty c" "kernel_reads rs (m_read_buffer c)" "conn_input False rs c = Some (c', rs', e, fin)"
  shows "conn_typed ty c'"
proof (cases "m_is_over_time c \<or> getState c = Closed \<or> getState c = NotConnected")
  case True
  with assms show ?thesis by (auto simp: conn_input_def)
next
  case False
  have b: "buf_ok (m_read_buffer c)" using assms(1) by (simp add: conn_typed_def)
  obtain c1 rest e1 fin1 where c1: "input_loop rs c = Some (c1, rest, e1, fin1)" "buf_ok (m_read_buffer c1)"
    "m_write_buffer c1 = m_write_buffer c" "m_codec c1 = m_codec c" "m_connection_type c1 = m_connection_type c"
    using input_loop_ok [OF b assms(2)] by blast
  then have "conn_typed ty c1" using assms(1) by (simp add: conn_typed_def)
  moreover from this have "conn_typed ty (fst (clearClient c1))" by (rule clearClient_typed)
  moreover have "c' = c1 \<or> c' = fst (clearClient c1)"
    using assms(3) False c1(1) by (auto simp: conn_input_def Let_def split: if_splits prod.splits)
  ultimately show ?thesis by blast
qed

lemma conn_output_typed:
  assumes "conn_typed ty c" "kernel_writes ws (length (contents (m_write_buffer c)))"
    and "conn_output ws c = Some (c', ws', e, fin)"
  shows "conn_typed ty c'"
proof -
  have "buf_ok (m_write_buffer c)" using assms(1) by (simp add: conn_typed_def)
  from output_loop_ok [OF this assms(2)] show ?thesis
    using assms(1,3) by (cases "m_is_over_time c") (auto simp: conn_output_def conn_typed_def)
qed

lemma conn_step_typed:
  "conn_step disp c c' \<Longrightarrow> conn_typed (dispatcher_type disp) c \<Longrightarrow> conn_typed (dispatcher_type disp) c'"
proof (induction rule: conn_step.induct)
  case (conn_executes fresh c rt c' rt')
  then show ?case using execute_typed [of disp c fresh rt] by auto
next
  case (conn_others c ms)
  then show ?case by (simp add: conn_typed_def)
qed (blast intro: conn_input_typed conn_output_typed)+

lemma new_conn_typed: "conn_typed ty (fst (TcpConnection_server ty fd n))"
  by (simp add: conn_typed_def TcpConnection_server_def initBuffer_def)

lemma protocol_ok_cong:
  "m_protocal_type s' = m_protocal_type s \<Longrightarrow> m_dispatcher s' = m_dispatcher s \<Longrightarrow> s_codec s' = s_codec s
    \<Longrightarrow> protocol_ok s' = protocol_ok s"
  by (cases "m_dispatcher s") (simp_all add: protocol_ok_def)

lemma accept_turn_fields:
  assumes "accept_turn addr (rt, cor, slot) s w = Some (s', w')"
  shows "m_protocal_type s' = m_protocal_type s" "m_dispatcher s' = m_dispatcher s" "s_codec s' = s_codec s"
    and "conns s' = conns s \<and> next_conn s' = next_conn s
       \<or> (\<exists>fd. conns s' = (conns s)(next_conn s := fst (initServer slot (fst (TcpConnection_server (s_codec s) fd 128))))
            \<and> next_conn s' = next_conn s + 1)"
proof -
  show "m_protocal_type s' = m_protocal_type s" "m_dispatcher s' = m_dispatcher s" "s_codec s' = s_codec s"
    using assms by (auto simp: accept_turn_def addClient_def Let_def bind_eq_Some_iff split: if_splits prod.splits)
  let ?fd = "fst (toAccept (m_family s) rt)"
  have "conns s' = (conns s)(next_conn s := fst (initServer slot (fst (TcpConnection_server (s_codec s) ?fd 128))))
      \<and> next_conn s' = next_conn s + 1" if "?fd \<noteq> -1"
    using assms that by (auto simp: accept_turn_def addClient_def Let_def bind_eq_Some_iff split: prod.splits)
  then show "conns s' = conns s \<and> next_conn s' = next_conn s
       \<or> (\<exists>fd. conns s' = (conns s)(next_conn s := fst (initServer slot (fst (TcpConnection_server (s_codec s) fd 128))))
            \<and> next_conn s' = next_conn s + 1)"
    using assms by (cases "?fd = -1") (auto simp: accept_turn_def)
qed

lemma accept_turn_typed:
  assumes "accept_turn addr a s w = Some (s', w')" "server_typed s"
  shows "server_typed s'"
proof -
  obtain rt cor slot where a: "a = (rt, cor, slot)" by (cases a)
  note f = accept_turn_fields [OF assms(1) [unfolded a]]
  have "s_codec s = m_protocal_type s" using assms(2) by (simp add: server_typed_def protocol_ok_def)
  then have "conn_typed (m_protocal_type s) (fst (initServer slot (fst (TcpConnection_server (s_codec s) fd 128))))" for fd
    using new_conn_typed [of "m_protocal_type s" fd 128]
    by (simp add: conn_typed_def initServer_def registerToTimeWheel_def)
  then show ?thesis
    using f(4) assms(2) protocol_ok_cong [OF f(1-3)] f(1) by (auto simp: server_typed_def less_Suc_eq)
qed

lemma registration_keeps:
  "m_protocal_type (snd (server_registerService sv s)) = m_protocal_type s"
  "conns (snd (server_registerService sv s)) = conns s" "next_conn (snd (server_registerService sv s)) = next_conn s"
  "m_protocal_type (snd (server_registerHttpServlet path h s)) = m_protocal_type s"
  "conns (snd (server_registerHttpServlet path h s)) = conns s"
  "next_conn (snd (server_registerHttpServlet path h s)) = next_conn s"
  by (auto simp: server_registerService_def server_registerHttpServlet_def Let_def
      split: option.split dispatcher.split prod.split)

lemma server_step_typed: "server_step addr x y \<Longrightarrow> server_typed (fst x) \<Longrightarrow> server_typed (fst y)"
proof (induction rule: server_step.induct)
  case (registers_service s w sv)
  then show ?case by (simp add: server_typed_def registration_keeps protocol_ok_registerService)
next
  case (registers_servlet s w path h)
  then show ?case by (simp add: server_typed_def registration_keeps protocol_ok_registerHttpServlet)
next
  case (accepts a s w s' w')
  then show ?case using accept_turn_typed by fastforce
next
  case (clears s w)
  then show ?case
    using protocol_ok_cong [of "fst (ClearClientTimerFunc s)" s] by (simp add: server_typed_def ClearClientTimerFunc_def Let_def)
next
  case (connection_moves n s c w)
  then have "conn_typed (m_protocal_type s) c"
    using conn_step_typed [OF connection_moves(2)] protocol_ok_type [of s] by (simp add: server_typed_def)
  with connection_moves protocol_ok_cong [of "s\<lparr>conns := (conns s)(n := c)\<rparr>" s] show ?case by (simp add: server_typed_def)
qed

interpretation server: step_invariant "server_step addr" "\<lambda>x. server_typed (fst x)" for addr
  by unfold_locales (rule server_step_typed)

lemma server_typed_new:
  "TcpServer boots k caller now cfg ty fam tm e1 e2 w = Some (s, w') \<Longrightarrow> server_typed s"
  using protocol_ok_new [of boots k caller now cfg ty fam tm e1 e2 w s w']
  by (auto simp: server_typed_def TcpServer_def bind_eq_Some_iff Let_def)

text \<open>
  C8: The casts of a server never fail. From the construction of a server on, through any registrations,
  accepts, removals of closed clients, and reads, writes and loops of its connections in any order, every
  connection has the codec of the server's protocol, and its \<open>execute\<close>, with the virtual \<open>decode\<close> and
  \<open>dispatch\<close> and their \<open>dynamic_cast\<close>s, returns, does what the loop for that protocol does without
  casts, and leaves the connection well typed.
\<close>

theorem server_casts_succeed:
  assumes "TcpServer boots k caller now cfg ty fam tm e1 e2 w0 = Some (s0, w1)"
    and "(server_step addr)\<^sup>*\<^sup>* (s0, w1) (s, w)" and "n < next_conn s"
  shows "\<exists>c' rt'. execute (m_dispatcher s) fresh (conns s n, rt) = Some (c', rt')
     \<and> conn_execute (rpc_table (m_dispatcher s)) (http_table (m_dispatcher s)) fresh (conns s n, rt) = Some (c', rt')
     \<and> conn_typed (m_protocal_type s) (conns s n) \<and> conn_typed (m_protocal_type s) c'"
proof -
  have s: "server_typed s"
    using server.steps_keep [OF assms(2)] server_typed_new [OF assms(1)] by simp
  then have disp: "dispatcher_type (m_dispatcher s) = m_protocal_type s"
    by (simp add: server_typed_def protocol_ok_type)
  with s assms(3) have c: "conn_typed (dispatcher_type (m_dispatcher s)) (conns s n)"
    by (simp add: server_typed_def)
  then have "execute (m_dispatcher s) fresh (conns s n, rt)
      = conn_execute (rpc_table (m_dispatcher s)) (http_table (m_dispatcher s)) fresh (conns s n, rt)"
    by (intro execute_casts_succeed) (simp add: conn_typed_def)
  with execute_typed [OF c, of fresh rt] c disp show ?thesis by auto
qed

text \<open>A server with one io thread, made on a thread without a reactor, and its first connection.\<close>

definition blank_net :: net where
  "blank_net = (sample_net SubReactor)\<lparr>t_reactor_ptr := Map.empty, next_reactor := 0\<rparr>"

definition blank_timer :: timer_state where
  "blank_timer = \<lparr>events = (\<lambda>_. TimerEvent 0 0 False 0), m_pending_events = [], armed = None\<rparr>"

abbreviation "sample_boots \<equiv> \<lambda>i. (int i + 100, \<lparr>boot_epfd = 4, boot_wake = 5\<rparr>)"

lemma sample_TcpServer:
  "\<exists>s w. TcpServer sample_boots \<lparr>boot_epfd = 3, boot_wake = 8\<rparr> 7 0 (default_config\<lparr>m_iothread_num := 1\<rparr>) Http_Protocal AF_INET
            blank_timer 0 1 blank_net = Some (s, w)
     \<and> m_protocal_type s = Http_Protocal \<and> m_family s = AF_INET \<and> (\<exists>t p. getIOThread (m_io_pool s) = Some (t, p))"
  by (simp add: TcpServer_def IOThreadPool_def IOThread_def Reactor_def GetReactor_def blank_net_def sample_net_def
      default_config_def getIOThread_def upt_rec Let_def)

theorem server_casts_succeed_witness:
  "\<exists>s w c' rt'. next_conn s = 1 \<and> m_codec (conns s 0) = Http_Protocal
     \<and> execute (m_dispatcher (s :: string tcp_server)) [] (conns s 0, no_run_time) = Some (c', rt')
     \<and> (\<exists>s0 w0. (server_step nat_ptr)\<^sup>*\<^sup>* (s0, w0) (s, w))"
proof -
  obtain s0 :: "string tcp_server" and w0 t p
    where s0: "TcpServer sample_boots \<lparr>boot_epfd = 3, boot_wake = 8\<rparr> 7 0 (default_config\<lparr>m_iothread_num := 1\<rparr>) Http_Protocal AF_INET
            blank_timer 0 1 blank_net = Some (s0, w0)"
      and f: "m_family s0 = AF_INET" "getIOThread (m_io_pool s0) = Some (t, p)"
    using sample_TcpServer by blast
  have n0: "next_conn s0 = 0" using s0 by (auto simp: TcpServer_def bind_eq_Some_iff Let_def)
  have ty: "m_protocal_type s0 = Http_Protocal" using s0 by (auto simp: TcpServer_def bind_eq_Some_iff Let_def)
  obtain s w where acc: "accept_turn nat_ptr (9, 4, 2) s0 w0 = Some (s, w)" "next_conn s = 1"
    using f n0 by (cases "TcpConnection_server (s_codec s0) 9 128") (auto simp: accept_turn_def toAccept_def addClient_def Let_def)
  have run: "(server_step nat_ptr)\<^sup>*\<^sup>* (s0, w0) (s, w)"
    using server_step.accepts [OF acc(1)] by (rule r_into_rtranclp)
  have "m_protocal_type s = Http_Protocal" using accept_turn_fields(1) [OF acc(1)] ty by simp
  with server_casts_succeed [OF s0 run, of 0 "[]" no_run_time] acc(2) run show ?thesis
    by (auto simp: conn_typed_def)
qed

end
