(* ===== verification/ServerLife.thy ===== *)
theory ServerLife
  imports TcpServer CoroutinePool
begin

text \<open>
  The life of an io thread and of a server: the constructor of \<open>IOThread\<close> and the function \<open>main\<close> of
  the new thread with their two semaphores, \<open>IOThreadPool::start\<close>, the destructor of \<open>IOThread\<close> that
  stops the reactor and joins the thread (\<open>src/net/tcp/io_thread.cc\<close>), and the destructor of
  \<open>TcpServer\<close>. The thread that owns the \<open>IOThread\<close> and the new thread take steps in any order.
\<close>

section \<open>The code\<close>

text \<open>
  Where the owner is: before \<open>pthread_create\<close>, in \<open>sem_wait\<close> on the first semaphore, between
  constructor and destructor, in \<open>pthread_join\<close>, and after the destructor. Where the thread is: not
  there yet, in \<open>main\<close> before and after the reactor is made, in \<open>sem_wait\<close> on the second semaphore,
  before \<open>loop\<close>, in \<open>loop\<close>, and after \<open>main\<close>.
\<close>

datatype owner_at = BeforeCreate | InInitWait | Built | InJoin | Destroyed

datatype runner_at = NotThere | InMain | HasReactor | InStartWait | BeforeLoop | InLoop | Returned

record io_life =
  owner :: owner_at
  runner :: runner_at
  m_init_semaphore :: nat
  m_start_semaphore :: nat
  life_reactor :: "reactor option"

definition life_new :: io_life where
  "life_new = \<lparr>owner = BeforeCreate, runner = NotThere, m_init_semaphore = 0, m_start_semaphore = 0, life_reactor = None\<rparr>"

text \<open>
  What the owner does: the constructor up to \<open>sem_wait\<close>, the destructor up to \<open>pthread_join\<close> with the
  reactor \<open>r\<close>, and after it.
\<close>

definition thread_created :: "io_life \<Rightarrow> io_life" where
  [simp]: "thread_created l = l\<lparr>owner := InInitWait, runner := InMain\<rparr>"

definition thread_stopped :: "reactor \<Rightarrow> io_life \<Rightarrow> io_life" where
  [simp]: "thread_stopped r l = l\<lparr>owner := InJoin, life_reactor := Some (stop r)\<rparr>"

definition thread_joined :: "io_life \<Rightarrow> io_life" where
  [simp]: "thread_joined l = l\<lparr>owner := Destroyed, life_reactor := None\<rparr>"

text \<open>
  \<open>tid\<close>, \<open>epfd\<close> and \<open>wake_fd\<close> are the thread's identifier and the descriptors that its reactor gets. A loop
  ends when it finds the stop flag up; what it does in a turn is the subject of theory \<open>ReactorLoop\<close>.
\<close>

inductive life_step :: "(int \<Rightarrow> bool) \<Rightarrow> int \<times> int \<times> int \<Rightarrow> io_life \<Rightarrow> io_life \<Rightarrow> bool" for fd_open boot where
  owner_creates: "owner l = BeforeCreate \<Longrightarrow> life_step fd_open boot l (thread_created l)"
| runner_sets_up: "runner l = InMain \<Longrightarrow> Reactor fd_open (None :: nat option) (fst boot) (fst (snd boot)) (snd (snd boot)) = Some r
    \<Longrightarrow> life_step fd_open boot l (l\<lparr>runner := HasReactor, life_reactor := Some (setReactorType SubReactor r)\<rparr>)"
| runner_posts: "runner l = HasReactor
    \<Longrightarrow> life_step fd_open boot l (l\<lparr>runner := InStartWait, m_init_semaphore := m_init_semaphore l + 1\<rparr>)"
| owner_goes_on: "owner l = InInitWait \<Longrightarrow> m_init_semaphore l = Suc n
    \<Longrightarrow> life_step fd_open boot l (l\<lparr>owner := Built, m_init_semaphore := n\<rparr>)"
| owner_starts: "owner l = Built
    \<Longrightarrow> life_step fd_open boot l (l\<lparr>m_start_semaphore := m_start_semaphore l + 1\<rparr>)"
| runner_goes_on: "runner l = InStartWait \<Longrightarrow> m_start_semaphore l = Suc n
    \<Longrightarrow> life_step fd_open boot l (l\<lparr>runner := BeforeLoop, m_start_semaphore := n\<rparr>)"
| runner_loops: "runner l = BeforeLoop \<Longrightarrow> life_reactor l = Some r
    \<Longrightarrow> life_step fd_open boot l
          (l\<lparr>runner := InLoop, life_reactor := Some (r\<lparr>m_is_looping := True, m_stop_flag := False\<rparr>)\<rparr>)"
| runner_ends: "runner l = InLoop \<Longrightarrow> life_reactor l = Some r \<Longrightarrow> m_stop_flag r
    \<Longrightarrow> life_step fd_open boot l (l\<lparr>runner := Returned, life_reactor := Some (r\<lparr>m_is_looping := False\<rparr>)\<rparr>)"
| owner_destroys: "owner l = Built \<Longrightarrow> life_reactor l = Some r
    \<Longrightarrow> life_step fd_open boot l (thread_stopped r l)"
| owner_joins: "owner l = InJoin \<Longrightarrow> runner l = Returned
    \<Longrightarrow> life_step fd_open boot l (thread_joined l)"

text \<open>
  The destructor of the server returns its accept coroutine to the pool; before \<open>start\<close> there is
  none, and \<open>returnCoroutine\<close> reads the index of a null pointer.
\<close>

definition TcpServer_destroy :: "pooled option \<Rightarrow> pool \<Rightarrow> pool option" where
  "TcpServer_destroy m_accept_cor p = do { cor \<leftarrow> m_accept_cor; Some (returnCoroutine cor p) }"

text \<open>The destructor of the wheel takes its event \<open>wheel_ev\<close> from the timer of the main reactor.\<close>

definition TcpTimeWheel_destroy :: "nat \<Rightarrow> timer_state \<Rightarrow> timer_state" where
  "TcpTimeWheel_destroy wheel_ev tm = Timer.delTimerEvent wheel_ev tm"

text \<open>
  The destructors of a timer, a reactor and an acceptor, on thread \<open>caller\<close>. Closing a descriptor takes it
  off every reactor's list; closing the epoll descriptor first drops the list of the reactor, so that the
  timer's request to it no longer finds anything. The reactor pointer that is cleared is that of the
  thread that runs the destructor. \<open>addr\<close> gives the addresses of the event objects in the container \<open>fds\<close>.
\<close>

definition Timer_destroy :: "kernel \<Rightarrow> int \<Rightarrow> fd_ptr \<Rightarrow> net \<Rightarrow> net option" where
  "Timer_destroy k caller p w = do {
     w \<leftarrow> unregisterFromReactor k caller p w;
     e \<leftarrow> fd_events w p;
     Some (close_fd (m_fd e) w) }"

definition Reactor_destroy :: "kernel \<Rightarrow> int \<Rightarrow> int \<Rightarrow> nat \<Rightarrow> net \<Rightarrow> net option" where
  "Reactor_destroy k caller m_epfd n w = do {
     let w = close_fd m_epfd (on_reactor n (\<lambda>r. r\<lparr>interest := Map.empty\<rparr>) w);
     w \<leftarrow> (case m_timer (reactors w n) of
            None \<Rightarrow> Some w
          | Some p \<Rightarrow> map_option (on_reactor n (\<lambda>r. r\<lparr>m_timer := None\<rparr>)) (Timer_destroy k caller p w));
     Some (w\<lparr>t_reactor_ptr := (t_reactor_ptr w)(caller := None)\<rparr>) }"

definition TcpAcceptor_destroy ::
  "(nat \<Rightarrow> fd_ptr) \<Rightarrow> kernel \<Rightarrow> int \<Rightarrow> int \<Rightarrow> fd_event list \<Rightarrow> net \<Rightarrow> net option" where
  "TcpAcceptor_destroy addr k caller acc_fd fds w = do {
     (fds, i) \<leftarrow> getFdEvent acc_fd fds;
     w \<leftarrow> unregisterFromReactor k caller (addr i) w;
     Some (if acc_fd \<noteq> -1 then close_fd acc_fd w else w) }"

section \<open>The handshake\<close>

text \<open>
  The reactor is there exactly from the set-up of the thread to the end of the destructor; the owner
  gets past the constructor only then; the thread gets past its second wait only after a start.
\<close>

definition life_ok :: "io_life \<Rightarrow> bool" where
  "life_ok l \<longleftrightarrow>
     (owner l = BeforeCreate \<longleftrightarrow> runner l = NotThere)
     \<and> (life_reactor l = None \<longleftrightarrow> runner l \<in> {NotThere, InMain} \<or> owner l = Destroyed)
     \<and> (owner l \<in> {Built, InJoin, Destroyed} \<longrightarrow> runner l \<notin> {NotThere, InMain, HasReactor})
     \<and> (owner l \<in> {BeforeCreate, InInitWait} \<longrightarrow> runner l \<notin> {BeforeLoop, InLoop, Returned} \<and> m_start_semaphore l = 0)
     \<and> (runner l \<in> {NotThere, InMain, HasReactor} \<longrightarrow> m_init_semaphore l = 0)
     \<and> (owner l = Destroyed \<longrightarrow> runner l = Returned)
     \<and> (\<forall>r. life_reactor l = Some r \<longrightarrow> m_reactor_type r = SubReactor
          \<and> (m_is_looping r \<longleftrightarrow> runner l = InLoop)
          \<and> (m_stop_flag r \<longrightarrow> owner l = InJoin \<and> runner l \<in> {InLoop, Returned})
          \<and> (runner l = Returned \<longrightarrow> m_stop_flag r))"

lemma new_reactor_fields:
  assumes "Reactor fd_open (None :: nat option) tid epfd wk = Some r"
  shows "m_is_looping r = False" "m_stop_flag r = False"
  using assms by (auto simp: Reactor_def addWakeupFd_def split: if_splits option.splits)

lemma life_ok_new: "life_ok life_new"
  by (simp add: life_ok_def life_new_def)

lemma life_ok_step: "life_step fd_open boot l l' \<Longrightarrow> life_ok l \<Longrightarrow> life_ok l'"
proof (induction rule: life_step.induct)
  case (runner_sets_up l r)
  then show ?case
    using new_reactor_fields [OF runner_sets_up(2)]
    by (cases "owner l") (auto simp: life_ok_def setReactorType_def)
next
  case (owner_destroys l r)
  then show ?case by (auto simp: life_ok_def stop_def wakeup_def)
next
  case (owner_creates l)
  then show ?case by (simp add: life_ok_def)
next
  case (runner_posts l)
  then show ?case by (cases "owner l") (simp_all add: life_ok_def)
next
  case (owner_goes_on l n)
  then show ?case by (cases "runner l") (simp_all add: life_ok_def)
next
  case (owner_starts l)
  then show ?case by (cases "runner l"; cases "life_reactor l") (simp_all add: life_ok_def)
next
  case (runner_goes_on l n)
  then show ?case by (cases "owner l") (simp_all add: life_ok_def)
next
  case (runner_loops l r)
  then show ?case by (cases "owner l") (simp_all add: life_ok_def)
next
  case (runner_ends l r)
  then show ?case by (cases "owner l") (simp_all add: life_ok_def)
next
  case (owner_joins l)
  then show ?case by (simp add: life_ok_def)
qed

interpretation life: step_invariant "life_step fd_open boot" life_ok for fd_open boot
  by unfold_locales (rule life_ok_step)

lemmas life_reachable_ok = life.steps_keep [OF _ life_ok_new]

text \<open>
  When the constructor has returned, the reactor is there and is one for an io thread, whichever of the
  two threads was faster; and no thread enters its loop before it has been started.
\<close>

lemma built_has_reactor:
  assumes "(life_step fd_open boot)\<^sup>*\<^sup>* life_new l"
  shows "owner l \<in> {Built, InJoin} \<Longrightarrow> \<exists>r. life_reactor l = Some r \<and> m_reactor_type r = SubReactor"
    and "runner l \<in> {BeforeLoop, InLoop, Returned} \<Longrightarrow> owner l \<notin> {BeforeCreate, InInitWait}"
proof -
  have l: "life_ok l" by (rule life_reachable_ok [OF assms])
  show "\<exists>r. life_reactor l = Some r \<and> m_reactor_type r = SubReactor" if "owner l \<in> {Built, InJoin}"
    using l that by (cases "life_reactor l"; cases "runner l") (simp_all add: life_ok_def)
  show "owner l \<notin> {BeforeCreate, InInitWait}" if "runner l \<in> {BeforeLoop, InLoop, Returned}"
    using l that by (cases "owner l") (simp_all add: life_ok_def)
qed

section \<open>The end\<close>

text \<open>A reactor that is stopped before it loops does not notice, and its thread is waited for without end.\<close>

definition join_hopeless :: "io_life \<Rightarrow> bool" where
  "join_hopeless l \<longleftrightarrow>
     owner l = InJoin \<and> runner l \<noteq> Returned \<and> (\<forall>r. life_reactor l = Some r \<longrightarrow> \<not> m_stop_flag r)"

lemma join_hopeless_step: "life_step fd_open boot l l' \<Longrightarrow> join_hopeless l \<Longrightarrow> join_hopeless l'"
proof (induction rule: life_step.induct)
  case (runner_sets_up l r)
  then show ?case
    using new_reactor_fields(2) [OF runner_sets_up(2)] by (simp add: join_hopeless_def setReactorType_def)
qed (simp_all add: join_hopeless_def)

interpretation hopeless: step_invariant "life_step fd_open boot" join_hopeless for fd_open boot
  by unfold_locales (rule join_hopeless_step)

lemma running_thread_is_joined:
  assumes "owner l = Built" "runner l = InLoop" "life_reactor l = Some r" "m_is_looping r"
  shows "\<exists>m. (life_step fd_open boot)\<^sup>*\<^sup>* (thread_stopped r l) m \<and> owner m = Destroyed"
proof -
  let ?l1 = "thread_stopped r l"
  let ?l2 = "?l1\<lparr>runner := Returned, life_reactor := Some ((stop r)\<lparr>m_is_looping := False\<rparr>)\<rparr>"
  have "m_stop_flag (stop r)" using assms(4) by (simp add: stop_def wakeup_def)
  then have "life_step fd_open boot ?l1 ?l2"
    using life_step.runner_ends [of ?l1 "stop r" fd_open boot] assms(2) by simp
  moreover have "life_step fd_open boot ?l2 (thread_joined ?l2)"
    by (rule life_step.owner_joins) simp_all
  ultimately show ?thesis
    by (intro exI [of _ "thread_joined ?l2"])
       (auto intro: converse_rtranclp_into_rtranclp)
qed

text \<open>
  C17: The destructor of an io thread returns only if the thread is in its loop when it begins. Whatever
  happened before: if the loop runs, the stop reaches it, the thread ends and is joined; if the thread
  was never started, or was started and is not in its loop yet, the stop is ignored and no
  continuation gets past \<open>pthread_join\<close>.
\<close>

theorem io_thread_joined_iff_looping:
  assumes "(life_step fd_open boot)\<^sup>*\<^sup>* life_new l" and "owner l = Built" and "life_reactor l = Some r"
  shows "(\<exists>m. (life_step fd_open boot)\<^sup>*\<^sup>* (thread_stopped r l) m \<and> owner m = Destroyed)
    \<longleftrightarrow> runner l = InLoop"
proof
  have l: "life_ok l" by (rule life_reachable_ok [OF assms(1)])
  {
    assume "runner l = InLoop"
    with l assms(2,3) show "\<exists>m. (life_step fd_open boot)\<^sup>*\<^sup>* (thread_stopped r l) m \<and> owner m = Destroyed"
      by (intro running_thread_is_joined) (auto simp: life_ok_def)
  }
  assume "\<exists>m. (life_step fd_open boot)\<^sup>*\<^sup>* (thread_stopped r l) m \<and> owner m = Destroyed"
  then obtain m where m: "(life_step fd_open boot)\<^sup>*\<^sup>* (thread_stopped r l) m" "owner m = Destroyed"
    by blast
  show "runner l = InLoop"
  proof (rule ccontr)
    assume "runner l \<noteq> InLoop"
    then have "join_hopeless (thread_stopped r l)"
      using l assms(2,3) by (auto simp: life_ok_def join_hopeless_def stop_def)
    from hopeless.steps_keep [OF m(1) this] m(2) show False by (simp add: join_hopeless_def)
  qed
qed

definition idle_life :: "reactor \<Rightarrow> io_life" where
  "idle_life r = \<lparr>owner = Built, runner = InStartWait, m_init_semaphore = 0, m_start_semaphore = 0, life_reactor = Some r\<rparr>"

lemma idle_life_reachable:
  "\<exists>r. (life_step (\<lambda>_. True) (100, 4, 5))\<^sup>*\<^sup>* life_new (idle_life r)"
proof -
  obtain r0 where r0: "Reactor (\<lambda>_. True) (None :: nat option) 100 4 5 = Some r0" by (simp add: Reactor_def)
  let ?r = "setReactorType SubReactor r0" and ?s = "life_step (\<lambda>_. True) (100, 4, 5)"
  let ?l1 = "thread_created life_new"
  let ?l2 = "?l1\<lparr>runner := HasReactor, life_reactor := Some ?r\<rparr>"
  let ?l3 = "?l2\<lparr>runner := InStartWait, m_init_semaphore := 1\<rparr>"
  have "?s life_new ?l1" by (rule life_step.owner_creates) (simp add: life_new_def)
  moreover have "?s ?l1 ?l2" by (rule life_step.runner_sets_up) (simp_all add: r0)
  moreover have "?s ?l2 ?l3" using life_step.runner_posts [of ?l2] by (simp add: life_new_def)
  moreover have "?s ?l3 (idle_life ?r)"
    using life_step.owner_goes_on [of ?l3 0] by (simp add: life_new_def idle_life_def)
  ultimately show ?thesis by (meson rtranclp.rtrancl_into_rtrancl rtranclp.rtrancl_refl)
qed

theorem io_thread_joined_iff_looping_witness:
  "\<exists>r. \<not> (\<exists>m. (life_step (\<lambda>_. True) (100, 4, 5))\<^sup>*\<^sup>*
             (thread_stopped r (idle_life r)) m \<and> owner m = Destroyed)"
proof -
  obtain r where r: "(life_step (\<lambda>_. True) (100, 4, 5))\<^sup>*\<^sup>* life_new (idle_life r)" using idle_life_reachable by blast
  have "owner (idle_life r) = Built" "life_reactor (idle_life r) = Some r" "runner (idle_life r) \<noteq> InLoop"
    by (simp_all add: idle_life_def)
  with io_thread_joined_iff_looping [OF r] show ?thesis by blast
qed

text \<open>A server that was never started has no accept coroutine to give back.\<close>

lemma unstarted_server_destroy: "TcpServer_destroy None p = None"
  by (simp add: TcpServer_destroy_def)

text \<open>An acceptor that never got a socket looks its event object up at index -1.\<close>

lemma uninitialised_acceptor_destroy: "TcpAcceptor_destroy addr k caller (-1) fds w = None"
  by (simp add: TcpAcceptor_destroy_def container_lookup_invalid)

text \<open>
  The destructor of an io thread runs on another thread. What it deletes is the reactor of the io thread;
  what it forgets is the reactor of its own thread, which makes another one when it asks for its
  reactor again. The event descriptor for waking up stays open.
\<close>

lemma reactor_destructor_forgets_own:
  assumes "t_reactor_ptr w caller = Some mine" "t_reactor_ptr w worker = Some n" "caller \<noteq> worker"
    and "m_timer (reactors w n) = None" "m_epfd \<noteq> m_wake_fd (reactors w n)" "opened w (m_wake_fd (reactors w n))"
  shows "\<exists>w'. Reactor_destroy k caller m_epfd n w = Some w'
           \<and> t_reactor_ptr w' caller = None \<and> t_reactor_ptr w' worker = Some n
           \<and> opened w' (m_wake_fd (reactors w n)) \<and> \<not> opened w' m_epfd
           \<and> (0 < boot_epfd k \<and> 0 < boot_wake k \<longrightarrow>
                (\<exists>w''. GetReactor k caller w' = Some (next_reactor w, w'')))"
  using assms
  by (simp add: Reactor_destroy_def close_fd_def on_reactor_def fd_closed_def GetReactor_def Reactor_def Let_def)

end
