(* ===== verification/ExampleHttp.thy ===== *)
theory ExampleHttp
  imports RpcAsync ServerSession "HOL-Library.Signed_Division"
begin

text \<open>
  The programs \<open>example/http_server\<close> and \<open>example/async_http\<close>: servlets that answer by themselves, and
  servlets that ask the service of \<open>example/async_http/backend.cc\<close>, by a blocking call or by an
  asynchronous one. The protobuf messages are records with the fields of
  \<open>proto/async_http_example.proto\<close>; how they are written and parsed is generated code and an argument.
\<close>

section \<open>\<open>example/http_server\<close>\<close>

definition HelloServlet :: servlet where
  "HelloServlet =
     \<lparr>getServletName = ''HelloServlet'',
      handle = (\<lambda>request response.
        let answer = setHttpContentType ''text/plain;charset=utf-8'' (setHttpCode HTTP_OK (Some response));
            name = (case map_find (m_query_maps request) ''name'' of
                      Some v \<Rightarrow> if v \<noteq> [] then v else ''world''
                    | None \<Rightarrow> ''world'')
        in case setHttpBody (''hello '' @ name @ [CHR 0x0A]) answer of Some r \<Rightarrow> r | None \<Rightarrow> response)\<rparr>"

definition EchoServlet :: servlet where
  "EchoServlet =
     \<lparr>getServletName = ''EchoServlet'',
      handle = (\<lambda>request response.
        case setHttpBody (m_request_body request)
               (setHttpContentType ''text/plain;charset=utf-8'' (setHttpCode HTTP_OK (Some response))) of
          Some r \<Rightarrow> r | None \<Rightarrow> response)\<rparr>"

text \<open>The registrations of \<open>main\<close>, up to the first one that fails.\<close>

definition http_server_setup :: "'m tcp_server \<Rightarrow> bool \<times> 'm tcp_server" where
  "http_server_setup s =
     (let (ok, s) = server_registerHttpServlet ''/hello'' (Some HelloServlet) s
      in if \<not> ok then (False, s) else server_registerHttpServlet ''/echo'' (Some EchoServlet) s)"

section \<open>\<open>example/async_http/server.cc\<close>\<close>

record query_age_request =
  req_id :: i32

record query_age_response =
  rsp_code :: i32
  rsp_info :: string
  rsp_id :: i32
  rsp_age :: i32

definition QueryAgeResponse :: query_age_response where
  "QueryAgeResponse = \<lparr>rsp_code = 0, rsp_info = [], rsp_id = 0, rsp_age = 0\<rparr>"

definition MakeHtml :: "string \<Rightarrow> string" where
  "MakeHtml message =
     ''<html><body><h1>coroutine_rpc async HTTP example</h1><p>'' @ message @ ''</p></body></html>''"

definition GetRequestId :: "http_request \<Rightarrow> i32" where
  "GetRequestId request =
     (case map_find (m_query_maps request) ''id'' of None \<Rightarrow> 0 | Some v \<Rightarrow> word_of_int (atoi v))"

definition controller_failed :: "controller \<Rightarrow> bool" where
  "controller_failed ctl = (case ctl of Own c \<Rightarrow> Failed c | Other reason \<Rightarrow> reason \<noteq> None)"

definition controller_text :: "controller \<Rightarrow> string" where
  "controller_text ctl = (case ctl of Own c \<Rightarrow> ErrorText c | Other reason \<Rightarrow> (case reason of Some t \<Rightarrow> t | None \<Rightarrow> []))"

text \<open>How both servlets begin, and the end of \<open>BlockCallHttpServlet::handle\<close>, after the call.\<close>

definition page_start :: "http_response \<Rightarrow> http_response option" where
  "page_start response = setHttpContentType kDefaultHtmlContentType (setHttpCode HTTP_OK (Some response))"

definition call_page ::
  "string \<Rightarrow> string \<Rightarrow> controller \<Rightarrow> query_age_response \<Rightarrow> http_response option \<Rightarrow> http_response option" where
  "call_page failed_text ok_text ctl answer response =
     (if controller_failed ctl
      then setHttpBody (MakeHtml (failed_text @ controller_text ctl)) (setHttpCode HTTP_INTERNALSERVERERROR response)
      else if rsp_code answer \<noteq> 0 then setHttpBody (MakeHtml (''backend error: '' @ rsp_info answer)) response
      else setHttpBody (MakeHtml (ok_text @ int_str (sint (rsp_id answer)) @ '', age='' @ int_str (sint (rsp_age answer)))) response)"

text \<open>
  The blocking servlet. \<open>write_request\<close> is \<open>SerializeToString\<close> of the request, \<open>parse_response\<close> is
  \<open>ParseFromString\<close> of the response. The result \<^term>\<open>None\<close> is undefined behaviour, \<^term>\<open>Some None\<close> a call
  that does not return; else it is the response.
\<close>

definition BlockCall_handle ::
  "call_env \<Rightarrow> (query_age_request \<Rightarrow> bytes option) \<Rightarrow> (bytes \<Rightarrow> query_age_response option)
     \<Rightarrow> http_request \<Rightarrow> http_response \<Rightarrow> http_response option option" where
  "BlockCall_handle env write_request parse_response request response = do {
     let answer = page_start response;
     out \<leftarrow> CallMethod env ''QueryService'' ''QueryAge'' (write_request \<lparr>req_id = GetRequestId request\<rparr>) parse_response
              (Own (SetTimeout 5000 RpcController));
     Some (case out of
             Calling _ \<Rightarrow> None
           | Called ctl v _ \<Rightarrow>
               call_page ''RPC failed: '' ''blocking RPC succeeded, id='' ctl
                 (case v of None \<Rightarrow> QueryAgeResponse | Some r \<Rightarrow> r) answer) }"

text \<open>
  The other one: the channel that it hands to \<open>QueryAge\<close> of the stub, the call up to the return of \<open>wait\<close> or to
  its yield, and what it does once \<open>wait\<close> has returned. \<open>cor\<close> and \<open>thread\<close> are the current coroutine and the current io thread.
\<close>

definition NonBlockCall_channel ::
  "(query_age_request \<Rightarrow> bytes option) \<Rightarrow> nat \<Rightarrow> io_thread option \<Rightarrow> http_request \<Rightarrow> query_age_response async_channel" where
  "NonBlockCall_channel write_request cor thread request =
     saveCallee (Some (Own (SetTimeout 5000 RpcController))) (Some (write_request \<lparr>req_id = GetRequestId request\<rparr>))
       (Some QueryAgeResponse) (Some (Some 0)) (RpcAsyncChannel cor thread)"

definition NonBlockCall_handle ::
  "'m async_env \<Rightarrow> (query_age_request \<Rightarrow> bytes option) \<Rightarrow> nat \<Rightarrow> io_thread option \<Rightarrow> http_request \<Rightarrow> net
     \<Rightarrow> (bool \<times> query_age_response async_channel \<times> net) option" where
  "NonBlockCall_handle aenv write_request cor thread request nw =
     call_and_wait aenv (NonBlockCall_channel write_request cor thread request, nw)"

definition NonBlockCall_page :: "query_age_response async_channel \<Rightarrow> http_response \<Rightarrow> http_response option" where
  "NonBlockCall_page ch response = do {
     ctl \<leftarrow> ac_controller ch;
     answer \<leftarrow> ac_response ch;
     call_page ''async RPC failed: '' ''async RPC succeeded, id='' ctl answer (page_start response) }"

text \<open>
  The two as servlets, on what they answer where they return; a servlet that does not return leaves its
  connection's coroutine suspended, and nothing is claimed of it.
\<close>

definition returning_servlet :: "string \<Rightarrow> (http_request \<Rightarrow> http_response \<Rightarrow> http_response option option) \<Rightarrow> servlet" where
  "returning_servlet name h =
     \<lparr>getServletName = name, handle = (\<lambda>request response. case h request response of Some (Some r) \<Rightarrow> r | _ \<Rightarrow> response)\<rparr>"

definition BlockCallHttpServlet ::
  "call_env \<Rightarrow> (query_age_request \<Rightarrow> bytes option) \<Rightarrow> (bytes \<Rightarrow> query_age_response option) \<Rightarrow> servlet" where
  "BlockCallHttpServlet env write_request parse_response =
     returning_servlet ''BlockCallHttpServlet'' (BlockCall_handle env write_request parse_response)"

definition QpsHttpServlet :: servlet where
  "QpsHttpServlet =
     \<lparr>getServletName = ''QpsHttpServlet'',
      handle = (\<lambda>request response.
        case setHttpBody (MakeHtml (''QPS echo succeeded, id='' @ int_str (sint (GetRequestId request)))) (page_start response) of
          Some r \<Rightarrow> r | None \<Rightarrow> response)\<rparr>"

text \<open>The registrations of \<open>main\<close>; \<open>block\<close> and \<open>nonblock\<close> are the two servlets that call.\<close>

definition async_http_setup :: "servlet \<Rightarrow> servlet \<Rightarrow> 'm tcp_server \<Rightarrow> bool \<times> 'm tcp_server" where
  "async_http_setup block nonblock s =
     (let (ok, s) = server_registerHttpServlet ''/qps'' (Some QpsHttpServlet) s
      in if \<not> ok then (False, s)
         else let (ok, s) = server_registerHttpServlet ''/block'' (Some block) s
              in if \<not> ok then (False, s) else server_registerHttpServlet ''/nonblock'' (Some nonblock) s)"

section \<open>\<open>example/async_http/backend.cc\<close>\<close>

datatype query_message = AgeRequest query_age_request | AgeResponse query_age_response

text \<open>
  The remainder of C++ has the sign of the dividend. The service sleeps for a second first, which the hook
  of theory \<open>Hooks\<close> turns into a yield, and the closure that it runs at the end is that of the dispatcher.
\<close>

definition QueryAge :: "query_age_request \<Rightarrow> query_age_response" where
  "QueryAge request =
     \<lparr>rsp_code = 0, rsp_info = ''OK'', rsp_id = req_id request, rsp_age = word_of_int (18 + sint (req_id request) smod 50)\<rparr>"

definition QueryServiceImpl ::
  "(bytes \<Rightarrow> query_age_request option) \<Rightarrow> (query_age_response \<Rightarrow> bytes option) \<Rightarrow> query_message pb_service" where
  "QueryServiceImpl parse_request write_response =
     \<lparr>sd_name = ''QueryService'', sd_methods = [''QueryAge''], sd_request_type = (\<lambda>_. ''asynchttpdemo.QueryAgeRequest''),
      sd_parse = (\<lambda>_ bs. map_option AgeRequest (parse_request bs)),
      sd_call = (\<lambda>_ q. case q of AgeRequest r \<Rightarrow> AgeResponse (QueryAge r) | AgeResponse r \<Rightarrow> AgeResponse r),
      sd_serialize = (\<lambda>m. case m of AgeResponse r \<Rightarrow> write_response r | AgeRequest _ \<Rightarrow> None)\<rparr>"

section \<open>What the parts do\<close>

lemma pieces_one: "c \<notin> set xs \<Longrightarrow> xs \<noteq> [] \<Longrightarrow> pieces (c # cs) xs = [xs]"
  using pieces_join [of "[]" c xs cs] by (simp add: join_with_def)

lemma no_sign_in_digits: "CHR ''&'' \<notin> set (nat_str n)"
  using nat_str_digits [of n] by (auto simp: is_digit_def)

lemma query_map_id: "SplitStrToMap (''id='' @ nat_str n) ''&'' ''='' [] = [(''id'', nat_str n)]"
proof -
  have "pieces ''&'' (''id='' @ nat_str n) = [''id='' @ nat_str n]"
    using no_sign_in_digits [of n] by (intro pieces_one) auto
  moreover have "find_sub ''='' (''id='' @ nat_str n) = Some 2"
    using find_sub_hit [of "CHR ''=''" "''id''" "[]" "nat_str n"] by simp
  ultimately show ?thesis
    by (simp add: SplitStrToMap_def SplitStrToVector_pieces add_pair_def substr_def)
qed

lemma GetRequestId_query:
  assumes "n < 2 ^ 31"
  shows "GetRequestId (http_parsed (meth, path, Some (''id='' @ nat_str n), version, hs, body)) = of_nat n"
proof -
  have "atoi (nat_str n) = int n"
    using assms strtoll_nat_str [of n] by (simp add: atoi_def LLONG_MAX_def signed_take_bit_int_eq_self)
  then show ?thesis
    by (simp add: GetRequestId_def http_parsed_def parsed_request_def HttpRequest_def query_map_id [simplified])
qed

lemma sint_i32: "- (2 ^ 31) \<le> z \<Longrightarrow> z < 2 ^ 31 \<Longrightarrow> sint (word_of_int z :: i32) = z"
  by (simp add: sint_uint signed_take_bit_take_bit unsigned_of_int signed_take_bit_int_eq_self)

text \<open>The ages of the service: for an identifier that is not negative, between 18 and 67.\<close>

lemma QueryAge_range:
  "sint (rsp_age (QueryAge q)) = 18 + sint (req_id q) smod 50"
  "0 \<le> sint (req_id q) \<Longrightarrow> 18 \<le> sint (rsp_age (QueryAge q)) \<and> sint (rsp_age (QueryAge q)) \<le> 67"
proof -
  have b: "-50 < sint (req_id q) smod 50" "sint (req_id q) smod 50 < 50"
    using smod_int_range [of 50 "sint (req_id q)"] by simp_all
  then show age: "sint (rsp_age (QueryAge q)) = 18 + sint (req_id q) smod 50"
    unfolding QueryAge_def query_age_response.simps by (intro sint_i32) simp_all
  show "18 \<le> sint (rsp_age (QueryAge q)) \<and> sint (rsp_age (QueryAge q)) \<le> 67" if "0 \<le> sint (req_id q)"
    using b(2) smod_int_compares(2) [OF that, of 50] by (simp add: age)
qed

section \<open>A page from a remote call\<close>

abbreviation "fresh_controller \<equiv> Own (SetTimeout 5000 RpcController)"

lemma fresh_controller_ok: "\<not> controller_failed fresh_controller"
  by (simp add: controller_failed_def Failed_def SetTimeout_def RpcController_def)

text \<open>The body of the page for the identifier \<open>n\<close>.\<close>

definition age_text :: "string \<Rightarrow> nat \<Rightarrow> string" where
  "age_text ok_text n = MakeHtml (ok_text @ nat_str n @ '', age='' @ nat_str (18 + n mod 50))"

lemma QueryAge_strings:
  assumes "n < 2 ^ 31"
  shows "int_str (sint (rsp_id (QueryAge \<lparr>req_id = of_nat n\<rparr>))) = nat_str n"
    and "int_str (sint (rsp_age (QueryAge \<lparr>req_id = of_nat n\<rparr>))) = nat_str (18 + n mod 50)"
proof -
  have i: "sint (of_nat n :: i32) = int n" using assms sint_i32 [of "int n"] by simp
  have "sint (rsp_age (QueryAge \<lparr>req_id = of_nat n\<rparr>)) = int (18 + n mod 50)"
    unfolding QueryAge_range(1) query_age_request.simps i by (simp add: smod_mod_positive zmod_int)
  then show "int_str (sint (rsp_age (QueryAge \<lparr>req_id = of_nat n\<rparr>))) = nat_str (18 + n mod 50)"
    unfolding int_str_def by (simp del: of_nat_add)
  show "int_str (sint (rsp_id (QueryAge \<lparr>req_id = of_nat n\<rparr>))) = nat_str n"
    using i by (simp add: int_str_def QueryAge_def)
qed

lemma QueryAge_code: "rsp_code (QueryAge q) = 0"
  by (simp add: QueryAge_def)

lemma call_page_age:
  assumes "n < 2 ^ 31" "\<not> controller_failed ctl"
  shows "\<exists>r. call_page failed_text ok_text ctl (QueryAge \<lparr>req_id = of_nat n\<rparr>) (page_start response) = Some r
           \<and> m_response_code r = 200 \<and> m_response_body r = age_text ok_text n"
  unfolding call_page_def QueryAge_code QueryAge_strings [OF assms(1)] using assms(2)
  by (simp add: page_start_def setHttpBody_def setHttpContentType_def setHttpCode_def
      HTTP_OK_def age_text_def)

lemma call_service_QueryAge:
  assumes "map_find services ''QueryService'' = Some (Some (QueryServiceImpl parse_request write_response))"
    and "parse_request args = Some q" "write_response (QueryAge q) = Some out"
  shows "call_service services ''QueryService'' ''QueryAge'' args = Reply out"
  using assms by (simp add: call_service_def QueryServiceImpl_def)

text \<open>
  The generated code writes a message and reads it back.
\<close>

definition written_and_read :: "('a \<Rightarrow> bytes option) \<Rightarrow> (bytes \<Rightarrow> 'a option) \<Rightarrow> 'a \<Rightarrow> bytes \<Rightarrow> bool" where
  "written_and_read write_msg parse_msg m bs \<longleftrightarrow> write_msg m = Some bs \<and> parse_msg bs = Some m"

lemma block_call_page:
  fixes services :: "query_message service_map"
  assumes zk: "zk_GetData (env_junk env) (env_zk env) ''/QueryService/QueryAge'' = Some host" "host \<noteq> []"
      "host_and_port host = Some (ip, port)"
    and backend: "map_find services ''QueryService'' = Some (Some (QueryServiceImpl parse_request write_response))"
    and n: "n < 2 ^ 31" "GetRequestId request = of_nat n"
    and pb: "written_and_read write_request parse_request \<lparr>req_id = of_nat n\<rparr> args"
      "written_and_read write_response parse_response (QueryAge \<lparr>req_id = of_nat n\<rparr>) out"
    and p: "call_packet env ''QueryService'' ''QueryAge'' args fresh_controller = p" "packet_ok p"
      "frame_len (answer_packet services p) \<le> kMaxPacketLen"
    and net: "env_connects env = [a]" "ca_rt a = 0" "\<not> ca_timer a"
      "env_writes env = writes ns" "sum_list ns = frame_len p" "0 \<notin> set ns"
      "delivers (TcpBuffer 128) (frame_of (answer_packet services p)) (env_reads env)"
  shows "\<exists>r. BlockCall_handle env write_request parse_response request response = Some (Some r)
           \<and> m_response_code r = 200 \<and> m_response_body r = age_text ''blocking RPC succeeded, id='' n"
proof -
  have args: "write_request \<lparr>req_id = of_nat n\<rparr> = Some args" "parse_request args = Some \<lparr>req_id = of_nat n\<rparr>"
    and out: "write_response (QueryAge \<lparr>req_id = of_nat n\<rparr>) = Some out"
      "parse_response out = Some (QueryAge \<lparr>req_id = of_nat n\<rparr>)"
    using pb by (simp_all add: written_and_read_def)
  have res: "call_service services ''QueryService'' ''QueryAge'' args = Reply out"
    by (rule call_service_QueryAge [OF backend args(2) out(1)])
  have "zk_GetData (env_junk env) (env_zk env) (''/'' @ ''QueryService'' @ ''/'' @ ''QueryAge'') = Some host"
    using zk(1) by simp
  from call_gets_answer [OF this zk(2,3) p net, of parse_response] obtain e
    where "CallMethod env ''QueryService'' ''QueryAge'' (Some args) parse_response fresh_controller
      = Some (Called fresh_controller (Some (QueryAge \<lparr>req_id = of_nat n\<rparr>)) e)"
    by (auto simp: res call_answer_def out(2))
  then have "BlockCall_handle env write_request parse_response request response
      = Some (call_page ''RPC failed: '' ''blocking RPC succeeded, id='' fresh_controller
          (QueryAge \<lparr>req_id = of_nat n\<rparr>) (page_start response))"
    by (simp add: BlockCall_handle_def n(2) args(1))
  with call_page_age [OF n(1) fresh_controller_ok] show ?thesis by simp
qed

section \<open>The servers\<close>

text \<open>On a new server for HTTP every registration succeeds, and each path has its servlet.\<close>

lemma async_http_setup_ok:
  assumes "m_protocal_type s = Http_Protocal" "m_dispatcher s = HttpDispatcher []"
  shows "fst (async_http_setup block nonblock s)"
    and "servlet_for (http_table (m_dispatcher (snd (async_http_setup block nonblock s)))) ''/qps'' = QpsHttpServlet"
    and "servlet_for (http_table (m_dispatcher (snd (async_http_setup block nonblock s)))) ''/block'' = block"
    and "servlet_for (http_table (m_dispatcher (snd (async_http_setup block nonblock s)))) ''/nonblock'' = nonblock"
    and "dispatcher_type (m_dispatcher (snd (async_http_setup block nonblock s))) = Http_Protocal"
  using assms
  by (simp_all add: async_http_setup_def server_registerHttpServlet_def registerServlet_def NormalizePath_def
      http_table_def servlet_for_def map_emplace_def dispatcher_type_def Let_def)

lemma http_server_setup_ok:
  assumes "m_protocal_type s = Http_Protocal" "m_dispatcher s = HttpDispatcher []"
  shows "fst (http_server_setup s)"
    and "servlet_for (http_table (m_dispatcher (snd (http_server_setup s)))) ''/hello'' = HelloServlet"
    and "servlet_for (http_table (m_dispatcher (snd (http_server_setup s)))) ''/echo'' = EchoServlet"
    and "dispatcher_type (m_dispatcher (snd (http_server_setup s))) = Http_Protocal"
  using assms
  by (simp_all add: http_server_setup_def server_registerHttpServlet_def registerServlet_def NormalizePath_def
      http_table_def servlet_for_def map_emplace_def dispatcher_type_def Let_def)

lemma new_server_dispatcher:
  "TcpServer boots k caller now cfg Http_Protocal fam tm e1 e2 w = Some (s, w')
     \<Longrightarrow> m_protocal_type s = Http_Protocal \<and> m_dispatcher s = HttpDispatcher []"
  by (auto simp: TcpServer_def bind_eq_Some_iff Let_def)

text \<open>A connection of an HTTP server with a run of requests in its buffer, through the virtual calls.\<close>

lemma http_connection_answers:
  assumes "dispatcher_type disp = Http_Protocal"
    and "buf_ok (m_read_buffer c)" "buf_ok (m_write_buffer c)"
    and "m_codec c = Http_Protocal" "m_connection_type c = ServerConnection"
    and "\<forall>q\<in>set qs. http_text_ok q" "contents (m_read_buffer c) = concat (map http_bytes qs)"
  shows "\<exists>rb wb rt'. execute disp fresh (c, rt) = Some (c\<lparr>m_read_buffer := rb, m_write_buffer := wb\<rparr>, rt')
           \<and> contents rb = []
           \<and> contents wb = contents (m_write_buffer c)
               @ concat (map (\<lambda>q. response_text (finish_response (http_reply (http_table disp) (http_parsed q)))) qs)"
proof -
  have "execute disp fresh (c, rt) = conn_execute (rpc_table disp) (http_table disp) fresh (c, rt)"
    using assms(1,4) by (intro execute_casts_succeed) simp
  moreover note execute_http_server [OF assms(2-5), of "rpc_table disp" "http_table disp" fresh rt]
  ultimately show ?thesis
    by (auto simp: assms(7) items_http_requests [OF assms(6)] comp_def)
qed

text \<open>What the servlet of a path is given.\<close>

lemma http_reply_servlet:
  "\<exists>r0. http_reply servlets request = handle (servlet_for servlets (m_request_path request)) request r0"
  by (auto simp: http_reply_def setCommParam_def Let_def)

lemma http_parsed_path [simp]: "m_request_path (http_parsed (meth, path, query, version, hs, body)) = path"
  by (simp add: http_parsed_def parsed_request_def HttpRequest_def)

lemma returning_servlet_handle:
  "h request response = Some (Some r) \<Longrightarrow> handle (returning_servlet name h) request response = r"
  by (simp add: returning_servlet_def)

text \<open>
  C3: From the browser to the backend and back. A server as \<open>example/async_http/server.cc\<close> sets it up has
  \<open>GET /block?id=n\<close> in the read buffer of a connection; the registry knows the backend, whose dispatcher
  has the service of \<open>backend.cc\<close>, and whose answer reaches the client in any number of reads. Then the
  connection has the page with the age for \<open>n\<close> as its response: HTTP parser, routing, servlet, RPC client,
  frames, service and response text fit together.
\<close>

theorem block_page_shows_age:
  fixes services :: "query_message service_map" and s :: "'m tcp_server"
  assumes server: "TcpServer boots k caller now cfg Http_Protocal fam tm e1 e2 w = Some (s, w')"
    and conn: "buf_ok (m_read_buffer c)" "buf_ok (m_write_buffer c)" "m_codec c = Http_Protocal"
      "m_connection_type c = ServerConnection"
    and browser: "http_text_ok (''GET'', ''/block'', Some (''id='' @ nat_str n), version, hs, body)" "n < 2 ^ 31"
      "contents (m_read_buffer c) = http_bytes (''GET'', ''/block'', Some (''id='' @ nat_str n), version, hs, body)"
    and zk: "zk_GetData (env_junk env) (env_zk env) ''/QueryService/QueryAge'' = Some host" "host \<noteq> []"
      "host_and_port host = Some (ip, port)"
    and backend: "map_find services ''QueryService'' = Some (Some (QueryServiceImpl parse_request write_response))"
    and pb: "written_and_read write_request parse_request \<lparr>req_id = of_nat n\<rparr> args"
      "written_and_read write_response parse_response (QueryAge \<lparr>req_id = of_nat n\<rparr>) out"
    and p: "call_packet env ''QueryService'' ''QueryAge'' args fresh_controller = p" "packet_ok p"
      "frame_len (answer_packet services p) \<le> kMaxPacketLen"
    and net: "env_connects env = [a]" "ca_rt a = 0" "\<not> ca_timer a"
      "env_writes env = writes ns" "sum_list ns = frame_len p" "0 \<notin> set ns"
      "delivers (TcpBuffer 128) (frame_of (answer_packet services p)) (env_reads env)"
  shows "\<exists>rb wb rt' page.
     execute (m_dispatcher (snd (async_http_setup (BlockCallHttpServlet env write_request parse_response) nonblock s))) fresh (c, rt)
       = Some (c\<lparr>m_read_buffer := rb, m_write_buffer := wb\<rparr>, rt')
     \<and> contents rb = [] \<and> contents wb = contents (m_write_buffer c) @ response_text (finish_response page)
     \<and> m_response_code page = 200 \<and> m_response_body page = age_text ''blocking RPC succeeded, id='' n"
proof -
  let ?q = "(''GET'', ''/block'', Some (''id='' @ nat_str n), version, hs, body)"
  let ?block = "BlockCallHttpServlet env write_request parse_response"
  let ?disp = "m_dispatcher (snd (async_http_setup ?block nonblock s))"
  have s: "m_protocal_type s = Http_Protocal" "m_dispatcher s = HttpDispatcher []"
    using new_server_dispatcher [OF server] by simp_all
  define q where "q = http_parsed ?q"
  have "m_request_path q = ''/block''" by (simp add: q_def)
  then obtain r0 where r0: "http_reply (http_table ?disp) q = handle ?block q r0"
    using http_reply_servlet [of "http_table ?disp" q] async_http_setup_ok(3) [OF s] by auto
  have "GetRequestId q = of_nat n"
    using GetRequestId_query [OF browser(2)] by (simp add: q_def)
  from block_call_page [OF zk backend browser(2) this pb p net, of r0] obtain page
    where page: "BlockCall_handle env write_request parse_response q r0 = Some (Some page)"
      "m_response_code page = 200" "m_response_body page = age_text ''blocking RPC succeeded, id='' n" by blast
  have "handle ?block q r0 = page" by (simp add: BlockCallHttpServlet_def returning_servlet_def page(1))
  with r0 have "http_reply (http_table ?disp) (http_parsed ?q) = page" by (simp only: q_def)
  with http_connection_answers [OF async_http_setup_ok(5) [OF s] conn, of "[?q]" ?block nonblock fresh rt] browser(1,3) page
  show ?thesis by auto
qed

definition sample_write_request :: "query_age_request \<Rightarrow> bytes option" where
  "sample_write_request r = Some (be32 (req_id r))"
definition sample_parse_request :: "bytes \<Rightarrow> query_age_request option" where
  "sample_parse_request bs = (if length bs = 4 then Some \<lparr>req_id = be32_val bs\<rparr> else None)"
definition sample_write_response :: "query_age_response \<Rightarrow> bytes option" where
  "sample_write_response r = Some (be32 (rsp_code r) @ be32 (rsp_id r) @ be32 (rsp_age r) @ rsp_info r)"
definition sample_parse_response :: "bytes \<Rightarrow> query_age_response option" where
  "sample_parse_response bs =
     (if length bs < 12 then None
      else Some \<lparr>rsp_code = be32_val (take 4 bs), rsp_info = drop 12 bs, rsp_id = be32_val (take 4 (drop 4 bs)),
                 rsp_age = be32_val (take 4 (drop 8 bs))\<rparr>)"

lemma sample_messages:
  "written_and_read sample_write_request sample_parse_request m (be32 (req_id m))"
  "written_and_read sample_write_response sample_parse_response r (be32 (rsp_code r) @ be32 (rsp_id r) @ be32 (rsp_age r) @ rsp_info r)"
  by (simp_all add: written_and_read_def sample_write_request_def sample_parse_request_def sample_write_response_def
      sample_parse_response_def)

lemma age_messages:
  "written_and_read sample_write_request sample_parse_request \<lparr>req_id = of_nat n\<rparr> (be32 (of_nat n))"
  using sample_messages(1) [of "\<lparr>req_id = of_nat n\<rparr>"] by simp

definition age_services :: "query_message service_map" where
  "age_services = registerService (QueryServiceImpl sample_parse_request sample_write_response) []"

definition age_request :: packet where
  "age_request = \<lparr>pk_no = ''7'', pk_service = ''QueryService'', pk_method = ''QueryAge'', pk_code = 0, pk_info = [],
                  pk_data = be32 (of_nat 7)\<rparr>"

definition age_env :: call_env where
  "age_env = sample_env\<lparr>env_zk := [''/QueryService/QueryAge'' \<mapsto> Some ''127.0.0.1:8000''],
      env_writes := writes [frame_len age_request],
      env_reads := [(Got (frame_of (answer_packet age_services age_request)), [])]\<rparr>"

lemma age_request_ok: "packet_ok age_request"
  by (simp add: packet_ok_def age_request_def frame_len_def full_name_of_def kMinPacketLen_def kMaxPacketLen_def)

lemma age_answer: "frame_len (answer_packet age_services age_request) < 128"
  by (simp add: answer_packet_def packet_of_def deliver_def rpc_reply_def age_services_def registerService_def
      map_find_def age_request_def RpcStruct_def frame_len_def full_name_of_def kMinPacketLen_def QueryServiceImpl_def
      sample_parse_request_def sample_write_response_def QueryAge_def)

lemma age_env_fields:
  "zk_GetData (env_junk age_env) (env_zk age_env) ''/QueryService/QueryAge'' = Some ''127.0.0.1:8000''"
  "call_packet age_env ''QueryService'' ''QueryAge'' (be32 (of_nat 7)) fresh_controller = age_request"
  "env_connects age_env = [connected]" "env_writes age_env = writes [frame_len age_request]"
  "env_reads age_env = [(Got (frame_of (answer_packet age_services age_request)), [])]"
  by (simp_all add: age_env_def zk_GetData_def call_packet_def age_request_def call_number_def MsgSeq_def SetTimeout_def
      RpcController_def) (simp_all add: sample_env_def c_str_def numeral_eq_Suc)

definition block_text :: http_text where
  "block_text = (''GET'', ''/block'', Some (''id='' @ nat_str 7), ''HTTP/1.1'', [(''Host'', ''h''), (''Content-Length'', ''0'')], [])"

lemma block_text_ok: "http_text_ok block_text"
  by code_simp

theorem block_page_shows_age_witness:
  "\<exists>s rb wb rt' page.
     execute (m_dispatcher (snd (async_http_setup (BlockCallHttpServlet age_env sample_write_request sample_parse_response)
         QpsHttpServlet (s :: string tcp_server)))) []
         (sample_connection\<lparr>m_codec := Http_Protocal, m_read_buffer := loaded (http_bytes block_text)\<rparr>, no_run_time)
       = Some (sample_connection\<lparr>m_codec := Http_Protocal, m_read_buffer := rb, m_write_buffer := wb\<rparr>, rt')
     \<and> contents wb = response_text (finish_response page)
     \<and> m_response_body page = MakeHtml ''blocking RPC succeeded, id=7, age=25''"
proof -
  let ?c = "sample_connection\<lparr>m_codec := Http_Protocal, m_read_buffer := loaded (http_bytes block_text)\<rparr>"
  obtain s0 :: "string tcp_server" and w0
    where s0: "TcpServer sample_boots \<lparr>boot_epfd = 3, boot_wake = 8\<rparr> 7 0 (default_config\<lparr>m_iothread_num := 1\<rparr>) Http_Protocal AF_INET
            blank_timer 0 1 blank_net = Some (s0, w0)"
    using sample_TcpServer by blast
  obtain port where port: "host_and_port ''127.0.0.1:8000'' = Some (''127.0.0.1'', port)" using sample_lookup(2) by blast
  have c: "buf_ok (m_read_buffer ?c)" "buf_ok (m_write_buffer ?c)" "m_codec ?c = Http_Protocal"
    "m_connection_type ?c = ServerConnection"
    "contents (m_read_buffer ?c) = http_bytes (''GET'', ''/block'', Some (''id='' @ nat_str 7), ''HTTP/1.1'',
       [(''Host'', ''h''), (''Content-Length'', ''0'')], [])"
    by (simp_all add: block_text_def)
  have services: "map_find age_services ''QueryService'' = Some (Some (QueryServiceImpl sample_parse_request sample_write_response))"
    by (simp add: age_services_def registerService_def QueryServiceImpl_def map_find_def)
  have net: "ca_rt connected = 0" "\<not> ca_timer connected" "sum_list [frame_len age_request] = frame_len age_request"
    "0 \<notin> set [frame_len age_request]"
    by (simp_all add: connected_def frame_len_pos)
  have "\<exists>rb wb rt' page.
     execute (m_dispatcher (snd (async_http_setup (BlockCallHttpServlet age_env sample_write_request sample_parse_response)
         QpsHttpServlet s0))) [] (?c, no_run_time)
       = Some (?c\<lparr>m_read_buffer := rb, m_write_buffer := wb\<rparr>, rt')
     \<and> contents rb = [] \<and> contents wb = contents (m_write_buffer ?c) @ response_text (finish_response page)
     \<and> m_response_code page = 200 \<and> m_response_body page = age_text ''blocking RPC succeeded, id='' 7"
    by (rule block_page_shows_age [where s = s0 and n = 7, OF s0 c(1-4) block_text_ok [unfolded block_text_def] _ c(5)
          age_env_fields(1) _ port services age_messages sample_messages(2) age_env_fields(2) age_request_ok _ age_env_fields(3) net(1,2)
          age_env_fields(4) net(3,4), unfolded age_env_fields(5)])
       (use age_answer in \<open>auto simp: kMaxPacketLen_def age_env_fields(5) intro: frame_of_fits\<close>)
  moreover have "age_text ''blocking RPC succeeded, id='' 7 = MakeHtml ''blocking RPC succeeded, id=7, age=25''"
    unfolding age_text_def by code_simp
  ultimately show ?thesis by auto
qed

section \<open>Echo\<close>

definition text_path :: "http_text \<Rightarrow> string" where "text_path = (\<lambda>(meth, path, query, version, hs, body). path)"
definition text_body :: "http_text \<Rightarrow> bytes" where "text_body = (\<lambda>(meth, path, query, version, hs, body). body)"

lemma echo_reply:
  assumes "servlet_for servlets ''/echo'' = EchoServlet" "text_path q = ''/echo''"
  shows "m_response_code (http_reply servlets (http_parsed q)) = 200"
    and "m_response_body (http_reply servlets (http_parsed q)) = text_body q"
proof -
  obtain m p k v hs body where q: "q = (m, p, k, v, hs, body)" by (metis prod_cases6)
  have p: "p = ''/echo''" using assms(2) by (simp add: q text_path_def)
  obtain r0 where r0: "http_reply servlets (http_parsed q) = handle EchoServlet (http_parsed q) r0"
    using http_reply_servlet [of servlets "http_parsed q"] by (auto simp: q p assms(1))
  show "m_response_code (http_reply servlets (http_parsed q)) = 200"
    unfolding r0 by (simp add: EchoServlet_def setHttpBody_def setHttpContentType_def setHttpCode_def HTTP_OK_def)
  have "m_request_body (http_parsed q) = text_body q"
    by (simp add: q text_body_def http_parsed_def parsed_request_def HttpRequest_def)
  then show "m_response_body (http_reply servlets (http_parsed q)) = text_body q"
    unfolding r0 by (simp add: EchoServlet_def setHttpBody_def setHttpContentType_def setHttpCode_def)
qed

text \<open>
  The echo server echoes. A server as \<open>example/http_server\<close> sets it up answers any run of pipelined
  requests for \<open>/echo\<close>, in order, each with status 200 and with the body of the request, byte for byte.
\<close>

theorem echo_server_echoes:
  fixes s :: "'m tcp_server"
  assumes server: "TcpServer boots k caller now cfg Http_Protocal fam tm e1 e2 w = Some (s, w')"
    and conn: "buf_ok (m_read_buffer c)" "buf_ok (m_write_buffer c)" "m_codec c = Http_Protocal"
      "m_connection_type c = ServerConnection"
    and requests: "\<forall>q\<in>set qs. http_text_ok q \<and> text_path q = ''/echo''" "contents (m_read_buffer c) = concat (map http_bytes qs)"
  shows "fst (http_server_setup s) \<and> (\<exists>rb wb rt' pages.
     execute (m_dispatcher (snd (http_server_setup s))) fresh (c, rt) = Some (c\<lparr>m_read_buffer := rb, m_write_buffer := wb\<rparr>, rt')
     \<and> contents rb = [] \<and> contents wb = contents (m_write_buffer c) @ concat (map (response_text \<circ> finish_response) pages)
     \<and> map m_response_code pages = map (\<lambda>_. 200) qs \<and> map m_response_body pages = map text_body qs)"
proof -
  let ?t = "http_table (m_dispatcher (snd (http_server_setup s)))"
  have s: "m_protocal_type s = Http_Protocal" "m_dispatcher s = HttpDispatcher []"
    using new_server_dispatcher [OF server] by simp_all
  have ok: "\<forall>q\<in>set qs. http_text_ok q" using requests(1) by blast
  have each: "m_response_code (http_reply ?t (http_parsed q)) = 200 \<and> m_response_body (http_reply ?t (http_parsed q)) = text_body q"
    if "q \<in> set qs" for q
    using echo_reply [OF http_server_setup_ok(3) [OF s], of q] requests(1) that by blast
  from http_connection_answers [OF http_server_setup_ok(4) [OF s] conn ok requests(2), of fresh rt] obtain rb wb rt'
    where x: "execute (m_dispatcher (snd (http_server_setup s))) fresh (c, rt) = Some (c\<lparr>m_read_buffer := rb, m_write_buffer := wb\<rparr>, rt')"
      "contents rb = []" "contents wb = contents (m_write_buffer c)
         @ concat (map (\<lambda>q. response_text (finish_response (http_reply ?t (http_parsed q)))) qs)" by blast
  have "\<exists>pages. contents wb = contents (m_write_buffer c) @ concat (map (response_text \<circ> finish_response) pages)
     \<and> map m_response_code pages = map (\<lambda>_. 200) qs \<and> map m_response_body pages = map text_body qs"
    using x(3) each by (intro exI [of _ "map (\<lambda>q. http_reply ?t (http_parsed q)) qs"]) (simp add: comp_def)
  with x(1,2) http_server_setup_ok(1) [OF s] show ?thesis by blast
qed

definition echo_text :: "bytes \<Rightarrow> http_text" where
  "echo_text body = (''POST'', ''/echo'', None, ''HTTP/1.1'', [(''Content-Length'', nat_str (length body))], body)"

lemma echo_texts_ok: "\<forall>q\<in>set [echo_text ''ab'', echo_text ''c'']. http_text_ok q \<and> text_path q = ''/echo''"
proof -
  have "http_text_ok (echo_text ''ab'')" "http_text_ok (echo_text ''c'')" by code_simp+
  then show ?thesis by (simp add: echo_text_def text_path_def)
qed

theorem echo_server_echoes_witness:
  "\<exists>s rb wb rt' pages.
     execute (m_dispatcher (snd (http_server_setup (s :: string tcp_server)))) []
         (sample_connection\<lparr>m_codec := Http_Protocal,
            m_read_buffer := loaded (concat (map http_bytes [echo_text ''ab'', echo_text ''c'']))\<rparr>, no_run_time)
       = Some (sample_connection\<lparr>m_codec := Http_Protocal, m_read_buffer := rb, m_write_buffer := wb\<rparr>, rt')
     \<and> map m_response_body pages = [''ab'', ''c''] \<and> contents wb = concat (map (response_text \<circ> finish_response) pages)"
proof -
  let ?bs = "concat (map http_bytes [echo_text ''ab'', echo_text ''c''])"
  let ?c = "sample_connection\<lparr>m_codec := Http_Protocal, m_read_buffer := loaded ?bs\<rparr>"
  obtain s0 :: "string tcp_server" and w0
    where s0: "TcpServer sample_boots \<lparr>boot_epfd = 3, boot_wake = 8\<rparr> 7 0 (default_config\<lparr>m_iothread_num := 1\<rparr>) Http_Protocal AF_INET
            blank_timer 0 1 blank_net = Some (s0, w0)"
    using sample_TcpServer by blast
  have c: "buf_ok (m_read_buffer ?c)" "buf_ok (m_write_buffer ?c)" "m_codec ?c = Http_Protocal"
    "m_connection_type ?c = ServerConnection" "contents (m_read_buffer ?c) = ?bs" "contents (m_write_buffer ?c) = []"
    by (simp_all del: concat.simps list.map)
  have b: "map text_body [echo_text ''ab'', echo_text ''c''] = [''ab'', ''c'']" by (simp add: text_body_def echo_text_def)
  have u: "?c\<lparr>m_read_buffer := x, m_write_buffer := y\<rparr> = sample_connection\<lparr>m_codec := Http_Protocal, m_read_buffer := x, m_write_buffer := y\<rparr>"
    for x y by simp
  from echo_server_echoes [OF s0 c(1-4) echo_texts_ok c(5), of "[]" no_run_time] obtain rb wb rt' pages
    where "execute (m_dispatcher (snd (http_server_setup s0))) [] (?c, no_run_time)
        = Some (sample_connection\<lparr>m_codec := Http_Protocal, m_read_buffer := rb, m_write_buffer := wb\<rparr>, rt')"
      "contents wb = concat (map (response_text \<circ> finish_response) pages)" "map m_response_body pages = [''ab'', ''c'']"
    unfolding b c(6) u append_Nil by (elim conjE exE)
  then show ?thesis
    by (intro exI [of _ s0] exI [of _ rb] exI [of _ wb] exI [of _ rt'] exI [of _ pages] conjI)
qed

section \<open>The page of the asynchronous call\<close>

lemma async_CallMethod_keeps:
  assumes "async_CallMethod aenv has_method (ctl, ch, nw) = Some (ctl1, ch1, nw1)"
  shows "ac_request ch1 = ac_request ch" "ac_response ch1 = ac_response ch"
  using assms
  by (auto simp: async_CallMethod_def setCallError_def Let_def bind_eq_Some_iff split: if_splits option.splits prod.splits
      call_controller.splits)

text \<open>A program that has not set its server: the page shows the refusal, without waiting.\<close>

lemma NonBlockCall_no_server:
  assumes "as_server aenv = None"
  shows "\<exists>ch. NonBlockCall_handle aenv write_request cor thread request nw = Some (False, ch, nw)
    \<and> NonBlockCall_page ch response
        = setHttpBody (MakeHtml ''async RPC failed: async rpc requires a running RpcProvider IO thread pool'')
            (setHttpCode HTTP_INTERNALSERVERERROR (page_start response))"
proof -
  let ?ch = "NonBlockCall_channel write_request cor thread request"
  have "ac_prepared ?ch" "ac_controller ?ch = Some (Own (SetTimeout 5000 RpcController))" "ac_response ?ch = Some QueryAgeResponse"
    by (simp_all add: NonBlockCall_channel_def saveCallee_def)
  from call_and_wait_no_server [OF this(1) assms this(2), of nw] this(3) show ?thesis
    by (auto simp: NonBlockCall_handle_def NonBlockCall_page_def call_page_def controller_failed_def controller_text_def
        call_error_def SetError_result)
qed

text \<open>
  C23: Waiting for the asynchronous call shows what the blocking call would show. Once \<open>wait\<close> has returned in
  \<open>NonBlockCallHttpServlet\<close>, however the two threads took turns, the page is the one that \<open>call_page\<close> makes
  of the outcome of \<open>RpcChannel::CallMethod\<close> for the same request, as in the blocking servlet, but for the
  two phrases at its start.
\<close>

theorem nonblock_page_is_block_page:
  assumes "async_CallMethod aenv has_method (ctl, NonBlockCall_channel write_request cor thread request, nw) = Some (ctl1, ch1, nw1)"
    and "ac_pending ch1 \<noteq> None"
    and "(async_step env ''QueryService'' ''QueryAge'' parse_response)\<^sup>*\<^sup>* (handed_over ch1) w" and "wait_over w"
  shows "\<exists>ctl0 ctl' v e. ac_controller ch1 = Some ctl0
     \<and> CallMethod env ''QueryService'' ''QueryAge'' (write_request \<lparr>req_id = GetRequestId request\<rparr>) parse_response ctl0
         = Some (Called ctl' v e)
     \<and> NonBlockCall_page (chan w) response
         = call_page ''async RPC failed: '' ''async RPC succeeded, id='' ctl'
             (case v of None \<Rightarrow> QueryAgeResponse | Some r \<Rightarrow> r) (page_start response)"
proof -
  let ?ch = "NonBlockCall_channel write_request cor thread request"
  have ch: "ac_pending ?ch = None" "\<not> ac_finished ?ch" "\<not> ac_need_resume ?ch"
    "ac_request ?ch = Some (write_request \<lparr>req_id = GetRequestId request\<rparr>)" "ac_response ?ch = Some QueryAgeResponse"
    by (simp_all add: NonBlockCall_channel_def saveCallee_def RpcAsyncChannel_def)
  note one = accepted_one_call(1) [OF assms(1) ch(1) assms(2) ch(2,3) assms(3)]
  have "holds_answer env ''QueryService'' ''QueryAge'' parse_response ch1 (chan w)"
    using one_call_finished(2,3) [OF one] assms(4) by blast
  then obtain ctl0 ctl' v e where h: "ac_controller ch1 = Some ctl0"
    "CallMethod env ''QueryService'' ''QueryAge'' (write_request \<lparr>req_id = GetRequestId request\<rparr>) parse_response ctl0 = Some (Called ctl' v e)"
    "ac_controller (chan w) = Some ctl'" "ac_response (chan w) = (case v of None \<Rightarrow> Some QueryAgeResponse | Some r \<Rightarrow> Some r)"
    unfolding holds_answer_def async_CallMethod_keeps [OF assms(1)] ch(4,5) by auto
  then have "NonBlockCall_page (chan w) response
         = call_page ''async RPC failed: '' ''async RPC succeeded, id='' ctl'
             (case v of None \<Rightarrow> QueryAgeResponse | Some r \<Rightarrow> r) (page_start response)"
    by (cases v) (simp_all add: NonBlockCall_page_def)
  with h(1,2) show ?thesis by blast
qed

definition age_channel :: "query_age_response async_channel" where
  "age_channel = NonBlockCall_channel sample_write_request 4 (Some (m_io_threads sample_io_pool ! 2)) (http_parsed block_text)"

definition age_controller :: controller where
  "age_controller = Own (SetMsgReq ''7'' (SetTimeout 5000 RpcController))"

definition called_age_channel :: "query_age_response async_channel" where
  "called_age_channel = age_channel\<lparr>ac_controller := Some age_controller, ac_pending := Some (as_cor sample_async_env)\<rparr>"

lemma age_async_call:
  "\<exists>nw. async_CallMethod sample_async_env True (SavedController, age_channel, sample_net SubReactor)
          = Some (SavedController, called_age_channel, nw)"
  by (simp add: async_CallMethod_def age_channel_def called_age_channel_def NonBlockCall_channel_def saveCallee_def
      RpcAsyncChannel_def GetRpcServer_def sample_async_env_def sample_server_def addCoroutineToRandomThread_def
      random_index_def sample_io_pool_def number_call_def age_controller_def RpcController_def MsgSeq_def SetMsgReq_def
      SetTimeout_def getPthreadId_def Let_def)

lemma called_age_channel_fields:
  "ac_pending age_channel = None" "ac_pending called_age_channel \<noteq> None" "\<not> ac_finished age_channel"
  "\<not> ac_need_resume age_channel" "ac_controller called_age_channel = Some age_controller"
  "ac_request called_age_channel = Some (Some (be32 (of_nat 7)))"
  "ac_origin_io_thread called_age_channel \<noteq> None" "\<not> ac_finished called_age_channel"
  using GetRequestId_query [of 7 "''GET''" "''/block''" "''HTTP/1.1''" "[(''Host'', ''h''), (''Content-Length'', ''0'')]" "[]"]
  by (simp_all add: age_channel_def called_age_channel_def NonBlockCall_channel_def saveCallee_def RpcAsyncChannel_def
      sample_write_request_def block_text_def)

lemma age_call:
  "\<exists>e. CallMethod age_env ''QueryService'' ''QueryAge'' (Some (be32 (of_nat 7))) sample_parse_response age_controller
         = Some (Called age_controller (Some (QueryAge \<lparr>req_id = of_nat 7\<rparr>)) e)"
proof -
  let ?q = "answer_packet age_services age_request" and ?out = "QueryAge \<lparr>req_id = of_nat 7\<rparr>"
  obtain port where port: "host_and_port ''127.0.0.1:8000'' = Some (''127.0.0.1'', port)" using sample_lookup(2) by blast
  have zk: "zk_GetData (env_junk age_env) (env_zk age_env) (''/'' @ ''QueryService'' @ ''/'' @ ''QueryAge'') = Some ''127.0.0.1:8000''"
    using age_env_fields(1) by simp
  have p: "call_packet age_env ''QueryService'' ''QueryAge'' (be32 (of_nat 7)) age_controller = age_request"
    by (simp add: call_packet_def age_request_def call_number_def age_controller_def MsgSeq_def SetMsgReq_def)
  have services: "map_find age_services ''QueryService'' = Some (Some (QueryServiceImpl sample_parse_request sample_write_response))"
    by (simp add: age_services_def registerService_def QueryServiceImpl_def map_find_def)
  have out: "written_and_read sample_write_response sample_parse_response ?out
      (be32 (rsp_code ?out) @ be32 (rsp_id ?out) @ be32 (rsp_age ?out) @ rsp_info ?out)" by (rule sample_messages(2))
  have res: "call_service age_services ''QueryService'' ''QueryAge'' (be32 (of_nat 7))
      = Reply (be32 (rsp_code ?out) @ be32 (rsp_id ?out) @ be32 (rsp_age ?out) @ rsp_info ?out)"
    using out age_messages [of 7] unfolding written_and_read_def by (blast intro: call_service_QueryAge [OF services])
  have "delivers (TcpBuffer 128) (frame_of ?q) (env_reads age_env)"
    unfolding age_env_fields(5) by (rule frame_of_fits [OF age_answer])
  moreover have "frame_len ?q \<le> kMaxPacketLen" using age_answer by (simp add: kMaxPacketLen_def)
  ultimately obtain e where "CallMethod age_env ''QueryService'' ''QueryAge'' (Some (be32 (of_nat 7))) sample_parse_response age_controller
       = (case call_answer sample_parse_response age_controller (pk_info ?q) (call_service age_services ''QueryService'' ''QueryAge'' (be32 (of_nat 7))) of
            (ctl', response) \<Rightarrow> Some (Called ctl' response e))"
    using call_gets_answer [OF zk _ port p age_request_ok, of age_services connected "[frame_len age_request]" sample_parse_response]
    by (auto simp: age_env_fields(3,4) connected_def frame_len_pos)
  then show ?thesis using out unfolding res written_and_read_def call_answer_def by auto
qed

theorem nonblock_page_is_block_page_witness:
  "\<exists>w page. (async_step age_env ''QueryService'' ''QueryAge'' sample_parse_response)\<^sup>*\<^sup>* (handed_over called_age_channel) w
     \<and> wait_over w \<and> NonBlockCall_page (chan w) HttpResponse = Some page
     \<and> m_response_body page = MakeHtml ''async RPC succeeded, id=7, age=25''"
proof -
  obtain nw where call: "async_CallMethod sample_async_env True (SavedController, age_channel, sample_net SubReactor)
      = Some (SavedController, called_age_channel, nw)" using age_async_call by blast
  obtain w0 where w0: "(async_step age_env ''QueryService'' ''QueryAge'' sample_parse_response)\<^sup>*\<^sup>* (handed_over called_age_channel) w0"
      "origin w0 = InWait"
    using handed_over_waits [OF called_age_channel_fields(8,7)] by blast
  obtain e where e: "CallMethod age_env ''QueryService'' ''QueryAge'' (Some (be32 (of_nat 7))) sample_parse_response age_controller
         = Some (Called age_controller (Some (QueryAge \<lparr>req_id = of_nat 7\<rparr>)) e)" using age_call by blast
  have "one_call age_env ''QueryService'' ''QueryAge'' sample_parse_response called_age_channel w0"
    by (rule accepted_one_call [OF call called_age_channel_fields(1-4) w0(1)])
  from one_call_runs_on [OF this w0(2) called_age_channel_fields(5,6) e] w0(1) obtain w
    where w: "(async_step age_env ''QueryService'' ''QueryAge'' sample_parse_response)\<^sup>*\<^sup>* (handed_over called_age_channel) w" "wait_over w"
    by (blast intro: rtranclp_trans)
  have id: "sample_write_request \<lparr>req_id = GetRequestId (http_parsed block_text)\<rparr> = Some (be32 (of_nat 7))"
    using GetRequestId_query [of 7 "''GET''" "''/block''" "''HTTP/1.1''" "[(''Host'', ''h''), (''Content-Length'', ''0'')]" "[]"]
    by (simp add: sample_write_request_def block_text_def)
  from nonblock_page_is_block_page [OF call [unfolded age_channel_def] called_age_channel_fields(2) w, of HttpResponse]
  have "NonBlockCall_page (chan w) HttpResponse = call_page ''async RPC failed: '' ''async RPC succeeded, id='' age_controller
      (QueryAge \<lparr>req_id = of_nat 7\<rparr>) (page_start HttpResponse)"
    unfolding id called_age_channel_fields(5) using e by auto
  moreover have "\<not> controller_failed age_controller"
    by (simp add: age_controller_def controller_failed_def Failed_def SetMsgReq_def SetTimeout_def RpcController_def)
  moreover have "age_text ''async RPC succeeded, id='' 7 = MakeHtml ''async RPC succeeded, id=7, age=25''"
    unfolding age_text_def by code_simp
  ultimately show ?thesis
    using w call_page_age [of 7 age_controller "''async RPC failed: ''" "''async RPC succeeded, id=''" HttpResponse] by auto
qed

end
