(* ===== verification/ExampleRpc.thy ===== *)
theory ExampleRpc
  imports ExampleHttp
begin

text \<open>
  The programs \<open>example/callee\<close>, \<open>example/caller\<close> and \<open>example/async_channel\<close>: services, and clients of
  them; service A of \<open>async_channel\<close> asks service B asynchronously before it answers. The messages are
  records with the fields of \<open>proto/user.proto\<close>, \<open>proto/friend.proto\<close> and \<open>proto/async_example.proto\<close>.
\<close>

section \<open>\<open>example/callee\<close>\<close>

record result_code_message =
  errcode :: i32
  errmsg :: bytes

record login_request =
  login_name :: bytes
  login_pwd :: bytes

record register_request =
  register_id :: i32
  register_name :: bytes
  register_pwd :: bytes

record login_response =
  result :: result_code_message
  sucess :: bool

text \<open>
  The local \<open>Login\<close> is declared to return \<open>bool\<close> and has no \<open>return\<close>: to use its result is undefined.
\<close>

definition user_Login :: "bytes \<Rightarrow> bytes \<Rightarrow> bool option" where
  "user_Login name pwd = None"

definition user_Register :: "i32 \<Rightarrow> bytes \<Rightarrow> bytes \<Rightarrow> bool option" where
  "user_Register uid name pwd = Some True"

definition UserService_Login :: "login_request \<Rightarrow> login_response option" where
  "UserService_Login request = do {
     login_result \<leftarrow> user_Login (login_name request) (login_pwd request);
     Some \<lparr>result = \<lparr>errcode = 0, errmsg = []\<rparr>, sucess = login_result\<rparr> }"

definition UserService_Register :: "register_request \<Rightarrow> login_response option" where
  "UserService_Register request = do {
     ret \<leftarrow> user_Register (register_id request) (register_name request) (register_pwd request);
     Some \<lparr>result = \<lparr>errcode = 0, errmsg = []\<rparr>, sucess = ret\<rparr> }"

record friends_response =
  friends_result :: result_code_message
  friends :: "bytes list"

definition local_GetFriendsList :: "i32 \<Rightarrow> bytes list" where
  "local_GetFriendsList userid = [''gao yang'', ''liu hong'', ''wang shuo'']"

definition FriendService_GetFriendsList :: "i32 \<Rightarrow> friends_response" where
  "FriendService_GetFriendsList userid =
     \<lparr>friends_result = \<lparr>errcode = 0, errmsg = []\<rparr>, friends = local_GetFriendsList userid\<rparr>"

lemma UserService_Login_undefined: "UserService_Login request = None"
  by (simp add: UserService_Login_def user_Login_def)

section \<open>\<open>example/caller\<close>\<close>

text \<open>
  A call with a null controller, as in \<open>calluserservice.cc\<close>: the \<open>dynamic_cast\<close> of \<open>CallMethod\<close> gives null, as
  for a controller of another class, and every failure calls \<open>SetFailed\<close> through the null pointer.
\<close>

definition CallMethod_null ::
  "call_env \<Rightarrow> string \<Rightarrow> string \<Rightarrow> bytes option \<Rightarrow> (bytes \<Rightarrow> 'r option) \<Rightarrow> 'r call_outcome option" where
  "CallMethod_null env sv_name meth args parse = do {
     out \<leftarrow> CallMethod env sv_name meth args parse (Other None);
     case out of
       Called ctl v e \<Rightarrow> if ctl = Other None then Some out else None
     | Calling e \<Rightarrow> Some out }"

text \<open>
  What \<open>calluserservice.cc\<close> prints after its calls of \<open>Login\<close>, with \<open>response\<close>, and \<open>Register\<close>, with \<open>register_response\<close>;
  and \<open>callfriendservice.cc\<close> after its own.
\<close>

definition login_line :: "login_response \<Rightarrow> string" where
  "login_line response =
     (if errcode (result response) = 0 then ''rpc login response success:'' @ (if sucess response then ''1'' else ''0'')
      else ''rpc login response error : '' @ errmsg (result response))"

definition register_line :: "login_response \<Rightarrow> login_response \<Rightarrow> string" where
  "register_line response register_response =
     (if errcode (result register_response) = 0 then ''rpc login response success:'' @ (if sucess response then ''1'' else ''0'')
      else ''rpc login response error : '' @ errmsg (result response))"

definition friend_lines :: "controller \<Rightarrow> friends_response \<Rightarrow> string list" where
  "friend_lines ctl response =
     (if controller_failed ctl then [controller_text ctl]
      else if errcode (friends_result response) = 0
      then ''rpc GetFriendsList response success!''
           # map (\<lambda>i. ''index:'' @ nat_str (i + 1) @ '' name:'' @ friends response ! i) [0..<length (friends response)]
      else [''rpc GetFriendsList response error : '' @ errmsg (friends_result response)])"

section \<open>\<open>example/async_channel\<close>\<close>

record verify_request =
  vq_user_name :: string
  vq_password :: string

record verify_response =
  vr_code :: i32
  vr_info :: string
  vr_passed :: bool

record create_order_request =
  co_user_name :: string
  co_password :: string
  co_product_id :: i32

record create_order_response =
  or_code :: i32
  or_info :: string
  or_order_id :: string

definition VerifyResponse :: verify_response where
  "VerifyResponse = \<lparr>vr_code = 0, vr_info = [], vr_passed = False\<rparr>"

definition CreateOrderResponse :: create_order_response where
  "CreateOrderResponse = \<lparr>or_code = 0, or_info = [], or_order_id = []\<rparr>"

subsection \<open>Service B\<close>

definition Verify :: "verify_request \<Rightarrow> verify_response" where
  "Verify request =
     (let passed = (vq_password request = ''123456'')
      in \<lparr>vr_code = (if passed then 0 else 1001), vr_info = (if passed then [] else ''invalid password''), vr_passed = passed\<rparr>)"

datatype auth_message = VerifyRequestMsg verify_request | VerifyResponseMsg verify_response

definition AuthServiceImpl ::
  "(bytes \<Rightarrow> verify_request option) \<Rightarrow> (verify_response \<Rightarrow> bytes option) \<Rightarrow> auth_message pb_service" where
  "AuthServiceImpl parse_request write_response =
     \<lparr>sd_name = ''AuthService'', sd_methods = [''Verify''], sd_request_type = (\<lambda>_. ''asyncdemo.VerifyRequest''),
      sd_parse = (\<lambda>_ bs. map_option VerifyRequestMsg (parse_request bs)),
      sd_call = (\<lambda>_ q. case q of VerifyRequestMsg r \<Rightarrow> VerifyResponseMsg (Verify r) | VerifyResponseMsg r \<Rightarrow> VerifyResponseMsg r),
      sd_serialize = (\<lambda>m. case m of VerifyResponseMsg r \<Rightarrow> write_response r | VerifyRequestMsg _ \<Rightarrow> None)\<rparr>"

subsection \<open>Service A\<close>

text \<open>
  \<open>CreateOrder\<close> up to its call of B: the request to B, and the channel that it hands to the stub. Then,
  once \<open>wait\<close> has returned, its response.
\<close>

definition order_verify_request :: "create_order_request \<Rightarrow> verify_request" where
  "order_verify_request request = \<lparr>vq_user_name = co_user_name request, vq_password = co_password request\<rparr>"

definition CreateOrder_channel ::
  "(verify_request \<Rightarrow> bytes option) \<Rightarrow> nat \<Rightarrow> io_thread option \<Rightarrow> create_order_request \<Rightarrow> verify_response async_channel" where
  "CreateOrder_channel write_request cor thread request =
     saveCallee (Some (Own RpcController)) (Some (write_request (order_verify_request request)))
       (Some VerifyResponse) (Some (Some 0)) (RpcAsyncChannel cor thread)"

definition controller_code :: "controller \<Rightarrow> int" where
  "controller_code ctl = (case ctl of Own c \<Rightarrow> ErrorCode c | Other _ \<Rightarrow> 0)"

text \<open>The handler up to the return of \<open>wait\<close>, or to its yield; \<open>CreateOrder_reply\<close> is what follows.\<close>

definition CreateOrder_handle ::
  "'m async_env \<Rightarrow> (verify_request \<Rightarrow> bytes option) \<Rightarrow> nat \<Rightarrow> io_thread option \<Rightarrow> create_order_request \<Rightarrow> net
     \<Rightarrow> (bool \<times> verify_response async_channel \<times> net) option" where
  "CreateOrder_handle aenv write_request cor thread request nw =
     call_and_wait aenv (CreateOrder_channel write_request cor thread request, nw)"

definition CreateOrder_reply :: "create_order_request \<Rightarrow> verify_response async_channel \<Rightarrow> create_order_response option" where
  "CreateOrder_reply request ch = do {
     ctl \<leftarrow> ac_controller ch;
     v \<leftarrow> ac_response ch;
     Some (if controller_failed ctl
           then CreateOrderResponse\<lparr>or_code := (if controller_code ctl = 0 then -1 else word_of_int (controller_code ctl)),
                                    or_info := controller_text ctl\<rparr>
           else if \<not> vr_passed v then CreateOrderResponse\<lparr>or_code := vr_code v, or_info := vr_info v\<rparr>
           else CreateOrderResponse\<lparr>or_code := 0, or_info := [],
                                    or_order_id := ''order-'' @ nat_str (unat (co_product_id request))\<rparr>) }"

subsection \<open>The consumer\<close>

definition consumer_line :: "string \<Rightarrow> controller \<Rightarrow> create_order_response \<Rightarrow> string" where
  "consumer_line case_name ctl response =
     ''['' @ case_name @ ''] ''
     @ (if controller_failed ctl
        then ''RPC framework error: code='' @ int_str (controller_code ctl) @ '', info='' @ controller_text ctl
        else ''business code='' @ int_str (sint (or_code response)) @ '', info='' @ or_info response
             @ '', order_id='' @ or_order_id response)"

section \<open>Calls whose results are not looked at\<close>

text \<open>The second line of \<open>calluserservice.cc\<close> shows the result of \<open>Login\<close>, whatever \<open>Register\<close> answered.\<close>

lemma register_result_not_shown:
  "errcode (result register_response) = errcode (result response) \<Longrightarrow> register_line response register_response = login_line response"
  by (simp add: register_line_def login_line_def)

text \<open>A method that the registry does not know: the stub's call goes through the null pointer.\<close>

lemma null_controller_crashes:
  assumes "zk_GetData (env_junk env) (env_zk env) (''/'' @ sv_name @ ''/'' @ meth) = Some []"
  shows "CallMethod_null env sv_name meth (Some args) parse = None"
  using assms by (simp add: CallMethod_null_def CallMethod_def call_failed_def)

section \<open>Two services\<close>

lemma call_service_Verify:
  assumes "map_find services ''AuthService'' = Some (Some (AuthServiceImpl parse_request write_response))"
    and "parse_request args = Some q" "write_response (Verify q) = Some out"
  shows "call_service services ''AuthService'' ''Verify'' args = Reply out"
  using assms by (simp add: call_service_def AuthServiceImpl_def)

text \<open>Outside a provider the order is refused at once, with the error of the channel.\<close>

lemma CreateOrder_no_server:
  assumes "as_server aenv = None"
  shows "\<exists>ch. CreateOrder_handle aenv write_request cor thread request nw = Some (False, ch, nw)
    \<and> CreateOrder_reply request ch
        = Some (CreateOrderResponse\<lparr>or_code := word_of_int ERROR_NOT_SET_ASYNC_PRE_CALL,
                  or_info := ''async rpc requires a running RpcProvider IO thread pool''\<rparr>)"
proof -
  let ?ch = "CreateOrder_channel write_request cor thread request"
  have "ac_prepared ?ch" "ac_controller ?ch = Some (Own RpcController)" "ac_response ?ch = Some VerifyResponse"
    by (simp_all add: CreateOrder_channel_def saveCallee_def)
  from call_and_wait_no_server [OF this(1) assms this(2), of nw] this(3) show ?thesis
    by (auto simp: CreateOrder_handle_def CreateOrder_reply_def controller_failed_def controller_text_def controller_code_def
        call_error_def SetError_result ERROR_NOT_SET_ASYNC_PRE_CALL_def)
qed

lemma accepted_controller:
  assumes "async_CallMethod aenv has_method (ctl, ch, nw) = Some (ctl1, ch1, nw1)"
    and "ac_pending ch = None" "ac_pending ch1 \<noteq> None"
  shows "ac_controller ch1 = map_option (number_call (as_run_time aenv) (as_number aenv)) (ac_controller ch)"
  using assms
  by (auto simp: async_CallMethod_def setCallError_def Let_def bind_eq_Some_iff split: if_splits option.splits prod.splits
      call_controller.splits)

lemma number_call_ok: "\<not> controller_failed (number_call rt fresh (Own RpcController))"
  by (auto simp: number_call_def controller_failed_def Failed_def SetMsgReq_def RpcController_def)

definition order_answer :: "create_order_request \<Rightarrow> create_order_response" where
  "order_answer request =
     (if co_password request = ''123456''
      then \<lparr>or_code = 0, or_info = [], or_order_id = ''order-'' @ nat_str (unat (co_product_id request))\<rparr>
      else \<lparr>or_code = 1001, or_info = ''invalid password'', or_order_id = []\<rparr>)"

text \<open>
  C12: Service A answers by what service B says. \<open>CreateOrder\<close> hands its call of \<open>Verify\<close> to another
  io thread and waits; B, with the service of \<open>service_b.cc\<close> in its dispatcher, answers over the network.
  However the two threads of A took turns, once \<open>wait\<close> has returned, A's response is an order with the
  product's number when the password was right, and B's refusal when it was not.
\<close>

theorem order_follows_verification:
  fixes services :: "auth_message service_map"
  defines "ctl0 aenv \<equiv> number_call (as_run_time aenv) (as_number aenv) (Own RpcController)"
  assumes call: "async_CallMethod aenv has_method (ctl, CreateOrder_channel write_request cor thread order, nw) = Some (ctl1, ch1, nw1)"
      "ac_pending ch1 \<noteq> None"
    and run: "(async_step env ''AuthService'' ''Verify'' parse_response)\<^sup>*\<^sup>* (handed_over ch1) w" "wait_over w"
    and zk: "zk_GetData (env_junk env) (env_zk env) ''/AuthService/Verify'' = Some host" "host \<noteq> []"
      "host_and_port host = Some (ip, port)"
    and backend: "map_find services ''AuthService'' = Some (Some (AuthServiceImpl parse_request write_response))"
    and pb: "written_and_read write_request parse_request (order_verify_request order) args"
      "written_and_read write_response parse_response (Verify (order_verify_request order)) out"
    and p: "call_packet env ''AuthService'' ''Verify'' args (ctl0 aenv) = p" "packet_ok p"
      "frame_len (answer_packet services p) \<le> kMaxPacketLen"
    and net: "env_connects env = [a]" "ca_rt a = 0" "\<not> ca_timer a"
      "env_writes env = writes ns" "sum_list ns = frame_len p" "0 \<notin> set ns"
      "delivers (TcpBuffer 128) (frame_of (answer_packet services p)) (env_reads env)"
  shows "CreateOrder_reply order (chan w) = Some (order_answer order)"
proof -
  let ?ch = "CreateOrder_channel write_request cor thread order" and ?q = "order_verify_request order"
  have ch: "ac_pending ?ch = None" "\<not> ac_finished ?ch" "\<not> ac_need_resume ?ch" "ac_request ?ch = Some (write_request ?q)"
    "ac_controller ?ch = Some (Own RpcController)"
    by (simp_all add: CreateOrder_channel_def saveCallee_def RpcAsyncChannel_def)
  have pb': "write_request ?q = Some args" "parse_request args = Some ?q" "write_response (Verify ?q) = Some out"
    "parse_response out = Some (Verify ?q)"
    using pb by (simp_all add: written_and_read_def)
  have zk': "zk_GetData (env_junk env) (env_zk env) (''/'' @ ''AuthService'' @ ''/'' @ ''Verify'') = Some host"
    using zk(1) by simp
  have res: "call_service services ''AuthService'' ''Verify'' args = Reply out"
    by (rule call_service_Verify [OF backend pb'(2,3)])
  from call_gets_answer [OF zk' zk(2,3) p net, of parse_response] obtain e
    where e: "CallMethod env ''AuthService'' ''Verify'' (Some args) parse_response (ctl0 aenv)
      = Some (Called (ctl0 aenv) (Some (Verify ?q)) e)"
    by (auto simp: res call_answer_def pb'(4))
  note one = accepted_one_call(1) [OF call(1) ch(1) call(2) ch(2,3) run(1)]
  have "holds_answer env ''AuthService'' ''Verify'' parse_response ch1 (chan w)"
    using one_call_finished(2,3) [OF one] run(2) by blast
  moreover have "ac_controller ch1 = Some (ctl0 aenv)"
    using accepted_controller [OF call(1) ch(1) call(2)] ch(5) by (simp add: ctl0_def)
  ultimately have "ac_controller (chan w) = Some (ctl0 aenv)" "ac_response (chan w) = Some (Verify ?q)"
    using async_CallMethod_keeps(1) [OF call(1)] ch(4) pb'(1) e by (auto simp: holds_answer_def)
  then show ?thesis
    using number_call_ok [of "as_run_time aenv" "as_number aenv"]
    by (simp add: CreateOrder_reply_def ctl0_def order_answer_def Verify_def order_verify_request_def CreateOrderResponse_def Let_def)
qed

definition verify_write_request :: "verify_request \<Rightarrow> bytes option" where
  "verify_write_request r = Some (nat_str (length (vq_user_name r)) @ '';'' @ vq_user_name r @ vq_password r)"
definition verify_parse_request :: "bytes \<Rightarrow> verify_request option" where
  "verify_parse_request bs =
     (let d = takeWhile is_digit bs; rest = drop (length d + 1) bs; n = digits_val d
      in if length rest < n then None else Some \<lparr>vq_user_name = take n rest, vq_password = drop n rest\<rparr>)"
definition verify_write_response :: "verify_response \<Rightarrow> bytes option" where
  "verify_write_response r = Some (be32 (vr_code r) @ (if vr_passed r then ''y'' else ''n'') @ vr_info r)"
definition verify_parse_response :: "bytes \<Rightarrow> verify_response option" where
  "verify_parse_response bs =
     (if length bs < 5 then None
      else Some \<lparr>vr_code = be32_val (take 4 bs), vr_info = drop 5 bs, vr_passed = (bs ! 4 = CHR ''y'')\<rparr>)"

lemma verify_messages:
  "written_and_read verify_write_request verify_parse_request q
     (nat_str (length (vq_user_name q)) @ '';'' @ vq_user_name q @ vq_password q)"
  "written_and_read verify_write_response verify_parse_response r
     (be32 (vr_code r) @ (if vr_passed r then ''y'' else ''n'') @ vr_info r)"
proof -
  have "takeWhile is_digit (nat_str n @ CHR '';'' # xs) = nat_str n" for n xs
    using nat_str_digits [of n] by (simp add: takeWhile_append2 is_digit_def)
  then show "written_and_read verify_write_request verify_parse_request q
     (nat_str (length (vq_user_name q)) @ '';'' @ vq_user_name q @ vq_password q)"
    by (simp add: written_and_read_def verify_write_request_def verify_parse_request_def Let_def)
  show "written_and_read verify_write_response verify_parse_response r
     (be32 (vr_code r) @ (if vr_passed r then ''y'' else ''n'') @ vr_info r)"
    by (simp add: written_and_read_def verify_write_response_def verify_parse_response_def nth_append)
qed

definition auth_services :: "auth_message service_map" where
  "auth_services = registerService (AuthServiceImpl verify_parse_request verify_write_response) []"

definition wrong_order :: create_order_request where
  "wrong_order = \<lparr>co_user_name = ''zhangsan'', co_password = ''wrong-password'', co_product_id = 2000\<rparr>"

definition verify_args :: bytes where
  "verify_args = nat_str (length (vq_user_name (order_verify_request wrong_order))) @ '';''
     @ vq_user_name (order_verify_request wrong_order) @ vq_password (order_verify_request wrong_order)"

definition verify_packet :: packet where
  "verify_packet = \<lparr>pk_no = ''7'', pk_service = ''AuthService'', pk_method = ''Verify'', pk_code = 0, pk_info = [],
                    pk_data = verify_args\<rparr>"

definition verify_env :: call_env where
  "verify_env = sample_env\<lparr>env_zk := [''/AuthService/Verify'' \<mapsto> Some ''127.0.0.1:8000''],
      env_writes := writes [frame_len verify_packet],
      env_reads := [(Got (frame_of (answer_packet auth_services verify_packet)), [])]\<rparr>"

lemma verify_args_parsed: "verify_parse_request verify_args = Some (order_verify_request wrong_order)"
  using verify_messages(1) [of "order_verify_request wrong_order"] unfolding written_and_read_def verify_args_def by blast

lemma verify_args_length: "length verify_args = 24"
  by code_simp

lemma verify_packet_ok: "packet_ok verify_packet"
  by (simp add: packet_ok_def verify_packet_def frame_len_def full_name_of_def kMinPacketLen_def kMaxPacketLen_def
      verify_args_length)

lemma verify_packet_answer: "frame_len (answer_packet auth_services verify_packet) < 128"
  by (simp add: answer_packet_def packet_of_def deliver_def rpc_reply_def auth_services_def registerService_def
      map_find_def verify_packet_def RpcStruct_def frame_len_def full_name_of_def kMinPacketLen_def AuthServiceImpl_def
      verify_args_parsed verify_write_response_def Verify_def order_verify_request_def wrong_order_def Let_def)

lemma verify_env_fields:
  "zk_GetData (env_junk verify_env) (env_zk verify_env) ''/AuthService/Verify'' = Some ''127.0.0.1:8000''"
  "call_packet verify_env ''AuthService'' ''Verify'' verify_args numbered_controller = verify_packet"
  "env_connects verify_env = [connected]" "env_writes verify_env = writes [frame_len verify_packet]"
  "env_reads verify_env = [(Got (frame_of (answer_packet auth_services verify_packet)), [])]"
  by (simp_all add: verify_env_def zk_GetData_def call_packet_def verify_packet_def call_number_def MsgSeq_def
      SetMsgReq_def RpcController_def numbered_controller_def) (simp_all add: sample_env_def c_str_def numeral_eq_Suc)

definition order_channel :: "verify_response async_channel" where
  "order_channel = CreateOrder_channel verify_write_request 4 (Some (m_io_threads sample_io_pool ! 2)) wrong_order"

definition called_order_channel :: "verify_response async_channel" where
  "called_order_channel = order_channel\<lparr>ac_controller := Some numbered_controller, ac_pending := Some (as_cor sample_async_env)\<rparr>"

lemma order_async_call:
  "\<exists>nw. async_CallMethod sample_async_env True (SavedController, order_channel, sample_net SubReactor)
          = Some (SavedController, called_order_channel, nw)"
  by (simp add: async_CallMethod_def order_channel_def called_order_channel_def CreateOrder_channel_def saveCallee_def
      RpcAsyncChannel_def GetRpcServer_def sample_async_env_def sample_server_def addCoroutineToRandomThread_def
      random_index_def sample_io_pool_def number_call_def numbered_controller_def RpcController_def MsgSeq_def SetMsgReq_def
      getPthreadId_def Let_def)

lemma order_channel_fields:
  "ac_pending order_channel = None" "ac_pending called_order_channel \<noteq> None" "\<not> ac_finished order_channel"
  "\<not> ac_need_resume order_channel" "ac_controller called_order_channel = Some numbered_controller"
  "ac_request called_order_channel = Some (Some verify_args)"
  "ac_origin_io_thread called_order_channel \<noteq> None" "\<not> ac_finished called_order_channel"
  by (simp_all add: order_channel_def called_order_channel_def CreateOrder_channel_def saveCallee_def RpcAsyncChannel_def
      verify_write_request_def verify_args_def)

lemma verify_call:
  "\<exists>e v. CallMethod verify_env ''AuthService'' ''Verify'' (Some verify_args) verify_parse_response numbered_controller
         = Some (Called numbered_controller v e)"
proof -
  let ?q = "answer_packet auth_services verify_packet" and ?v = "Verify (order_verify_request wrong_order)"
  obtain port where port: "host_and_port ''127.0.0.1:8000'' = Some (''127.0.0.1'', port)" using sample_lookup(2) by blast
  have zk: "zk_GetData (env_junk verify_env) (env_zk verify_env) (''/'' @ ''AuthService'' @ ''/'' @ ''Verify'') = Some ''127.0.0.1:8000''"
    using verify_env_fields(1) by simp
  have services: "map_find auth_services ''AuthService'' = Some (Some (AuthServiceImpl verify_parse_request verify_write_response))"
    by (simp add: auth_services_def registerService_def AuthServiceImpl_def map_find_def)
  obtain out where out: "verify_write_response ?v = Some out" "verify_parse_response out = Some ?v"
    using verify_messages(2) [of ?v] unfolding written_and_read_def by blast
  have res: "call_service auth_services ''AuthService'' ''Verify'' verify_args = Reply out"
    by (rule call_service_Verify [OF services verify_args_parsed out(1)])
  have "delivers (TcpBuffer 128) (frame_of ?q) (env_reads verify_env)"
    unfolding verify_env_fields(5) by (rule frame_of_fits [OF verify_packet_answer])
  moreover have "frame_len ?q \<le> kMaxPacketLen" using verify_packet_answer by (simp add: kMaxPacketLen_def)
  ultimately obtain e where "CallMethod verify_env ''AuthService'' ''Verify'' (Some verify_args) verify_parse_response numbered_controller
       = (case call_answer verify_parse_response numbered_controller (pk_info ?q) (call_service auth_services ''AuthService'' ''Verify'' verify_args) of
            (ctl', response) \<Rightarrow> Some (Called ctl' response e))"
    using call_gets_answer [OF zk _ port verify_env_fields(2) verify_packet_ok, of auth_services connected "[frame_len verify_packet]"
        verify_parse_response]
    by (auto simp: verify_env_fields(3,4) connected_def frame_len_pos)
  then show ?thesis by (auto simp: res call_answer_def out(2))
qed

theorem order_follows_verification_witness:
  "\<exists>w. (async_step verify_env ''AuthService'' ''Verify'' verify_parse_response)\<^sup>*\<^sup>* (handed_over called_order_channel) w
     \<and> wait_over w
     \<and> CreateOrder_reply wrong_order (chan w) = Some \<lparr>or_code = 1001, or_info = ''invalid password'', or_order_id = []\<rparr>"
proof -
  obtain nw where call: "async_CallMethod sample_async_env True (SavedController, order_channel, sample_net SubReactor)
      = Some (SavedController, called_order_channel, nw)" using order_async_call by blast
  obtain w0 where w0: "(async_step verify_env ''AuthService'' ''Verify'' verify_parse_response)\<^sup>*\<^sup>* (handed_over called_order_channel) w0"
      "origin w0 = InWait"
    using handed_over_waits [OF order_channel_fields(8,7)] by blast
  obtain e v where e: "CallMethod verify_env ''AuthService'' ''Verify'' (Some verify_args) verify_parse_response numbered_controller
         = Some (Called numbered_controller v e)" using verify_call by blast
  have "one_call verify_env ''AuthService'' ''Verify'' verify_parse_response called_order_channel w0"
    by (rule accepted_one_call [OF call order_channel_fields(1-4) w0(1)])
  from one_call_runs_on [OF this w0(2) order_channel_fields(5,6) e] w0(1) obtain w
    where w: "(async_step verify_env ''AuthService'' ''Verify'' verify_parse_response)\<^sup>*\<^sup>* (handed_over called_order_channel) w" "wait_over w"
    by (blast intro: rtranclp_trans)
  obtain port where port: "host_and_port ''127.0.0.1:8000'' = Some (''127.0.0.1'', port)" using sample_lookup(2) by blast
  have n: "number_call (as_run_time sample_async_env) (as_number sample_async_env) (Own RpcController) = numbered_controller"
    by (simp add: number_call_def sample_async_env_def numbered_controller_def RpcController_def MsgSeq_def SetMsgReq_def)
  have p: "call_packet verify_env ''AuthService'' ''Verify'' verify_args
      (number_call (as_run_time sample_async_env) (as_number sample_async_env) (Own RpcController)) = verify_packet"
    unfolding n by (rule verify_env_fields(2))
  have services: "map_find auth_services ''AuthService'' = Some (Some (AuthServiceImpl verify_parse_request verify_write_response))"
    by (simp add: auth_services_def registerService_def AuthServiceImpl_def map_find_def)
  have args: "written_and_read verify_write_request verify_parse_request (order_verify_request wrong_order) verify_args"
    unfolding verify_args_def by (rule verify_messages(1))
  have d: "delivers (TcpBuffer 128) (frame_of (answer_packet auth_services verify_packet)) (env_reads verify_env)"
    unfolding verify_env_fields(5) by (rule frame_of_fits [OF verify_packet_answer])
  have len: "frame_len (answer_packet auth_services verify_packet) \<le> kMaxPacketLen"
    using verify_packet_answer by (simp add: kMaxPacketLen_def)
  have "CreateOrder_reply wrong_order (chan w) = Some (order_answer wrong_order)"
    by (rule order_follows_verification [OF call [unfolded order_channel_def] order_channel_fields(2) w verify_env_fields(1) _ port
          services args verify_messages(2) p verify_packet_ok len verify_env_fields(3) _ _ verify_env_fields(4) _ _ d])
       (simp_all add: connected_def frame_len_pos)
  with w show ?thesis by (auto simp: order_answer_def wrong_order_def)
qed

end
