(* ===== verification/ServiceCall.thy ===== *)
theory ServiceCall
  imports RpcAsync ServerSession
begin

text \<open>
  A provider and a caller of its services, end to end: \<open>RpcProvider::NotifyService\<close> for the services of a
  program, \<open>RpcProvider::Run\<close>, and then a call of a stub in another process that finds the provider
  through ZooKeeper. Nothing is new here but the composition of theories \<open>Discovery\<close> and \<open>RpcCall\<close>.
\<close>

section \<open>The table of a provider\<close>

text \<open>
  The services \<open>svs\<close> are given to \<open>NotifyService\<close> in order; \<open>object n\<close> is the service object of number \<open>n\<close>,
  whose descriptor has the name and the methods.
\<close>

definition notify_services :: "(nat \<Rightarrow> 'm pb_service) \<Rightarrow> nat list \<Rightarrow> service_table" where
  "notify_services object svs =
     fold (\<lambda>n. NotifyService n (sd_name (object n)) (sd_methods (object n))) svs []"

definition table_entry :: "(nat \<Rightarrow> 'm pb_service) \<Rightarrow> nat \<Rightarrow> string \<times> nat \<times> string list" where
  "table_entry object n = (sd_name (object n), n, sd_methods (object n))"

lemma notify_step:
  assumes "map_ok m"
  shows "map_ok (NotifyService n (sd_name (object n)) (sd_methods (object n)) m)"
    and "set m \<subseteq> set (NotifyService n (sd_name (object n)) (sd_methods (object n)) m)"
    and "set (NotifyService n (sd_name (object n)) (sd_methods (object n)) m) \<subseteq> insert (table_entry object n) (set m)"
    and "map_find m (sd_name (object n)) = None
      \<Longrightarrow> table_entry object n \<in> set (NotifyService n (sd_name (object n)) (sd_methods (object n)) m)"
proof -
  let ?name = "sd_name (object n)"
  show "map_ok (NotifyService n ?name (sd_methods (object n)) m)"
    using assms by (simp add: NotifyService_def)
  show "set (NotifyService n ?name (sd_methods (object n)) m) \<subseteq> insert (table_entry object n) (set m)"
    by (auto simp: NotifyService_def map_emplace_def table_entry_def split: option.split dest: subsetD [OF set_map_put])
  have free: "{e \<in> set m. fst e \<noteq> ?name} = set m" if "map_find m ?name = None"
    using that by (force simp: map_find_def map_of_eq_None_iff)
  show "set m \<subseteq> set (NotifyService n ?name (sd_methods (object n)) m)"
    using free by (cases "map_find m ?name") (simp_all add: NotifyService_def map_emplace_def set_map_put_ok [OF assms] subset_insertI)
  show "table_entry object n \<in> set (NotifyService n ?name (sd_methods (object n)) m)" if "map_find m ?name = None"
    using that by (simp add: NotifyService_def map_emplace_def set_map_put_ok [OF assms] table_entry_def)
qed

lemma notify_fold:
  assumes "map_ok m" and "distinct (map (\<lambda>n. sd_name (object n)) svs)"
    and "\<forall>n\<in>set svs. map_find m (sd_name (object n)) = None"
  shows "map_ok (fold (\<lambda>n. NotifyService n (sd_name (object n)) (sd_methods (object n))) svs m)
    \<and> set (fold (\<lambda>n. NotifyService n (sd_name (object n)) (sd_methods (object n))) svs m)
       = set m \<union> table_entry object ` set svs"
  using assms
proof (induction svs arbitrary: m)
  case (Cons n svs)
  let ?m = "NotifyService n (sd_name (object n)) (sd_methods (object n)) m"
  note step = notify_step [OF Cons.prems(1), where object = object and n = n]
  have set: "set ?m = insert (table_entry object n) (set m)" using step(2-4) Cons.prems(3) by auto
  have "\<forall>k\<in>set svs. map_find ?m (sd_name (object k)) = None"
    using Cons.prems(2,3) by (auto simp: map_find_def map_of_eq_None_iff set table_entry_def image_iff)
  then show ?case using Cons.IH [OF step(1)] Cons.prems(2) set by auto
qed simp

lemma notify_services_table:
  assumes "distinct (map (\<lambda>n. sd_name (object n)) svs)"
  shows "map_ok (notify_services object svs)"
    and "set (notify_services object svs) = table_entry object ` set svs"
  using notify_fold [of "[]", OF map_ok_Nil assms] by (simp_all add: notify_services_def)

section \<open>The service behind a published method\<close>

definition method_result :: "'m pb_service \<Rightarrow> string \<Rightarrow> bytes \<Rightarrow> call_result" where
  "method_result sv meth pb =
     (case sd_parse sv meth pb of
        None \<Rightarrow> BadRequest
      | Some q \<Rightarrow> (case sd_serialize sv (sd_call sv meth q) of None \<Rightarrow> BadResponse | Some r \<Rightarrow> Reply r))"

lemma registered_lookup:
  assumes "map_ok disp"
    and "\<forall>sp\<in>set m. sp = table_entry object (fst (snd sp))" "distinct (map fst m)"
  shows "map_find (fold (\<lambda>sp. registerService (object (fst (snd sp)))) m disp) name
     = (case map_of m name of Some (n, _) \<Rightarrow> Some (Some (object n)) | None \<Rightarrow> map_find disp name)"
  using assms
proof (induction m arbitrary: disp)
  case (Cons sp m)
  obtain n where sp: "sp = table_entry object n" using Cons.prems(2) by auto
  have "map_ok (registerService (object n) disp)" using Cons.prems(1) by (simp add: registerService_def)
  note IH = Cons.IH [OF this] Cons.prems(2,3)
  have "name = sd_name (object n) \<Longrightarrow> map_of m name = None"
    using Cons.prems(3) by (auto simp: sp table_entry_def map_of_eq_None_iff)
  then show ?case
    using IH Cons.prems(1) by (auto simp: sp table_entry_def registerService_def std.look_put split: option.split)
qed simp

lemma provider_service:
  assumes s: "TcpServer boots k caller now cfg TinyPb_Protocal fam tm e1 e2 w = Some (s, w')"
    and run: "provider_Run inet created cfg object (notify_services object svs) s z = Some (addr, s', z')"
    and svs: "distinct (map (\<lambda>n. sd_name (object n)) svs)" "n \<in> set svs" "meth \<in> set (sd_methods (object n))"
  shows "\<exists>services. m_dispatcher s' = RpcDispatcher services
     \<and> call_service services (sd_name (object n)) meth args = method_result (object n) meth args"
proof -
  let ?m = "notify_services object svs"
  have s_fields: "m_protocal_type s = TinyPb_Protocal" "m_dispatcher s = RpcDispatcher []"
    using s by (auto simp: TcpServer_def bind_eq_Some_iff Let_def)
  have disp: "m_dispatcher s' = RpcDispatcher (fold (\<lambda>sp. registerService (object (fst (snd sp)))) ?m [])"
    using run registered_services [OF s_fields, of object ?m] by (auto simp: provider_Run_def Let_def)
  note table = notify_services_table [OF svs(1)]
  have m: "\<forall>sp\<in>set ?m. sp = table_entry object (fst (snd sp))" "distinct (map fst ?m)"
    using table by (auto simp: table_entry_def map_ok_def strict_sorted_iff)
  have "map_of ?m (sd_name (object n)) = Some (n, sd_methods (object n))"
    using m(2) svs(2) table(2) by (auto simp: table_entry_def)
  then have "map_find (fold (\<lambda>sp. registerService (object (fst (snd sp)))) ?m []) (sd_name (object n)) = Some (Some (object n))"
    using registered_lookup [OF map_ok_Nil m] by simp
  then show ?thesis using disp svs(3) by (simp add: call_service_def method_result_def)
qed

lemma host_and_port_toString:
  assumes "CHR '':'' \<notin> set (m_ip a)"
  shows "host_and_port (IPAddress_toString a) = Some (m_ip a, m_port a)"
proof -
  let ?ns = "nat_str (unat (m_port a))"
  have find: "find_sub '':'' (m_ip a @ CHR '':'' # ?ns) = Some (length (m_ip a))"
  proof (rule find_sub_first)
    show "\<forall>j<length (m_ip a). \<not> prefix '':'' (drop j (m_ip a @ CHR '':'' # ?ns))"
    proof (intro allI impI)
      fix j assume j: "j < length (m_ip a)"
      then have "m_ip a ! j \<noteq> CHR '':''" using assms nth_mem by fastforce
      then show "\<not> prefix '':'' (drop j (m_ip a @ CHR '':'' # ?ns))"
        using j by (simp add: Cons_nth_drop_Suc [symmetric])
    qed
  qed simp_all
  have "unat (m_port a) < 65536" using unsigned_less [of "m_port a", where ?'a = nat] by simp
  then have "atoi ?ns = int (unat (m_port a))"
    using split_addr_toString [OF assms, of "unat (m_port a)"] assms by (simp add: split_addr_def substr_def)
  then show ?thesis by (simp add: host_and_port_def IPAddress_toString_def find substr_def)
qed

section \<open>A published method can be called\<close>

text \<open>
  C31: What a provider publishes, a caller can call. A program gives its services, of distinct names, to
  \<open>NotifyService\<close> and calls \<open>Run\<close>, which registers them with a new server and publishes their methods in
  ZooKeeper, where other providers may be. A stub in another process then calls any of these methods
  by its name, knowing nothing but ZooKeeper. The channel finds the address at which the server listens,
  the call reaches an idle connection of that server, which sends exactly one answer and is idle again, and the
  call returns with what the method of the published object makes of the request: its response, or
  the error of a request or response that cannot be parsed or serialized. It is never answered that the
  service or the method is missing. Both sides may read and write in any pieces; the address must be short enough for the
  caller's buffer, which must happen to hold a zero behind it.
\<close>

theorem published_method_called:
  fixes object :: "nat \<Rightarrow> 'm pb_service" and parse :: "bytes \<Rightarrow> 'r option" and args :: bytes and ctl :: controller
  assumes provider: "TcpServer boots k caller now cfg TinyPb_Protocal fam tm e1 e2 w = Some (s0, w0)"
      "provider_Run inet created cfg object (notify_services object svs) s0 z = Some (addr, server, z')"
    and service: "distinct (map (\<lambda>n. sd_name (object n)) svs)" "plain_table (notify_services object svs)"
      "n \<in> set svs" "meth \<in> set (sd_methods (object n))" "z (''/'' @ sd_name (object n) @ ''/'' @ meth) = None"
    and ip: "CHR '':'' \<notin> set (m_rpc_server_ip cfg)" "CHR 0x00 \<notin> set (m_rpc_server_ip cfg)"
    and caller: "env_zk env = z'" "length (env_junk env) = 64" "length (IPAddress_toString addr) < 64"
      "env_junk env ! length (IPAddress_toString addr) = CHR 0x00"
  defines "services \<equiv> rpc_table (m_dispatcher server)"
  defines "request \<equiv> call_packet env (sd_name (object n)) meth args ctl"
  defines "answer \<equiv> answer_packet services request"
  assumes fits: "packet_ok request" "frame_len answer \<le> kMaxPacketLen" "idle_server c"
    and net: "env_connects env = [a]" "ca_rt a = 0" "\<not> ca_timer a"
      "env_writes env = writes ns" "sum_list ns = frame_len request" "0 \<notin> set ns"
      "delivers (m_read_buffer c) (frame_of request) rs" "sum_list ms = frame_len answer" "0 \<notin> set ms"
      "delivers (TcpBuffer 128) (frame_of answer) (env_reads env)"
  shows "\<exists>c' rt' e1 e2.
     host_and_port (IPAddress_toString addr) = Some (m_ip addr, m_port addr)
   \<and> zk_GetData (env_junk env) (env_zk env) (''/'' @ sd_name (object n) @ ''/'' @ meth) = Some (IPAddress_toString addr)
   \<and> MainServerLoopCorFunc services servlets fresh (rs, writes ms) (c, rt) = Some ((c', rt'), e1, Suspended)
   \<and> idle_server c' \<and> sent_bytes e1 = frame_of answer
   \<and> CallMethod env (sd_name (object n)) meth (Some args) parse ctl
       = (case call_answer parse ctl (pk_info answer) (method_result (object n) meth args) of
            (ctl', response) \<Rightarrow> Some (Called ctl' response e2))
   \<and> sent_bytes e2 = frame_of request"
proof -
  note table = notify_services_table [OF service(1)]
  have entry: "(sd_name (object n), n, sd_methods (object n)) \<in> set (notify_services object svs)"
    using table(2) service(3) by (auto simp: table_entry_def)
  note found = published_address [OF provider(2) service(2) table(1) entry service(4,5) ip(2) caller(3,2,4)]
  have "m_ip addr = m_rpc_server_ip cfg" using found(2) by (simp add: IPAddress_ip_port_def)
  then have host: "host_and_port (IPAddress_toString addr) = Some (m_ip addr, m_port addr)"
    using host_and_port_toString [of addr] ip(1) by simp
  have zk: "zk_GetData (env_junk env) (env_zk env) (''/'' @ sd_name (object n) @ ''/'' @ meth) = Some (IPAddress_toString addr)"
    "IPAddress_toString addr \<noteq> []" using found(1) caller(1) by (simp_all add: IPAddress_toString_def)
  have result: "call_service services (sd_name (object n)) meth args = method_result (object n) meth args"
    using provider_service [OF provider service(1,3,4), of args] by (auto simp: services_def rpc_table_def)
  show ?thesis
    using serve_request [OF fits(3,1,2) [unfolded answer_def] net(7,8) [unfolded answer_def] net(9), of servlets fresh rt]
      call_gets_answer [where parse = parse, OF zk host refl fits(1,2) [unfolded request_def answer_def]
          net(1-6,10) [unfolded request_def answer_def]] host zk(1)
    unfolding request_def answer_def result by (elim exE conjE) (intro exI conjI)
qed

text \<open>A provider of one service, and a call of its method.\<close>

definition reversing_object :: "nat \<Rightarrow> string pb_service" where
  "reversing_object n =
     \<lparr>sd_name = ''User'', sd_methods = [''Login''], sd_request_type = (\<lambda>_. ''LoginRequest''),
      sd_parse = (\<lambda>m bs. if bs = [] then None else Some bs), sd_call = (\<lambda>m q. rev q), sd_serialize = Some\<rparr>"

lemma reversing_registered: "registerService (reversing_object n) [] = sample_services"
  by (simp add: sample_services_def reversing_object_def)

lemma reversing_table: "notify_services reversing_object [0] = [(''User'', 0, [''Login''])]"
  by (simp add: notify_services_def NotifyService_def reversing_object_def map_emplace_def)

lemma reversing_result: "method_result (reversing_object n) meth ''ab'' = Reply ''ba''"
  by (simp add: method_result_def reversing_object_def)

lemma sample_rpc_server:
  "\<exists>s w. TcpServer sample_boots \<lparr>boot_epfd = 3, boot_wake = 8\<rparr> 7 0 (default_config\<lparr>m_iothread_num := 1\<rparr>) TinyPb_Protocal AF_INET
            blank_timer 0 1 blank_net = Some (s, w)"
  by (simp add: TcpServer_def IOThreadPool_def IOThread_def Reactor_def GetReactor_def blank_net_def sample_net_def
      default_config_def upt_rec Let_def)

definition published_env :: "zk \<Rightarrow> call_env" where
  "published_env z = answered_env\<lparr>env_zk := z\<rparr>"

lemma published_env_fields:
  "env_zk (published_env z) = z" "env_junk (published_env z) = replicate 64 CHR 0x00"
  "env_connects (published_env z) = [connected]" "env_writes (published_env z) = writes [frame_len sample_request]"
  "env_reads (published_env z) = [(Got (frame_of (answer_packet sample_services sample_request)), [])]"
  "call_packet (published_env z) ''User'' ''Login'' ''ab'' (Own RpcController) = sample_request"
  by (simp_all add: published_env_def answered_env_def sample_env_def call_packet_def sample_request_def call_number_def
      MsgSeq_def RpcController_def)

text \<open>What a provider of the sample service publishes, and its server.\<close>

lemma reversing_provider:
  assumes "TcpServer boots k caller now cfg TinyPb_Protocal fam tm e1 e2 w = Some (s0, w0)"
  shows "\<exists>server z'. provider_Run (\<lambda>_. Some 1) (\<lambda>_. True) default_config reversing_object (notify_services reversing_object [0]) s0 Map.empty
       = Some (IPAddress_ip_port (\<lambda>_. Some 1) ''127.0.0.1'' (word_of_int 8000), server, z')
     \<and> rpc_table (m_dispatcher server) = sample_services"
proof -
  have s0: "m_protocal_type s0 = TinyPb_Protocal" "m_dispatcher s0 = RpcDispatcher []"
    using assms by (auto simp: TcpServer_def bind_eq_Some_iff Let_def)
  have "method_path_data ''127.0.0.1'' (word_of_int 8000) \<noteq> None"
    using shown_sample by (simp add: method_path_data_def Let_def IPAddress_toString_def IPAddress_ip_port_def c_str_def)
  then show ?thesis
    by (auto simp: provider_Run_def default_config_def Let_def zk_Create_def reversing_table server_registerService_def s0
        rpc_table_def reversing_registered)
qed

theorem published_method_called_witness:
  "\<exists>(s0 :: string tcp_server) w0 addr server z' c' rt' e1 e2.
     TcpServer sample_boots \<lparr>boot_epfd = 3, boot_wake = 8\<rparr> 7 0 (default_config\<lparr>m_iothread_num := 1\<rparr>) TinyPb_Protocal AF_INET
       blank_timer 0 1 blank_net = Some (s0, w0)
   \<and> provider_Run (\<lambda>_. Some 1) (\<lambda>_. True) (default_config\<lparr>m_iothread_num := 1\<rparr>) reversing_object
       (notify_services reversing_object [0]) s0 Map.empty = Some (addr, server, z')
   \<and> MainServerLoopCorFunc (rpc_table (m_dispatcher server)) [] []
       ([(Got (frame_of sample_request), [])], writes [frame_len (answer_packet sample_services sample_request)])
       (fst (TcpConnection_server TinyPb_Protocal 7 128), no_run_time) = Some ((c', rt'), e1, Suspended)
   \<and> CallMethod (published_env z') ''User'' ''Login'' (Some ''ab'') Some (Own RpcController)
       = Some (Called (Own RpcController) (Some ''ba'') e2)"
proof -
  let ?q = "answer_packet sample_services sample_request" and ?c = "fst (TcpConnection_server TinyPb_Protocal 7 128)"
  let ?addr = "IPAddress_ip_port (\<lambda>_. Some 1) ''127.0.0.1'' (word_of_int 8000)"
  let ?cfg = "default_config\<lparr>m_iothread_num := 1\<rparr>"
  obtain s0 :: "string tcp_server" and w0 where s0: "TcpServer sample_boots \<lparr>boot_epfd = 3, boot_wake = 8\<rparr> 7 0 ?cfg
      TinyPb_Protocal AF_INET blank_timer 0 1 blank_net = Some (s0, w0)"
    using sample_rpc_server by blast
  obtain server z' where run: "provider_Run (\<lambda>_. Some 1) (\<lambda>_. True) ?cfg reversing_object
      (notify_services reversing_object [0]) s0 Map.empty = Some (?addr, server, z')"
    and table: "rpc_table (m_dispatcher server) = sample_services"
    using reversing_provider [OF s0] by (auto simp: provider_Run_def)
  have obj: "sd_name (reversing_object 0) = ''User''" "sd_methods (reversing_object 0) = [''Login'']"
    by (simp_all add: reversing_object_def)
  have len: "frame_len ?q \<le> kMaxPacketLen" using sample_answer by (simp add: kMaxPacketLen_def)
  have shown: "length (IPAddress_toString ?addr) < 64"
    "replicate 64 CHR 0x00 ! length (IPAddress_toString ?addr) = CHR 0x00" unfolding shown_sample by simp_all
  have plain: "plain_table (notify_services reversing_object [0])" by (simp add: plain_table_def reversing_table)
  have "\<exists>c' rt' e1 e2.
     MainServerLoopCorFunc sample_services [] [] ([(Got (frame_of sample_request), [])], writes [frame_len ?q]) (?c, no_run_time)
       = Some ((c', rt'), e1, Suspended)
   \<and> CallMethod (published_env z') ''User'' ''Login'' (Some ''ab'') Some (Own RpcController)
       = (case call_answer Some (Own RpcController) (pk_info ?q) (method_result (reversing_object 0) ''Login'' ''ab'') of
            (ctl', response) \<Rightarrow> Some (Called ctl' response e2))"
    using published_method_called [where env = "published_env z'" and server = server and object = reversing_object and n = 0 and meth = "''Login''"
        and args = "''ab''" and ctl = "Own RpcController" and parse = Some and servlets = "[]" and fresh = "[]" and rt = no_run_time
        and a = connected and ns = "[frame_len sample_request]" and c = ?c and ms = "[frame_len ?q]"
        and rs = "[(Got (frame_of sample_request), [])]",
        unfolded published_env_fields obj table accepted_buffer, OF s0 run _ plain _ _ _ _ _ refl _ shown sample_packet_ok(1) len
          idle_server_accepted refl _ _ refl _ _ frame_of_fits [OF sample_packet_ok(2)] _ _ frame_of_fits [OF sample_answer]]
    by (auto simp: connected_def frame_len_pos default_config_def)
  with s0 run table show ?thesis by (auto simp: reversing_result call_answer_def)
qed

end
