(* ===== verification/IdleReaper.thy ===== *)
theory IdleReaper
  imports TimeWheel ServerSession
begin

text \<open>
  Idle connections, from the accept to the release of their coroutine: \<open>TcpServer\<close>, \<open>TcpTimeWheel\<close>,
  \<open>AbstractSlot\<close> and \<open>TcpConnection\<close> together. A connection's slot has the number of the connection. A slot is
  referenced by the buckets of the wheel and by the tasks that \<open>freshTcpConnection\<close> has posted to the main
  reactor and that have not run; its weak pointer in the connection can be locked as long as one of them does.
  A connection is referenced by \<open>m_clients\<close>.
\<close>

section \<open>The parts together\<close>

record 'm idle_state =
  is_server :: "'m tcp_server"
  is_net :: net
  is_posted :: "nat list"

definition living :: "'m tcp_server \<Rightarrow> nat \<Rightarrow> bool" where
  "living s n \<longleftrightarrow> Some n \<in> set (map snd (m_clients s))"

text \<open>
  The events: an accepted connection, a turn of a connection's coroutine with what it reads and writes, the
  next posted task, the wheel's timer and the server's timer.
\<close>

datatype idle_event =
    Accept int nat | Turn nat read_script write_script string | PostedTask | WheelTick | ClearClients

text \<open>The last reference to each of the slots goes: \<open>~AbstractSlot\<close>, in the order of the bucket.\<close>

definition destroy_slot :: "nat \<Rightarrow> 'm tcp_server \<Rightarrow> 'm tcp_server \<times> TcpConnection.effect list" where
  "destroy_slot n s =
     (case AbstractSlot_destroy (if living s n then Some (conns s n) else None) of
        (Some c, e) \<Rightarrow> (s\<lparr>conns := (conns s)(n := c)\<rparr>, e)
      | (None, e) \<Rightarrow> (s, e))"

fun destroy_slots :: "nat list \<Rightarrow> 'm tcp_server \<Rightarrow> 'm tcp_server \<times> TcpConnection.effect list" where
  "destroy_slots [] s = (s, [])"
| "destroy_slots (n # ns) s =
     (let (s, e) = destroy_slot n s; (s, e') = destroy_slots ns s in (s, e @ e'))"

text \<open>The tasks that a turn posts: one for each \<open>fresh\<close> of a slot that can still be locked.\<close>

definition posts :: "'m idle_state \<Rightarrow> TcpConnection.effect list \<Rightarrow> nat list" where
  "posts st e = concat (map (\<lambda>x. case x of
     FreshSlot n \<Rightarrow> if n \<in> set (is_posted st) \<or> n \<in> set (concat (m_time_wheel (is_server st))) then [n] else []
   | _ \<Rightarrow> []) e)"

fun idle_step ::
  "(int \<Rightarrow> fd_ptr) \<Rightarrow> idle_event \<Rightarrow> 'm idle_state \<Rightarrow> ('m idle_state \<times> TcpConnection.effect list) option" where
  "idle_step addr (Accept rt cor) st = do {
     let s = is_server st;
     (s', w) \<leftarrow> accept_turn addr (rt, cor, next_conn s) s (is_net st);
     Some (st\<lparr>is_server := s', is_net := w,
              is_posted := is_posted st @ (if next_conn s' = next_conn s then [] else [next_conn s])\<rparr>, []) }"
| "idle_step addr (Turn n rs ws fresh) st = do {
     let s = is_server st;
     if \<not> living s n then None
     else do {
       ((c, _), e, _) \<leftarrow> MainServerLoopCorFunc (rpc_table (m_dispatcher s)) (http_table (m_dispatcher s)) fresh (rs, ws)
                            (conns s n, no_run_time);
       Some (st\<lparr>is_server := s\<lparr>conns := (conns s)(n := c)\<rparr>, is_posted := is_posted st @ posts st e\<rparr>, e) } }"
| "idle_step addr PostedTask st = (case is_posted st of
       [] \<Rightarrow> Some (st, [])
     | n # ns \<Rightarrow> do {
         w \<leftarrow> wheel_fresh n (m_time_wheel (is_server st));
         Some (st\<lparr>is_server := (is_server st)\<lparr>m_time_wheel := w\<rparr>, is_posted := ns\<rparr>, []) })"
| "idle_step addr WheelTick st = do {
     (w, dead) \<leftarrow> loopFunc (m_time_wheel (is_server st));
     let (s, e) = destroy_slots (filter (\<lambda>n. n \<notin> set (is_posted st)) dead) ((is_server st)\<lparr>m_time_wheel := w\<rparr>);
     Some (st\<lparr>is_server := s\<rparr>, e) }"
| "idle_step addr ClearClients st =
     (let (s, e) = ClearClientTimerFunc (is_server st) in Some (st\<lparr>is_server := s\<rparr>, e))"

fun idle_run ::
  "(int \<Rightarrow> fd_ptr) \<Rightarrow> idle_event list \<Rightarrow> 'm idle_state \<Rightarrow> ('m idle_state \<times> TcpConnection.effect list) option" where
  "idle_run addr [] st = Some (st, [])"
| "idle_run addr (ev # evs) st = do {
     (st, e) \<leftarrow> idle_step addr ev st;
     (st, e') \<leftarrow> idle_run addr evs st;
     Some (st, e @ e') }"

lemma idle_run_append:
  "idle_run addr (evs @ evs') st = do {
     (st, e) \<leftarrow> idle_run addr evs st;
     (st, e') \<leftarrow> idle_run addr evs' st;
     Some (st, e @ e') }"
  by (induction evs arbitrary: st) (auto simp: bind_eq_Some_iff split: Option.bind_splits)

definition wheel_ticks :: "idle_event list \<Rightarrow> nat" where
  "wheel_ticks evs = length (filter (\<lambda>ev. ev = WheelTick) evs)"

text \<open>Events that leave connection \<open>n\<close> on descriptor \<open>fd\<close> alone: no traffic on it, and its descriptor, which is open, is not accepted again.\<close>

definition spares :: "nat \<Rightarrow> int \<Rightarrow> idle_event \<Rightarrow> bool" where
  "spares n fd ev = (case ev of Turn m _ _ _ \<Rightarrow> m \<noteq> n | Accept rt _ \<Rightarrow> rt \<noteq> fd | _ \<Rightarrow> True)"

section \<open>A connection without traffic\<close>

text \<open>The connection is filed, connected, and in the wheel: its slot is in bucket \<open>i\<close> and in none behind.\<close>

definition filed :: "nat \<Rightarrow> int \<Rightarrow> 'm tcp_server \<Rightarrow> bool" where
  "filed n fd s \<longleftrightarrow> map_ok (m_clients s) \<and> map_find (m_clients s) fd = Some (Some n) \<and> n < next_conn s"

definition idles :: "nat \<Rightarrow> int \<Rightarrow> tcp_connection \<Rightarrow> nat \<Rightarrow> 'm idle_state \<Rightarrow> bool" where
  "idles n fd c i st \<longleftrightarrow>
     filed n fd (is_server st) \<and> conns (is_server st) n = c \<and> n \<notin> set (is_posted st)
     \<and> last_in n (m_time_wheel (is_server st)) i"

lemma filed_living: "filed n fd s \<Longrightarrow> living s n"
  using map_find_Some_mem [of "m_clients s" fd "Some n"] by (force simp: filed_def living_def)

lemma destroy_slot_eq:
  "destroy_slot n s = (if living s n
     then (s\<lparr>conns := (conns s)(n := fst (shutdownConnection (conns s n)))\<rparr>, snd (shutdownConnection (conns s n)))
     else (s, []))"
  by (simp add: destroy_slot_def AbstractSlot_destroy_def split: prod.split)

lemma destroy_slots_frame [simp]:
  "m_clients (fst (destroy_slots ns s)) = m_clients s" "next_conn (fst (destroy_slots ns s)) = next_conn s"
  "m_time_wheel (fst (destroy_slots ns s)) = m_time_wheel s" "m_dispatcher (fst (destroy_slots ns s)) = m_dispatcher s"
  by (induction ns arbitrary: s) (simp_all add: Let_def split_beta destroy_slot_eq)

lemma destroy_slots_other: "n \<notin> set ns \<Longrightarrow> conns (fst (destroy_slots ns s)) n = conns s n"
  by (induction ns arbitrary: s) (simp_all add: Let_def split_beta destroy_slot_eq)

lemma destroy_slots_hit:
  assumes "n \<in> set ns" "distinct ns" "living s n"
  shows "conns (fst (destroy_slots ns s)) n = fst (shutdownConnection (conns s n))"
  using assms
proof (induction ns arbitrary: s)
  case (Cons m ns)
  have "living (fst (destroy_slot m s)) n" using Cons.prems(3) by (simp add: destroy_slot_eq living_def)
  then show ?case
    using Cons by (cases "m = n") (auto simp: Let_def split_beta destroy_slots_other destroy_slot_eq)
qed simp

text \<open>What the destruction of slots does to descriptor \<open>fd\<close>.\<close>

lemma destroy_slots_shutdown:
  assumes "ShutdownFd fd \<in> set (snd (destroy_slots ns s))"
  shows "\<exists>m\<in>set ns. living s m \<and> TcpConnection.m_fd (conns s m) = fd"
  using assms
proof (induction ns arbitrary: s)
  case (Cons m ns)
  have fd: "TcpConnection.m_fd (conns (fst (destroy_slot m s)) k) = TcpConnection.m_fd (conns s k)" for k
    by (auto simp: destroy_slot_eq shutdownConnection_def setState_def Let_def)
  have living: "living (fst (destroy_slot m s)) k = living s k" for k by (simp add: destroy_slot_eq living_def)
  from Cons.prems have "ShutdownFd fd \<in> set (snd (destroy_slot m s))
      \<or> ShutdownFd fd \<in> set (snd (destroy_slots ns (fst (destroy_slot m s))))"
    by (simp add: Let_def split_beta)
  then show ?case
  proof
    assume "ShutdownFd fd \<in> set (snd (destroy_slot m s))"
    then have "living s m \<and> TcpConnection.m_fd (conns s m) = fd"
      by (auto simp: destroy_slot_eq shutdownConnection_def Let_def split: if_splits)
    then show ?thesis by simp
  next
    assume "ShutdownFd fd \<in> set (snd (destroy_slots ns (fst (destroy_slot m s))))"
    from Cons.IH [OF this] show ?thesis by (auto simp: fd living)
  qed
qed simp

section \<open>A turn posts only the connection's own slot\<close>

lemma shutdown_slot: "m_weak_slot (fst (shutdownConnection c)) = m_weak_slot c"
  "FreshSlot k \<notin> set (snd (shutdownConnection c))"
  by (simp_all add: shutdownConnection_def setState_def Let_def)

lemma meanwhile_slot:
  "m_weak_slot (fst (apply_meanwhile ms c)) = m_weak_slot c \<and> FreshSlot k \<notin> set (snd (apply_meanwhile ms c))"
proof (induction ms arbitrary: c)
  case (Cons m ms)
  then show ?case
    by (cases m) (simp_all add: setOverTimeFlag_def split_beta Let_def shutdown_slot)
qed simp

lemma input_loop_slot:
  "input_loop rs c = Some (c', rs', e, fin) \<Longrightarrow> m_weak_slot c' = m_weak_slot c \<and> FreshSlot k \<notin> set e"
proof (induction rs arbitrary: c c' rs' e fin)
  case Nil
  then show ?case by (auto simp: bind_eq_Some_iff)
next
  case (Cons x rs)
  obtain rt ms where x: "x = (rt, ms)" by fastforce
  let ?bs = "case rt of Got bs \<Rightarrow> bs | ReadError \<Rightarrow> []"
  from Cons.prems obtain b b' where b: "make_room (m_read_buffer c) = Some b"
    "(if ?bs \<noteq> [] then store_read ?bs b else Some b) = Some b'"
    unfolding x input_loop.simps by (auto simp only: bind_eq_Some_iff Let_def)
  obtain c1 e1 where c1: "apply_meanwhile ms (c\<lparr>m_read_buffer := b'\<rparr>) = (c1, e1)" by fastforce
  have slot: "m_weak_slot c1 = m_weak_slot c" "FreshSlot k \<notin> set e1"
    using meanwhile_slot [of ms "c\<lparr>m_read_buffer := b'\<rparr>" k] by (simp_all add: c1)
  have step: "(if m_is_over_time c1 then Some (c1, rs, e1, StoppedOverTime)
     else if ?bs = [] then Some (c1, rs, e1, CloseFlag)
     else if length ?bs = nat (writeAble b) then do {
       (c, script, e', fin) \<leftarrow> input_loop rs c1; Some (c, script, e1 @ e', fin) }
     else Some (c1, rs, e1, ReadAll)) = Some (c', rs', e, fin)"
    using Cons.prems unfolding x input_loop.simps by (simp only: b c1 Let_def bind.bind_lunit prod.case)
  show ?case
  proof (cases "\<exists>y. input_loop rs c1 = Some y")
    case True
    then obtain c2 rs2 e2 fin2 where r: "input_loop rs c1 = Some (c2, rs2, e2, fin2)" by (metis prod_cases4)
    from Cons.IH [OF this] show ?thesis using step slot by (simp only: r bind.bind_lunit prod.case) (auto split: if_splits)
  next
    case False
    then have "input_loop rs c1 = None" by (cases "input_loop rs c1") auto
    then show ?thesis using step slot by (auto split: if_splits)
  qed
qed

lemma conn_input_slot:
  "conn_input is_main rs c = Some (c', rs', e, fin) \<Longrightarrow>
     m_weak_slot c' = m_weak_slot c \<and> (FreshSlot k \<in> set e \<longrightarrow> m_weak_slot c = Some k)"
  by (auto simp: conn_input_def clearClient_def setState_def bind_eq_Some_iff Let_def dest: input_loop_slot [where k = k]
      split: if_splits option.splits)

lemma drain_slot:
  assumes "drain dec succ fresh_data hand s = Some s'"
    and "\<And>d s s'. hand d s = Some s' \<Longrightarrow> m_weak_slot (fst s') = m_weak_slot (fst s)"
  shows "m_weak_slot (fst s') = m_weak_slot (fst s)"
proof -
  have "(\<forall>d s s'. hand d s = Some s' \<longrightarrow> m_weak_slot (fst s') = m_weak_slot (fst s)) \<longrightarrow> m_weak_slot (fst s') = m_weak_slot (fst s)"
    apply (rule drain.raw_induct [OF _ assms(1)])
    apply (intro impI)
    subgoal premises p for dr dec succ fresh_data hand s s'
    proof (cases "0 < readAble (m_read_buffer (fst s))")
      case True
      with p(2) obtain b d where d: "dec (m_read_buffer (fst s)) fresh_data = Some (b, d)" by (auto simp: bind_eq_Some_iff)
      show ?thesis
      proof (cases "succ d")
        case True
        with p(2) d \<open>0 < readAble _\<close> obtain s1 where "hand d ((fst s)\<lparr>m_read_buffer := b\<rparr>, snd s) = Some s1"
          "dr dec succ fresh_data hand s1 = Some s'"
          by (auto simp: bind_eq_Some_iff Let_def)
        note h = this
        have "m_weak_slot (fst s1) = m_weak_slot (fst s)" using p(3) [rule_format, OF h(1)] by simp
        moreover have "m_weak_slot (fst s') = m_weak_slot (fst s1)" using p(1) [OF h(2)] p(3) by blast
        ultimately show ?thesis by simp
      qed (use p(2) d \<open>0 < readAble _\<close> in \<open>auto simp: Let_def\<close>)
    qed (use p(2) in simp)
    done
  then show ?thesis using assms(2) by blast
qed

lemma codec_encode_slot: "codec_encode fresh d c = Some c' \<Longrightarrow> m_weak_slot c' = m_weak_slot c"
  by (auto simp: codec_encode_def bind_eq_Some_iff)

lemma dispatch_slot:
  "RpcDispatcher_dispatch services fresh d s = Some s' \<Longrightarrow> m_weak_slot (fst s') = m_weak_slot (fst s)"
  "HttpDispatcher_dispatch servlets fresh d s = Some s' \<Longrightarrow> m_weak_slot (fst s') = m_weak_slot (fst s)"
  by (cases d; force simp: RpcDispatcher_dispatch_def HttpDispatcher_dispatch_def Let_def dest: codec_encode_slot)+

lemma conn_execute_slot:
  assumes "conn_execute services servlets fresh s = Some s'"
  shows "m_weak_slot (fst s') = m_weak_slot (fst s)"
proof (cases "m_codec (fst s)")
  case TinyPb_Protocal
  show ?thesis
    by (rule drain_slot [OF assms [unfolded conn_execute_def TinyPb_Protocal protocal_type.case]])
       (auto simp: file_reply_def split: if_splits dest: dispatch_slot(1))
next
  case Http_Protocal
  show ?thesis
    by (rule drain_slot [OF assms [unfolded conn_execute_def Http_Protocal protocal_type.case]])
       (auto split: if_splits dest: dispatch_slot(2))
qed

lemma output_loop_slot:
  "output_loop ws c = Some (c', ws', e, fin) \<Longrightarrow> m_weak_slot c' = m_weak_slot c \<and> FreshSlot k \<notin> set e"
proof (induction ws arbitrary: c c' ws' e fin)
  case Nil
  then show ?case by (auto simp: output_loop.simps split: if_splits)
next
  case (Cons x ws)
  obtain rt ms where x: "x = (rt, ms)" by fastforce
  obtain c1 e1 where c1: "apply_meanwhile ms c = (c1, e1)" by fastforce
  have slot: "m_weak_slot c1 = m_weak_slot c" "FreshSlot k \<notin> set e1"
    using meanwhile_slot [of ms c k] by (simp_all add: c1)
  show ?case
  proof (cases "getState c \<noteq> Connected \<or> readAble (m_write_buffer c) = 0")
    case True
    then show ?thesis using Cons.prems by (auto simp: output_loop.simps [of _ c] split: if_splits)
  next
    case False
    with Cons.prems obtain bs b where b: "slice (m_buffer (m_write_buffer c)) (m_read_index (m_write_buffer c)) (nat rt) = Some bs"
      "(if 0 < rt then recycleRead (nat rt) (m_write_buffer c1) else Some (m_write_buffer c1)) = Some b"
      by (auto simp only: output_loop.simps [of _ c] x list.case prod.case c1 bind_eq_Some_iff Let_def if_False de_Morgan_disj not_not simp_thms)
    define c2 where "c2 = c1\<lparr>m_write_buffer := b\<rparr>"
    define e2 where "e2 = (if 0 < rt then e1 @ [Sent bs] else e1)"
    have c2: "m_weak_slot c2 = m_weak_slot c" "FreshSlot k \<notin> set e2" using slot by (auto simp: c2_def e2_def)
    have step: "(if readAble b \<le> 0 then Some (c2, ws, e2, Done)
        else if m_is_over_time c2 then Some (c2, ws, e2, Done)
        else do { (c, script, e', fin) \<leftarrow> output_loop ws c2; Some (c, script, e2 @ e', fin) }) = Some (c', ws', e, fin)"
      using Cons.prems False
      by (simp only: output_loop.simps [of _ c] x list.case prod.case c1 b bind.bind_lunit Let_def if_False de_Morgan_disj not_not c2_def e2_def simp_thms)
    show ?thesis
    proof (cases "\<exists>y. output_loop ws c2 = Some y")
      case True
      then obtain c3 ws3 e3 fin3 where r: "output_loop ws c2 = Some (c3, ws3, e3, fin3)" by (metis prod_cases4)
      from Cons.IH [OF this] show ?thesis using step c2 by (simp only: r bind.bind_lunit prod.case) (auto split: if_splits)
    next
      case False
      then have "output_loop ws c2 = None" by (cases "output_loop ws c2") auto
      then show ?thesis using step c2 by (auto split: if_splits)
    qed
  qed
qed

lemma loop_pass_slot:
  assumes "loop_pass services servlets fresh scripts s = Some (s', scripts', e, fin)"
  shows "m_weak_slot (fst s') = m_weak_slot (fst s) \<and> (FreshSlot k \<in> set e \<longrightarrow> m_weak_slot (fst s) = Some k)"
proof -
  from assms obtain c rs' e1 fin1 where i: "conn_input False (fst scripts) (fst s) = Some (c, rs', e1, fin1)"
    by (auto simp: loop_pass_def bind_eq_Some_iff)
  note in_slot = conn_input_slot [OF i, of k]
  show ?thesis
  proof (cases "fin1 = Done")
    case False
    then show ?thesis using assms i in_slot by (auto simp: loop_pass_def)
  next
    case True
    with assms i obtain s1 c2 ws' e2 fin2
      where x: "conn_execute services servlets fresh (c, snd s) = Some s1"
        "conn_output (snd scripts) (fst s1) = Some (c2, ws', e2, fin2)"
      by (auto simp: loop_pass_def bind_eq_Some_iff)
    have out: "m_weak_slot c2 = m_weak_slot (fst s1)" "FreshSlot k \<notin> set e2"
      using x(2) output_loop_slot [of "snd scripts" "fst s1" c2 ws' e2 fin2 k] by (auto simp: conn_output_def split: if_splits)
    have "s' = (c2, snd s1)" "e = e1 @ e2" using assms i x True by (auto simp: loop_pass_def)
    then show ?thesis using in_slot out conn_execute_slot [OF x(1)] by auto
  qed
qed

lemma turn_slot:
  assumes "MainServerLoopCorFunc services servlets fresh scripts s = Some (s', e, fin)"
  shows "m_weak_slot (fst s') = m_weak_slot (fst s) \<and> (FreshSlot k \<in> set e \<longrightarrow> m_weak_slot (fst s) = Some k)"
proof -
  have "case r of (s', e, fin) \<Rightarrow>
      m_weak_slot (fst s') = m_weak_slot (fst s) \<and> (FreshSlot k \<in> set e \<longrightarrow> m_weak_slot (fst s) = Some k)"
    if "MainServerLoopCorFunc services servlets fresh scripts s = Some r" for r
    using that
  proof (induction rule: MainServerLoopCorFunc.raw_induct [rotated, consumes 1])
    case (1 loop services servlets fresh scripts s r)
    note ih = 1(1) and eq = 1(2)
    show ?case
    proof (cases "m_stop (fst s)")
      case True
      then show ?thesis using eq by auto
    next
      case False
      with eq obtain s1 scripts1 e1 fin1 where p: "loop_pass services servlets fresh scripts s = Some (s1, scripts1, e1, fin1)"
        by (auto simp: bind_eq_Some_iff)
      note slot = loop_pass_slot [OF p, of k]
      show ?thesis
      proof (cases "fin1 = Done")
        case False
        then show ?thesis using eq p slot \<open>\<not> m_stop (fst s)\<close> by auto
      next
        case True
        with eq p \<open>\<not> m_stop (fst s)\<close> obtain s2 e2 fin2 where
          "loop services servlets fresh scripts1 s1 = Some (s2, e2, fin2)" "r = (s2, e1 @ e2, fin2)"
          by (auto simp: bind_eq_Some_iff)
        with ih [OF this(1)] slot show ?thesis by auto
      qed
    qed
  qed
  from this [OF assms] show ?thesis by simp
qed

text \<open>Every connection's weak pointer is to its own slot.\<close>

definition slots_own :: "'m tcp_server \<Rightarrow> bool" where
  "slots_own s \<longleftrightarrow> (\<forall>m k. m_weak_slot (conns s m) = Some k \<longrightarrow> k = m)"

lemma slots_own_upd:
  "slots_own s \<Longrightarrow> m_weak_slot c \<in> {None, Some m} \<Longrightarrow> slots_own (s\<lparr>conns := (conns s)(m := c)\<rparr>)"
  by (auto simp: slots_own_def)

lemma slots_own_cong: "conns s' = conns s \<Longrightarrow> slots_own s \<Longrightarrow> slots_own s'"
  by (simp add: slots_own_def)

lemma slots_own_destroy: "slots_own s \<Longrightarrow> slots_own (fst (destroy_slots ns s))"
proof (induction ns arbitrary: s)
  case (Cons n ns)
  then have "slots_own (fst (destroy_slot n s))"
    by (auto simp: destroy_slot_eq slots_own_def shutdown_slot)
  then show ?case using Cons.IH by (simp add: Let_def split_beta)
qed simp

lemma new_conn_slot: "m_weak_slot (fst (TcpConnection_server ty fd n)) = None"
  by (simp add: TcpConnection_server_def initBuffer_def)

lemma slots_own_accept:
  assumes "accept_turn addr (rt, cor, next_conn s) s w = Some (s', w')" "slots_own s"
  shows "slots_own s'"
  using accept_turn_fields(4) [OF assms(1)] assms(2)
  by (auto simp: slots_own_def initServer_def registerToTimeWheel_def split: if_splits)

lemma slots_own_step:
  assumes "idle_step addr ev st = Some (st', e)" "slots_own (is_server st)"
  shows "slots_own (is_server st')"
proof (cases ev)
  case (Turn m rs ws fresh)
  let ?s = "is_server st"
  obtain c' rt' e' fin where t: "MainServerLoopCorFunc (rpc_table (m_dispatcher ?s)) (http_table (m_dispatcher ?s)) fresh (rs, ws)
      (conns ?s m, no_run_time) = Some ((c', rt'), e', fin)" "is_server st' = ?s\<lparr>conns := (conns ?s)(m := c')\<rparr>"
    using assms(1) by (auto simp: Turn bind_eq_Some_iff Let_def split: if_splits)
  have "m_weak_slot c' = m_weak_slot (conns ?s m)" using turn_slot [OF t(1)] by simp
  then have "m_weak_slot c' \<in> {None, Some m}" using assms(2) unfolding slots_own_def by (metis insert_iff option.exhaust)
  then show ?thesis using slots_own_upd [OF assms(2)] t(2) by simp
next
  case WheelTick
  then show ?thesis
    using assms(1) slots_own_cong [OF _ assms(2), of "(is_server st)\<lparr>m_time_wheel := _\<rparr>"]
    by (auto simp: bind_eq_Some_iff split_beta Let_def intro!: slots_own_destroy)
qed (use assms in \<open>auto simp: bind_eq_Some_iff Let_def ClearClientTimerFunc_def split: list.splits if_splits
  dest: slots_own_accept intro: slots_own_cong [rotated]\<close>)

lemma turn_posts:
  assumes "MainServerLoopCorFunc services servlets fresh (rs, ws) (conns (is_server st) m, rt) = Some (s', e, fin)"
    and "slots_own (is_server st)"
  shows "set (posts st e) \<subseteq> {m}"
  using turn_slot [OF assms(1)] assms(2)
  by (fastforce simp: posts_def slots_own_def split: effect.splits if_splits)

section \<open>Events that spare a connection\<close>

lemma accept_other:
  assumes "accept_turn addr (rt, cor, slot) s w = Some (s', w')" and "filed n fd s" "rt \<noteq> fd"
  shows "filed n fd s' \<and> conns s' n = conns s n \<and> m_time_wheel s' = m_time_wheel s"
proof (cases "fst (toAccept (m_family s) rt) = -1")
  case True
  then show ?thesis using assms(1,2) by (simp add: accept_turn_def)
next
  case False
  then have fd: "fst (toAccept (m_family s) rt) = rt" by (auto simp: toAccept_def split: family.splits if_splits)
  from assms False show ?thesis
    by (auto simp: accept_turn_def addClient_def Let_def bind_eq_Some_iff filed_def fd std.look_put split: if_splits prod.splits)
qed

lemma clear_other:
  assumes "ClearClientTimerFunc s = (s', e)" and "filed n fd s" "m_state (conns s n) \<noteq> Closed"
  shows "filed n fd s' \<and> conns s' n = conns s n \<and> m_time_wheel s' = m_time_wheel s"
proof -
  let ?g = "\<lambda>c. if (case c of None \<Rightarrow> False | Some n \<Rightarrow> getState (conns s n) = Closed) then None else c"
  have s': "m_clients s' = map (\<lambda>(fd, c). (fd, ?g c)) (m_clients s)" "conns s' = conns s" "next_conn s' = next_conn s"
    "m_time_wheel s' = m_time_wheel s"
    using assms(1) by (auto simp: ClearClientTimerFunc_def Let_def)
  have "map fst (m_clients s') = map fst (m_clients s)" by (simp add: s'(1) comp_def split_beta)
  then have "map_ok (m_clients s')" using assms(2) unfolding filed_def map_ok_def by metis
  moreover have "map_find (m_clients s') fd = map_option ?g (map_find (m_clients s) fd)"
    by (simp add: s'(1) map_find_def map_of_map)
  ultimately show ?thesis using assms(2,3) s'(2-4) by (simp add: filed_def getState_def)
qed

lemma idle_step_spares:
  assumes "idle_step addr ev st = Some (st', e)" and "idles n fd c i st" "m_state c \<noteq> Closed" "spares n fd ev"
    and "ev = WheelTick \<Longrightarrow> 0 < i" "slots_own (is_server st)"
  shows "idles n fd c (if ev = WheelTick then i - 1 else i) st'
    \<and> length (m_time_wheel (is_server st')) = length (m_time_wheel (is_server st))"
proof -
  have st: "filed n fd (is_server st)" "conns (is_server st) n = c" "n \<notin> set (is_posted st)"
    "last_in n (m_time_wheel (is_server st)) i" using assms(2) by (simp_all add: idles_def)
  show ?thesis
  proof (cases ev)
    case (Accept rt cor)
    with assms(1) obtain s' w where acc: "accept_turn addr (rt, cor, next_conn (is_server st)) (is_server st) (is_net st) = Some (s', w)"
      and st': "st' = st\<lparr>is_server := s', is_net := w,
        is_posted := is_posted st @ (if next_conn s' = next_conn (is_server st) then [] else [next_conn (is_server st)])\<rparr>"
      by (auto simp: bind_eq_Some_iff Let_def)
    have "n < next_conn (is_server st)" using st(1) by (simp add: filed_def)
    with accept_other [OF acc st(1)] assms(4) st show ?thesis by (simp add: Accept spares_def st' idles_def)
  next
    case (Turn m rs ws fresh)
    with assms(1,4) obtain c' e' where m: "m \<noteq> n" and st': "st' = st\<lparr>is_server := (is_server st)\<lparr>conns := (conns (is_server st))(m := c')\<rparr>,
        is_posted := is_posted st @ posts st e'\<rparr>"
      and e': "\<exists>rt fin. MainServerLoopCorFunc (rpc_table (m_dispatcher (is_server st))) (http_table (m_dispatcher (is_server st)))
          fresh (rs, ws) (conns (is_server st) m, no_run_time) = Some ((c', rt), e', fin)"
      by (auto simp: bind_eq_Some_iff Let_def spares_def split: if_splits)
    have "n \<notin> set (posts st e')" using turn_posts e' assms(6) m by fastforce
    then show ?thesis using st m by (simp add: Turn st' idles_def filed_def)
  next
    case PostedTask
    show ?thesis
    proof (cases "is_posted st")
      case Nil
      then show ?thesis using assms(1,2) by (simp add: PostedTask)
    next
      case (Cons p ps)
      with assms(1) obtain w where w: "wheel_fresh p (m_time_wheel (is_server st)) = Some w"
        and st': "st' = st\<lparr>is_server := (is_server st)\<lparr>m_time_wheel := w\<rparr>, is_posted := ps\<rparr>"
        by (auto simp: PostedTask bind_eq_Some_iff)
      have "p \<noteq> n" using st(3) Cons by auto
      with last_in_fresh_other [OF st(4) _ w] length_fresh [OF w] st Cons show ?thesis
        by (simp add: PostedTask st' idles_def filed_def)
    qed
  next
    case WheelTick
    with assms(1) obtain w dead where w: "loopFunc (m_time_wheel (is_server st)) = Some (w, dead)"
      and st': "st' = st\<lparr>is_server := fst (destroy_slots (filter (\<lambda>n. n \<notin> set (is_posted st)) dead) ((is_server st)\<lparr>m_time_wheel := w\<rparr>))\<rparr>"
      by (auto simp: bind_eq_Some_iff split_beta Let_def)
    have "length w = length (m_time_wheel (is_server st))" "last_in n w (i - 1)" "n \<notin> set dead"
      using loopFunc_step [OF st(4) w] assms(5) WheelTick by auto
    then show ?thesis using st by (simp add: WheelTick st' idles_def filed_def destroy_slots_other)
  next
    case ClearClients
    with assms(1) obtain s' where "ClearClientTimerFunc (is_server st) = (s', e)" "st' = st\<lparr>is_server := s'\<rparr>"
      by (auto split: prod.splits)
    with clear_other [of "is_server st" s' e n fd] st assms(3) show ?thesis by (auto simp: ClearClients idles_def)
  qed
qed

lemma idle_run_spares:
  assumes "idle_run addr evs st = Some (st', e)" and "idles n fd c i st" "m_state c \<noteq> Closed"
    and "\<forall>ev\<in>set evs. spares n fd ev" "wheel_ticks evs \<le> i" "slots_own (is_server st)"
  shows "idles n fd c (i - wheel_ticks evs) st' \<and> slots_own (is_server st')
    \<and> length (m_time_wheel (is_server st')) = length (m_time_wheel (is_server st))"
  using assms
proof (induction evs arbitrary: st i e)
  case (Cons ev evs)
  from Cons.prems(1) obtain st1 e1 e2 where st1: "idle_step addr ev st = Some (st1, e1)" "idle_run addr evs st1 = Some (st', e2)"
    by (auto simp: bind_eq_Some_iff)
  have t: "wheel_ticks (ev # evs) = (if ev = WheelTick then Suc (wheel_ticks evs) else wheel_ticks evs)"
    by (simp add: wheel_ticks_def)
  have one: "idles n fd c (if ev = WheelTick then i - 1 else i) st1
      \<and> length (m_time_wheel (is_server st1)) = length (m_time_wheel (is_server st))"
    by (rule idle_step_spares [OF st1(1) Cons.prems(2,3) _ _ Cons.prems(6)]) (use Cons.prems(4,5) t in auto)
  have "wheel_ticks evs \<le> (if ev = WheelTick then i - 1 else i)" using Cons.prems(5) t by auto
  from Cons.IH [OF st1(2) conjunct1 [OF one] Cons.prems(3) _ this slots_own_step [OF st1(1) Cons.prems(6)]] Cons.prems(4) one
  show ?case by (auto simp: t)
qed (simp add: wheel_ticks_def)

section \<open>The end of an idle connection\<close>

lemma destroy_slots_effect:
  assumes "n \<in> set ns" "distinct ns" "living s n" "m_state (conns s n) = Connected"
  shows "ShutdownFd (TcpConnection.m_fd (conns s n)) \<in> set (snd (destroy_slots ns s))"
  using assms
proof (induction ns arbitrary: s)
  case (Cons m ns)
  show ?case
  proof (cases "m = n")
    case True
    then show ?thesis using Cons.prems(3,4) by (simp add: Let_def split_beta destroy_slot_eq shutdownConnection_def getState_def)
  next
    case False
    then have "living (fst (destroy_slot m s)) n" "conns (fst (destroy_slot m s)) n = conns s n"
      using Cons.prems(3) by (simp_all add: destroy_slot_eq living_def)
    then show ?thesis using Cons.IH [of "fst (destroy_slot m s)"] Cons.prems False by (simp add: Let_def split_beta)
  qed
qed simp

lemma idle_tick_shuts_down:
  assumes "idles n fd c 0 st" "m_state c = Connected"
  shows "\<exists>st' e. idle_step addr WheelTick st = Some (st', e) \<and> ShutdownFd (TcpConnection.m_fd c) \<in> set e
    \<and> filed n fd (is_server st') \<and> conns (is_server st') n = c\<lparr>m_state := HalfClosing\<rparr>"
proof -
  let ?s = "is_server st"
  have st: "filed n fd ?s" "conns ?s n = c" "n \<notin> set (is_posted st)" "last_in n (m_time_wheel ?s) 0"
    using assms(1) by (simp_all add: idles_def)
  then obtain w dead where w: "loopFunc (m_time_wheel ?s) = Some (w, dead)"
    by (cases "m_time_wheel ?s") (auto simp: last_in_def loopFunc_def)
  let ?dead = "filter (\<lambda>n. n \<notin> set (is_posted st)) dead" and ?s1 = "?s\<lparr>m_time_wheel := w\<rparr>"
  have dead: "n \<in> set ?dead" "distinct ?dead"
    using loopFunc_step(3) [OF st(4) w] st(3) w by (auto simp: loopFunc_def split: list.splits)
  have living: "living ?s1 n" using filed_living [OF st(1)] by (simp add: living_def)
  have c: "conns (fst (destroy_slots ?dead ?s1)) n = c\<lparr>m_state := HalfClosing\<rparr>"
    using destroy_slots_hit [OF dead living] st(2) assms(2) by (simp add: shutdownConnection_def setState_def getState_def Let_def)
  have "ShutdownFd (TcpConnection.m_fd c) \<in> set (snd (destroy_slots ?dead ?s1))"
    using destroy_slots_effect [OF dead living] st(2) assms(2) by simp
  moreover have "filed n fd (fst (destroy_slots ?dead ?s1))" using st(1) by (simp add: filed_def)
  moreover define st' where "st' = st\<lparr>is_server := fst (destroy_slots ?dead ?s1)\<rparr>"
  moreover have "idle_step addr WheelTick st = Some (st', snd (destroy_slots ?dead ?s1))"
    by (simp add: w split_beta st'_def)
  ultimately show ?thesis using c by (intro exI [of _ st'] exI conjI) (simp_all add: st'_def)
qed

lemma make_room_some: "buf_ok b \<Longrightarrow> \<exists>b'. make_room b = Some b'"
  using resizeBuffer_ok [of b "2 * getSize b"] by (auto simp: make_room_def)

text \<open>After \<open>shutdown\<close> the next read answers 0.\<close>

lemma idle_turn_closes:
  assumes "filed n fd (is_server st)" "conns (is_server st) n = c"
    and "buf_ok (m_read_buffer c)" "m_state c = HalfClosing" "\<not> m_is_over_time c" "\<not> m_stop c"
  shows "\<exists>st'. idle_step addr (Turn n [(Got [], [])] ws fresh) st
      = Some (st', [Unregister (TcpConnection.m_fd c), CloseFd (TcpConnection.m_fd c), ForbidResume])
    \<and> filed n fd (is_server st') \<and> m_state (conns (is_server st') n) = Closed
    \<and> m_connection_type (conns (is_server st') n) = m_connection_type c"
proof -
  obtain b where b: "make_room (m_read_buffer c) = Some b" using make_room_some [OF assms(3)] by blast
  have "MainServerLoopCorFunc services servlets fresh ([(Got [], [])], ws) (c, no_run_time)
      = Some ((setState Closed (c\<lparr>m_read_buffer := b, m_stop := True\<rparr>), no_run_time),
          [Unregister (TcpConnection.m_fd c), CloseFd (TcpConnection.m_fd c), ForbidResume], Parked)" for services servlets
    using assms(4-6) b by (simp add: MainServerLoopCorFunc.simps loop_pass_def conn_input_def getState_def clearClient_def)
  then show ?thesis
    using assms(1,2) filed_living [OF assms(1)]
    by (auto simp: filed_def setState_def Let_def bind_eq_Some_iff posts_def intro!: exI)
qed

lemma idle_clear_releases:
  assumes "filed n fd (is_server st)" "m_state (conns (is_server st) n) = Closed"
    and "m_connection_type (conns (is_server st) n) = ServerConnection"
  shows "\<exists>st' e. idle_step addr ClearClients st = Some (st', e) \<and> ReturnCoroutine \<in> set e
    \<and> map_find (m_clients (is_server st')) fd = Some None"
proof -
  let ?s = "is_server st"
  let ?g = "\<lambda>c. if (case c of None \<Rightarrow> False | Some n \<Rightarrow> getState (conns ?s n) = Closed) then None else c"
  have mem: "(fd, Some n) \<in> set (m_clients ?s)" using assms(1) map_find_Some_mem by (auto simp: filed_def)
  obtain s' e where s': "ClearClientTimerFunc ?s = (s', e)" by fastforce
  have cl: "m_clients s' = map (\<lambda>(fd, c). (fd, ?g c)) (m_clients ?s)" using s' by (auto simp: ClearClientTimerFunc_def Let_def)
  have "ReturnCoroutine \<in> set e"
    using s' mem assms(2,3) by (force simp: ClearClientTimerFunc_def Let_def getState_def TcpConnection_destroy_def)
  moreover have "map_find (m_clients s') fd = map_option ?g (map_find (m_clients ?s) fd)"
    by (simp add: cl map_find_def map_of_map)
  then have "map_find (m_clients s') fd = Some None" using assms(1,2) by (simp add: filed_def getState_def)
  ultimately show ?thesis by (simp add: s')
qed

text \<open>
  C27: An idle connection lives for \<open>bucket_count\<close> ticks and is then taken down completely. The task with the
  last traffic of a connected server connection has just been posted. Whatever happens to the server until the
  wheel's timer has fired \<open>bucket_count - 1\<close> times -- other connections are accepted, served, refreshed, shut down and
  released, and both timers fire -- the connection stays exactly as it is. The next tick shuts its socket down and marks it
  half closed; the end of file that its coroutine then reads closes the descriptor and takes it out of the
  reactor; and the next run of the server's timer gives the coroutine back and clears the entry.
\<close>

theorem idle_connection_taken_down:
  assumes start: "slots_own (is_server st)" "filed n fd (is_server st)" "conns (is_server st) n = c"
      "is_posted st = n # ps" "n \<notin> set ps"
    and conn: "m_state c = Connected" "m_connection_type c = ServerConnection" "\<not> m_is_over_time c" "\<not> m_stop c"
      "buf_ok (m_read_buffer c)"
    and run: "idle_run addr (PostedTask # evs) st = Some (st1, e1)" "\<forall>ev\<in>set evs. spares n fd ev"
      "Suc (wheel_ticks evs) = length (m_time_wheel (is_server st))"
  shows "conns (is_server st1) n = c \<and> map_find (m_clients (is_server st1)) fd = Some (Some n)
   \<and> (\<exists>st2 e2 st3 st4 e4.
       idle_step addr WheelTick st1 = Some (st2, e2) \<and> ShutdownFd (TcpConnection.m_fd c) \<in> set e2
     \<and> m_state (conns (is_server st2) n) = HalfClosing
     \<and> idle_step addr (Turn n [(Got [], [])] ws fresh) st2
         = Some (st3, [Unregister (TcpConnection.m_fd c), CloseFd (TcpConnection.m_fd c), ForbidResume])
     \<and> m_state (conns (is_server st3) n) = Closed
     \<and> idle_step addr ClearClients st3 = Some (st4, e4) \<and> ReturnCoroutine \<in> set e4
     \<and> map_find (m_clients (is_server st4)) fd = Some None)"
proof -
  let ?w = "m_time_wheel (is_server st)"
  obtain w where w: "wheel_fresh n ?w = Some w" using run(3) by (cases "?w = []") (auto simp: wheel_fresh_def)
  define st0 where "st0 = st\<lparr>is_server := (is_server st)\<lparr>m_time_wheel := w\<rparr>, is_posted := ps\<rparr>"
  have first: "idle_step addr PostedTask st = Some (st0, [])" by (simp add: start(4) w st0_def)
  with run(1) have evs: "idle_run addr evs st0 = Some (st1, e1)" by (auto simp: bind_eq_Some_iff)
  have idles0: "idles n fd c (length ?w - 1) st0"
    using start last_in_fresh [OF w] by (simp add: idles_def st0_def filed_def)
  have own0: "slots_own (is_server st0)" using start(1) by (simp add: st0_def slots_own_def)
  have "idles n fd c (length ?w - 1 - wheel_ticks evs) st1"
    using idle_run_spares [OF evs idles0 _ run(2) _ own0] conn(1) run(3) by simp
  moreover have "length ?w - 1 - wheel_ticks evs = 0" using run(3) by linarith
  ultimately have idles1: "idles n fd c 0 st1" by simp
  from idle_tick_shuts_down [OF this conn(1)] obtain st2 e2 where st2: "idle_step addr WheelTick st1 = Some (st2, e2)"
      "ShutdownFd (TcpConnection.m_fd c) \<in> set e2" "filed n fd (is_server st2)"
      "conns (is_server st2) n = c\<lparr>m_state := HalfClosing\<rparr>" by blast
  from idle_turn_closes [OF st2(3,4)] conn obtain st3 where st3: "idle_step addr (Turn n [(Got [], [])] ws fresh) st2
        = Some (st3, [Unregister (TcpConnection.m_fd c), CloseFd (TcpConnection.m_fd c), ForbidResume])"
      "filed n fd (is_server st3)" "m_state (conns (is_server st3) n) = Closed"
      "m_connection_type (conns (is_server st3) n) = ServerConnection" by auto
  from idle_clear_releases [OF st3(2-4)] obtain st4 e4 where "idle_step addr ClearClients st3 = Some (st4, e4)"
      "ReturnCoroutine \<in> set e4" "map_find (m_clients (is_server st4)) fd = Some None" by blast
  moreover have "conns (is_server st1) n = c" "map_find (m_clients (is_server st1)) fd = Some (Some n)"
    using idles1 by (simp_all add: idles_def filed_def)
  moreover have "m_state (conns (is_server st2) n) = HalfClosing" using st2(4) by simp
  ultimately show ?thesis using st2(1,2) st3(1,3) by blast
qed

text \<open>One connection of a server whose wheel has three buckets.\<close>

definition idle_conn :: tcp_connection where
  "idle_conn = fst (initServer 0 (fst (TcpConnection_server TinyPb_Protocal 9 128)))"

definition idle_sample :: "string idle_state" where
  "idle_sample =
     \<lparr>is_server = sample_server\<lparr>m_clients := [(9, Some 0)], conns := (conns sample_server)(0 := idle_conn), next_conn := 1,
        m_time_wheel := TcpTimeWheel 3\<rparr>,
      is_net = sample_net SubReactor, is_posted = [0]\<rparr>"

lemma idle_conn_fields:
  "m_weak_slot idle_conn = Some 0" "m_state idle_conn = Connected" "m_connection_type idle_conn = ServerConnection"
  "\<not> m_is_over_time idle_conn" "\<not> m_stop idle_conn" "buf_ok (m_read_buffer idle_conn)" "TcpConnection.m_fd idle_conn = 9"
  by (simp_all add: idle_conn_def initServer_def registerToTimeWheel_def TcpConnection_server_def initBuffer_def)

lemma idle_sample_fields:
  "conns (is_server idle_sample) 0 = idle_conn" "is_posted idle_sample = [0]"
  "m_time_wheel (is_server idle_sample) = [[], [], []]" "filed 0 9 (is_server idle_sample)" "slots_own (is_server idle_sample)"
  by (simp_all add: idle_sample_def TcpTimeWheel_def filed_def map_ok_def slots_own_def sample_server_def new_conn_slot
      idle_conn_fields numeral_eq_Suc)

lemma idle_sample_run:
  "\<exists>st e. idle_run nat_ptr [PostedTask, WheelTick, ClearClients, WheelTick] idle_sample = Some (st, e)"
  by (simp add: idle_sample_fields wheel_fresh_def loopFunc_def ClearClientTimerFunc_def split_beta Let_def)

theorem idle_connection_taken_down_witness:
  "\<exists>st1 e1 st2 e2 st3 st4 e4.
     idle_run nat_ptr [PostedTask, WheelTick, ClearClients, WheelTick] idle_sample = Some (st1, e1)
   \<and> conns (is_server st1) 0 = idle_conn
   \<and> idle_step nat_ptr WheelTick st1 = Some (st2, e2) \<and> ShutdownFd 9 \<in> set e2
   \<and> idle_step nat_ptr (Turn 0 [(Got [], [])] [] []) st2 = Some (st3, [Unregister 9, CloseFd 9, ForbidResume])
   \<and> idle_step nat_ptr ClearClients st3 = Some (st4, e4) \<and> map_find (m_clients (is_server st4)) 9 = Some None"
proof -
  obtain st1 e1 where run: "idle_run nat_ptr [PostedTask, WheelTick, ClearClients, WheelTick] idle_sample = Some (st1, e1)"
    using idle_sample_run by blast
  have "Suc (wheel_ticks [WheelTick, ClearClients, WheelTick]) = length (m_time_wheel (is_server idle_sample))"
    "\<forall>ev\<in>set [WheelTick, ClearClients, WheelTick]. spares 0 9 ev"
    by (simp_all add: wheel_ticks_def spares_def idle_sample_fields)
  from idle_connection_taken_down [OF idle_sample_fields(5,4,1,2) _ idle_conn_fields(2-6) run this(2,1), of "[]" "[]"] run
  show ?thesis by (simp add: idle_conn_fields(7)) blast
qed

end
