(* ===== verification/UnitTests.thy ===== *)
theory UnitTests
  imports Application RpcFrame HttpCodec
begin

text \<open>
  \<open>tests/rpc_codec_test.cc\<close>, \<open>tests/http_codec_test.cc\<close> and \<open>tests/process_signal_test.cc\<close>: the unit tests
  of the repository, run on the model. A test answers whether all its assertions hold, in order;
  \<^term>\<open>None\<close> is a memory access outside a vector. The tests of the RPC codec are functions of their packets, buffer sizes and split
  point, of which the sources try one each; they are shown to pass for all of them.
\<close>

section \<open>\<open>rpc_codec_test.cc\<close>\<close>

definition MakePacket :: "string \<Rightarrow> string \<Rightarrow> bytes \<Rightarrow> i32 \<Rightarrow> string \<Rightarrow> rpc_struct" where
  "MakePacket no meth payload code info =
     RpcStruct\<lparr>msg_no := no, service_name := ''FriendService'', method_name := meth, pb_data := payload,
               err_code := code, err_info := info\<rparr>"

definition AssertPacketEquals :: "rpc_struct \<Rightarrow> rpc_struct \<Rightarrow> bool" where
  "AssertPacketEquals actual expected \<longleftrightarrow>
     msg_no actual = msg_no expected \<and> service_name actual = service_name expected
     \<and> method_name actual = method_name expected \<and> pb_data actual = pb_data expected
     \<and> err_code actual = err_code expected \<and> err_info actual = err_info expected"

text \<open>An assertion that fails ends the test.\<close>

definition asserting :: "bool \<Rightarrow> bool option \<Rightarrow> bool option" where
  "asserting good rest = (if good then rest else Some False)"

definition TestRoundTrip :: "nat \<Rightarrow> rpc_struct \<Rightarrow> bool option" where
  "TestRoundTrip room source = do {
     (buffer, source) \<leftarrow> rpc_encode [] (TcpBuffer room) source;
     asserting (encode_succ source) (do {
       (buffer, decoded) \<leftarrow> rpc_decode buffer RpcStruct;
       asserting (decode_succ decoded) (asserting (AssertPacketEquals decoded source)
         (Some (readAble buffer = 0))) }) }"

definition TestErrorRoundTrip :: "nat \<Rightarrow> rpc_struct \<Rightarrow> bool option" where
  "TestErrorRoundTrip room source = do {
     (buffer, source) \<leftarrow> rpc_encode [] (TcpBuffer room) source;
     asserting (encode_succ source) (do {
       (buffer, decoded) \<leftarrow> rpc_decode buffer RpcStruct;
       asserting (decode_succ decoded) (Some (AssertPacketEquals decoded source)) }) }"

text \<open>\<open>split\<close> is applied to the number of encoded bytes.\<close>

definition TestHalfPacket :: "nat \<Rightarrow> nat \<Rightarrow> (nat \<Rightarrow> nat) \<Rightarrow> rpc_struct \<Rightarrow> bool option" where
  "TestHalfPacket room room2 split source = do {
     (encoded, source) \<leftarrow> rpc_encode [] (TcpBuffer room) source;
     asserting (encode_succ source) (do {
       bytes \<leftarrow> getBufferString encoded;
       let cut = split (length bytes);
       received \<leftarrow> writeToBuffer (take cut bytes) (TcpBuffer room2);
       (received, partial) \<leftarrow> rpc_decode received RpcStruct;
       asserting (\<not> decode_succ partial) (asserting (readAble received = int cut) (do {
         received \<leftarrow> writeToBuffer (drop cut bytes) received;
         (received, decoded) \<leftarrow> rpc_decode received RpcStruct;
         asserting (decode_succ decoded) (Some (AssertPacketEquals decoded source)) })) }) }"

definition TestStickyPackets :: "nat \<Rightarrow> rpc_struct \<Rightarrow> rpc_struct \<Rightarrow> bool option" where
  "TestStickyPackets room one two = do {
     (buffer, one) \<leftarrow> rpc_encode [] (TcpBuffer room) one;
     (buffer, two) \<leftarrow> rpc_encode [] buffer two;
     asserting (encode_succ one \<and> encode_succ two) (do {
       (buffer, first_decoded) \<leftarrow> rpc_decode buffer RpcStruct;
       asserting (decode_succ first_decoded) (asserting (AssertPacketEquals first_decoded one) (do {
         (buffer, second_decoded) \<leftarrow> rpc_decode buffer RpcStruct;
         asserting (decode_succ second_decoded) (asserting (AssertPacketEquals second_decoded two)
           (Some (readAble buffer = 0))) })) }) }"

definition rpc_codec_test :: "bool option" where
  "rpc_codec_test = do {
     a \<leftarrow> TestRoundTrip 16 (MakePacket ''10001'' ''GetFriendsList'' ''protobuf-payload'' 0 []);
     b \<leftarrow> TestErrorRoundTrip 16 (MakePacket ''10002'' ''MissingMethod'' [] (word_of_int ERROR_METHOD_NOT_FOUND)
            ''not found method_name:[MissingMethod]'');
     c \<leftarrow> TestHalfPacket 16 8 (\<lambda>n. n div 2) (MakePacket ''10003'' ''GetFriendsList'' ''split-payload'' 0 []);
     d \<leftarrow> TestStickyPackets 16 (MakePacket ''10004'' ''MethodOne'' ''first'' 0 []) (MakePacket ''10005'' ''MethodTwo'' ''second'' 0 []);
     Some (a \<and> b \<and> c \<and> d) }"

section \<open>They pass for every packet\<close>

lemma test_encode:
  assumes "buf_ok b" "packet_ok (packet_of d)"
  obtains b' where "rpc_encode fresh b d = Some (b', d\<lparr>encode_succ := True\<rparr>)" "buf_ok b'"
    "contents b' = contents b @ frame_of (packet_of d)"
proof -
  have d: "numbered fresh d = d" "service_name d \<noteq> []" "method_name d \<noteq> []" "\<not> kMaxPacketLen < frame_len (packet_of d)"
    using assms(2) by (auto simp: packet_ok_def packet_of_def numbered_def)
  show thesis
    using writeToBuffer_ok [OF assms(1), of "frame_of (packet_of d)"] d that
    by (auto simp: rpc_encode_def encodePbData_result)
qed

lemma test_decode:
  assumes "buf_ok b" "packet_ok p" "contents b = frame_of p @ rest"
  obtains b' where "rpc_decode b d = Some (b', deliver d (Some p))" "buf_ok b'" "contents b' = rest"
  using rpc_decode_step [OF assms(1), of d] wire_step_frame [OF assms(2), of rest] assms(3) by auto

lemma test_decode_half:
  assumes "buf_ok b" "packet_ok p" "n < frame_len p" "contents b = take n (frame_of p)"
  obtains b' where "rpc_decode b d = Some (b', deliver d None)" "buf_ok b'" "contents b' = contents b"
  using rpc_decode_step [OF assms(1), of d] wire_step_half [OF assms(2,3)] assms(4) by auto

lemma delivered_equals: "AssertPacketEquals (deliver d (Some (packet_of e))) (e\<lparr>encode_succ := s\<rparr>)"
  by (simp add: AssertPacketEquals_def deliver_def packet_of_def)

lemma round_trip:
  assumes "packet_ok (packet_of e)"
  obtains b b' where "rpc_encode [] (TcpBuffer room) e = Some (b, e\<lparr>encode_succ := True\<rparr>)"
    "rpc_decode b RpcStruct = Some (b', deliver RpcStruct (Some (packet_of e)))" "readAble b' = 0"
proof -
  obtain b where b: "rpc_encode [] (TcpBuffer room) e = Some (b, e\<lparr>encode_succ := True\<rparr>)" "buf_ok b"
    "contents b = frame_of (packet_of e)"
    using test_encode [OF buf_ok_TcpBuffer assms] by auto
  obtain b' where "rpc_decode b RpcStruct = Some (b', deliver RpcStruct (Some (packet_of e)))" "buf_ok b'" "contents b' = []"
    using test_decode [OF b(2) assms, of "[]"] b(3) by auto
  then show thesis using that b(1) by (simp add: readAble_contents)
qed

lemma TestRoundTrip_passes: "packet_ok (packet_of e) \<Longrightarrow> TestRoundTrip room e = Some True"
  by (erule round_trip [where room = room]) (simp add: TestRoundTrip_def asserting_def delivered_equals)

lemma TestErrorRoundTrip_passes: "packet_ok (packet_of e) \<Longrightarrow> TestErrorRoundTrip room e = Some True"
  by (erule round_trip [where room = room]) (simp add: TestErrorRoundTrip_def asserting_def delivered_equals)

lemma TestHalfPacket_passes:
  assumes e: "packet_ok (packet_of e)" and split: "split (frame_len (packet_of e)) < frame_len (packet_of e)"
  shows "TestHalfPacket room room2 split e = Some True"
proof -
  let ?f = "frame_of (packet_of e)" and ?n = "split (frame_len (packet_of e))"
  obtain b where b: "rpc_encode [] (TcpBuffer room) e = Some (b, e\<lparr>encode_succ := True\<rparr>)" "buf_ok b" "contents b = ?f"
    using test_encode [OF buf_ok_TcpBuffer e] by auto
  have bytes: "getBufferString b = Some ?f" using getBufferString_contents [OF b(2)] b(3) by simp
  obtain r1 where r1: "writeToBuffer (take ?n ?f) (TcpBuffer room2) = Some r1" "buf_ok r1" "contents r1 = take ?n ?f"
    using writeToBuffer_ok [OF buf_ok_TcpBuffer, of "take ?n ?f" room2] by auto
  obtain r2 where r2: "rpc_decode r1 RpcStruct = Some (r2, deliver RpcStruct None)" "buf_ok r2" "contents r2 = take ?n ?f"
    using test_decode_half [OF r1(2) e split r1(3)] r1(3) by auto
  obtain r3 where r3: "writeToBuffer (drop ?n ?f) r2 = Some r3" "buf_ok r3" "contents r3 = ?f"
    using writeToBuffer_ok [OF r2(2), of "drop ?n ?f"] r2(3) by auto
  obtain r4 where r4: "rpc_decode r3 RpcStruct = Some (r4, deliver RpcStruct (Some (packet_of e)))"
    using test_decode [OF r3(2) e, of "[]"] r3(3) by auto
  have "readAble r2 = int ?n" using split by (simp add: readAble_contents [OF r2(2)] r2(3))
  then show ?thesis
    by (simp add: TestHalfPacket_def asserting_def b(1) bytes r1(1) r2(1) r3(1) r4 delivered_equals Let_def)
qed

lemma TestStickyPackets_passes:
  assumes "packet_ok (packet_of e)" "packet_ok (packet_of f)"
  shows "TestStickyPackets room e f = Some True"
proof -
  obtain b1 where b1: "rpc_encode [] (TcpBuffer room) e = Some (b1, e\<lparr>encode_succ := True\<rparr>)" "buf_ok b1"
    "contents b1 = frame_of (packet_of e)"
    using test_encode [OF buf_ok_TcpBuffer assms(1)] by auto
  obtain b2 where b2: "rpc_encode [] b1 f = Some (b2, f\<lparr>encode_succ := True\<rparr>)" "buf_ok b2"
    "contents b2 = frame_of (packet_of e) @ frame_of (packet_of f)"
    using test_encode [OF b1(2) assms(2)] b1(3) by auto
  obtain b3 where b3: "rpc_decode b2 RpcStruct = Some (b3, deliver RpcStruct (Some (packet_of e)))" "buf_ok b3"
    "contents b3 = frame_of (packet_of f)"
    using test_decode [OF b2(2) assms(1) b2(3)] by auto
  obtain b4 where b4: "rpc_decode b3 RpcStruct = Some (b4, deliver RpcStruct (Some (packet_of f)))" "buf_ok b4" "contents b4 = []"
    using test_decode [OF b3(2) assms(2), of "[]"] b3(3) by auto
  then show ?thesis
    by (simp add: TestStickyPackets_def asserting_def b1(1) b2(1) b3(1) delivered_equals readAble_contents)
qed

lemmas test_packet_defs = packet_ok_def packet_of_def MakePacket_def RpcStruct_def frame_len_def full_name_of_def
  kMinPacketLen_def kMaxPacketLen_def

lemma rpc_codec_test_passes: "rpc_codec_test = Some True"
proof -
  have "TestRoundTrip 16 (MakePacket ''10001'' ''GetFriendsList'' ''protobuf-payload'' 0 []) = Some True"
    by (rule TestRoundTrip_passes) (simp add: test_packet_defs)
  moreover have "TestErrorRoundTrip 16 (MakePacket ''10002'' ''MissingMethod'' [] (word_of_int ERROR_METHOD_NOT_FOUND)
      ''not found method_name:[MissingMethod]'') = Some True"
    by (rule TestErrorRoundTrip_passes) (simp add: test_packet_defs)
  moreover have "TestHalfPacket 16 8 (\<lambda>n. n div 2) (MakePacket ''10003'' ''GetFriendsList'' ''split-payload'' 0 []) = Some True"
    by (rule TestHalfPacket_passes) (simp_all add: test_packet_defs)
  moreover have "TestStickyPackets 16 (MakePacket ''10004'' ''MethodOne'' ''first'' 0 [])
      (MakePacket ''10005'' ''MethodTwo'' ''second'' 0 []) = Some True"
    by (rule TestStickyPackets_passes) (simp_all add: test_packet_defs)
  ultimately show ?thesis by (simp add: rpc_codec_test_def)
qed

section \<open>\<open>http_codec_test.cc\<close>\<close>

definition crlf_text :: "string list \<Rightarrow> string" where
  "crlf_text ls = concat (map (\<lambda>l. l @ kHttpCrlf) ls)"

text \<open>\<open>WriteString\<close> into a new buffer, and one \<open>decode\<close>.\<close>

definition decode_text :: "nat \<Rightarrow> string \<Rightarrow> (tcp_buffer \<times> http_request) option" where
  "decode_text room value = do { buffer \<leftarrow> writeToBuffer value (TcpBuffer room); http_decode buffer HttpRequest }"

definition TestGetRequest :: "bool option" where
  "TestGetRequest = do {
     (buffer, request) \<leftarrow> decode_text 16
       (crlf_text [''GET /hello?name=weng HTTP/1.1'', ''Host: localhost'', ''Connection: keep-alive'', []]);
     Some (decode_succ request \<and> m_request_method request = GET \<and> m_request_path request = ''/hello''
       \<and> m_request_query request = ''name=weng'' \<and> map_find (m_query_maps request) ''name'' = Some ''weng''
       \<and> getValue (m_request_header request) ''host'' = ''localhost''
       \<and> getValue (m_request_header request) ''CONNECTION'' = ''keep-alive'' \<and> readAble buffer = 0) }"

definition TestPostRequest :: "bool option" where
  "TestPostRequest = do {
     let body = ''hello http'';
     (buffer, request) \<leftarrow> decode_text 16
       (crlf_text [''POST /echo HTTP/1.1'', ''Host: localhost'', ''Content-Length: '' @ nat_str (length body),
                   ''Content-Type: text/plain'', []] @ body);
     Some (decode_succ request \<and> m_request_method request = POST \<and> m_request_path request = ''/echo''
       \<and> m_request_body request = body \<and> readAble buffer = 0) }"

definition TestPartialRequest :: "bool option" where
  "TestPartialRequest = do {
     let value = crlf_text [''POST /echo HTTP/1.1'', ''Content-Length: 5'', []] @ ''hello'';
     let split = length value - 2;
     (buffer, partial) \<leftarrow> decode_text 8 (take split value);
     asserting (\<not> decode_succ partial) (asserting (readAble buffer = int split) (do {
       buffer \<leftarrow> writeToBuffer (drop split value) buffer;
       (buffer, complete) \<leftarrow> http_decode buffer HttpRequest;
       Some (decode_succ complete \<and> m_request_body complete = ''hello'' \<and> readAble buffer = 0) })) }"

definition TestResponseEncoding :: "bool option" where
  "TestResponseEncoding = do {
     let response = HttpResponse\<lparr>m_response_code := HTTP_OK, m_response_info := HttpCodeToString HTTP_OK,
       m_response_header := setKeyValue ''Content-Type'' ''text/plain'' (m_response_header HttpResponse),
       m_response_body := ''hello''\<rparr>;
     (buffer, response) \<leftarrow> http_encode (TcpBuffer 16) response;
     asserting (encode_succ response) (do {
       encoded \<leftarrow> getBufferString buffer;
       Some (find_sub (crlf_text [''HTTP/1.1 200 OK'']) encoded = Some 0
         \<and> find_sub (crlf_text [''content-length: 5'']) encoded \<noteq> None
         \<and> find_sub (crlf_text [''content-type: text/plain'']) encoded \<noteq> None
         \<and> drop (length encoded - 5) encoded = ''hello'') }) }"

definition TestUnsupportedMethod :: "bool option" where
  "TestUnsupportedMethod = do {
     let value = crlf_text [''DELETE /hello HTTP/1.1'', ''Host: localhost'', []];
     (buffer, request) \<leftarrow> decode_text 16 value;
     Some (\<not> decode_succ request \<and> readAble buffer = int (length value)) }"

lemma TestGetRequest_passes: "TestGetRequest = Some True"
  by code_simp

lemma TestPostRequest_passes: "TestPostRequest = Some True"
  by code_simp

lemma TestPartialRequest_passes: "TestPartialRequest = Some True"
  by code_simp

lemma TestResponseEncoding_passes: "TestResponseEncoding = Some True"
  by code_simp

lemma TestUnsupportedMethod_passes: "TestUnsupportedMethod = Some True"
  by code_simp

lemmas http_tests_pass = TestGetRequest_passes TestPostRequest_passes TestPartialRequest_passes TestResponseEncoding_passes TestUnsupportedMethod_passes

definition http_codec_test :: "bool option" where
  "http_codec_test = do {
     a \<leftarrow> TestGetRequest; b \<leftarrow> TestPostRequest; c \<leftarrow> TestPartialRequest; d \<leftarrow> TestResponseEncoding;
     e \<leftarrow> TestUnsupportedMethod;
     Some (a \<and> b \<and> c \<and> d \<and> e) }"

section \<open>\<open>process_signal_test.cc\<close>\<close>

text \<open>What \<open>raise\<close> does depends on the disposition of the signal; \<open>raise_rt\<close> is its answer where it returns.\<close>

definition process_signal_test :: "signal_answers \<Rightarrow> int \<Rightarrow> signal_state \<Rightarrow> process_end" where
  "process_signal_test a raise_rt st =
     (let (ok, st) = PrepareProcessSignals a st
      in if \<not> ok then ExitCode 1
         else case dispositions st SIGPIPE of
                IgnoreSignal \<Rightarrow> ExitCode (if raise_rt = 0 then 0 else 2)
              | DefaultAction \<Rightarrow> KilledBy SIGPIPE
              | FatalHandler \<Rightarrow> FatalSignalHandler False SIGPIPE)"

text \<open>Whatever the system answers, \<open>SIGPIPE\<close> does not end the process: the test exits, with 0 or because it could not prepare.\<close>

lemma process_signal_test_exits:
  "process_signal_test a 0 no_signals = ExitCode (if fst (PrepareProcessSignals a no_signals) then 0 else 1)"
  using signals_ok_Prepare [OF signals_ok_none, of a]
  by (auto simp: process_signal_test_def signals_ok_def PrepareProcessSignals_def Let_def split: prod.split)

theorem unit_tests_pass:
  "rpc_codec_test = Some True" "http_codec_test = Some True"
  "process_signal_test a 0 no_signals = ExitCode (if fst (PrepareProcessSignals a no_signals) then 0 else 1)"
  by (simp_all add: rpc_codec_test_passes http_codec_test_def http_tests_pass process_signal_test_exits)

end
