(* ===== verification/ExampleMain.thy ===== *)
theory ExampleMain
  imports ExampleRpc ServiceCall Application
begin

text \<open>
  The \<open>main\<close> functions of the programs under \<open>example/\<close>, and \<open>RpcProvider::Run\<close> as a whole. What the
  system answers while a program runs is one record; the program starts in a process as it is created, with
  no server behind \<open>GetRpcServer()\<close>.
\<close>

section \<open>The surroundings of a program\<close>

record surroundings =
  su_argc :: int
  su_opts :: "(char \<times> string) list"
  su_disk :: "string \<Rightarrow> string option"
  su_signals :: signal_answers
  su_logs :: "string \<Rightarrow> string option"
  su_log_disk :: log_disk
  su_date :: string
  su_inet :: inet_addr_fun
  su_created :: "string \<Rightarrow> bool"
  su_boots :: "nat \<Rightarrow> int \<times> kernel"
  su_kernel :: kernel
  su_thread :: int
  su_now :: int
  su_timer :: timer_state
  su_events :: "nat \<times> nat"
  su_ptr :: "int \<Rightarrow> fd_ptr"
  su_listen :: "int \<times> int \<times> int"
  su_accepts :: "(int \<times> nat \<times> nat) list"
  su_act :: "Reactor.effect \<Rightarrow> net \<Rightarrow> net option"
  su_waits :: "wait_result list"

record 'm world =
  wo_process :: process
  wo_server :: "'m tcp_server option"
  wo_net :: net
  wo_zk :: zk

definition program_init :: "surroundings \<Rightarrow> 'm world \<Rightarrow> (int option \<times> 'm world) option" where
  "program_init su w =
     map_option (\<lambda>(code, p). (code, w\<lparr>wo_process := p\<rparr>))
       (RpcApplication_Init (su_argc su) (su_opts su) (su_disk su) (su_signals su) (su_logs su) (su_log_disk su) (su_date su)
          (wo_process w))"

text \<open>The constructor of a server, and \<open>start\<close>, in these surroundings.\<close>

definition new_server :: "surroundings \<Rightarrow> protocal_type \<Rightarrow> 'm world \<Rightarrow> ('m tcp_server \<times> 'm world) option" where
  "new_server su ty w =
     map_option (\<lambda>(s, nw). (s, w\<lparr>wo_net := nw\<rparr>))
       (TcpServer (su_boots su) (su_kernel su) (su_thread su) (su_now su) (p_config (wo_process w)) ty AF_INET
          (su_timer su) (fst (su_events su)) (snd (su_events su)) (wo_net w))"

definition run_server :: "surroundings \<Rightarrow> 'm tcp_server \<Rightarrow> 'm world \<Rightarrow> ('m tcp_server \<times> 'm world) option" where
  "run_server su s w =
     map_option (\<lambda>(fd, s, nw). (s, w\<lparr>wo_net := nw\<rparr>))
       (server_start (su_ptr su) (su_listen su) (su_accepts su) (su_act su) (su_thread su) (su_waits su) s (wo_net w))"

definition shutdown_logger :: "surroundings \<Rightarrow> 'm world \<Rightarrow> 'm world option" where
  "shutdown_logger su w =
     map_option (\<lambda>p. w\<lparr>wo_process := p\<rparr>) (ShutdownLogger (su_log_disk su) (su_date su) (wo_process w))"

section \<open>\<open>RpcProvider::Run\<close> and the programs that provide\<close>

text \<open>
  The server that \<open>SetRpcServer\<close> is given is shared: the services that are registered afterwards are
  those of the server behind \<open>GetRpcServer()\<close>. The result holds the server as it is when the main reactor stops.
\<close>

definition RpcProvider_Run ::
  "surroundings \<Rightarrow> (nat \<Rightarrow> 'm pb_service) \<Rightarrow> service_table \<Rightarrow> 'm world \<Rightarrow> ('m tcp_server \<times> 'm world) option" where
  "RpcProvider_Run su object m w = do {
     (s, w) \<leftarrow> new_server su TinyPb_Protocal w;
     (addr, s, z) \<leftarrow> provider_Run (su_inet su) (su_created su) (p_config (wo_process w)) object m s (wo_zk w);
     let w = w\<lparr>wo_server := SetRpcServer (Some s) (wo_server w), wo_zk := z\<rparr>;
     (s, w) \<leftarrow> run_server su s w;
     Some (s, w\<lparr>wo_server := SetRpcServer None (wo_server w)\<rparr>) }"

text \<open>The result is the exit code and, where it came to serving, the server.\<close>

definition provider_main ::
  "surroundings \<Rightarrow> 'm pb_service \<Rightarrow> 'm world \<Rightarrow> (int \<times> 'm tcp_server option \<times> 'm world) option" where
  "provider_main su service w = do {
     (ended, w) \<leftarrow> program_init su w;
     case ended of
       Some code \<Rightarrow> Some (code, None, w)
     | None \<Rightarrow> do {
         let m = NotifyService 0 (sd_name service) (sd_methods service) [];
         (s, w) \<leftarrow> RpcProvider_Run su (\<lambda>_. service) m w;
         Some (0, Some s, w) } }"

datatype friend_message = FriendsRequest i32 | FriendsResponse friends_response

definition FriendServiceImpl ::
  "(bytes \<Rightarrow> i32 option) \<Rightarrow> (friends_response \<Rightarrow> bytes option) \<Rightarrow> friend_message pb_service" where
  "FriendServiceImpl parse_request write_response =
     \<lparr>sd_name = ''FiendServiceRpc'', sd_methods = [''GetFriendsList''], sd_request_type = (\<lambda>_. ''fixbug.GetFriendsListRequest''),
      sd_parse = (\<lambda>_ bs. map_option FriendsRequest (parse_request bs)),
      sd_call = (\<lambda>_ q. case q of FriendsRequest uid \<Rightarrow> FriendsResponse (FriendService_GetFriendsList uid) | FriendsResponse r \<Rightarrow> FriendsResponse r),
      sd_serialize = (\<lambda>m. case m of FriendsResponse r \<Rightarrow> write_response r | FriendsRequest _ \<Rightarrow> None)\<rparr>"

definition friendservice_main ::
  "surroundings \<Rightarrow> (bytes \<Rightarrow> i32 option) \<Rightarrow> (friends_response \<Rightarrow> bytes option) \<Rightarrow> friend_message world
     \<Rightarrow> (int \<times> friend_message tcp_server option \<times> friend_message world) option" where
  "friendservice_main su parse_request write_response = provider_main su (FriendServiceImpl parse_request write_response)"

definition backend_main ::
  "surroundings \<Rightarrow> (bytes \<Rightarrow> query_age_request option) \<Rightarrow> (query_age_response \<Rightarrow> bytes option) \<Rightarrow> query_message world
     \<Rightarrow> (int \<times> query_message tcp_server option \<times> query_message world) option" where
  "backend_main su parse_request write_response = provider_main su (QueryServiceImpl parse_request write_response)"

definition service_b_main ::
  "surroundings \<Rightarrow> (bytes \<Rightarrow> verify_request option) \<Rightarrow> (verify_response \<Rightarrow> bytes option) \<Rightarrow> auth_message world
     \<Rightarrow> (int \<times> auth_message tcp_server option \<times> auth_message world) option" where
  "service_b_main su parse_request write_response = provider_main su (AuthServiceImpl parse_request write_response)"

text \<open>Service A and the user service, whose methods wait or are undefined, are given as objects.\<close>

definition service_a_main ::
  "surroundings \<Rightarrow> 'm pb_service \<Rightarrow> 'm world \<Rightarrow> (int \<times> 'm tcp_server option \<times> 'm world) option" where
  "service_a_main su OrderServiceImpl = provider_main su OrderServiceImpl"

definition userservice_main ::
  "surroundings \<Rightarrow> 'm pb_service \<Rightarrow> 'm world \<Rightarrow> (int \<times> 'm tcp_server option \<times> 'm world) option" where
  "userservice_main su UserService = provider_main su UserService"

section \<open>The HTTP programs\<close>

definition http_main ::
  "('m tcp_server \<Rightarrow> bool \<times> 'm tcp_server) \<Rightarrow> surroundings \<Rightarrow> 'm world \<Rightarrow> (int \<times> 'm tcp_server option \<times> 'm world) option" where
  "http_main setup su w = do {
     (ended, w) \<leftarrow> program_init su w;
     case ended of
       Some code \<Rightarrow> Some (code, None, w)
     | None \<Rightarrow> do {
         (s, w) \<leftarrow> new_server su Http_Protocal w;
         let (ok, s) = setup s;
         if \<not> ok then do { w \<leftarrow> shutdown_logger su w; Some (1, None, w) }
         else do {
           let w = w\<lparr>wo_server := SetRpcServer (Some s) (wo_server w)\<rparr>;
           (s, w) \<leftarrow> run_server su s w;
           let w = w\<lparr>wo_server := SetRpcServer None (wo_server w)\<rparr>;
           w \<leftarrow> shutdown_logger su w;
           Some (0, Some s, w) } } }"

definition http_server_main :: "surroundings \<Rightarrow> 'm world \<Rightarrow> (int \<times> 'm tcp_server option \<times> 'm world) option" where
  "http_server_main = http_main http_server_setup"

definition async_http_main ::
  "servlet \<Rightarrow> servlet \<Rightarrow> surroundings \<Rightarrow> 'm world \<Rightarrow> (int \<times> 'm tcp_server option \<times> 'm world) option" where
  "async_http_main block nonblock = http_main (async_http_setup block nonblock)"

section \<open>The programs that call\<close>

text \<open>
  The end of such a program: the exit code, or a call that never returns, with the lines that were printed so
  far. The messages are written and parsed by the functions given; a response that was not filled in has the
  defaults of protobuf.
\<close>

datatype program_end = ExitsWith int "string list" | HangsAfter "string list"

definition empty_result :: result_code_message where
  "empty_result = \<lparr>errcode = 0, errmsg = []\<rparr>"

definition LoginResponse :: login_response where
  "LoginResponse = \<lparr>result = empty_result, sucess = False\<rparr>"

definition FriendsListResponse :: friends_response where
  "FriendsListResponse = \<lparr>friends_result = empty_result, friends = []\<rparr>"

definition calluserservice_main ::
  "surroundings \<Rightarrow> call_env \<Rightarrow> call_env \<Rightarrow> (login_request \<Rightarrow> bytes option) \<Rightarrow> (register_request \<Rightarrow> bytes option)
     \<Rightarrow> (bytes \<Rightarrow> login_response option) \<Rightarrow> unit world \<Rightarrow> program_end option" where
  "calluserservice_main su env1 env2 write_login write_register parse_response w = do {
     (ended, w) \<leftarrow> program_init su w;
     case ended of
       Some code \<Rightarrow> Some (ExitsWith code [])
     | None \<Rightarrow> do {
         out \<leftarrow> CallMethod_null env1 ''UserServiceRpc'' ''Login'' (write_login \<lparr>login_name = ''zhangsan'', login_pwd = ''123456''\<rparr>)
                  parse_response;
         case out of
           Calling _ \<Rightarrow> Some (HangsAfter [])
         | Called _ v _ \<Rightarrow> do {
             let response = (case v of None \<Rightarrow> LoginResponse | Some r \<Rightarrow> r);
             let printed = [login_line response];
             out \<leftarrow> CallMethod_null env2 ''UserServiceRpc'' ''Register''
                      (write_register \<lparr>register_id = 2000, register_name = ''mprpc'', register_pwd = ''1234455''\<rparr>) parse_response;
             Some (case out of
                     Calling _ \<Rightarrow> HangsAfter printed
                   | Called _ v _ \<Rightarrow>
                       ExitsWith 0 (printed @ [register_line response (case v of None \<Rightarrow> LoginResponse | Some r \<Rightarrow> r)])) } } }"

definition callfriendservice_main ::
  "surroundings \<Rightarrow> call_env \<Rightarrow> (i32 \<Rightarrow> bytes option) \<Rightarrow> (bytes \<Rightarrow> friends_response option) \<Rightarrow> unit world \<Rightarrow> program_end option" where
  "callfriendservice_main su env write_request parse_response w = do {
     (ended, w) \<leftarrow> program_init su w;
     case ended of
       Some code \<Rightarrow> Some (ExitsWith code [])
     | None \<Rightarrow> do {
         out \<leftarrow> CallMethod env ''FiendServiceRpc'' ''GetFriendsList'' (write_request 1000) parse_response (Own RpcController);
         Some (case out of
                 Calling _ \<Rightarrow> HangsAfter []
               | Called ctl v _ \<Rightarrow>
                   ExitsWith 0 (friend_lines ctl (case v of None \<Rightarrow> FriendsListResponse | Some r \<Rightarrow> r))) } }"

text \<open>The result \<^term>\<open>Some None\<close> is a call that does not return.\<close>

definition TestCreateOrder ::
  "(create_order_request \<Rightarrow> bytes option) \<Rightarrow> (bytes \<Rightarrow> create_order_response option) \<Rightarrow> call_env \<Rightarrow> string \<Rightarrow> string
     \<Rightarrow> string option option" where
  "TestCreateOrder write_request parse_response env case_name password = do {
     out \<leftarrow> CallMethod env ''OrderService'' ''CreateOrder''
              (write_request \<lparr>co_user_name = ''zhangsan'', co_password = password, co_product_id = 2000\<rparr>)
              parse_response (Own RpcController);
     Some (case out of
             Calling _ \<Rightarrow> None
           | Called ctl v _ \<Rightarrow> Some (consumer_line case_name ctl (case v of None \<Rightarrow> CreateOrderResponse | Some r \<Rightarrow> r))) }"

definition consumer_main ::
  "surroundings \<Rightarrow> call_env \<Rightarrow> call_env \<Rightarrow> (create_order_request \<Rightarrow> bytes option) \<Rightarrow> (bytes \<Rightarrow> create_order_response option)
     \<Rightarrow> unit world \<Rightarrow> program_end option" where
  "consumer_main su env1 env2 write_request parse_response w = do {
     (ended, w) \<leftarrow> program_init su w;
     case ended of
       Some code \<Rightarrow> Some (ExitsWith code [])
     | None \<Rightarrow> do {
         one \<leftarrow> TestCreateOrder write_request parse_response env1 ''A to B success'' ''123456'';
         case one of
           None \<Rightarrow> Some (HangsAfter [])
         | Some line \<Rightarrow> do {
             two \<leftarrow> TestCreateOrder write_request parse_response env2 ''A to B business failure'' ''wrong-password'';
             Some (case two of None \<Rightarrow> HangsAfter [line] | Some line2 \<Rightarrow> ExitsWith 0 [line, line2]) } } }"

section \<open>What the programs do\<close>

text \<open>Running a server does not change what it serves.\<close>

lemma MainAccept_dispatcher:
  "MainAcceptCorFunc addr as s w = Some (s', w') \<Longrightarrow> m_dispatcher s' = m_dispatcher s"
proof (induction as arbitrary: s w)
  case (Cons a as)
  then show ?case
    by (cases a) (auto simp: bind_eq_Some_iff dest: accept_turn_fields(2) split: if_splits)
qed simp

lemma run_server_dispatcher: "run_server su s w = Some (s', w') \<Longrightarrow> m_dispatcher s' = m_dispatcher s"
  by (auto simp: run_server_def server_start_def bind_eq_Some_iff dest: MainAccept_dispatcher)

lemma run_server_world:
  "run_server su s w = Some (s', w') \<Longrightarrow> wo_process w' = wo_process w \<and> wo_server w' = wo_server w \<and> wo_zk w' = wo_zk w"
  by (auto simp: run_server_def)

text \<open>
  The registrations of the HTTP programs never fail: a program whose \<open>Init\<close> succeeds and whose server
  stops returns 0, has served with the table that \<open>setup\<close> makes, and leaves no server behind.
\<close>

lemma http_main_serves:
  assumes regs: "\<And>s. m_protocal_type s = Http_Protocal \<Longrightarrow> m_dispatcher s = HttpDispatcher [] \<Longrightarrow> fst (setup s)"
    and init: "program_init su w = Some (None, w1)" and main: "http_main setup su w = Some (code, served, w2)"
  shows "code = 0 \<and> wo_server w2 = None
     \<and> (\<exists>s0 s. served = Some s \<and> m_protocal_type s0 = Http_Protocal \<and> m_dispatcher s0 = HttpDispatcher []
          \<and> m_dispatcher s = m_dispatcher (snd (setup s0)))"
proof -
  obtain s0 w3 where s0: "new_server su Http_Protocal w1 = Some (s0, w3)"
    using main init by (auto simp: http_main_def bind_eq_Some_iff)
  then have new: "m_protocal_type s0 = Http_Protocal" "m_dispatcher s0 = HttpDispatcher []"
    using new_server_dispatcher by (fastforce simp: new_server_def)+
  then have "fst (setup s0)" by (rule regs)
  with main init s0 obtain s w4 where s: "run_server su (snd (setup s0)) (w3\<lparr>wo_server := Some (snd (setup s0))\<rparr>) = Some (s, w4)"
    and res: "code = 0" "served = Some s" "shutdown_logger su (w4\<lparr>wo_server := None\<rparr>) = Some w2"
    by (auto simp: http_main_def bind_eq_Some_iff SetRpcServer_def split: prod.splits)
  have "wo_server w2 = None" using res(3) by (auto simp: shutdown_logger_def)
  with res new run_server_dispatcher [OF s] show ?thesis by blast
qed

text \<open>The server of \<open>example/http_server\<close> while it runs, and that of \<open>example/async_http\<close>.\<close>

theorem http_server_main_serves:
  assumes "program_init su w = Some (None, w1)" "http_server_main su w = Some (code, served, w2)"
  shows "code = 0 \<and> (\<exists>s. served = Some s \<and> servlet_for (http_table (m_dispatcher s)) ''/hello'' = HelloServlet
     \<and> servlet_for (http_table (m_dispatcher s)) ''/echo'' = EchoServlet)"
  using http_main_serves [OF http_server_setup_ok(1) assms(1) assms(2) [unfolded http_server_main_def]]
    http_server_setup_ok(2,3) by fastforce

theorem async_http_main_serves:
  assumes "program_init su w = Some (None, w1)" "async_http_main block nonblock su w = Some (code, served, w2)"
  shows "code = 0 \<and> (\<exists>s. served = Some s \<and> servlet_for (http_table (m_dispatcher s)) ''/block'' = block
     \<and> servlet_for (http_table (m_dispatcher s)) ''/nonblock'' = nonblock)"
  using http_main_serves [OF async_http_setup_ok(1) assms(1) assms(2) [unfolded async_http_main_def]]
    async_http_setup_ok(3,4) by fastforce

text \<open>A provider's server knows the service and each of its methods, and the global pointer is null when it has stopped.\<close>

theorem provider_main_serves:
  assumes "program_init su w = Some (None, w1)" "provider_main su service w = Some (code, served, w2)"
    and "meth \<in> set (sd_methods service)"
  shows "code = 0 \<and> wo_server w2 = None \<and> (\<exists>s services. served = Some s \<and> m_dispatcher s = RpcDispatcher services
     \<and> call_service services (sd_name service) meth args = method_result service meth args)"
proof -
  let ?m = "notify_services (\<lambda>_. service) [0]"
  have m: "NotifyService 0 (sd_name service) (sd_methods service) [] = ?m" by (simp add: notify_services_def)
  obtain s0 w3 addr s z w4 s' where new: "new_server su TinyPb_Protocal w1 = Some (s0, w3)"
    and run: "provider_Run (su_inet su) (su_created su) (p_config (wo_process w3)) (\<lambda>_. service) ?m s0 (wo_zk w3) = Some (addr, s, z)"
    and srv: "run_server su s (w3\<lparr>wo_server := Some s, wo_zk := z\<rparr>) = Some (s', w4)"
    and res: "code = 0" "served = Some s'" "w2 = w4\<lparr>wo_server := None\<rparr>"
    using assms(1,2) by (auto simp: provider_main_def RpcProvider_Run_def bind_eq_Some_iff m SetRpcServer_def)
  obtain w5 where "TcpServer (su_boots su) (su_kernel su) (su_thread su) (su_now su) (p_config (wo_process w1)) TinyPb_Protocal AF_INET
      (su_timer su) (fst (su_events su)) (snd (su_events su)) (wo_net w1) = Some (s0, w5)" "w3 = w1\<lparr>wo_net := w5\<rparr>"
    using new by (auto simp: new_server_def)
  then have "\<exists>services. m_dispatcher s = RpcDispatcher services
      \<and> call_service services (sd_name service) meth args = method_result service meth args"
    using provider_service [where object = "\<lambda>_. service" and svs = "[0]" and n = 0 and meth = meth and args = args] run assms(3) by fastforce
  with res run_server_dispatcher [OF srv] show ?thesis by auto
qed

text \<open>
  The consumer of \<open>example/async_channel\<close>, when service A answers as \<^const>\<open>order_answer\<close> says (theory \<open>ExampleRpc\<close> shows
  that it does): the first order goes through, the second one is refused.
\<close>

lemma TestCreateOrder_line:
  assumes "write_request \<lparr>co_user_name = ''zhangsan'', co_password = password, co_product_id = 2000\<rparr> = Some args"
    and "CallMethod env ''OrderService'' ''CreateOrder'' (Some args) parse_response (Own RpcController)
           = Some (Called (Own RpcController) (Some (order_answer \<lparr>co_user_name = ''zhangsan'', co_password = password, co_product_id = 2000\<rparr>)) e)"
  shows "TestCreateOrder write_request parse_response env case_name password = Some (Some (
     if password = ''123456'' then ''['' @ case_name @ ''] business code=0, info=, order_id=order-2000''
     else ''['' @ case_name @ ''] business code=1001, info=invalid password, order_id=''))"
proof -
  have "nat_str 2000 = ''2000''" "int_str 0 = ''0''" "int_str 1001 = ''1001''" "sint (0 :: i32) = 0" "sint (1001 :: i32) = 1001"
    "unat (2000 :: i32) = 2000"
    by (simp_all add: int_str_def nat_str.simps digit_char_def char_of_def bit_0)
  moreover have "\<not> controller_failed (Own RpcController)" by (simp add: controller_failed_def Failed_def RpcController_def)
  ultimately show ?thesis
    by (simp add: TestCreateOrder_def assms consumer_line_def) (simp add: order_answer_def)
qed

definition test_order :: "string \<Rightarrow> create_order_request" where
  "test_order password = \<lparr>co_user_name = ''zhangsan'', co_password = password, co_product_id = 2000\<rparr>"

theorem consumer_main_prints:
  assumes "program_init su w = Some (None, w1)"
    and "write_request (test_order ''123456'') = Some args1" "write_request (test_order ''wrong-password'') = Some args2"
    and "CallMethod env1 ''OrderService'' ''CreateOrder'' (Some args1) parse_response (Own RpcController)
           = Some (Called (Own RpcController) (Some (order_answer (test_order ''123456''))) e1)"
    and "CallMethod env2 ''OrderService'' ''CreateOrder'' (Some args2) parse_response (Own RpcController)
           = Some (Called (Own RpcController) (Some (order_answer (test_order ''wrong-password''))) e2)"
  shows "consumer_main su env1 env2 write_request parse_response w
    = Some (ExitsWith 0 [''[A to B success] business code=0, info=, order_id=order-2000'',
        ''[A to B business failure] business code=1001, info=invalid password, order_id=''])"
  using TestCreateOrder_line [where write_request = write_request and case_name = "''A to B success''" and password = "''123456''", OF assms(2,4) [unfolded test_order_def]]
    TestCreateOrder_line [where write_request = write_request and case_name = "''A to B business failure''" and password = "''wrong-password''",
      OF assms(3,5) [unfolded test_order_def]]
  by (simp add: consumer_main_def assms(1))

text \<open>The friends that \<open>callfriendservice.cc\<close> prints when the service of \<open>friendservice.cc\<close> has answered.\<close>

lemma friends_printed:
  "friend_lines (Own RpcController) (FriendService_GetFriendsList 1000)
     = [''rpc GetFriendsList response success!'', ''index:1 name:gao yang'', ''index:2 name:liu hong'', ''index:3 name:wang shuo'']"
  by code_simp

text \<open>
  Login has no defined result: with the user service as written, no server can be given that answers it, and
  a caller that cannot find it crashes through its null controller before it prints anything.
\<close>

lemma calluserservice_crashes:
  assumes "program_init su w = Some (None, w1)" "write_login \<lparr>login_name = ''zhangsan'', login_pwd = ''123456''\<rparr> = Some args"
    and "zk_GetData (env_junk env1) (env_zk env1) ''/UserServiceRpc/Login'' = Some []"
  shows "calluserservice_main su env1 env2 write_login write_register parse_response w = None"
  using null_controller_crashes [of env1 "''UserServiceRpc''" "''Login''" args parse_response] assms
  by (simp add: calluserservice_main_def)

end
