(* ===== verification/Spec2Isabelle.thy ===== *)
theory Spec2Isabelle
  imports ConnectionLoop Timer TimeWheel CoroutinePool Mutexes Config NetAddress ReactorLoop NetSteps IoThread TcpServer
    Hooks Scheduling TcpClient Discovery ZkSession RpcChannel RpcCall RpcAsync Logger LogLoop Application ServerSession ServerLife
    ExampleHttp ExampleRpc ServiceCall IdleReaper UnitTests ExampleMain
begin

text \<open>
  A model of \<open>coroutine_rpc\<close>: a C++ framework for RPC and HTTP servers and clients in which every
  connection is a stackful coroutine that runs on one of several io threads, each with an epoll
  reactor of its own. The theories follow the sources under \<open>src/\<close>.

  \<^bold>\<open>How the parts interact.\<close> A provider (\<open>rpc/rpcprovider.cc\<close>) registers protobuf services with a
  \<open>TcpServer\<close>, publishes its address for every method in ZooKeeper, and runs the main reactor. The
  coroutine of the acceptor deals accepted connections to the io threads. A connection's coroutine
  repeats \<open>input\<close>, \<open>execute\<close>, \<open>output\<close>: bytes are read into a \<open>TcpBuffer\<close>, the codec takes packets out of
  it, the dispatcher calls the service or the servlet and the codec writes the reply into the other
  buffer. Reads and writes go through hooked system calls: when the kernel has nothing, the hook enters
  the coroutine in the descriptor's \<open>FdEvent\<close>, registers it with the thread's \<open>Reactor\<close> and yields; the
  reactor's loop resumes it. On the client side \<open>RpcChannel::CallMethod\<close> looks the address up, encodes
  the request into the connection of a \<open>TcpClient\<close>, and \<open>sendAndRecv\<close> connects, sends and waits for the
  reply with the request's number, guarded by a timer event; \<open>RpcAsyncChannel\<close> hands such a call to
  another io thread. Log statements fill buffers that a thread writes to files.

  \<^bold>\<open>Theories and sources.\<close>

  \<^item> Foundations: \<open>Prelude\<close> (results, lists, the run time of a coroutine), \<open>StdString\<close> (\<open>std::string\<close>
    operations, decimal numbers), \<open>StdMap\<close> (\<open>std::map\<close> as a sorted association list).
  \<^item> Bytes and packets: \<open>TcpBuffer\<close> (\<open>net/tcp/tcp_buffer\<close>), \<open>NetData\<close> (\<open>rpc_data.h\<close>, \<open>http_request.h\<close>,
    \<open>http_response.h\<close>, \<open>error_code.h\<close>), \<open>RpcCodec\<close> (\<open>rpc/rpc_codec\<close>), \<open>StringUtil\<close>, \<open>HttpDefine\<close> and
    \<open>HttpCodec\<close> (\<open>comm/string_util\<close>, \<open>net/http\<close>), \<open>MsgReq\<close> (\<open>comm/msg_req\<close>), \<open>Config\<close> (\<open>comm/config\<close>),
    \<open>NetAddress\<close> (\<open>net/net_address\<close>). \<open>RpcWire\<close> and \<open>RpcFrame\<close> hold the specification of the frame
    format, its parser, and the refinement.
  \<^item> Connections: \<open>TcpConnection\<close> and \<open>ConnectionLoop\<close> (\<open>net/tcp/tcp_connection\<close>), \<open>Dispatcher\<close>
    (\<open>rpc/rpc_dispatcher\<close>, \<open>net/http/http_dispatcher\<close>, \<open>net/http/http_servlet\<close>), \<open>ServerSession\<close> (\<open>execute\<close> with
    the virtual calls and casts, and what can happen to a server and its connections), \<open>IdleReaper\<close> (the time
    wheel, the connections' turns and the client map together).
  \<^item> Coroutines: \<open>Coroutine\<close> (\<open>coroutine/coroutine\<close>, \<open>coctx_swap.S\<close>), \<open>CoroutinePool\<close> (\<open>coroutine_pool\<close>,
    \<open>memory\<close>), \<open>Mutexes\<close> (\<open>net/mutex\<close>), \<open>Hooks\<close> (\<open>coroutine/coroutine_hook\<close>).
  \<^item> Events: \<open>FdEvent\<close> (\<open>net/fd_event\<close>), \<open>Reactor\<close> (registration, also the parts of \<open>fd_event.cc\<close> that
    use the reactor), \<open>ReactorLoop\<close> (\<open>Reactor::loop\<close>), \<open>NetSteps\<close> (the calls of all threads and the turns of
    the loops, interleaved), \<open>Scheduling\<close> (several threads and their coroutines, interleaved), \<open>Timer\<close>
    (\<open>net/timer\<close>), \<open>TimeWheel\<close>
    (\<open>net/tcp/tcp_connection_time_wheel\<close>).
  \<^item> Server and client: \<open>IoThread\<close> (\<open>net/tcp/io_thread\<close>), \<open>TcpServer\<close> (\<open>net/tcp/tcp_server\<close>),
    \<open>ServerLife\<close> (start-up and end of an io thread, destructors), \<open>TcpClient\<close> (\<open>net/tcp/tcp_client\<close>),
    \<open>Discovery\<close> (\<open>registry/zookeeperutil\<close>, \<open>rpc/rpcprovider\<close>), \<open>ZkSession\<close> (\<open>ZkClient::Start\<close> and its watcher),
    \<open>RpcChannel\<close> (\<open>rpc/rpcchannel\<close>, \<open>rpc/rpccontroller\<close>), \<open>RpcCall\<close> (a call end to end), \<open>ServiceCall\<close>
    (a provider and a caller end to end), \<open>RpcAsync\<close> (\<open>rpc/rpcasyncchannel\<close>, \<open>rpc/rpc_closure.h\<close>,
    \<open>application/rpcruntime\<close>).
  \<^item> Process: \<open>LogFile\<close>, \<open>LogQueue\<close>, \<open>Logger\<close>, \<open>LogLoop\<close> (\<open>comm/log\<close>), \<open>Application\<close>
    (\<open>application/rpcapplication\<close>, \<open>comm/process_signal\<close>).
  \<^item> Users of the library: \<open>ExampleHttp\<close> (\<open>example/http_server\<close>, \<open>example/async_http\<close>), \<open>ExampleRpc\<close>
    (\<open>example/callee\<close>, \<open>example/caller\<close>, \<open>example/async_channel\<close>), \<open>ExampleMain\<close> (the main functions of all
    of them, and \<open>RpcProvider::Run\<close> over the configuration), \<open>UnitTests\<close> (the C++ tests under \<open>tests\<close>, run on
    the model).

  A class is a record whose fields keep the names of the members, and an operation is a function with
  the name of the method. A shared object that several parts change (event objects, reactors, the queue
  of ready coroutines) is reached through the record \<open>net\<close> by its address or number. The virtual codec and
  dispatcher of a connection are chosen by its protocol tag; \<open>ServerSession\<close> shows that this is what the
  virtual calls of the code do in every state that a server reaches. Interfaces that several parts rely
  on are locales: an invariant of a step relation (\<open>step_invariant\<close>), a mutex that scoped locks use
  (\<open>lockable\<close>), and the others that the theories declare; each is interpreted on the code's model.

  \<^bold>\<open>What the lemmas show.\<close>

  \<^item> Bytes: the buffer is a byte queue at every fill level and no operation leaves the vector; the codec
    implements the abstract frame parser on every byte string, round trips hold behind any prefix, and
    HTTP framing does not depend on how the bytes arrive.
  \<^item> Connections: \<open>input\<close> and \<open>output\<close> keep bytes and their order whatever the kernel answers and whatever
    the timer and the wheel do meanwhile; \<open>execute\<close> ends on every input and answers every complete
    request in order; \<open>RpcCall\<close> composes both sides of a call, discovery to controller, and
    \<open>ServiceCall\<close> adds the provider: what it publishes, a caller can call; the casts of a server succeed in
    every reachable state; an idle connection is shut down by the tick of the wheel that destroys its slot,
    not before, and its descriptor is then closed and its entry released.
  \<^item> Programs: a request of a browser to the HTTP example becomes a call of its backend and comes back as a
    page; waiting for an asynchronous call shows what the blocking call shows; an order follows the
    answer of the second service; the main functions end with servers that have the dispatchers and
    services they registered, and the assertions of the C++ tests hold on the model.
  \<^item> Scheduling: in every run of a process what the kernel watches is on the reactor's list and open, and is the
    whole list as long as no listed descriptor is closed; coroutines that leave their hooks are
    resumed in order while no other thread takes from the shared queue, tasks run once and in order; no coroutine is on two threads as long as coroutines wait on their own thread, and the
    run is given in which the code breaks that; scoped locks exclude each other; a coroutine in a hooked call, and one in \<open>wait\<close> of an asynchronous call, is
    resumed; accepted connections are dealt out in turn; timers run when due.
  \<^item> Log: from \<open>Init\<close> to the end of the process every accepted line of either kind is written once, in order,
    within the size limit;
    the sync loop hands lines over in order and ends when it is stopped.
  \<^item> Lives: the start-up of an io thread, and when its destructor can return; the start of a ZooKeeper session.
  \<^item> Defects: the theorems whose text says that something is lost, dropped, forgotten or never ends
    show what the code does in cases that it does not handle.

  \<^bold>\<open>Bounds and fuel.\<close> Loops that may not end are \<open>partial_function (option)\<close>: the loop of \<open>execute\<close>
  (shown to return on every input), the loop over the queue of ready coroutines (shown to return in the
  situations used), the turns of a server connection's coroutine (shown to come back to a waiting read), and the
  search for a log file (shown to end when the disk has finitely many files). The receive loop of a client takes fuel, one
  unit more than its script has
  entries, and every turn consumes an entry. Results of system calls are scripts or functions; a script
  that ends means that the coroutine is not resumed any more. Where \<open>Coroutine::Yield\<close> behaves differently in the main
  coroutine, which it does not suspend, the functions have an argument \<open>is_main\<close>. \<^term>\<open>None\<close> as a result stands for what C++
  leaves undefined or an abort: an index outside a vector, a null pointer, an uncaught failure.
  Descriptors, lengths and indices are \<open>int\<close> or \<open>nat\<close>; the 32-bit fields of the wire format, event
  masks, ports and the interval of \<open>sleep\<close> are words and wrap. The sizes of stack memory are \<open>int\<close> in the code and
  overflow: such a product is \<^term>\<open>None\<close>. The sizes of a \<open>TcpBuffer\<close> are exact below a third of \<open>2 ^ 31\<close>.

  \<^bold>\<open>Not modelled.\<close> Protobuf messages are given by what writing and parsing them answers, services by a
  record of functions (the generated code under \<open>example/generated\<close> is not part of the model); the ZooKeeper
  library, \<open>snprintf\<close>, \<open>getopt\<close> and the system calls, \<open>gettid\<close> of \<open>comm/util.h\<close> among them, are
  parameters. Data races inside one operation are not modelled: an operation under a lock is one step, and
  where the code releases a lock in between, the halves are separate definitions. The order in which \<open>unordered_map\<close>
  is walked is that of the keys. Debug output is left out, and
  so is the Python program that generates projects.
\<close>

end
